(* ===== verification/Prelude.thy ===== *)
theory Prelude
  imports Main "HOL-Library.Word" "HOL-Library.Sublist"
begin

text \<open>
  Shared vocabulary of the development: byte strings, the error values of
  \<^verbatim>\<open>internal/store\<close>, instants and durations, 64-bit wrap-around, and the
  outcome type of every fallible operation.

  \<^item> A Go \<^verbatim>\<open>string\<close> is a \<open>string\<close> (a list of 8-bit characters, as in Go, where
    a string is a sequence of bytes); a Go \<^verbatim>\<open>[]byte\<close> is a list of \<open>8 word\<close>.
  \<^item> An instant (\<^verbatim>\<open>time.Time\<close>) is the integer number of nanoseconds since the
    Unix epoch, a duration (\<^verbatim>\<open>time.Duration\<close>) an integer number of nanoseconds
    in the range of a signed 64-bit integer.
  \<^item> An error is a value of \<open>err\<close>. Go wraps errors with a prefix text and tests
    them with \<^verbatim>\<open>errors.Is\<close>; the model keeps what \<^verbatim>\<open>errors.Is\<close> sees and the
    innermost message, and drops the prefixes.
\<close>

named_theorems tx_simps \<open>equations of the transaction combinators\<close>
named_theorems row_simps \<open>membership and shape of updated tables\<close>

subsection \<open>Bytes and strings\<close>

type_synonym byte = "8 word"
type_synonym bytes = "byte list"

definition bytes_of :: "string \<Rightarrow> bytes" where
  "bytes_of s = map of_char s"

lemma of_char_byte_inj: "(of_char c :: byte) = of_char d \<longleftrightarrow> c = d"
proof
  assume "(of_char c :: byte) = of_char d"
  then have "(of_nat (of_char c) :: byte) = of_nat (of_char d)"
    by (simp only: of_nat_of_char)
  then have "(of_char c :: nat) mod 256 = (of_char d :: nat) mod 256"
    by (simp add: word_of_nat_eq_iff take_bit_eq_mod)
  moreover have "(of_char c :: nat) < 256" "(of_char d :: nat) < 256"
    by (rule nat_of_char_less_256)+
  ultimately have "(of_char c :: nat) = of_char d"
    by simp
  then show "c = d" by simp
qed simp

lemma bytes_of_inject [simp]: "bytes_of s = bytes_of t \<longleftrightarrow> s = t"
proof
  assume "bytes_of s = bytes_of t"
  then have "map (of_char :: char \<Rightarrow> byte) s = map of_char t"
    by (simp add: bytes_of_def)
  moreover have "inj (of_char :: char \<Rightarrow> byte)"
    by (rule injI) (simp add: of_char_byte_inj)
  ultimately show "s = t" by (simp add: inj_map_eq_map)
qed simp

lemma length_bytes_of [simp]: "length (bytes_of s) = length s"
  by (simp add: bytes_of_def)

lemma bytes_of_eq_Nil [simp]: "bytes_of s = [] \<longleftrightarrow> s = []"
  by (simp add: bytes_of_def)

lemma bytes_of_Nil [simp]: "bytes_of [] = []"
  by (simp add: bytes_of_def)

subsection \<open>Instants, durations and 64-bit integers\<close>

type_synonym instant = int
type_synonym duration = int

definition second :: duration where
  "second = 1000000000"

definition max_int64 :: int where
  "max_int64 = 9223372036854775807"

definition min_int64 :: int where
  "min_int64 = - 9223372036854775808"

text \<open>Go's \<^verbatim>\<open>int64\<close> arithmetic wraps around; \<open>wrap64\<close> is the wrap written out.\<close>

definition wrap64 :: "int \<Rightarrow> int" where
  "wrap64 x = signed_take_bit 63 x"

lemma wrap64_id: "min_int64 \<le> x \<Longrightarrow> x \<le> max_int64 \<Longrightarrow> wrap64 x = x"
  by (simp add: wrap64_def min_int64_def max_int64_def signed_take_bit_int_eq_self)

text \<open>\<^verbatim>\<open>time.Time.Sub\<close> saturates at the extreme durations rather than wrapping.\<close>

definition time_sub :: "instant \<Rightarrow> instant \<Rightarrow> duration" where
  "time_sub t u = max min_int64 (min max_int64 (t - u))"

lemma time_sub_exact: "min_int64 \<le> t - u \<Longrightarrow> t - u \<le> max_int64 \<Longrightarrow> time_sub t u = t - u"
  by (simp add: time_sub_def)

lemma time_sub_pos [simp]: "0 < time_sub t u \<longleftrightarrow> u < t"
  by (auto simp: time_sub_def min_int64_def max_int64_def)

text \<open>Go's \<open>/\<close> and \<open>%\<close> on signed integers truncate towards zero.\<close>

definition go_div :: "int \<Rightarrow> int \<Rightarrow> int" where
  "go_div a b = sgn a * sgn b * (\<bar>a\<bar> div \<bar>b\<bar>)"

definition go_mod :: "int \<Rightarrow> int \<Rightarrow> int" where
  "go_mod a b = a - b * go_div a b"

lemma go_div_nonneg: "0 \<le> a \<Longrightarrow> 0 < b \<Longrightarrow> go_div a b = a div b"
  by (cases "a = 0") (simp_all add: go_div_def)

lemma go_mod_nonneg: "0 \<le> a \<Longrightarrow> 0 < b \<Longrightarrow> go_mod a b = a mod b"
  by (simp add: go_mod_def go_div_nonneg minus_mult_div_eq_mod)

text \<open>\<^verbatim>\<open>time.Time.Unix\<close>: whole seconds, rounded down.\<close>

definition unix_seconds :: "instant \<Rightarrow> int" where
  "unix_seconds t = t div 1000000000"

text \<open>The zero \<^verbatim>\<open>time.Time\<close>, 1 January of year 1, which \<^verbatim>\<open>IsZero\<close> tests for.\<close>

definition zero_time :: instant where
  "zero_time = - 62135596800 * 1000000000"

definition is_zero_time :: "instant \<Rightarrow> bool" where
  "is_zero_time t \<longleftrightarrow> t = zero_time"

subsection \<open>Errors and outcomes\<close>

text \<open>
  The sentinel errors of \<^verbatim>\<open>internal/store/store.go\<close>; every other error is
  \<open>OtherErr\<close> with its innermost message.
\<close>

datatype err =
    ErrNotFound
  | ErrConflict
  | ErrStaleWrite
  | ErrAppendOnly
  | ErrSelfApproval
  | ErrCorruptRow
  | ErrLockHeld
  | OtherErr string

type_synonym 'a res = "err + 'a"

fun is_ok :: "'a + 'b \<Rightarrow> bool" where
  "is_ok (Inl _) = False"
| "is_ok (Inr _) = True"

lemma is_ok_iff: "is_ok r \<longleftrightarrow> (\<exists>x. r = Inr x)"
  by (cases r) auto

subsection \<open>Calls\<close>

text \<open>
  A call runs on a state and answers an error or a value, with the state it left. \<open>ret\<close>,
  \<open>failp\<close> and \<open>bindp\<close> are Go's plain return, its early return of an error, and the
  sequencing of calls whose error is checked.
\<close>

type_synonym ('s, 'a) call = "'s \<Rightarrow> 'a res \<times> 's"

definition ret :: "'a \<Rightarrow> ('s, 'a) call" where
  "ret x s = (Inr x, s)"

definition failp :: "err \<Rightarrow> ('s, 'a) call" where
  "failp e s = (Inl e, s)"

definition bindp :: "('s, 'a) call \<Rightarrow> ('a \<Rightarrow> ('s, 'b) call) \<Rightarrow> ('s, 'b) call" where
  "bindp m f s = (case m s of (Inl e, s') \<Rightarrow> (Inl e, s') | (Inr x, s') \<Rightarrow> f x s')"

text \<open>The error of a call tested by the caller: \<open>caught m\<close> hands it on as a value.\<close>

definition caught :: "('s, 'a) call \<Rightarrow> ('s, 'a res) call" where
  "caught m s = (case m s of (r, s') \<Rightarrow> (Inr r, s'))"

lemma ret_app [tx_simps]: "ret x s = (Inr x, s)"
  by (simp add: ret_def)

lemma failp_app [tx_simps]: "failp e s = (Inl e, s)"
  by (simp add: failp_def)

lemma bindp_app [tx_simps]:
  "bindp m f s = (case m s of (Inl e, s') \<Rightarrow> (Inl e, s') | (Inr x, s') \<Rightarrow> f x s')"
  by (rule bindp_def)

lemma caught_app [tx_simps]: "caught m s = (case m s of (r, s') \<Rightarrow> (Inr r, s'))"
  by (rule caught_def)

lemma bindp_Inr:
  "bindp m f s = (Inr y, s') \<longleftrightarrow> (\<exists>x s1. m s = (Inr x, s1) \<and> f x s1 = (Inr y, s'))"
  by (auto simp: bindp_def split: prod.splits sum.splits)

subsection \<open>Tables\<close>

text \<open>
  A table is the list of its rows in insertion order. \<open>update_where\<close> is SQL's
  UPDATE with a condition, \<open>delete_where\<close> its DELETE, and \<open>count_where\<close> the number of
  rows a condition selects, which is the row count the driver reports for either.
\<close>

definition update_where :: "('r \<Rightarrow> bool) \<Rightarrow> ('r \<Rightarrow> 'r) \<Rightarrow> 'r list \<Rightarrow> 'r list" where
  "update_where p f rows = map (\<lambda>r. if p r then f r else r) rows"

definition delete_where :: "('r \<Rightarrow> bool) \<Rightarrow> 'r list \<Rightarrow> 'r list" where
  "delete_where p rows = filter (\<lambda>r. \<not> p r) rows"

definition count_where :: "('r \<Rightarrow> bool) \<Rightarrow> 'r list \<Rightarrow> int" where
  "count_where p rows = int (length (filter p rows))"

lemma set_update_where [row_simps]:
  "set (update_where p f rows) = {r \<in> set rows. \<not> p r} \<union> f ` {r \<in> set rows. p r}"
  by (auto simp: update_where_def)

lemma ball_update_where:
  "(\<forall>r \<in> set (update_where p f rows). P r) \<longleftrightarrow> (\<forall>r \<in> set rows. if p r then P (f r) else P r)"
  by (auto simp: update_where_def)

lemma in_update_where:
  assumes "x \<in> set (update_where p f rows)"
  obtains r where "r \<in> set rows" "x = (if p r then f r else r)"
  using assms unfolding update_where_def by auto

lemma length_update_where [simp]: "length (update_where p f rows) = length rows"
  by (simp add: update_where_def)

lemma update_where_Nil [simp]: "update_where p f [] = []"
  by (simp add: update_where_def)

lemma update_where_Cons [simp]:
  "update_where p f (r # rows) = (if p r then f r else r) # update_where p f rows"
  by (simp add: update_where_def)

lemma update_where_append [simp]:
  "update_where p f (rows @ rows') = update_where p f rows @ update_where p f rows'"
  by (simp add: update_where_def)

lemma update_where_none: "\<forall>r \<in> set rows. \<not> p r \<Longrightarrow> update_where p f rows = rows"
  by (induction rows) auto

lemma map_update_where:
  "(\<And>r. p r \<Longrightarrow> g (f r) = g r) \<Longrightarrow> map g (update_where p f rows) = map g rows"
  by (induction rows) auto

lemma set_delete_where [row_simps, simp]:
  "set (delete_where p rows) = {r \<in> set rows. \<not> p r}"
  by (auto simp: delete_where_def)

lemma delete_where_none: "\<forall>r \<in> set rows. \<not> p r \<Longrightarrow> delete_where p rows = rows"
  by (simp add: delete_where_def)

lemma count_where_nonneg [simp]: "0 \<le> count_where p rows"
  by (simp add: count_where_def)

lemma count_where_zero: "count_where p rows = 0 \<longleftrightarrow> (\<forall>r \<in> set rows. \<not> p r)"
  by (auto simp: count_where_def filter_empty_conv)

lemma count_where_pos: "0 < count_where p rows \<longleftrightarrow> (\<exists>r \<in> set rows. p r)"
  by (auto simp: count_where_def filter_empty_conv)

lemma count_where_Cons [simp]:
  "count_where p (r # rows) = (if p r then 1 else 0) + count_where p rows"
  by (simp add: count_where_def)

lemma count_where_Nil [simp]: "count_where p [] = 0"
  by (simp add: count_where_def)

text \<open>
  Where a key identifies rows (a primary key), a condition that fixes the key selects
  at most one row.
\<close>

lemma count_where_key_le_1:
  assumes "distinct (map key rows)" and "\<And>r. p r \<Longrightarrow> key r = k"
  shows "count_where p rows \<le> 1"
  using assms(1)
proof (induction rows)
  case Nil
  show ?case by simp
next
  case (Cons r rows)
  show ?case
  proof (cases "p r")
    case True
    then have "key r = k" by (rule assms(2))
    with Cons.prems have "\<forall>x \<in> set rows. key x \<noteq> k"
      by (auto simp: image_iff)
    then have "\<forall>x \<in> set rows. \<not> p x"
      using assms(2) by blast
    then have "count_where p rows = 0" by (simp add: count_where_zero)
    with True show ?thesis by simp
  next
    case False
    with Cons show ?thesis by simp
  qed
qed

definition find_row :: "('r \<Rightarrow> bool) \<Rightarrow> 'r list \<Rightarrow> 'r option" where
  "find_row p rows = List.find p rows"

lemma find_row_Some: "find_row p rows = Some r \<Longrightarrow> r \<in> set rows \<and> p r"
  by (auto simp: find_row_def find_Some_iff)

lemma find_row_None: "find_row p rows = None \<longleftrightarrow> (\<forall>r \<in> set rows. \<not> p r)"
  by (auto simp: find_row_def find_None_iff)

lemma find_row_Nil [simp]: "find_row p [] = None"
  by (simp add: find_row_def)

lemma find_row_Cons [simp]: "find_row p (r # rows) = (if p r then Some r else find_row p rows)"
  by (simp add: find_row_def)

lemma find_row_append:
  "find_row p (rows @ rows') = (case find_row p rows of None \<Rightarrow> find_row p rows' | Some r \<Rightarrow> Some r)"
  by (induction rows) simp_all

lemma find_row_update_where:
  "(\<And>r. q r \<Longrightarrow> p (f r) = p r) \<Longrightarrow>
     find_row p (update_where q f rows) = map_option (\<lambda>r. if q r then f r else r) (find_row p rows)"
  by (induction rows) auto

lemma find_row_delete_where:
  assumes "distinct (map key rows)" and "\<And>r. p r \<longleftrightarrow> key r = k"
  shows "find_row p (delete_where q rows) =
    (case find_row p rows of None \<Rightarrow> None | Some r \<Rightarrow> if q r then None else Some r)"
  using assms(1)
proof (induction rows)
  case Nil
  show ?case by (simp add: delete_where_def)
next
  case (Cons x rows)
  show ?case
  proof (cases "p x")
    case True
    with Cons.prems assms(2) have "\<forall>r \<in> set rows. \<not> p r" by (auto simp: image_iff)
    then have "find_row p (delete_where q rows) = None" by (simp add: find_row_None)
    with True show ?thesis by (auto simp: delete_where_def)
  next
    case False
    with Cons show ?thesis by (simp add: delete_where_def)
  qed
qed

lemma find_row_unique:
  assumes "distinct (map key rows)" and "\<And>r. p r \<Longrightarrow> key r = k" and "r \<in> set rows" and "p r"
  shows "find_row p rows = Some r"
  using assms(1,3)
proof (induction rows)
  case Nil
  then show ?case by simp
next
  case (Cons x rows)
  show ?case
  proof (cases "p x")
    case True
    then have "key x = key r" using assms(2,4) by metis
    with Cons.prems have "x = r" by (auto simp: image_iff)
    with True show ?thesis by simp
  next
    case False
    with Cons assms(4) show ?thesis by auto
  qed
qed

end
