(* ===== verification/Models.thy ===== *)
theory Models
  imports Prelude
begin

text \<open>
  The persisted objects of \<^verbatim>\<open>internal/store/models.go\<close>: one record per struct, one
  datatype per closed enumeration, and the predicates the structs carry. A Go pointer to
  an instant is an \<open>instant option\<close>; an absent string is the empty string, as in Go
  (the store maps it to NULL and back). Identifiers are prefixed because two Isabelle
  records cannot share a field name.
\<close>

subsection \<open>Roles\<close>

text \<open>
  A role is read back from a persisted token, so a value this build does not know can
  occur; it is \<open>UnknownRole\<close>.
\<close>

datatype role = RoleFull | RoleOperator | RoleAuditor | UnknownRole string

fun role_valid :: "role \<Rightarrow> bool" where
  "role_valid RoleFull = True"
| "role_valid RoleOperator = True"
| "role_valid RoleAuditor = True"
| "role_valid (UnknownRole _) = False"

subsection \<open>Tenants and subjects\<close>

record tenant =
  tn_id :: string
  tn_name :: string
  tn_status :: string
  tn_created :: instant
  tn_updated :: instant

text \<open>A status is text with a closed set of values, which the schema's CHECK enforces.\<close>

type_synonym subject_status = string

definition SubjectActive :: subject_status where "SubjectActive = ''active''"
definition SubjectLocked :: subject_status where "SubjectLocked = ''locked''"
definition SubjectPendingDeletion :: subject_status where "SubjectPendingDeletion = ''pending_deletion''"

record subject =
  sb_id :: string
  sb_tenant :: string
  sb_ref_hmac :: bytes
  sb_ref_sealed :: bytes
  sb_display :: string
  sb_status :: subject_status
  sb_created :: instant
  sb_updated :: instant
  sb_deleted :: "instant option"

text \<open>\<^verbatim>\<open>Subject.Active\<close>.\<close>

definition subject_active :: "subject \<Rightarrow> bool" where
  "subject_active s \<longleftrightarrow> sb_status s = SubjectActive \<and> sb_deleted s = None"

subsection \<open>Credentials that authenticate callers\<close>

record admin_token =
  at_id :: string
  at_tenant :: string
  at_name :: string
  at_selector :: string
  at_hash :: string
  at_role :: role
  at_created :: instant
  at_created_by :: string
  at_last_used :: "instant option"
  at_expires :: "instant option"
  at_revoked :: "instant option"
  at_principal :: "string option"

record api_key =
  ak_id :: string
  ak_tenant :: string
  ak_name :: string
  ak_selector :: string
  ak_hash :: string
  ak_scopes :: "string list"
  ak_created :: instant
  ak_created_by :: string
  ak_last_used :: "instant option"
  ak_expires :: "instant option"
  ak_revoked :: "instant option"

text \<open>\<^verbatim>\<open>AdminToken.Usable\<close> and \<^verbatim>\<open>APIKey.Usable\<close>.\<close>

definition admin_token_usable :: "admin_token \<Rightarrow> instant \<Rightarrow> bool" where
  "admin_token_usable t now =
     (if at_revoked t \<noteq> None then False
      else case at_expires t of
        Some e \<Rightarrow> if \<not> now < e then False else role_valid (at_role t)
      | None \<Rightarrow> role_valid (at_role t))"

definition api_key_usable :: "api_key \<Rightarrow> instant \<Rightarrow> bool" where
  "api_key_usable k now =
     (if ak_revoked k \<noteq> None then False
      else case ak_expires k of
        Some e \<Rightarrow> if \<not> now < e then False else True
      | None \<Rightarrow> True)"

subsection \<open>Authentication factors\<close>

record totp_secret =
  ts_id :: string
  ts_tenant :: string
  ts_subject :: string
  ts_sealed :: bytes
  ts_algorithm :: string
  ts_digits :: int
  ts_period :: int
  ts_last_step :: int
  ts_label :: string
  ts_created :: instant
  ts_confirmed :: "instant option"
  ts_revoked :: "instant option"

record recovery_code =
  rc_id :: string
  rc_tenant :: string
  rc_subject :: string
  rc_batch :: string
  rc_selector :: string
  rc_hash :: string
  rc_created :: instant
  rc_consumed :: "instant option"

record enrolment_ticket =
  et_id :: string
  et_tenant :: string
  et_subject :: string
  et_selector :: string
  et_hash :: string
  et_issued_by :: string
  et_reason :: string
  et_created :: instant
  et_expires :: instant
  et_consumed :: "instant option"
  et_credential :: string
  et_revoked :: "instant option"

text \<open>\<^verbatim>\<open>EnrolmentTicket.Redeemable\<close>.\<close>

definition redeemable :: "enrolment_ticket \<Rightarrow> instant \<Rightarrow> bool" where
  "redeemable t now \<longleftrightarrow> et_consumed t = None \<and> et_revoked t = None \<and> now < et_expires t"

datatype ceremony = CeremonyRegistration | CeremonyAssertion

record challenge =
  ch_id :: string
  ch_tenant :: string
  ch_subject :: string
  ch_ceremony :: ceremony
  ch_challenge :: bytes
  ch_rpid :: string
  ch_session :: bytes
  ch_created :: instant
  ch_expires :: instant
  ch_consumed :: "instant option"

record admin_challenge =
  ac_id :: string
  ac_tenant :: string
  ac_token :: string
  ac_ceremony :: ceremony
  ac_challenge :: bytes
  ac_rpid :: string
  ac_session :: bytes
  ac_created :: instant
  ac_expires :: instant
  ac_consumed :: "instant option"

text \<open>
  A WebAuthn credential. The signature counter is the column, a 64-bit integer; the struct's
  \<^verbatim>\<open>uint32\<close> is what the row scanner lets through.
\<close>

record credential =
  cr_id :: string
  cr_tenant :: string
  cr_subject :: string
  cr_credential :: bytes
  cr_public_key :: bytes
  cr_aaguid :: bytes
  cr_attestation :: string
  cr_transports :: "string list"
  cr_sign_count :: int
  cr_clone_warning :: bool
  cr_backup_eligible :: bool
  cr_backup_state :: bool
  cr_user_verified :: bool
  cr_binding_hash :: bytes
  cr_label :: string
  cr_rpid :: string
  cr_created :: instant
  cr_last_used :: "instant option"
  cr_revoked :: "instant option"
  cr_revoked_reason :: string

subsection \<open>The audit log\<close>

text \<open>
  The actor type and the outcome are hashed as text, so they are kept as the strings
  the constants stand for.
\<close>

type_synonym actor_type = string

definition ActorSystem :: actor_type where "ActorSystem = ''system''"
definition ActorAPIKey :: actor_type where "ActorAPIKey = ''api_key''"
definition ActorAdmin :: actor_type where "ActorAdmin = ''admin''"
definition ActorSubject :: actor_type where "ActorSubject = ''subject''"

type_synonym outcome = string

definition OutcomeSuccess :: outcome where "OutcomeSuccess = ''success''"
definition OutcomeFailure :: outcome where "OutcomeFailure = ''failure''"
definition OutcomeDenied :: outcome where "OutcomeDenied = ''denied''"
definition OutcomeError :: outcome where "OutcomeError = ''error''"

text \<open>
  \<open>ae_detail\<close> and \<open>ae_salt\<close> are Go byte slices for which only the length is ever
  asked, so nil and empty are the same list.
\<close>

record audit_entry =
  ae_seq :: int
  ae_tenant :: string
  ae_time :: instant
  ae_event :: string
  ae_actor_type :: actor_type
  ae_actor :: string
  ae_subject :: string
  ae_rtype :: string
  ae_rid :: string
  ae_outcome :: outcome
  ae_ip :: string
  ae_request :: string
  ae_detail :: bytes
  ae_salt :: bytes
  ae_pii :: bytes
  ae_prev :: bytes
  ae_hash :: bytes

text \<open>A row of the table \<^verbatim>\<open>audit_checkpoints\<close>.\<close>

record checkpoint =
  cp_id :: string
  cp_tenant :: string
  cp_seq :: int
  cp_hash :: bytes
  cp_removed :: int
  cp_audit_seq :: int
  cp_created :: instant

subsection \<open>Throttle buckets\<close>

record throttle_state =
  th_key :: string
  th_tenant :: string
  th_subject :: string
  th_window :: instant
  th_attempts :: int
  th_failures :: int
  th_blocked :: "instant option"
  th_updated :: instant

text \<open>\<^verbatim>\<open>ThrottleState.Blocked\<close>.\<close>

definition blocked :: "throttle_state \<Rightarrow> instant \<Rightarrow> bool" where
  "blocked t now \<longleftrightarrow> (case th_blocked t of None \<Rightarrow> False | Some u \<Rightarrow> now < u)"

subsection \<open>The dual-approval queue\<close>

datatype approval_status =
    ApprovalPending
  | ApprovalApproved
  | ApprovalRejected
  | ApprovalExpired
  | ApprovalExecuted
  | ApprovalFailed

record approval_request =
  ap_id :: string
  ap_tenant :: string
  ap_operation :: string
  ap_payload :: string
  ap_reason :: string
  ap_status :: approval_status
  ap_requested_by :: string
  ap_requested_at :: instant
  ap_expires :: instant
  ap_decided_by :: string
  ap_decided_at :: "instant option"
  ap_note :: string
  ap_executed_at :: "instant option"
  ap_error :: string

subsection \<open>Alerts\<close>

type_synonym severity = string

definition SeverityInfo :: severity where "SeverityInfo = ''info''"
definition SeverityWarning :: severity where "SeverityWarning = ''warning''"
definition SeverityCritical :: severity where "SeverityCritical = ''critical''"

record alert =
  al_id :: string
  al_tenant :: string
  al_type :: string
  al_severity :: severity
  al_subject :: string
  al_resource :: string
  al_summary :: string
  al_detail :: string
  al_fingerprint :: string
  al_occurrences :: int
  al_first_seen :: instant
  al_last_seen :: instant
  al_acked :: "instant option"
  al_acked_by :: string

subsection \<open>Erasure requests\<close>

datatype erasure_status = ErasurePending | ErasureCancelled | ErasurePurged

record erasure_request =
  er_id :: string
  er_tenant :: string
  er_subject :: string
  er_status :: erasure_status
  er_reason :: string
  er_requested_by :: string
  er_requested_at :: instant
  er_purge_after :: instant
  er_cancelled_by :: string
  er_cancelled_at :: "instant option"
  er_purged_at :: "instant option"

subsection \<open>The janitor lease\<close>

text \<open>A row of the table \<^verbatim>\<open>janitor_leases\<close>.\<close>

record lease_row =
  le_name :: string
  le_owner :: string
  le_acquired :: instant
  le_expires :: instant

subsection \<open>Facts about the predicates\<close>

lemma admin_token_usable_iff:
  "admin_token_usable t now \<longleftrightarrow>
     at_revoked t = None \<and> (\<forall>e. at_expires t = Some e \<longrightarrow> now < e) \<and> role_valid (at_role t)"
  by (auto simp: admin_token_usable_def split: option.splits)

lemma api_key_usable_iff:
  "api_key_usable k now \<longleftrightarrow>
     ak_revoked k = None \<and> (\<forall>e. ak_expires k = Some e \<longrightarrow> now < e)"
  by (auto simp: api_key_usable_def split: option.splits)

lemma blocked_iff: "blocked t now \<longleftrightarrow> (\<exists>u. th_blocked t = Some u \<and> now < u)"
  by (auto simp: blocked_def split: option.splits)

end
