(* ===== verification/Rbac.thy ===== *)
theory Rbac
  imports Models "HOL-Library.List_Lexorder" "HOL-Library.Char_ord"
begin

text \<open>
  \<^verbatim>\<open>internal/rbac/rbac.go\<close>: which administrative role may do what. The role sets are
  built once at package initialisation, from three literal lists; the initialiser
  panics when a declared permission is granted to nobody or an undeclared one to anybody.
  The model keeps the lists as the source writes them, builds the sets the way
  \<^verbatim>\<open>init\<close> does, and keeps the panics as values.
\<close>

subsection \<open>Permissions\<close>

text \<open>A permission name the source does not declare is \<open>UnknownPerm\<close>.\<close>

datatype permission =
    PermSubjectList
  | PermSubjectRead
  | PermCredentialList
  | PermAuditRead
  | PermAuditVerify
  | PermAlertRead
  | PermApprovalRead
  | PermHealthReadFull
  | PermAPIKeyList
  | PermAdminTokenList
  | PermAdminTokenRotateSelf
  | PermSubjectLock
  | PermSubjectUnlock
  | PermCredentialRevoke
  | PermRecoveryReissue
  | PermThrottleReset
  | PermAlertAcknowledge
  | PermEnrolmentTicketIssue
  | PermCredentialRevokeBulk
  | PermApprovalDecide
  | PermErasureRequest
  | PermErasureCancel
  | PermAPIKeyCreate
  | PermAPIKeyRevoke
  | PermAPIKeyRotate
  | PermAdminTokenCreate
  | PermAdminTokenRevoke
  | PermKEKRotate
  | UnknownPerm string

text \<open>\<^verbatim>\<open>Permission.String\<close>: the dotted name.\<close>

fun perm_string :: "permission \<Rightarrow> string" where
  "perm_string PermSubjectList = ''subject.list''"
| "perm_string PermSubjectRead = ''subject.read''"
| "perm_string PermCredentialList = ''credential.list''"
| "perm_string PermAuditRead = ''audit.read''"
| "perm_string PermAuditVerify = ''audit.verify''"
| "perm_string PermAlertRead = ''alert.read''"
| "perm_string PermApprovalRead = ''approval.read''"
| "perm_string PermHealthReadFull = ''health.read_detailed''"
| "perm_string PermAPIKeyList = ''api_key.list''"
| "perm_string PermAdminTokenList = ''admin_token.list''"
| "perm_string PermAdminTokenRotateSelf = ''admin_token.rotate_self''"
| "perm_string PermSubjectLock = ''subject.lock''"
| "perm_string PermSubjectUnlock = ''subject.unlock''"
| "perm_string PermCredentialRevoke = ''credential.revoke''"
| "perm_string PermRecoveryReissue = ''recovery.reissue''"
| "perm_string PermThrottleReset = ''throttle.reset''"
| "perm_string PermAlertAcknowledge = ''alert.acknowledge''"
| "perm_string PermEnrolmentTicketIssue = ''enrolment_ticket.issue''"
| "perm_string PermCredentialRevokeBulk = ''credential.revoke_bulk''"
| "perm_string PermApprovalDecide = ''approval.decide''"
| "perm_string PermErasureRequest = ''erasure.request''"
| "perm_string PermErasureCancel = ''erasure.cancel''"
| "perm_string PermAPIKeyCreate = ''api_key.create''"
| "perm_string PermAPIKeyRevoke = ''api_key.revoke''"
| "perm_string PermAPIKeyRotate = ''api_key.rotate''"
| "perm_string PermAdminTokenCreate = ''admin_token.create''"
| "perm_string PermAdminTokenRevoke = ''admin_token.revoke''"
| "perm_string PermKEKRotate = ''kek.rotate''"
| "perm_string (UnknownPerm s) = s"

definition AllPermissions :: "permission list" where
  "AllPermissions =
   [PermSubjectList, PermSubjectRead, PermCredentialList, PermAuditRead, PermAuditVerify,
    PermAlertRead, PermApprovalRead, PermHealthReadFull, PermAPIKeyList,
    PermAdminTokenList, PermAdminTokenRotateSelf, PermSubjectLock, PermSubjectUnlock,
    PermCredentialRevoke, PermRecoveryReissue, PermThrottleReset, PermAlertAcknowledge,
    PermEnrolmentTicketIssue, PermCredentialRevokeBulk, PermApprovalDecide,
    PermErasureRequest, PermErasureCancel, PermAPIKeyCreate, PermAPIKeyRevoke,
    PermAPIKeyRotate, PermAdminTokenCreate, PermAdminTokenRevoke, PermKEKRotate]"

definition readPermissions :: "permission list" where
  "readPermissions =
   [PermSubjectList, PermSubjectRead, PermCredentialList, PermAuditRead, PermAuditVerify,
    PermAlertRead, PermApprovalRead, PermHealthReadFull, PermAPIKeyList, PermAdminTokenList]"

definition selfServicePermissions :: "permission list" where
  "selfServicePermissions =
   [PermAdminTokenRotateSelf]"

definition operatorExtras :: "permission list" where
  "operatorExtras =
   [PermSubjectLock, PermSubjectUnlock, PermCredentialRevoke, PermRecoveryReissue,
    PermThrottleReset, PermAlertAcknowledge, PermEnrolmentTicketIssue]"

definition approvalCandidates :: "permission list" where
  "approvalCandidates =
   [PermCredentialRevokeBulk, PermErasureRequest, PermAdminTokenCreate, PermKEKRotate]"

subsection \<open>Initialisation\<close>

text \<open>
  \<^verbatim>\<open>declared\<close> and \<^verbatim>\<open>rolePermissions\<close>. A Go set is a map to empty structs; here it is
  the list of its members, asked only for membership, and a map from roles is an
  association list.
\<close>

definition declared :: "permission list" where
  "declared = AllPermissions"

definition rolePermissions :: "(role \<times> permission list) list" where
  "rolePermissions =
     (let auditor = readPermissions @ selfServicePermissions;
          operator = readPermissions @ selfServicePermissions @ operatorExtras;
          full = AllPermissions
      in [(RoleAuditor, auditor), (RoleOperator, operator), (RoleFull, full)])"

text \<open>The two completeness loops of \<^verbatim>\<open>init\<close>: \<open>Inl\<close> is a panic.\<close>

datatype rbac_panic = NotGrantedToFull permission | HoldsUndeclared role permission

fun check_granted :: "permission list \<Rightarrow> permission list \<Rightarrow> rbac_panic + unit" where
  "check_granted full [] = Inr ()"
| "check_granted full (p # ps) =
     (if p \<notin> set full then Inl (NotGrantedToFull p) else check_granted full ps)"

fun check_role :: "permission list \<Rightarrow> role \<Rightarrow> permission list \<Rightarrow> rbac_panic + unit" where
  "check_role decl r [] = Inr ()"
| "check_role decl r (p # ps) =
     (if p \<notin> set decl then Inl (HoldsUndeclared r p) else check_role decl r ps)"

fun check_declared :: "permission list \<Rightarrow> (role \<times> permission list) list \<Rightarrow> rbac_panic + unit" where
  "check_declared decl [] = Inr ()"
| "check_declared decl ((r, ps) # rest) =
     (case check_role decl r ps of Inl e \<Rightarrow> Inl e | Inr _ \<Rightarrow> check_declared decl rest)"

definition rbac_init :: "rbac_panic + (role \<times> permission list) list" where
  "rbac_init =
     (case check_granted AllPermissions AllPermissions of
        Inl e \<Rightarrow> Inl e
      | Inr _ \<Rightarrow> (case check_declared declared rolePermissions of
          Inl e \<Rightarrow> Inl e
        | Inr _ \<Rightarrow> Inr rolePermissions))"

subsection \<open>Decisions\<close>

definition perm_valid :: "permission \<Rightarrow> bool" where
  "perm_valid p \<longleftrightarrow> p \<in> set declared"

definition Allowed :: "role \<Rightarrow> permission \<Rightarrow> bool" where
  "Allowed r p = (case map_of rolePermissions r of None \<Rightarrow> False | Some perms \<Rightarrow> p \<in> set perms)"

text \<open>
  \<^verbatim>\<open>Permissions\<close> returns the set sorted by name. The names are compared as byte
  strings; ranging over a Go map visits each member once, which \<open>remdups\<close> stands for.
\<close>

definition Permissions :: "role \<Rightarrow> permission list" where
  "Permissions r = (case map_of rolePermissions r of None \<Rightarrow> []
                    | Some perms \<Rightarrow> sort_key perm_string (remdups perms))"

definition RequiresApproval :: "permission \<Rightarrow> bool" where
  "RequiresApproval p \<longleftrightarrow> p \<in> set approvalCandidates"

text \<open>The reason of a decision, by the branch that gave it.\<close>

datatype reason =
    ReasonUnknownRole role
  | ReasonUndeclared permission
  | ReasonRbacDisabled
  | ReasonNotHeld role permission
  | ReasonHeld role permission

record decision =
  de_allowed :: bool
  de_role :: role
  de_perm :: permission
  de_reason :: reason

definition Authorise :: "role \<Rightarrow> permission \<Rightarrow> bool \<Rightarrow> decision" where
  "Authorise r p rbacEnabled =
     (if \<not> role_valid r then
        \<lparr>de_allowed = False, de_role = r, de_perm = p, de_reason = ReasonUnknownRole r\<rparr>
      else if \<not> perm_valid p then
        \<lparr>de_allowed = False, de_role = r, de_perm = p, de_reason = ReasonUndeclared p\<rparr>
      else if \<not> rbacEnabled then
        \<lparr>de_allowed = True, de_role = r, de_perm = p, de_reason = ReasonRbacDisabled\<rparr>
      else if \<not> Allowed r p then
        \<lparr>de_allowed = False, de_role = r, de_perm = p, de_reason = ReasonNotHeld r p\<rparr>
      else
        \<lparr>de_allowed = True, de_role = r, de_perm = p, de_reason = ReasonHeld r p\<rparr>)"

subsection \<open>Facts\<close>

lemmas role_lists = AllPermissions_def readPermissions_def selfServicePermissions_def
  operatorExtras_def approvalCandidates_def declared_def

lemma AllPermissions_complete: "p \<in> set AllPermissions \<longleftrightarrow> (\<forall>s. p \<noteq> UnknownPerm s)"
  by (cases p) (simp_all add: AllPermissions_def)

lemma perm_valid_iff: "perm_valid p \<longleftrightarrow> (\<forall>s. p \<noteq> UnknownPerm s)"
  by (simp add: perm_valid_def declared_def AllPermissions_complete)

lemma readPermissions_declared: "set readPermissions \<subseteq> set AllPermissions"
  by (simp add: role_lists)

lemma selfServicePermissions_declared: "set selfServicePermissions \<subseteq> set AllPermissions"
  by (simp add: role_lists)

lemma operatorExtras_declared: "set operatorExtras \<subseteq> set AllPermissions"
  by (simp add: role_lists)

lemma check_granted_subset: "check_granted full ps = Inr () \<longleftrightarrow> set ps \<subseteq> set full"
  by (induction ps) auto

lemma check_role_subset: "check_role decl r ps = Inr () \<longleftrightarrow> set ps \<subseteq> set decl"
  by (induction ps) auto

lemma check_declared_subset:
  "check_declared decl rs = Inr () \<longleftrightarrow> (\<forall>(r, ps) \<in> set rs. set ps \<subseteq> set decl)"
proof (induction rs)
  case Nil
  show ?case by simp
next
  case (Cons x rs)
  obtain r ps where x: "x = (r, ps)" by force
  show ?case
  proof (cases "check_role decl r ps")
    case (Inl e)
    then have "\<not> set ps \<subseteq> set decl" using check_role_subset [of decl r ps] by auto
    with Inl x show ?thesis by auto
  next
    case (Inr u)
    then have "set ps \<subseteq> set decl" using check_role_subset [of decl r ps] by auto
    with Inr x Cons show ?thesis by auto
  qed
qed

lemma Allowed_simps:
  "Allowed RoleAuditor p \<longleftrightarrow> p \<in> set readPermissions \<union> set selfServicePermissions"
  "Allowed RoleOperator p \<longleftrightarrow>
     p \<in> set readPermissions \<union> set selfServicePermissions \<union> set operatorExtras"
  "Allowed RoleFull p \<longleftrightarrow> p \<in> set AllPermissions"
  "Allowed (UnknownRole s) p \<longleftrightarrow> False"
  by (auto simp: Allowed_def rolePermissions_def Let_def)

lemma Allowed_valid: "Allowed r p \<Longrightarrow> perm_valid p"
  using readPermissions_declared selfServicePermissions_declared operatorExtras_declared
  by (cases r) (auto simp: Allowed_simps perm_valid_def declared_def)

lemma Allowed_role_valid: "Allowed r p \<Longrightarrow> role_valid r"
  by (cases r) (auto simp: Allowed_simps)

lemma Authorise_allowed:
  "de_allowed (Authorise r p rbacEnabled) \<longleftrightarrow>
     role_valid r \<and> perm_valid p \<and> (rbacEnabled \<longrightarrow> Allowed r p)"
  by (simp add: Authorise_def)

lemma set_Permissions: "set (Permissions r) = {p. Allowed r p}"
  by (cases "map_of rolePermissions r") (auto simp: Permissions_def Allowed_def)

lemma perm_string_inj: "inj_on perm_string (set AllPermissions)"
proof -
  have "distinct (map perm_string AllPermissions)"
    by (simp add: AllPermissions_def)
  then show ?thesis by (simp add: distinct_map)
qed

lemma Permissions_names_sorted: "sorted (map perm_string (Permissions r))"
  by (simp add: Permissions_def split: option.split)

lemma Permissions_names_distinct: "distinct (map perm_string (Permissions r))"
proof -
  have "set (Permissions r) \<subseteq> set AllPermissions"
    using Allowed_valid by (auto simp: set_Permissions perm_valid_def declared_def)
  then have "inj_on perm_string (set (Permissions r))"
    by (rule inj_on_subset [OF perm_string_inj])
  moreover have "distinct (Permissions r)"
    by (simp add: Permissions_def split: option.split)
  ultimately show ?thesis by (simp add: distinct_map)
qed

subsection \<open>Properties\<close>

text \<open>
  What a permission is about, read off its name: the resource before the dot and the operation
  after it. Nothing here looks at the lists the roles are built from.
\<close>

definition resource_of :: "permission \<Rightarrow> string" where
  "resource_of p = takeWhile (\<lambda>c. c \<noteq> CHR ''.'') (perm_string p)"

definition operation_of :: "permission \<Rightarrow> string" where
  "operation_of p = tl (dropWhile (\<lambda>c. c \<noteq> CHR ''.'') (perm_string p))"

definition reads_only :: "permission \<Rightarrow> bool" where
  "reads_only p \<longleftrightarrow> operation_of p \<in> {''list'', ''read'', ''read_detailed'', ''verify''}"

lemmas name_parts = reads_only_def operation_of_def resource_of_def

text \<open>
  C14: separation of duty. The package initialiser does not panic. Read off the names of the
  declared permissions, the auditor holds those whose operation is to list, to read or to verify,
  and besides them only the rotation of its own token. The operator holds what the auditor holds and
  seven operations on one subject: lock, unlock, revoke a credential, reissue recovery codes, reset a
  throttle, acknowledge an alert, issue a ticket; on API keys, administrative tokens, approvals,
  erasures and the keyring it holds no other write. The full administrator holds every declared
  permission and no role holds another; the three sets differ. Exactly four operations may need a
  second administrator, and neither smaller role holds one of them.
\<close>

theorem rbac_separation_of_duty:
  "rbac_init = Inr rolePermissions
   \<and> {p. Allowed RoleAuditor p} = insert PermAdminTokenRotateSelf {p. perm_valid p \<and> reads_only p}
   \<and> {p. Allowed RoleOperator p} = {p. Allowed RoleAuditor p}
       \<union> {PermSubjectLock, PermSubjectUnlock, PermCredentialRevoke, PermRecoveryReissue, PermThrottleReset,
          PermAlertAcknowledge, PermEnrolmentTicketIssue}
   \<and> {p. Allowed RoleOperator p \<and> \<not> reads_only p
        \<and> resource_of p \<in> {''api_key'', ''admin_token'', ''approval'', ''erasure'', ''kek''}} = {PermAdminTokenRotateSelf}
   \<and> {p. Allowed RoleFull p} = {p. \<forall>s. p \<noteq> UnknownPerm s}
   \<and> {p. Allowed RoleAuditor p} \<subset> {p. Allowed RoleOperator p} \<and> {p. Allowed RoleOperator p} \<subset> {p. Allowed RoleFull p}
   \<and> (\<forall>s. {p. Allowed (UnknownRole s) p} = {})
   \<and> {p. RequiresApproval p} = {PermCredentialRevokeBulk, PermErasureRequest, PermAdminTokenCreate, PermKEKRotate}
   \<and> {p. RequiresApproval p \<and> (Allowed RoleAuditor p \<or> Allowed RoleOperator p)} = {}"
proof -
  have "check_granted AllPermissions AllPermissions = Inr ()"
    by (simp add: check_granted_subset)
  moreover have "\<forall>(r, ps) \<in> set rolePermissions. set ps \<subseteq> set declared"
    using readPermissions_declared selfServicePermissions_declared operatorExtras_declared
    by (auto simp: rolePermissions_def Let_def declared_def)
  then have "check_declared declared rolePermissions = Inr ()"
    by (simp only: check_declared_subset)
  ultimately have init: "rbac_init = Inr rolePermissions"
    by (simp add: rbac_init_def)
  have reads: "p \<in> set readPermissions \<longleftrightarrow> perm_valid p \<and> reads_only p" for p
    by (cases p) (simp_all add: readPermissions_def perm_valid_iff name_parts)
  have auditor: "{p. Allowed RoleAuditor p} = insert PermAdminTokenRotateSelf {p. perm_valid p \<and> reads_only p}"
    by (auto simp: Allowed_simps reads selfServicePermissions_def)
  have operator: "{p. Allowed RoleOperator p} = {p. Allowed RoleAuditor p}
       \<union> {PermSubjectLock, PermSubjectUnlock, PermCredentialRevoke, PermRecoveryReissue, PermThrottleReset,
          PermAlertAcknowledge, PermEnrolmentTicketIssue}"
    by (auto simp: Allowed_simps operatorExtras_def)
  have full: "Allowed RoleFull p \<longleftrightarrow> (\<forall>s. p \<noteq> UnknownPerm s)" for p
    by (simp add: Allowed_simps AllPermissions_complete)
  have keys: "{p. Allowed RoleOperator p \<and> \<not> reads_only p
        \<and> resource_of p \<in> {''api_key'', ''admin_token'', ''approval'', ''erasure'', ''kek''}} = {PermAdminTokenRotateSelf}"
    by (auto simp: Allowed_simps reads selfServicePermissions_def operatorExtras_def name_parts)
  have lock: "Allowed RoleOperator PermSubjectLock" "\<not> Allowed RoleAuditor PermSubjectLock"
    and kek: "Allowed RoleFull PermKEKRotate" "\<not> Allowed RoleOperator PermKEKRotate"
    by (simp_all add: Allowed_simps role_lists)
  have appr: "{p. RequiresApproval p \<and> (Allowed RoleAuditor p \<or> Allowed RoleOperator p)} = {}"
    by (auto simp: Allowed_simps RequiresApproval_def role_lists)
  have more: "{p. Allowed RoleOperator p} \<subseteq> {p. Allowed RoleFull p}"
    using Allowed_valid by (auto simp: full perm_valid_iff)
  have fulls: "{p. Allowed RoleFull p} = {p. \<forall>s. p \<noteq> UnknownPerm s}" using full by blast
  have two: "{p. RequiresApproval p} = {PermCredentialRevokeBulk, PermErasureRequest, PermAdminTokenCreate, PermKEKRotate}"
    by (auto simp: RequiresApproval_def approvalCandidates_def)
  have "{p. Allowed RoleAuditor p} \<subset> {p. Allowed RoleOperator p}" using operator lock by blast
  moreover have "{p. Allowed RoleOperator p} \<subset> {p. Allowed RoleFull p}" using more kek by blast
  moreover have "\<forall>s. {p. Allowed (UnknownRole s) p} = {}" by (simp add: Allowed_simps)
  ultimately show ?thesis
    using init auditor operator keys fulls two appr by (intro conjI)
qed

text \<open>
  \<^verbatim>\<open>Authorise\<close> fails closed. It allows an operation exactly when the role is known,
  the permission is declared and, with role-based control on, the role holds it; the
  decision names what was asked; and the listing \<^verbatim>\<open>Permissions\<close> shows is exactly what
  \<^verbatim>\<open>Authorise\<close> grants, in strictly ascending order of name.
\<close>

theorem authorise_fails_closed:
  "(de_allowed (Authorise r p rbacEnabled) \<longleftrightarrow>
      role_valid r \<and> perm_valid p \<and> (if rbacEnabled then Allowed r p else True))
   \<and> de_role (Authorise r p rbacEnabled) = r \<and> de_perm (Authorise r p rbacEnabled) = p
   \<and> set (Permissions r) = {q. de_allowed (Authorise r q True)}
   \<and> sorted_wrt (<) (map perm_string (Permissions r))"
proof -
  have "set (Permissions r) = {q. de_allowed (Authorise r q True)}"
    using Allowed_valid Allowed_role_valid by (auto simp: set_Permissions Authorise_allowed)
  moreover have "sorted_wrt (<) (map perm_string (Permissions r))"
    using Permissions_names_sorted Permissions_names_distinct
    by (simp only: strict_sorted_iff)
  moreover have "de_role (Authorise r p rbacEnabled) = r" "de_perm (Authorise r p rbacEnabled) = p"
    by (simp_all add: Authorise_def)
  ultimately show ?thesis by (auto simp: Authorise_allowed)
qed

end
