(* ===== verification/Risk.thy ===== *)
theory Risk
  imports Models "HOL-Library.Sublist"
begin

text \<open>
  \<^verbatim>\<open>internal/risk/risk.go\<close>: the risk of a completed ceremony as a table of weighted rules
  and two thresholds. The table is a list of records with a predicate each, as in the
  source; \<^verbatim>\<open>Assess\<close> walks it in order. Scores and weights are Go \<^verbatim>\<open>int\<close>s (64 bits); the
  score is a sum of nine of them, kept as an unbounded integer, which agrees with the code
  for weights below \<open>2 ^ 59\<close> in size.
\<close>

subsection \<open>Levels, ceremonies, reasons\<close>

datatype level = LevelLow | LevelElevated | LevelHigh

text \<open>\<^verbatim>\<open>Ceremony\<close> is an open string type; a value outside the constants matches no rule.\<close>

datatype rk_ceremony = CeremonyWebAuthn | CeremonyTOTP | CeremonyRecoveryCode | OtherCeremony string

datatype rk_reason =
    ReasonSignatureCounterStalled
  | ReasonAuthenticatorBindingChanged
  | ReasonUserVerificationAbsent
  | ReasonRecoveryCodeUsed
  | ReasonCredentialDormant
  | ReasonCredentialNew
  | ReasonRecentFailuresSubject
  | ReasonRecentFailuresNetwork
  | ReasonTOTPOnly
  | UnknownReason string

fun reason_string :: "rk_reason \<Rightarrow> string" where
  "reason_string ReasonSignatureCounterStalled = ''signature_counter_stalled''"
| "reason_string ReasonAuthenticatorBindingChanged = ''authenticator_binding_changed''"
| "reason_string ReasonUserVerificationAbsent = ''user_verification_absent''"
| "reason_string ReasonRecoveryCodeUsed = ''recovery_code_used''"
| "reason_string ReasonCredentialDormant = ''credential_dormant''"
| "reason_string ReasonCredentialNew = ''credential_new''"
| "reason_string ReasonRecentFailuresSubject = ''recent_failures_subject''"
| "reason_string ReasonRecentFailuresNetwork = ''recent_failures_network''"
| "reason_string ReasonTOTPOnly = ''totp_only''"
| "reason_string (UnknownReason s) = s"

definition AllReasons :: "rk_reason list" where
  "AllReasons =
    [ReasonSignatureCounterStalled, ReasonAuthenticatorBindingChanged,
     ReasonUserVerificationAbsent, ReasonRecoveryCodeUsed, ReasonCredentialDormant,
     ReasonCredentialNew, ReasonRecentFailuresSubject, ReasonRecentFailuresNetwork,
     ReasonTOTPOnly]"

definition DefaultElevatedAt :: int where "DefaultElevatedAt = 20"
definition DefaultHighAt :: int where "DefaultHighAt = 40"
definition DefaultDormantAfter :: duration where "DefaultDormantAfter = 90 * 24 * 3600 * second"
definition DefaultNewCredentialWithin :: duration where "DefaultNewCredentialWithin = 3600 * second"

subsection \<open>Configuration, input and result\<close>

text \<open>\<^verbatim>\<open>config.Risk\<close>; the weight overrides are a map from reason names.\<close>

record risk_cfg =
  rk_enabled :: bool
  rk_elevated_at :: int
  rk_high_at :: int
  rk_dormant_after :: duration
  rk_new_within :: duration
  rk_weights :: "string \<rightharpoonup> int"

record risk_input =
  in_ceremony :: rk_ceremony
  in_user_verified :: bool
  in_clone_warning :: bool
  in_binding_changed :: bool
  in_webauthn_credentials :: int
  in_created_at :: instant
  in_last_used_at :: "instant option"
  in_failures_subject :: int
  in_failures_network :: int

record assessment =
  as_level :: level
  as_reasons :: "rk_reason list"
  as_score :: int

text \<open>The two windows, with the fallback for a non-positive setting.\<close>

definition dormantAfter :: "risk_cfg \<Rightarrow> duration" where
  "dormantAfter cfg = (if rk_dormant_after cfg \<le> 0 then DefaultDormantAfter else rk_dormant_after cfg)"

definition newCredentialWithin :: "risk_cfg \<Rightarrow> duration" where
  "newCredentialWithin cfg =
     (if rk_new_within cfg \<le> 0 then DefaultNewCredentialWithin else rk_new_within cfg)"

subsection \<open>The rule table\<close>

record rule =
  ru_reason :: rk_reason
  ru_weight :: int
  ru_meaning :: string
  ru_applies :: "risk_input \<Rightarrow> risk_cfg \<Rightarrow> instant \<Rightarrow> bool"

definition rules :: "rule list" where
  "rules =
    [\<lparr>ru_reason = ReasonSignatureCounterStalled, ru_weight = 40,
      ru_meaning = ''the authenticator's signature counter did not advance, which is the documented signal for two copies of one credential private key in use'',
      ru_applies = (\<lambda>inp _ _. in_clone_warning inp)\<rparr>,
     \<lparr>ru_reason = ReasonAuthenticatorBindingChanged, ru_weight = 20,
      ru_meaning = ''the authenticator's observed characteristics differ from those recorded at registration'',
      ru_applies = (\<lambda>inp _ _. in_binding_changed inp)\<rparr>,
     \<lparr>ru_reason = ReasonUserVerificationAbsent, ru_weight = 20,
      ru_meaning = ''the WebAuthn ceremony proved possession of the authenticator and not the identity of its holder'',
      ru_applies = (\<lambda>inp _ _. in_ceremony inp = CeremonyWebAuthn \<and> \<not> in_user_verified inp)\<rparr>,
     \<lparr>ru_reason = ReasonRecoveryCodeUsed, ru_weight = 25,
      ru_meaning = ''the ceremony was completed by a single-use recovery code, the weakest factor the service offers'',
      ru_applies = (\<lambda>inp _ _. in_ceremony inp = CeremonyRecoveryCode)\<rparr>,
     \<lparr>ru_reason = ReasonCredentialDormant, ru_weight = 10,
      ru_meaning = ''the credential has not been used for longer than the configured dormancy window'',
      ru_applies = (\<lambda>inp cfg now.
        if is_zero_time (in_created_at inp) then False
        else let since = (case in_last_used_at inp of None \<Rightarrow> in_created_at inp | Some t \<Rightarrow> t)
             in time_sub now since > dormantAfter cfg)\<rparr>,
     \<lparr>ru_reason = ReasonCredentialNew, ru_weight = 10,
      ru_meaning = ''the credential was registered within the configured window, so a freshly enrolled authenticator is authenticating immediately'',
      ru_applies = (\<lambda>inp cfg now.
        if is_zero_time (in_created_at inp) then False
        else time_sub now (in_created_at inp) < newCredentialWithin cfg)\<rparr>,
     \<lparr>ru_reason = ReasonRecentFailuresSubject, ru_weight = 10,
      ru_meaning = ''at least one attempt against this subject failed inside the current throttle window before this one succeeded'',
      ru_applies = (\<lambda>inp _ _. in_failures_subject inp > 0)\<rparr>,
     \<lparr>ru_reason = ReasonRecentFailuresNetwork, ru_weight = 5,
      ru_meaning = ''at least one attempt from this source network failed inside the current throttle window'',
      ru_applies = (\<lambda>inp _ _. in_failures_network inp > 0)\<rparr>,
     \<lparr>ru_reason = ReasonTOTPOnly, ru_weight = 10,
      ru_meaning = ''the subject holds no WebAuthn credential, so the factor that authenticated them is phishable and there is no stronger one to fall back on'',
      ru_applies = (\<lambda>inp _ _. in_ceremony inp = CeremonyTOTP \<and> in_webauthn_credentials inp = 0)\<rparr>]"

text \<open>
  \<^verbatim>\<open>init\<close> indexes the table and panics on a malformed one; \<open>Inl\<close> is a panic. A predicate
  is never nil in HOL, so that check has no counterpart.
\<close>

datatype risk_panic =
    EmptyReason
  | NonPositiveWeight rk_reason int
  | NoMeaning rk_reason
  | DeclaredTwice rk_reason
  | WrongCount nat nat
  | NoRule rk_reason

fun index_rules :: "rule list \<Rightarrow> (rk_reason \<times> rule) list \<Rightarrow> risk_panic + (rk_reason \<times> rule) list" where
  "index_rules [] idx = Inr idx"
| "index_rules (r # rs) idx =
     (if reason_string (ru_reason r) = [] then Inl EmptyReason
      else if ru_weight r \<le> 0 then Inl (NonPositiveWeight (ru_reason r) (ru_weight r))
      else if ru_meaning r = [] then Inl (NoMeaning (ru_reason r))
      else if map_of idx (ru_reason r) \<noteq> None then Inl (DeclaredTwice (ru_reason r))
      else index_rules rs ((ru_reason r, r) # idx))"

fun check_reasons :: "(rk_reason \<times> rule) list \<Rightarrow> rk_reason list \<Rightarrow> risk_panic + unit" where
  "check_reasons idx [] = Inr ()"
| "check_reasons idx (r # rs) =
     (if map_of idx r = None then Inl (NoRule r) else check_reasons idx rs)"

definition risk_init :: "rule list \<Rightarrow> rk_reason list \<Rightarrow> risk_panic + (rk_reason \<times> rule) list" where
  "risk_init rs reasons =
     (case index_rules rs [] of
        Inl e \<Rightarrow> Inl e
      | Inr idx \<Rightarrow>
          if length idx \<noteq> length reasons then Inl (WrongCount (length idx) (length reasons))
          else (case check_reasons idx reasons of Inl e \<Rightarrow> Inl e | Inr _ \<Rightarrow> Inr idx))"

definition byReason :: "(rk_reason \<times> rule) list" where
  "byReason = (case risk_init rules AllReasons of Inl _ \<Rightarrow> [] | Inr idx \<Rightarrow> idx)"

subsection \<open>Lookups\<close>

definition reason_valid :: "rk_reason \<Rightarrow> bool" where
  "reason_valid r \<longleftrightarrow> map_of byReason r \<noteq> None"

definition Meaning :: "rk_reason \<Rightarrow> string" where
  "Meaning r = (case map_of byReason r of Some rl \<Rightarrow> ru_meaning rl | None \<Rightarrow> [])"

definition DefaultWeight :: "rk_reason \<Rightarrow> int" where
  "DefaultWeight r = (case map_of byReason r of Some rl \<Rightarrow> ru_weight rl | None \<Rightarrow> 0)"

definition Weight :: "rk_reason \<Rightarrow> risk_cfg \<Rightarrow> int" where
  "Weight r cfg = (case rk_weights cfg (reason_string r) of Some w \<Rightarrow> w | None \<Rightarrow> DefaultWeight r)"

subsection \<open>Assessment\<close>

definition thresholds :: "risk_cfg \<Rightarrow> int \<times> int" where
  "thresholds cfg =
     (let elevatedAt = (if rk_elevated_at cfg < 1 then DefaultElevatedAt else rk_elevated_at cfg);
          highAt = (if rk_high_at cfg < 1 then DefaultHighAt else rk_high_at cfg)
      in if highAt \<le> elevatedAt then (DefaultElevatedAt, DefaultHighAt) else (elevatedAt, highAt))"

definition LevelFor :: "int \<Rightarrow> risk_cfg \<Rightarrow> level" where
  "LevelFor score cfg =
     (let (elevatedAt, highAt) = thresholds cfg in
      if score \<ge> highAt then LevelHigh
      else if score \<ge> elevatedAt then LevelElevated
      else LevelLow)"

fun assess_loop :: "rule list \<Rightarrow> risk_input \<Rightarrow> risk_cfg \<Rightarrow> instant \<Rightarrow> assessment \<Rightarrow> assessment" where
  "assess_loop [] inp cfg now out = out"
| "assess_loop (r # rs) inp cfg now out =
     (if \<not> ru_applies r inp cfg now then assess_loop rs inp cfg now out
      else assess_loop rs inp cfg now
        (out\<lparr>as_reasons := as_reasons out @ [ru_reason r],
             as_score := as_score out + Weight (ru_reason r) cfg\<rparr>))"

definition Assess :: "risk_input \<Rightarrow> risk_cfg \<Rightarrow> instant \<Rightarrow> assessment" where
  "Assess inp cfg now =
     (let out = \<lparr>as_level = LevelLow, as_reasons = [], as_score = 0\<rparr> in
      if \<not> rk_enabled cfg then out
      else let out' = assess_loop rules inp cfg now out
           in out'\<lparr>as_level := LevelFor (as_score out') cfg\<rparr>)"

subsection \<open>Levels are ordered\<close>

fun level_rank :: "level \<Rightarrow> nat" where
  "level_rank LevelLow = 0"
| "level_rank LevelElevated = 1"
| "level_rank LevelHigh = 2"

lemma level_rank_inject [simp]: "level_rank a = level_rank b \<longleftrightarrow> a = b"
  by (cases a; cases b) simp_all

instantiation level :: linorder
begin

definition less_eq_level :: "level \<Rightarrow> level \<Rightarrow> bool" where
  "a \<le> b \<longleftrightarrow> level_rank a \<le> level_rank b"

definition less_level :: "level \<Rightarrow> level \<Rightarrow> bool" where
  "a < b \<longleftrightarrow> level_rank a < level_rank b"

instance
  by standard (auto simp: less_eq_level_def less_level_def)

end

lemma LevelLow_le [simp]: "LevelLow \<le> a"
  by (simp add: less_eq_level_def)

lemma LevelHigh_ge [simp]: "a \<le> LevelHigh"
  by (cases a) (simp_all add: less_eq_level_def)

lemma level_le_simps [simp]:
  "LevelElevated \<le> LevelLow \<longleftrightarrow> False" "LevelHigh \<le> LevelLow \<longleftrightarrow> False"
  "LevelHigh \<le> LevelElevated \<longleftrightarrow> False"
  by (simp_all add: less_eq_level_def)

subsection \<open>Facts\<close>

text \<open>
  The reference the program is held against, from the tables of \<^verbatim>\<open>docs/RISK.md\<close>: for each
  documented reason its condition and its weight, the two windows (ninety days and an hour unless
  set) and the two thresholds (20 and 40 unless they are set and in order), in figures of its own.
\<close>

definition window_or :: "duration \<Rightarrow> duration \<Rightarrow> duration" where
  "window_or setting dflt = (if 0 < setting then setting else dflt)"

fun signalled :: "rk_reason \<Rightarrow> risk_input \<Rightarrow> risk_cfg \<Rightarrow> instant \<Rightarrow> bool" where
  "signalled ReasonSignatureCounterStalled inp cfg now = in_clone_warning inp"
| "signalled ReasonAuthenticatorBindingChanged inp cfg now = in_binding_changed inp"
| "signalled ReasonUserVerificationAbsent inp cfg now =
     (in_ceremony inp = CeremonyWebAuthn \<and> \<not> in_user_verified inp)"
| "signalled ReasonRecoveryCodeUsed inp cfg now = (in_ceremony inp = CeremonyRecoveryCode)"
| "signalled ReasonCredentialDormant inp cfg now =
     (in_created_at inp \<noteq> zero_time \<and>
      window_or (rk_dormant_after cfg) (7776000 * 1000000000)
        < time_sub now (case in_last_used_at inp of None \<Rightarrow> in_created_at inp | Some t \<Rightarrow> t))"
| "signalled ReasonCredentialNew inp cfg now =
     (in_created_at inp \<noteq> zero_time
      \<and> time_sub now (in_created_at inp) < window_or (rk_new_within cfg) (3600 * 1000000000))"
| "signalled ReasonRecentFailuresSubject inp cfg now = (0 < in_failures_subject inp)"
| "signalled ReasonRecentFailuresNetwork inp cfg now = (0 < in_failures_network inp)"
| "signalled ReasonTOTPOnly inp cfg now =
     (in_ceremony inp = CeremonyTOTP \<and> in_webauthn_credentials inp = 0)"
| "signalled (UnknownReason s) inp cfg now = False"

fun documented_weight :: "rk_reason \<Rightarrow> int" where
  "documented_weight ReasonSignatureCounterStalled = 40"
| "documented_weight ReasonRecoveryCodeUsed = 25"
| "documented_weight ReasonAuthenticatorBindingChanged = 20"
| "documented_weight ReasonUserVerificationAbsent = 20"
| "documented_weight ReasonCredentialDormant = 10"
| "documented_weight ReasonCredentialNew = 10"
| "documented_weight ReasonRecentFailuresSubject = 10"
| "documented_weight ReasonTOTPOnly = 10"
| "documented_weight ReasonRecentFailuresNetwork = 5"
| "documented_weight (UnknownReason s) = 0"

definition contributes :: "risk_cfg \<Rightarrow> rk_reason \<Rightarrow> int" where
  "contributes cfg r = (case rk_weights cfg (reason_string r) of Some w \<Rightarrow> w | None \<Rightarrow> documented_weight r)"

definition documented_thresholds :: "risk_cfg \<Rightarrow> int \<times> int" where
  "documented_thresholds cfg =
     (let e = (if 0 < rk_elevated_at cfg then rk_elevated_at cfg else 20);
          h = (if 0 < rk_high_at cfg then rk_high_at cfg else 40)
      in if e < h then (e, h) else (20, 40))"

lemma rules_reasons: "map ru_reason rules = AllReasons"
  by (simp add: rules_def AllReasons_def)

lemma rules_signalled:
  "r \<in> set rules \<Longrightarrow> ru_applies r inp cfg now \<longleftrightarrow> signalled (ru_reason r) inp cfg now"
  by (auto simp: rules_def is_zero_time_def Let_def window_or_def dormantAfter_def newCredentialWithin_def
      DefaultDormantAfter_def DefaultNewCredentialWithin_def second_def split: if_splits)

lemma AllReasons_iff: "r \<in> set AllReasons \<longleftrightarrow> (\<forall>s. r \<noteq> UnknownReason s)"
  by (cases r) (simp_all add: AllReasons_def)

lemma risk_init_ok:
  "risk_init rules AllReasons = Inr (rev (map (\<lambda>r. (ru_reason r, r)) rules))"
  by (simp add: risk_init_def rules_def AllReasons_def)

lemma byReason_eq: "byReason = rev (map (\<lambda>r. (ru_reason r, r)) rules)"
  by (simp add: byReason_def risk_init_ok)

lemma dom_byReason: "reason_valid r \<longleftrightarrow> r \<in> set AllReasons"
proof -
  have "reason_valid r \<longleftrightarrow> r \<in> fst ` set byReason"
    by (simp add: reason_valid_def map_of_eq_None_iff)
  also have "fst ` set byReason = set (map ru_reason rules)"
    by (simp add: byReason_eq image_image)
  finally show ?thesis by (simp only: rules_reasons)
qed

lemma DefaultWeight_table:
  "DefaultWeight ReasonSignatureCounterStalled = 40"
  "DefaultWeight ReasonAuthenticatorBindingChanged = 20"
  "DefaultWeight ReasonUserVerificationAbsent = 20"
  "DefaultWeight ReasonRecoveryCodeUsed = 25"
  "DefaultWeight ReasonCredentialDormant = 10"
  "DefaultWeight ReasonCredentialNew = 10"
  "DefaultWeight ReasonRecentFailuresSubject = 10"
  "DefaultWeight ReasonRecentFailuresNetwork = 5"
  "DefaultWeight ReasonTOTPOnly = 10"
  "DefaultWeight (UnknownReason s) = 0"
  by (simp_all add: DefaultWeight_def byReason_eq rules_def)

lemma DefaultWeight_nonneg: "0 \<le> DefaultWeight r"
  by (cases r) (simp_all add: DefaultWeight_table)

lemma assess_loop_eq:
  "assess_loop rs inp cfg now out =
     out\<lparr>as_reasons := as_reasons out @ map ru_reason (filter (\<lambda>r. ru_applies r inp cfg now) rs),
         as_score := as_score out
           + sum_list (map (\<lambda>r. Weight (ru_reason r) cfg) (filter (\<lambda>r. ru_applies r inp cfg now) rs))\<rparr>"
  by (induction rs arbitrary: out) (simp_all add: ac_simps)

lemma filter_rules_reasons:
  "map ru_reason (filter (\<lambda>r. ru_applies r inp cfg now) rules)
     = filter (\<lambda>r. signalled r inp cfg now) AllReasons"
proof -
  have "filter (\<lambda>r. ru_applies r inp cfg now) rules
      = filter ((\<lambda>x. signalled x inp cfg now) \<circ> ru_reason) rules"
    by (rule filter_cong) (simp_all add: rules_signalled)
  then show ?thesis
    by (simp only: filter_map [symmetric] rules_reasons)
qed

lemma Assess_enabled:
  assumes "rk_enabled cfg"
  shows "Assess inp cfg now =
    (let rs = filter (\<lambda>r. signalled r inp cfg now) AllReasons;
         sc = sum_list (map (\<lambda>r. Weight r cfg) rs)
     in \<lparr>as_level = LevelFor sc cfg, as_reasons = rs, as_score = sc\<rparr>)"
proof -
  have "sum_list (map (\<lambda>r. Weight (ru_reason r) cfg) (filter (\<lambda>r. ru_applies r inp cfg now) rules))
      = sum_list (map (\<lambda>r. Weight r cfg) (map ru_reason (filter (\<lambda>r. ru_applies r inp cfg now) rules)))"
    by (simp add: comp_def)
  with assms show ?thesis
    by (simp add: Assess_def assess_loop_eq Let_def filter_rules_reasons)
qed

lemma thresholds_ordered:
  "thresholds cfg = (e, h) \<Longrightarrow> 1 \<le> e \<and> e < h"
  by (auto simp: thresholds_def Let_def DefaultElevatedAt_def DefaultHighAt_def split: if_splits)

lemma LevelFor_mono: "s \<le> s' \<Longrightarrow> LevelFor s cfg \<le> LevelFor s' cfg"
  using thresholds_ordered [of cfg]
  by (cases "thresholds cfg") (auto simp: LevelFor_def)

lemma sum_weights_mono:
  assumes "\<And>r. r \<in> set rs \<Longrightarrow> 0 \<le> (w r :: int)" and "\<And>r. r \<in> set rs \<Longrightarrow> P r \<Longrightarrow> Q r"
  shows "sum_list (map w (filter P rs)) \<le> sum_list (map w (filter Q rs))"
  using assms by (induction rs) (auto intro: add_mono add_increasing)

subsection \<open>Properties\<close>

text \<open>
  The policy table is well formed and complete. The package initialiser does not
  panic: every declared reason has exactly one row, in reporting order, with a positive
  weight and a meaning, and no other reason is valid.
\<close>

theorem risk_table_complete:
  "risk_init rules AllReasons = Inr byReason
   \<and> map ru_reason rules = AllReasons \<and> distinct AllReasons
   \<and> {r. reason_valid r} = set AllReasons
   \<and> set AllReasons = {r. \<forall>s. r \<noteq> UnknownReason s}
   \<and> {r. 0 < DefaultWeight r \<and> Meaning r \<noteq> []} = set AllReasons"
proof -
  have "{r. 0 < DefaultWeight r \<and> Meaning r \<noteq> []} = set AllReasons"
  proof (rule set_eqI)
    fix r show "r \<in> {r. 0 < DefaultWeight r \<and> Meaning r \<noteq> []} \<longleftrightarrow> r \<in> set AllReasons"
      by (cases r) (simp_all add: DefaultWeight_table Meaning_def byReason_eq rules_def AllReasons_def)
  qed
  moreover have "distinct AllReasons" by (simp add: AllReasons_def)
  ultimately show ?thesis
    by (auto simp: risk_init_ok byReason_eq [symmetric] rules_reasons dom_byReason AllReasons_iff)
qed

text \<open>The model's weights, windows and thresholds are the documented ones.\<close>

lemma Weight_documented: "Weight r cfg = contributes cfg r"
  by (cases r) (simp_all add: Weight_def contributes_def DefaultWeight_table split: option.split)

lemma thresholds_documented: "thresholds cfg = documented_thresholds cfg"
  by (auto simp: thresholds_def documented_thresholds_def Let_def DefaultElevatedAt_def DefaultHighAt_def)

lemma sum_reasons:
  "distinct rs \<Longrightarrow> sum_list (map f (filter P rs)) = (\<Sum>r \<in> {r \<in> set rs. P r}. f r)"
  by (subst sum_list_distinct_conv_sum_set) simp_all

text \<open>
  C17: \<^verbatim>\<open>Assess\<close> computes the documented policy, stated with the figures of the documentation. With
  the feature off it reports the low level, no reason and score zero. With it on, the reasons
  reported are exactly those whose documented condition holds, each once and in the documented
  order; the score is the sum over them of the configured weight, or of the documented one where
  none is configured; and the level is high from the upper threshold on, elevated from the lower
  one on and below the upper, and low below the lower, both inclusive, where the thresholds are
  20 and 40 unless the configured ones are positive and in order.
\<close>

theorem assess_policy:
  "if rk_enabled cfg
   then (let out = Assess inp cfg now; (e, h) = documented_thresholds cfg in
       set (as_reasons out) = {r. signalled r inp cfg now} \<and> distinct (as_reasons out)
       \<and> subseq (as_reasons out)
           [ReasonSignatureCounterStalled, ReasonAuthenticatorBindingChanged, ReasonUserVerificationAbsent,
            ReasonRecoveryCodeUsed, ReasonCredentialDormant, ReasonCredentialNew, ReasonRecentFailuresSubject,
            ReasonRecentFailuresNetwork, ReasonTOTPOnly]
       \<and> as_score out = (\<Sum>r \<in> {r. signalled r inp cfg now}. contributes cfg r)
       \<and> (as_level out = LevelHigh \<longleftrightarrow> h \<le> as_score out)
       \<and> (as_level out = LevelElevated \<longleftrightarrow> e \<le> as_score out \<and> as_score out < h)
       \<and> (as_level out = LevelLow \<longleftrightarrow> as_score out < e))
   else Assess inp cfg now = \<lparr>as_level = LevelLow, as_reasons = [], as_score = 0\<rparr>"
proof (cases "rk_enabled cfg")
  case False
  then show ?thesis by (simp add: Assess_def Let_def)
next
  case True
  let ?P = "\<lambda>r. signalled r inp cfg now"
  obtain e h where th: "documented_thresholds cfg = (e, h)" by fastforce
  have order: "e < h" using thresholds_ordered [of cfg e h] th by (simp add: thresholds_documented)
  have all: "{r \<in> set AllReasons. ?P r} = {r. ?P r}"
  proof -
    have "?P r \<Longrightarrow> r \<in> set AllReasons" for r by (cases r) (simp_all add: AllReasons_def)
    then show ?thesis by blast
  qed
  have d: "distinct AllReasons" by (simp add: AllReasons_def)
  have "(\<Sum>r \<leftarrow> filter ?P AllReasons. contributes cfg r) = (\<Sum>r \<in> {r. ?P r}. contributes cfg r)"
    using sum_reasons [OF d, of "contributes cfg" ?P] by (simp only: all)
  then have eq: "Assess inp cfg now = \<lparr>as_level = LevelFor (\<Sum>r \<in> {r. ?P r}. contributes cfg r) cfg,
      as_reasons = filter ?P AllReasons, as_score = (\<Sum>r \<in> {r. ?P r}. contributes cfg r)\<rparr>"
    by (simp only: Assess_enabled [OF True] Let_def Weight_documented)
  have sub: "subseq (filter ?P AllReasons) AllReasons" by (rule subseq_filter_left)
  have "set (filter ?P AllReasons) = {r. ?P r}" using all by simp
  with True d th order sub show ?thesis
    unfolding eq by (auto simp: Let_def LevelFor_def thresholds_documented AllReasons_def [symmetric]
        simp del: signalled.simps)
qed

text \<open>
  Reporting is monotone. When no configured weight is negative, a ceremony that shows
  every signal another one shows, under the same configuration, never scores or rates
  lower, whatever the thresholds are set to.
\<close>

theorem assess_monotone:
  assumes weights: "\<And>r w. rk_weights cfg (reason_string r) = Some w \<Longrightarrow> 0 \<le> w"
    and more: "\<And>r. signalled r inp cfg now \<Longrightarrow> signalled r inp' cfg now'"
  shows "as_score (Assess inp cfg now) \<le> as_score (Assess inp' cfg now')
       \<and> as_level (Assess inp cfg now) \<le> as_level (Assess inp' cfg now')"
proof (cases "rk_enabled cfg")
  case True
  have "0 \<le> Weight r cfg" for r
    using weights [of r] DefaultWeight_nonneg [of r] by (auto simp: Weight_def split: option.split)
  then have "sum_list (map (\<lambda>r. Weight r cfg) (filter (\<lambda>r. signalled r inp cfg now) AllReasons))
      \<le> sum_list (map (\<lambda>r. Weight r cfg) (filter (\<lambda>r. signalled r inp' cfg now') AllReasons))"
    using more by (intro sum_weights_mono)
  with True show ?thesis
    by (simp add: Assess_enabled Let_def LevelFor_mono)
next
  case False
  then show ?thesis by (simp add: Assess_def Let_def)
qed

definition example_cfg :: risk_cfg where
  "example_cfg = \<lparr>rk_enabled = True, rk_elevated_at = 20, rk_high_at = 40, rk_dormant_after = 0,
     rk_new_within = 0, rk_weights = Map.empty\<rparr>"

definition example_input :: risk_input where
  "example_input = \<lparr>in_ceremony = CeremonyTOTP, in_user_verified = False, in_clone_warning = False,
     in_binding_changed = False, in_webauthn_credentials = 1, in_created_at = zero_time,
     in_last_used_at = None, in_failures_subject = 1, in_failures_network = 0\<rparr>"

theorem assess_monotone_witness:
  "as_level (Assess example_input example_cfg 0) = LevelLow
   \<and> as_level (Assess (example_input\<lparr>in_webauthn_credentials := 0\<rparr>) example_cfg 0) = LevelElevated
   \<and> as_score (Assess example_input example_cfg 0)
       \<le> as_score (Assess (example_input\<lparr>in_webauthn_credentials := 0\<rparr>) example_cfg 0)"
proof -
  have more: "signalled r (example_input\<lparr>in_webauthn_credentials := 0\<rparr>) example_cfg 0"
    if "signalled r example_input example_cfg 0" for r
    using that by (cases r) (simp_all add: example_input_def)
  have mono: "as_score (Assess example_input example_cfg 0)
      \<le> as_score (Assess (example_input\<lparr>in_webauthn_credentials := 0\<rparr>) example_cfg 0)
    \<and> as_level (Assess example_input example_cfg 0)
      \<le> as_level (Assess (example_input\<lparr>in_webauthn_credentials := 0\<rparr>) example_cfg 0)"
    by (rule assess_monotone) (use more in \<open>simp_all add: example_cfg_def\<close>)
  have "as_level (Assess example_input example_cfg 0) = LevelLow"
    by (simp add: Assess_enabled example_cfg_def example_input_def AllReasons_def Let_def Weight_def
        DefaultWeight_table LevelFor_def thresholds_def)
  moreover have
    "as_level (Assess (example_input\<lparr>in_webauthn_credentials := 0\<rparr>) example_cfg 0) = LevelElevated"
    by (simp add: Assess_enabled example_cfg_def example_input_def AllReasons_def Let_def Weight_def
        DefaultWeight_table LevelFor_def thresholds_def)
  ultimately show ?thesis using mono by blast
qed

text \<open>
  The shipped calibration. Without overrides, and with the thresholds at their
  defaults or left unset, a stalled signature counter is always high; a changed
  authenticator, an absent user verification or a recovery code is always at least
  elevated; a recovery code preceded by failures of the subject and on the network is
  high; and a single failure of the subject before an otherwise clean ceremony is low.
\<close>

theorem default_calibration:
  assumes "rk_enabled cfg" and "rk_weights cfg = Map.empty"
    and "rk_elevated_at cfg \<in> {0, 20}" and "rk_high_at cfg \<in> {0, 40}"
  shows "(signalled ReasonSignatureCounterStalled inp cfg now \<longrightarrow> as_level (Assess inp cfg now) = LevelHigh)
    \<and> (\<forall>r \<in> {ReasonAuthenticatorBindingChanged, ReasonUserVerificationAbsent, ReasonRecoveryCodeUsed}.
         signalled r inp cfg now \<longrightarrow> LevelElevated \<le> as_level (Assess inp cfg now))
    \<and> (signalled ReasonRecoveryCodeUsed inp cfg now \<and> signalled ReasonRecentFailuresSubject inp cfg now
         \<and> signalled ReasonRecentFailuresNetwork inp cfg now \<longrightarrow> as_level (Assess inp cfg now) = LevelHigh)
    \<and> ((\<forall>r. signalled r inp cfg now \<longleftrightarrow> r = ReasonRecentFailuresSubject)
         \<longrightarrow> as_level (Assess inp cfg now) = LevelLow)"
proof -
  have th: "thresholds cfg = (20, 40)"
    using assms(3,4) by (auto simp: thresholds_def Let_def DefaultElevatedAt_def DefaultHighAt_def)
  have W: "Weight r cfg = DefaultWeight r" for r
    using assms(2) by (simp add: Weight_def)
  show ?thesis
    using assms(1)
    by (auto simp del: signalled.simps
        simp: Assess_enabled Let_def LevelFor_def th W AllReasons_def DefaultWeight_table)
qed

theorem default_calibration_witness:
  "as_level (Assess (example_input\<lparr>in_clone_warning := True\<rparr>) example_cfg 0) = LevelHigh"
  using default_calibration [of example_cfg "example_input\<lparr>in_clone_warning := True\<rparr>" 0]
  by (simp add: example_cfg_def example_input_def)

end
