(* ===== verification/Sqlite_Base.thy ===== *)
theory Sqlite_Base
  imports Models "HOL-Library.List_Lexorder" "HOL-Library.Char_ord" "HOL-Library.Product_Lexorder"
begin

text \<open>
  The database layer the stores of \<^verbatim>\<open>internal/store/sqlite\<close> share: the state of the
  process and its database, statements that may fail, transactions, and the small helpers
  of \<^verbatim>\<open>sqlite.go\<close>.

  The engine is SQLite, which is not part of the repository. What the code relies on is
  modelled: a statement either fails, changing nothing, or applies atomically; a
  transaction that does not commit changes nothing; the write pool holds one connection,
  so transactions never interleave. Failures are not ruled out: \<open>os_faults\<close> is an
  arbitrary script of what the engine answers to the next requests (\<open>Some msg\<close> is a
  failure with that driver message), so a theorem about any state is a theorem about any
  pattern of failures. Instants are stored with nanosecond precision in a fixed-width
  text layout whose order is the order of time (years 0 to 9999), so a stored instant is
  the instant itself.
\<close>

subsection \<open>State\<close>

record 't os =
  os_faults :: "string option list"
  os_rand :: "nat \<Rightarrow> byte"
  os_uuids :: "nat \<Rightarrow> string"
  os_wall :: instant
  os_db :: 't

record tables =
  tb_tenants :: "tenant list"
  tb_subjects :: "subject list"
  tb_credentials :: "credential list"
  tb_totp :: "totp_secret list"
  tb_recovery :: "recovery_code list"
  tb_tickets :: "enrolment_ticket list"
  tb_challenges :: "challenge list"
  tb_admin_challenges :: "admin_challenge list"
  tb_audit :: "audit_entry list"
  tb_checkpoints :: "checkpoint list"
  tb_throttle :: "throttle_state list"
  tb_approvals :: "approval_request list"
  tb_admin_tokens :: "admin_token list"
  tb_api_keys :: "api_key list"
  tb_alerts :: "alert list"
  tb_erasures :: "erasure_request list"
  tb_leases :: "lease_row list"

type_synonym db = "tables os"

definition empty_tables :: tables where
  "empty_tables = \<lparr>tb_tenants = [], tb_subjects = [], tb_credentials = [], tb_totp = [], tb_recovery = [], tb_tickets = [], tb_challenges = [],
     tb_admin_challenges = [], tb_audit = [], tb_checkpoints = [], tb_throttle = [],
     tb_approvals = [], tb_admin_tokens = [], tb_api_keys = [], tb_alerts = [],
     tb_erasures = [], tb_leases = []\<rparr>"

text \<open>A healthy process: nothing in the script of failures, the clock at \<open>w\<close>.\<close>

definition fresh_os :: "instant \<Rightarrow> 't \<Rightarrow> 't os" where
  "fresh_os w t = \<lparr>os_faults = [], os_rand = (\<lambda>i. of_nat (7 * i + 3)),
     os_uuids = (\<lambda>i. replicate (Suc i) (CHR ''u'')), os_wall = w, os_db = t\<rparr>"

lemma fresh_os_sel [simp]:
  "os_faults (fresh_os w t) = []" "os_wall (fresh_os w t) = w" "os_db (fresh_os w t) = t"
  by (simp_all add: fresh_os_def)

subsection \<open>Driver errors\<close>

text \<open>
  A driver error is the absence of a row or a message. \<open>map_error\<close> inspects the message
  the way \<^verbatim>\<open>mapError\<close> does; \<open>raw_error\<close> is an error the code passes on unmapped.
\<close>

datatype sql_error = NoRows | SqlMsg string

definition contains :: "string \<Rightarrow> string \<Rightarrow> bool" where
  "contains s sub = list_ex (\<lambda>sfx. prefix sub sfx) (suffixes s)"

fun map_error :: "sql_error \<Rightarrow> err" where
  "map_error NoRows = ErrNotFound"
| "map_error (SqlMsg msg) =
     (if contains msg ''UNIQUE constraint failed'' \<or> contains msg ''constraint failed: UNIQUE''
      then ErrConflict
      else if contains msg ''append-only'' \<or> contains msg ''permits no update''
              \<or> contains msg ''may only be removed''
      then ErrAppendOnly
      else if contains msg ''FOREIGN KEY constraint failed''
      then ErrConflict
      else OtherErr msg)"

fun raw_error :: "sql_error \<Rightarrow> err" where
  "raw_error NoRows = OtherErr ''sql: no rows in result set''"
| "raw_error (SqlMsg msg) = OtherErr msg"

text \<open>No message is ever mapped to the sentinels the stores reserve for their own verdicts.\<close>

lemma map_error_SqlMsg:
  "map_error (SqlMsg m) \<noteq> ErrNotFound" "map_error (SqlMsg m) \<noteq> ErrStaleWrite"
  "map_error (SqlMsg m) \<noteq> ErrSelfApproval" "map_error (SqlMsg m) \<noteq> ErrCorruptRow"
  "map_error (SqlMsg m) \<noteq> ErrLockHeld"
  by simp_all

lemma raw_error_neq:
  "raw_error e \<noteq> ErrNotFound" "raw_error e \<noteq> ErrStaleWrite" "raw_error e \<noteq> ErrSelfApproval"
  by (cases e; simp)+

definition unique_violation :: sql_error where
  "unique_violation = SqlMsg ''UNIQUE constraint failed''"

lemma map_error_unique [simp]: "map_error unique_violation = ErrConflict"
  by (simp add: unique_violation_def contains_def)

subsection \<open>Procedures\<close>

text \<open>Procedures over the process state, built from the combinators of the prelude.\<close>

type_synonym ('t, 'a) proc = "('t os, 'a) call"

definition pop_fault :: "'t os \<Rightarrow> string option \<times> 't os" where
  "pop_fault s = (case os_faults s of [] \<Rightarrow> (None, s) | f # fs \<Rightarrow> (f, s\<lparr>os_faults := fs\<rparr>))"

text \<open>
  One statement. Its body is a function of the tables, answering a driver error or a value
  and the new tables; \<open>wrap\<close> is what the code makes of a driver error.
\<close>

definition exec :: "(sql_error \<Rightarrow> err) \<Rightarrow> ('t \<Rightarrow> sql_error + ('a \<times> 't)) \<Rightarrow> ('t, 'a) proc" where
  "exec wrap body s =
     (case pop_fault s of
        (Some m, s1) \<Rightarrow> (Inl (wrap (SqlMsg m)), s1)
      | (None, s1) \<Rightarrow>
          (case body (os_db s1) of
             Inl e \<Rightarrow> (Inl (wrap e), s1)
           | Inr (x, t) \<Rightarrow> (Inr x, s1\<lparr>os_db := t\<rparr>)))"

text \<open>A query that changes nothing.\<close>

definition query :: "(sql_error \<Rightarrow> err) \<Rightarrow> ('t \<Rightarrow> 'a) \<Rightarrow> ('t, 'a) proc" where
  "query wrap sel = exec wrap (\<lambda>t. Inr (sel t, t))"

text \<open>A single-row query whose missing row is an error, mapped by \<open>wrap\<close>.\<close>

definition query_row :: "(sql_error \<Rightarrow> err) \<Rightarrow> ('t \<Rightarrow> 'a option) \<Rightarrow> ('t, 'a) proc" where
  "query_row wrap sel = exec wrap (\<lambda>t. case sel t of None \<Rightarrow> Inl NoRows | Some x \<Rightarrow> Inr (x, t))"

text \<open>\<^verbatim>\<open>inTx\<close>: begin, run, commit; anything but a commit undoes the work.\<close>

definition rollback :: "'t os \<Rightarrow> 't os \<Rightarrow> 't os" where
  "rollback old after = after\<lparr>os_db := os_db old\<rparr>"

definition in_tx :: "('t, 'a) proc \<Rightarrow> ('t, 'a) proc" where
  "in_tx fn s =
     (case pop_fault s of
        (Some m, s1) \<Rightarrow> (Inl (OtherErr m), s1)
      | (None, s1) \<Rightarrow>
          (case fn s1 of
             (Inl e, s2) \<Rightarrow> (Inl e, rollback s1 s2)
           | (Inr x, s2) \<Rightarrow>
               (case pop_fault s2 of
                  (Some m, s3) \<Rightarrow> (Inl (OtherErr m), rollback s1 s3)
                | (None, s3) \<Rightarrow> (Inr x, s3))))"

text \<open>\<^verbatim>\<open>rand.Read\<close>, which never fails in the Go release the module requires, and
  \<^verbatim>\<open>uuid.NewString\<close>.\<close>

definition rand_read :: "nat \<Rightarrow> ('t, bytes) proc" where
  "rand_read n s = (Inr (map (os_rand s) [0..<n]), s\<lparr>os_rand := (\<lambda>i. os_rand s (i + n))\<rparr>)"

definition uuid_new :: "('t, string) proc" where
  "uuid_new s = (Inr (os_uuids s 0), s\<lparr>os_uuids := (\<lambda>i. os_uuids s (Suc i))\<rparr>)"

definition wall_clock :: "('t, instant) proc" where
  "wall_clock s = (Inr (os_wall s), s)"

text \<open>\<^verbatim>\<open>clampLimit\<close>.\<close>

definition clampLimit :: "int \<Rightarrow> int \<Rightarrow> int \<Rightarrow> int" where
  "clampLimit limit def maxLimit =
     (if limit \<le> 0 then def else if limit > maxLimit then maxLimit else limit)"

lemma clampLimit_bounds:
  "0 < def \<Longrightarrow> def \<le> maxLimit \<Longrightarrow> 0 < clampLimit limit def maxLimit \<and> clampLimit limit def maxLimit \<le> maxLimit"
  by (simp add: clampLimit_def)

text \<open>
  INSERT into a table with unique keys: \<open>clash old new\<close> says that a row already there has
  a key of the new row.
\<close>

definition insert_row :: "('r \<Rightarrow> 'r \<Rightarrow> bool) \<Rightarrow> 'r \<Rightarrow> 'r list \<Rightarrow> sql_error + 'r list" where
  "insert_row clash new rows =
     (if list_ex (\<lambda>old. clash old new) rows then Inl unique_violation else Inr (rows @ [new]))"

lemma insert_row_Inr:
  "insert_row clash new rows = Inr rows' \<longleftrightarrow>
     (\<forall>old \<in> set rows. \<not> clash old new) \<and> rows' = rows @ [new]"
  by (auto simp: insert_row_def list_ex_iff)

text \<open>ORDER BY a column DESC LIMIT 1; SQL leaves open which of equal rows is first.\<close>

fun latest_by :: "('r \<Rightarrow> int) \<Rightarrow> 'r list \<Rightarrow> 'r option" where
  "latest_by f [] = None"
| "latest_by f (r # rs) =
     (case latest_by f rs of None \<Rightarrow> Some r | Some m \<Rightarrow> if f m > f r then Some m else Some r)"

lemma latest_by_None [simp]: "latest_by f rs = None \<longleftrightarrow> rs = []"
  by (cases rs) (auto split: option.splits)

lemma latest_by_Some: "latest_by f rs = Some m \<Longrightarrow> m \<in> set rs \<and> (\<forall>r \<in> set rs. f r \<le> f m)"
proof (induction rs arbitrary: m)
  case Nil
  then show ?case by simp
next
  case (Cons r rs)
  show ?case
  proof (cases "latest_by f rs")
    case None
    with Cons.prems show ?thesis by simp
  next
    case (Some m')
    then have "m' \<in> set rs" "\<forall>r \<in> set rs. f r \<le> f m'" using Cons.IH by blast+
    with Some Cons.prems show ?thesis by (auto split: if_splits)
  qed
qed

subsection \<open>Reasoning about procedures\<close>

lemma pop_fault_none [simp]: "os_faults s = [] \<Longrightarrow> pop_fault s = (None, s)"
  by (simp add: pop_fault_def)

lemma pop_fault_frame:
  "pop_fault s = (f, s') \<Longrightarrow> os_db s' = os_db s \<and> os_wall s' = os_wall s \<and> os_rand s' = os_rand s"
  by (auto simp: pop_fault_def split: list.splits)

text \<open>With no failure scripted, the combinators compute.\<close>

lemma exec_ok [tx_simps]:
  "os_faults s = [] \<Longrightarrow>
     exec wrap body s = (case body (os_db s) of Inl e \<Rightarrow> (Inl (wrap e), s)
                                             | Inr (x, t) \<Rightarrow> (Inr x, s\<lparr>os_db := t\<rparr>))"
  by (simp add: exec_def)

lemma query_ok [tx_simps]: "os_faults s = [] \<Longrightarrow> query wrap sel s = (Inr (sel (os_db s)), s)"
  by (simp add: query_def exec_ok)

lemma query_row_ok [tx_simps]:
  "os_faults s = [] \<Longrightarrow>
     query_row wrap sel s =
       (case sel (os_db s) of None \<Rightarrow> (Inl (wrap NoRows), s) | Some x \<Rightarrow> (Inr x, s))"
  by (simp add: query_row_def exec_ok split: option.split)

lemma in_tx_ok [tx_simps]:
  "os_faults s = [] \<Longrightarrow>
     in_tx fn s =
       (case fn s of
          (Inl e, s2) \<Rightarrow> (Inl e, rollback s s2)
        | (Inr x, s2) \<Rightarrow>
            (case pop_fault s2 of
               (Some m, s3) \<Rightarrow> (Inl (OtherErr m), rollback s s3)
             | (None, s3) \<Rightarrow> (Inr x, s3)))"
  by (simp add: in_tx_def)

text \<open>
  Under arbitrary failures: a successful statement did what its body says, a failed one
  nothing; a failed transaction left every table as it was.
\<close>

lemma exec_Inr:
  assumes "exec wrap body s = (Inr x, s')"
  shows "body (os_db s) = Inr (x, os_db s') \<and> os_wall s' = os_wall s"
  using assms
  by (auto simp: exec_def split: prod.splits option.splits sum.splits dest!: pop_fault_frame)

lemma exec_Inl: "exec wrap body s = (Inl e, s') \<Longrightarrow> os_db s' = os_db s \<and> os_wall s' = os_wall s"
  by (auto simp: exec_def split: prod.splits option.splits sum.splits dest!: pop_fault_frame)

lemma query_frame: "query wrap sel s = (r, s') \<Longrightarrow> os_db s' = os_db s \<and> os_wall s' = os_wall s"
  by (auto simp: query_def exec_def split: prod.splits option.splits sum.splits dest!: pop_fault_frame)

lemma query_Inr: "query wrap sel s = (Inr x, s') \<Longrightarrow> x = sel (os_db s)"
  by (auto simp: query_def dest!: exec_Inr)

lemma query_row_frame:
  "query_row wrap sel s = (r, s') \<Longrightarrow> os_db s' = os_db s \<and> os_wall s' = os_wall s"
  by (auto simp: query_row_def exec_def split: prod.splits option.splits sum.splits
      dest!: pop_fault_frame)

lemma query_row_Inr: "query_row wrap sel s = (Inr x, s') \<Longrightarrow> sel (os_db s) = Some x"
  by (auto simp: query_row_def split: option.splits dest!: exec_Inr)

lemma query_row_NotFound:
  "query_row map_error sel s = (Inl ErrNotFound, s') \<Longrightarrow> sel (os_db s) = None"
  by (auto simp: query_row_def exec_def split: prod.splits option.splits sum.splits if_splits
      dest!: pop_fault_frame)

lemma in_tx_Inl: "in_tx fn s = (Inl e, s') \<Longrightarrow> os_db s' = os_db s"
  by (auto simp: in_tx_def rollback_def split: prod.splits option.splits sum.splits
      dest!: pop_fault_frame)

lemma in_tx_Inr:
  assumes "in_tx fn s = (Inr x, s')"
  obtains s1 s2 where "os_db s1 = os_db s" "os_wall s1 = os_wall s" "os_rand s1 = os_rand s"
    "fn s1 = (Inr x, s2)" "os_db s' = os_db s2" "os_wall s' = os_wall s2"
  using assms
  by (auto simp: in_tx_def split: prod.splits option.splits sum.splits dest!: pop_fault_frame)

text \<open>The common shape of a store operation: a transaction whose first call is a statement.\<close>

lemma in_tx_exec_Inr:
  assumes "in_tx (bindp (exec wrap body) f) s = (Inr y, s')"
  obtains x s3 s2 where "body (os_db s) = Inr (x, os_db s3)" "f x s3 = (Inr y, s2)"
    "os_db s' = os_db s2"
proof -
  obtain s1 s2 where db: "os_db s1 = os_db s" and run: "bindp (exec wrap body) f s1 = (Inr y, s2)"
    and db': "os_db s' = os_db s2"
    using in_tx_Inr [OF assms] by metis
  from run obtain x s3 where ex: "exec wrap body s1 = (Inr x, s3)" and f: "f x s3 = (Inr y, s2)"
    by (auto simp: bindp_Inr)
  from exec_Inr [OF ex] db have "body (os_db s) = Inr (x, os_db s3)" by simp
  then show thesis using f db' by (rule that)
qed

text \<open>
  \<open>keeps P m\<close>: whatever the engine answers, the procedure \<open>m\<close> keeps the property \<open>P\<close> of
  the tables. A transaction needs it only of its successful runs.
\<close>

definition keeps :: "('t \<Rightarrow> bool) \<Rightarrow> ('t, 'a) proc \<Rightarrow> bool" where
  "keeps P m \<longleftrightarrow> (\<forall>s r s'. m s = (r, s') \<longrightarrow> P (os_db s) \<longrightarrow> P (os_db s'))"

lemma keepsD: "keeps P m \<Longrightarrow> m s = (r, s') \<Longrightarrow> P (os_db s) \<Longrightarrow> P (os_db s')"
  by (auto simp: keeps_def)

lemma keeps_ret [intro]: "keeps P (ret x)"
  by (auto simp: keeps_def ret_def)

lemma keeps_failp [intro]: "keeps P (failp e)"
  by (auto simp: keeps_def failp_def)

lemma keeps_bindp [intro]: "keeps P m \<Longrightarrow> (\<And>x. keeps P (f x)) \<Longrightarrow> keeps P (bindp m f)"
  unfolding keeps_def bindp_def by (fastforce split: prod.splits sum.splits)

lemma keeps_query [intro]: "keeps P (query wrap sel)"
  by (auto simp: keeps_def dest: query_frame)

lemma keeps_query_row [intro]: "keeps P (query_row wrap sel)"
  by (auto simp: keeps_def dest: query_row_frame)

lemma keeps_exec:
  assumes "\<And>t x t'. P t \<Longrightarrow> body t = Inr (x, t') \<Longrightarrow> P t'"
  shows "keeps P (exec wrap body)"
  unfolding keeps_def
proof (intro allI impI)
  fix s r s' assume run: "exec wrap body s = (r, s')" and P: "P (os_db s)"
  show "P (os_db s')"
    using run P assms by (cases r) (auto dest!: exec_Inr exec_Inl)
qed

lemma keeps_in_tx: "(\<And>s x s'. fn s = (Inr x, s') \<Longrightarrow> P (os_db s) \<Longrightarrow> P (os_db s')) \<Longrightarrow> keeps P (in_tx fn)"
  unfolding keeps_def
proof (intro allI impI)
  fix s r s' assume fn: "\<And>s x s'. fn s = (Inr x, s') \<Longrightarrow> P (os_db s) \<Longrightarrow> P (os_db s')"
    and run: "in_tx fn s = (r, s')" and P: "P (os_db s)"
  show "P (os_db s')"
  proof (cases r)
    case (Inl e)
    with run P show ?thesis by (auto dest: in_tx_Inl)
  next
    case (Inr x)
    with run have "in_tx fn s = (Inr x, s')" by simp
    then show ?thesis by (rule in_tx_Inr) (use P fn in auto)
  qed
qed

lemma keeps_in_tx_of: "keeps P m \<Longrightarrow> keeps P (in_tx m)"
  by (rule keeps_in_tx) (blast dest: keepsD)

lemma keeps_if [intro]: "keeps P a \<Longrightarrow> keeps P b \<Longrightarrow> keeps P (if c then a else b)"
  by simp

lemma keeps_rand_read [intro]: "keeps P (rand_read n)"
  by (auto simp: keeps_def rand_read_def)

lemma keeps_uuid_new [intro]: "keeps P uuid_new"
  by (auto simp: keeps_def uuid_new_def)

lemma keeps_wall_clock [intro]: "keeps P wall_clock"
  by (auto simp: keeps_def wall_clock_def)

lemma latest_by_snoc_max: "\<forall>x \<in> set xs. f x < f r \<Longrightarrow> latest_by f (xs @ [r]) = Some r"
  by (induction xs) (auto split: option.splits)

lemma latest_by_Some_ex: "xs \<noteq> [] \<Longrightarrow> \<exists>m. latest_by f xs = Some m"
  using latest_by_None [of f xs] by (cases "latest_by f xs") auto

text \<open>Queries and statements at the head of a successful procedure.\<close>

lemma query_run: "query wrap sel s = (Inr x, s') \<Longrightarrow> x = sel (os_db s) \<and> os_db s' = os_db s"
  using query_Inr query_frame by fastforce

lemma bindp_query_Inr:
  assumes "bindp (query wrap sel) f s = (Inr y, s')"
  obtains s1 where "os_db s1 = os_db s" "os_wall s1 = os_wall s" "f (sel (os_db s)) s1 = (Inr y, s')"
proof -
  from assms obtain x s1 where q: "query wrap sel s = (Inr x, s1)" and f: "f x s1 = (Inr y, s')"
    by (auto simp: bindp_Inr)
  from query_run [OF q] query_frame [OF q] f that show thesis by auto
qed

lemma bindp_exec_Inr:
  assumes "bindp (exec wrap body) f s = (Inr y, s')"
  obtains x s1 where "body (os_db s) = Inr (x, os_db s1)" "os_wall s1 = os_wall s" "f x s1 = (Inr y, s')"
  using assms by (auto simp: bindp_Inr dest!: exec_Inr)

subsection \<open>Statements and operations the stores share\<close>

text \<open>
  UPDATE, DELETE and INSERT on one table, given by its selector and its update function;
  the row count of an UPDATE or DELETE is what \<^verbatim>\<open>RowsAffected\<close> reports.
\<close>

definition rows_update ::
  "('t \<Rightarrow> 'r list) \<Rightarrow> (('r list \<Rightarrow> 'r list) \<Rightarrow> 't \<Rightarrow> 't) \<Rightarrow> ('r \<Rightarrow> bool) \<Rightarrow> ('r \<Rightarrow> 'r) \<Rightarrow> 't
     \<Rightarrow> sql_error + int \<times> 't" where
  "rows_update get upd p f t = Inr (count_where p (get t), upd (update_where p f) t)"

definition rows_delete ::
  "('t \<Rightarrow> 'r list) \<Rightarrow> (('r list \<Rightarrow> 'r list) \<Rightarrow> 't \<Rightarrow> 't) \<Rightarrow> ('r \<Rightarrow> bool) \<Rightarrow> 't \<Rightarrow> sql_error + int \<times> 't" where
  "rows_delete get upd p t = Inr (count_where p (get t), upd (delete_where p) t)"

definition rows_insert ::
  "('t \<Rightarrow> 'r list) \<Rightarrow> (('r list \<Rightarrow> 'r list) \<Rightarrow> 't \<Rightarrow> 't) \<Rightarrow> ('r \<Rightarrow> 'r \<Rightarrow> bool) \<Rightarrow> 'r \<Rightarrow> 't
     \<Rightarrow> sql_error + unit \<times> 't" where
  "rows_insert get upd clash r t =
     (case insert_row clash r (get t) of Inl e \<Rightarrow> Inl e | Inr rows \<Rightarrow> Inr ((), upd (\<lambda>_. rows) t))"

lemma rows_update_Inr [simp]:
  "rows_update get upd p f t = Inr (n, t') \<longleftrightarrow> n = count_where p (get t) \<and> t' = upd (update_where p f) t"
  by (auto simp: rows_update_def)

lemma rows_delete_Inr [simp]:
  "rows_delete get upd p t = Inr (n, t') \<longleftrightarrow> n = count_where p (get t) \<and> t' = upd (delete_where p) t"
  by (auto simp: rows_delete_def)

lemma rows_insert_Inr:
  "rows_insert get upd clash r t = Inr (u, t') \<longleftrightarrow>
     (\<forall>old \<in> set (get t). \<not> clash old r) \<and> t' = upd (\<lambda>_. get t @ [r]) t"
  by (auto simp: rows_insert_def insert_row_def list_ex_iff)

text \<open>
  The foreign key of the tables that hang off a subject, and the CHECK of a column: a
  statement that breaks one is a driver error.
\<close>

definition subject_exists :: "string \<Rightarrow> tables \<Rightarrow> bool" where
  "subject_exists i t \<longleftrightarrow> list_ex (\<lambda>r. sb_id r = i) (tb_subjects t)"

definition tenant_exists :: "string \<Rightarrow> tables \<Rightarrow> bool" where
  "tenant_exists i t \<longleftrightarrow> list_ex (\<lambda>r. tn_id r = i) (tb_tenants t)"

definition foreign_key :: "bool \<Rightarrow> ('t \<Rightarrow> sql_error + 'a) \<Rightarrow> 't \<Rightarrow> sql_error + 'a" where
  "foreign_key ok stmt t = (if ok then stmt t else Inl (SqlMsg ''FOREIGN KEY constraint failed''))"

definition check :: "bool \<Rightarrow> ('t \<Rightarrow> sql_error + 'a) \<Rightarrow> 't \<Rightarrow> sql_error + 'a" where
  "check ok stmt t = (if ok then stmt t else Inl (SqlMsg ''CHECK constraint failed''))"

lemma foreign_key_Inr [simp]: "foreign_key ok stmt t = Inr x \<longleftrightarrow> ok \<and> stmt t = Inr x"
  by (simp add: foreign_key_def)

lemma check_Inr [simp]: "check ok stmt t = Inr x \<longleftrightarrow> ok \<and> stmt t = Inr x"
  by (simp add: check_def)

text \<open>
  Two shapes recur: a conditional UPDATE in a transaction that must touch a row
  (\<open>required\<close>), and one that, when it touched none, reads back whether the row exists, to
  tell a missing row from one whose state refused (\<open>guarded\<close>).
\<close>

definition required :: "('t \<Rightarrow> sql_error + int \<times> 't) \<Rightarrow> ('t, unit) proc" where
  "required stmt = in_tx (bindp (exec map_error stmt) (\<lambda>n. if n = 0 then failp ErrNotFound else ret ()))"

definition guarded :: "('t \<Rightarrow> sql_error + int \<times> 't) \<Rightarrow> ('t \<Rightarrow> bool) \<Rightarrow> ('t, unit) proc" where
  "guarded stmt present =
     in_tx (bindp (exec map_error stmt) (\<lambda>n.
       if n = 1 then ret ()
       else bindp (query raw_error present) (\<lambda>found.
         if found then failp ErrStaleWrite else failp ErrNotFound)))"

lemma required_Inr:
  "required stmt s = (Inr u, s') \<Longrightarrow> \<exists>n. stmt (os_db s) = Inr (n, os_db s') \<and> n \<noteq> 0"
  unfolding required_def
  by (erule in_tx_exec_Inr) (auto simp: ret_def failp_def split: if_splits)

lemma guarded_Inr:
  "guarded stmt present s = (Inr u, s') \<Longrightarrow> stmt (os_db s) = Inr (1, os_db s')"
  unfolding guarded_def
  by (erule in_tx_exec_Inr) (auto simp: ret_def failp_def bindp_Inr split: if_splits)

lemma required_Inl: "required stmt s = (Inl e, s') \<Longrightarrow> os_db s' = os_db s"
  unfolding required_def by (rule in_tx_Inl)

lemma guarded_Inl: "guarded stmt present s = (Inl e, s') \<Longrightarrow> os_db s' = os_db s"
  unfolding guarded_def by (rule in_tx_Inl)

lemma required_ok [tx_simps]:
  assumes "os_faults s = []"
  shows "required stmt s =
    (case stmt (os_db s) of
       Inl e \<Rightarrow> (Inl (map_error e), s)
     | Inr (n, t) \<Rightarrow> if n = 0 then (Inl ErrNotFound, s) else (Inr (), s\<lparr>os_db := t\<rparr>))"
  using assms
  by (auto simp: required_def in_tx_ok bindp_def exec_ok ret_def failp_def rollback_def
      split: sum.split prod.split)

lemma guarded_ok [tx_simps]:
  assumes "os_faults s = []"
  shows "guarded stmt present s =
    (case stmt (os_db s) of
       Inl e \<Rightarrow> (Inl (map_error e), s)
     | Inr (n, t) \<Rightarrow>
         if n = 1 then (Inr (), s\<lparr>os_db := t\<rparr>)
         else if present t then (Inl ErrStaleWrite, s) else (Inl ErrNotFound, s))"
  using assms
  by (auto simp: guarded_def in_tx_ok bindp_def exec_ok query_ok ret_def failp_def rollback_def
      split: sum.split prod.split)

lemma keeps_required [intro]:
  assumes "\<And>t n t'. P t \<Longrightarrow> stmt t = Inr (n, t') \<Longrightarrow> P t'"
  shows "keeps P (required stmt)"
  unfolding keeps_def
proof (intro allI impI)
  fix s r s' assume run: "required stmt s = (r, s')" and P: "P (os_db s)"
  show "P (os_db s')"
    using run P by (cases r) (auto dest: required_Inl dest!: required_Inr intro: assms)
qed

lemma keeps_guarded [intro]:
  assumes "\<And>t n t'. P t \<Longrightarrow> stmt t = Inr (n, t') \<Longrightarrow> P t'"
  shows "keeps P (guarded stmt present)"
  unfolding keeps_def
proof (intro allI impI)
  fix s r s' assume run: "guarded stmt present s = (r, s')" and P: "P (os_db s)"
  show "P (os_db s')"
    using run P by (cases r) (auto dest: guarded_Inl dest!: guarded_Inr intro: assms)
qed

lemma in_tx_exec_only_Inr:
  "in_tx (exec wrap body) s = (Inr x, s') \<Longrightarrow> body (os_db s) = Inr (x, os_db s')"
  by (erule in_tx_Inr) (auto dest!: exec_Inr)

text \<open>
  SELECT ... WHERE p ORDER BY k LIMIT n. Text columns compare byte by byte, which is the
  order of strings here; a compound key is a pair.
\<close>

definition select_page :: "('r \<Rightarrow> 'k :: linorder) \<Rightarrow> ('r \<Rightarrow> bool) \<Rightarrow> int \<Rightarrow> 'r list \<Rightarrow> 'r list" where
  "select_page k p n rows = take (nat n) (sort_key k (filter p rows))"

lemma set_select_page: "r \<in> set (select_page k p n rows) \<Longrightarrow> r \<in> set rows \<and> p r"
  by (auto simp: select_page_def dest: in_set_takeD)

lemma length_select_page: "0 \<le> n \<Longrightarrow> int (length (select_page k p n rows)) \<le> n"
  by (auto simp: select_page_def)

end
