(* ===== verification/Go_Strings.thy ===== *)
theory Go_Strings
  imports Prelude
begin

text \<open>
  The string functions of Go's standard library the modelled packages call:
  \<^verbatim>\<open>strings.TrimSpace\<close>, \<^verbatim>\<open>strings.IndexByte\<close>, \<^verbatim>\<open>hex.EncodeToString\<close> and
  \<^verbatim>\<open>hex.DecodeString\<close>, and big-endian rendering of 64-bit integers. Strings are byte
  sequences, so white space beyond ASCII is recognised by its UTF-8 encoding.
\<close>

subsection \<open>TrimSpace\<close>

definition space_runes :: "string list" where
  "space_runes =
     map (map char_of)
       [[9 :: nat], [10], [11], [12], [13], [32], [0xC2, 0x85], [0xC2, 0xA0], [0xE1, 0x9A, 0x80],
        [0xE2, 0x80, 0x80], [0xE2, 0x80, 0x81], [0xE2, 0x80, 0x82], [0xE2, 0x80, 0x83],
        [0xE2, 0x80, 0x84], [0xE2, 0x80, 0x85], [0xE2, 0x80, 0x86], [0xE2, 0x80, 0x87],
        [0xE2, 0x80, 0x88], [0xE2, 0x80, 0x89], [0xE2, 0x80, 0x8A], [0xE2, 0x80, 0xA8],
        [0xE2, 0x80, 0xA9], [0xE2, 0x80, 0xAF], [0xE2, 0x81, 0x9F], [0xE3, 0x80, 0x80]]"

definition strip1 :: "string list \<Rightarrow> string \<Rightarrow> string option" where
  "strip1 runes s = map_option (\<lambda>q. drop (length q) s) (List.find (\<lambda>q. q \<noteq> [] \<and> prefix q s) runes)"

lemma strip1_shorter: "strip1 runes s = Some s' \<Longrightarrow> length s' < length s"
  by (auto simp: strip1_def find_Some_iff prefix_def)

lemma strip1_suffix: "strip1 runes s = Some s' \<Longrightarrow> \<exists>p. s = p @ s'"
  by (auto simp: strip1_def find_Some_iff prefix_def)

function strip_all :: "string list \<Rightarrow> string \<Rightarrow> string" where
  "strip_all runes s = (case strip1 runes s of None \<Rightarrow> s | Some s' \<Rightarrow> strip_all runes s')"
  by pat_completeness auto
termination
  by (relation "measure (\<lambda>(runes, s). length s)") (auto dest: strip1_shorter)

declare strip_all.simps [simp del]

lemma strip_all_stable: "strip1 runes (strip_all runes s) = None"
proof (induction runes s rule: strip_all.induct)
  case (1 runes s)
  show ?case
  proof (cases "strip1 runes s")
    case None
    then show ?thesis by (simp add: strip_all.simps [of runes s])
  next
    case (Some s')
    with 1 show ?thesis by (simp add: strip_all.simps [of runes s])
  qed
qed

lemma strip_all_suffix: "\<exists>p. s = p @ strip_all runes s"
proof (induction runes s rule: strip_all.induct)
  case (1 runes s)
  show ?case
  proof (cases "strip1 runes s")
    case None
    then show ?thesis by (simp add: strip_all.simps [of runes s])
  next
    case (Some s')
    with 1 obtain p where "s' = p @ strip_all runes s'" by blast
    moreover from Some obtain q where "s = q @ s'" using strip1_suffix by blast
    ultimately have "s = (q @ p) @ strip_all runes s'" by (metis append_assoc)
    moreover from Some have "strip_all runes s = strip_all runes s'"
      by (simp add: strip_all.simps [of runes s])
    ultimately show ?thesis by metis
  qed
qed

lemma strip_all_fixed: "strip1 runes s = None \<Longrightarrow> strip_all runes s = s"
  by (simp add: strip_all.simps [of runes s])

definition trim_left :: "string \<Rightarrow> string" where
  "trim_left s = strip_all space_runes s"

definition trim_right :: "string \<Rightarrow> string" where
  "trim_right s = rev (strip_all (map rev space_runes) (rev s))"

definition TrimSpace :: "string \<Rightarrow> string" where
  "TrimSpace s = trim_right (trim_left s)"

text \<open>Trimming the right end of a string with no leading space leaves none.\<close>

lemma strip1_prefix_None:
  assumes "strip1 runes (u @ v) = None"
  shows "strip1 runes u = None"
  using assms by (auto simp: strip1_def find_None_iff)

lemma trim_right_prefix: "\<exists>q. s = trim_right s @ q"
proof -
  obtain p where "rev s = p @ strip_all (map rev space_runes) (rev s)"
    using strip_all_suffix by blast
  then have "s = rev (strip_all (map rev space_runes) (rev s)) @ rev p"
    by (metis rev_append rev_rev_ident)
  then show ?thesis by (auto simp: trim_right_def)
qed

lemma TrimSpace_idem [simp]: "TrimSpace (TrimSpace s) = TrimSpace s"
proof -
  obtain q where q: "trim_left s = TrimSpace s @ q"
    unfolding TrimSpace_def using trim_right_prefix by blast
  have "strip1 space_runes (trim_left s) = None"
    by (simp add: trim_left_def strip_all_stable)
  then have "strip1 space_runes (TrimSpace s) = None"
    unfolding q by (rule strip1_prefix_None)
  then have left: "trim_left (TrimSpace s) = TrimSpace s"
    by (simp add: trim_left_def strip_all_fixed)
  have "strip1 (map rev space_runes) (rev (TrimSpace s)) = None"
    by (simp add: TrimSpace_def trim_right_def strip_all_stable)
  then have "trim_right (TrimSpace s) = TrimSpace s"
    by (simp add: trim_right_def strip_all_fixed)
  with left show ?thesis by (simp add: TrimSpace_def [of "TrimSpace s"])
qed

subsection \<open>Searching\<close>

text \<open>\<^verbatim>\<open>strings.IndexByte\<close>, with \<open>None\<close> for -1.\<close>

fun index_byte :: "char \<Rightarrow> string \<Rightarrow> nat option" where
  "index_byte c [] = None"
| "index_byte c (x # xs) = (if x = c then Some 0 else map_option Suc (index_byte c xs))"

lemma index_byte_Some:
  "index_byte c s = Some i \<Longrightarrow> i < length s \<and> s ! i = c \<and> c \<notin> set (take i s)"
  by (induction s arbitrary: i) (auto split: if_splits)

lemma index_byte_split:
  "index_byte c s = Some i \<Longrightarrow> s = take i s @ c # drop (Suc i) s"
  by (metis Cons_nth_drop_Suc append_take_drop_id index_byte_Some)

lemma index_byte_append: "c \<notin> set u \<Longrightarrow> index_byte c (u @ c # v) = Some (length u)"
  by (induction u) auto

subsection \<open>Hexadecimal\<close>

definition hex_digit :: "nat \<Rightarrow> char" where
  "hex_digit n = ''0123456789abcdef'' ! n"

definition hex_byte :: "byte \<Rightarrow> string" where
  "hex_byte b = [hex_digit (unat b div 16), hex_digit (unat b mod 16)]"

definition hex_encode :: "bytes \<Rightarrow> string" where
  "hex_encode bs = concat (map hex_byte bs)"

text \<open>\<^verbatim>\<open>hex.DecodeString\<close> accepts both cases; \<open>None\<close> is its error.\<close>

definition hex_value :: "char \<Rightarrow> nat option" where
  "hex_value c =
     (let n = (of_char c :: nat) in
      if 48 \<le> n \<and> n \<le> 57 then Some (n - 48)
      else if 97 \<le> n \<and> n \<le> 102 then Some (n - 87)
      else if 65 \<le> n \<and> n \<le> 70 then Some (n - 55)
      else None)"

fun hex_decode :: "string \<Rightarrow> bytes option" where
  "hex_decode [] = Some []"
| "hex_decode [c] = None"
| "hex_decode (c # d # rest) =
     (case hex_value c of None \<Rightarrow> None
      | Some h \<Rightarrow> (case hex_value d of None \<Rightarrow> None
         | Some l \<Rightarrow> map_option (\<lambda>bs. of_nat (16 * h + l) # bs) (hex_decode rest)))"

lemma hex_value_digit: "n < 16 \<Longrightarrow> hex_value (hex_digit n) = Some n"
proof -
  assume "n < 16"
  then have "n \<in> set [0..<16]" by simp
  then have "n \<in> set [0,1,2,3,4,5,6,7,8,9,10,11,12,13,14,15]"
    by (simp add: upt_rec numeral_eq_Suc)
  then show ?thesis
    by (auto simp: hex_digit_def hex_value_def Let_def)
qed

lemma hex_decode_byte:
  "hex_decode (hex_byte b @ rest) = map_option (\<lambda>bs. b # bs) (hex_decode rest)"
proof -
  have "unat b < 2 ^ LENGTH(8)" by (rule unsigned_less)
  then have "unat b < 256" by simp
  then have lt: "unat b div 16 < 16" by simp
  have "(of_nat (16 * (unat b div 16) + unat b mod 16) :: byte) = b"
    by (simp only: mult_div_mod_eq unat_of_nat) simp
  then show ?thesis
    by (simp add: hex_byte_def hex_value_digit lt)
qed

lemma hex_roundtrip [simp]: "hex_decode (hex_encode bs) = Some bs"
  by (induction bs) (simp_all add: hex_encode_def hex_decode_byte)

lemma hex_encode_inject [simp]: "hex_encode a = hex_encode b \<longleftrightarrow> a = b"
  by (metis hex_roundtrip option.inject)

lemma length_hex_encode [simp]: "length (hex_encode bs) = 2 * length bs"
  by (induction bs) (simp_all add: hex_encode_def hex_byte_def)

subsection \<open>Length-prefixed framing\<close>

text \<open>\<^verbatim>\<open>binary.BigEndian.PutUint64\<close>.\<close>

definition be64 :: "64 word \<Rightarrow> bytes" where
  "be64 w = map (\<lambda>i. ucast (drop_bit (8 * i) w)) [7, 6, 5, 4, 3, 2, 1, 0]"

lemma length_be64 [simp]: "length (be64 w) = 8"
  by (simp add: be64_def)

lemma be64_inject [simp]: "be64 v = be64 w \<longleftrightarrow> v = w"
proof
  assume eq: "be64 v = be64 w"
  have byte_eq: "(ucast (drop_bit (8 * i) v) :: byte) = ucast (drop_bit (8 * i) w)" if "i < 8" for i
  proof -
    from that have "i \<in> set [7, 6, 5, 4, 3, 2, 1, 0 :: nat]" by (simp, arith)
    with eq show ?thesis by (auto simp: be64_def)
  qed
  show "v = w"
  proof (rule bit_word_eqI)
    fix n assume "n < LENGTH(64)"
    then have i: "n div 8 < 8" by simp
    have "bit (ucast (drop_bit (8 * (n div 8)) v) :: byte) (n mod 8)
        = bit (ucast (drop_bit (8 * (n div 8)) w) :: byte) (n mod 8)"
      using byte_eq [OF i] by simp
    then show "bit v n = bit w n"
      by (simp add: bit_ucast_iff bit_drop_bit_eq)
  qed
qed simp

text \<open>
  \<^verbatim>\<open>writeField\<close>, which both the throttle and the audit chain define: an 8-byte length
  and the bytes. A Go slice is shorter than \<open>2 ^ 63\<close>, so the length is not truncated;
  \<open>framable\<close> says so.
\<close>

definition writeField :: "bytes \<Rightarrow> bytes" where
  "writeField b = be64 (of_nat (length b)) @ b"

definition framable :: "'a list \<Rightarrow> bool" where
  "framable b \<longleftrightarrow> length b < 2 ^ 63"

lemma be64_length_inject:
  "framable a \<Longrightarrow> framable b \<Longrightarrow>
     be64 (of_nat (length a)) = be64 (of_nat (length b)) \<longleftrightarrow> length a = length b"
  by (simp add: framable_def word_of_nat_eq_iff take_bit_eq_mod)

lemma writeField_inject [simp]:
  assumes "framable a" and "framable b"
  shows "writeField a @ r = writeField b @ r' \<longleftrightarrow> a = b \<and> r = r'"
proof
  assume eq: "writeField a @ r = writeField b @ r'"
  then have "be64 (of_nat (length a)) = be64 (of_nat (length b))"
    by (simp add: writeField_def)
  then have "length a = length b" using assms by (simp only: be64_length_inject)
  with eq show "a = b \<and> r = r'" by (simp add: writeField_def)
qed simp

lemma writeField_inject_end [simp]:
  assumes "framable a" and "framable b"
  shows "writeField a = writeField b \<longleftrightarrow> a = b"
  using writeField_inject [OF assms, of "[]" "[]"] by simp

lemma writeField_nonempty [simp]: "writeField a \<noteq> []"
  by (simp add: writeField_def be64_def)

lemma writeField_nonempty_sym [simp]: "[] \<noteq> writeField a"
  by (metis writeField_nonempty)

lemma framable_bytes_of [simp]: "framable (bytes_of s) \<longleftrightarrow> framable s"
  by (simp add: framable_def)

lemma framable_small: "length b \<le> 4096 \<Longrightarrow> framable b"
  by (simp add: framable_def)

subsection \<open>Decimal\<close>

text \<open>\<^verbatim>\<open>%d\<close> of an unsigned value, and of a signed one.\<close>

definition decimal_digit :: "nat \<Rightarrow> char" where
  "decimal_digit n = ''0123456789'' ! n"

fun decimal :: "nat \<Rightarrow> string" where
  "decimal n = (if n < 10 then [decimal_digit n] else decimal (n div 10) @ [decimal_digit (n mod 10)])"

declare decimal.simps [simp del]

definition decimal_int :: "int \<Rightarrow> string" where
  "decimal_int n = (if n < 0 then CHR ''-'' # decimal (nat (- n)) else decimal (nat n))"

end
