(* ===== verification/Totp.thy ===== *)
theory Totp
  imports Sqlite_Base Go_Strings
begin

unbundle bit_operations_syntax

text \<open>
  \<^verbatim>\<open>internal/totp/totp.go\<close>: time-based one-time passwords. The HMAC of the standard library
  is the argument \<open>hmac\<close> of the definitions that use it (algorithm, key, message); every
  theorem holds for any function whose digests have the lengths of SHA-1, SHA-256 and
  SHA-512. The branch-free parts of \<^verbatim>\<open>Verify\<close> are modelled on 64-bit words, as written:
  the 0/1 flags, the mask, the XOR select and the biased comparison. Timesteps are
  integers where the code only counts with them, and are converted where it computes on
  their bits.
\<close>

subsection \<open>Parameters\<close>

datatype totp_err =
    ErrInvalidAlgorithm
  | ErrInvalidParams
  | ErrShortSecret
  | ErrInvalidLabel
  | ErrTimeBeforeEpoch

datatype algorithm = SHA1 | SHA256 | SHA512 | UnknownAlgorithm string

fun alg_valid :: "algorithm \<Rightarrow> bool" where
  "alg_valid SHA1 = True"
| "alg_valid SHA256 = True"
| "alg_valid SHA512 = True"
| "alg_valid (UnknownAlgorithm _) = False"

record params =
  pa_alg :: algorithm
  pa_digits :: int
  pa_period :: duration
  pa_skew :: int

definition MinSecretBytes :: int where "MinSecretBytes = 20"
definition MaxDigits :: int where "MaxDigits = 8"

definition Validate :: "params \<Rightarrow> totp_err option" where
  "Validate p =
     (if \<not> alg_valid (pa_alg p) then Some ErrInvalidAlgorithm
      else if pa_digits p < 6 \<or> pa_digits p > MaxDigits then Some ErrInvalidParams
      else if pa_period p \<le> 0 then Some ErrInvalidParams
      else if go_mod (pa_period p) second \<noteq> 0 then Some ErrInvalidParams
      else if pa_skew p < 0 then Some ErrInvalidParams
      else None)"

definition GenerateSecret :: "int \<Rightarrow> 't os \<Rightarrow> (totp_err + bytes) \<times> 't os" where
  "GenerateSecret n s =
     (if n < MinSecretBytes then (Inl ErrShortSecret, s)
      else case rand_read (nat n) s of
        (Inl _, s') \<Rightarrow> (Inl ErrShortSecret, s')
      | (Inr secret, s') \<Rightarrow> (Inr secret, s'))"

subsection \<open>Timesteps and counters\<close>

definition Timestep :: "params \<Rightarrow> instant \<Rightarrow> int" where
  "Timestep p t =
     (let step = go_div (pa_period p) second in
      if step \<le> 0 then 0
      else let secs = unix_seconds t in
        if secs < 0 then - (go_div (- secs + step - 1) step)
        else go_div secs step)"

definition counterFor :: "int \<Rightarrow> 64 word \<times> bool" where
  "counterFor step = (if step < 0 then (0, False) else (word_of_int step, True))"

subsection \<open>Codes\<close>

definition pow10 :: "32 word list" where
  "pow10 = [1, 10, 100, 1000, 10000, 100000, 1000000, 10000000, 100000000]"

definition truncate_code :: "bytes \<Rightarrow> int \<Rightarrow> 32 word" where
  "truncate_code mac digits =
     (let offset = unat (last mac AND 0x0f);
          binCode = push_bit 24 (ucast (mac ! offset AND 0x7f))
                 OR push_bit 16 (ucast (mac ! (offset + 1)))
                 OR push_bit 8 (ucast (mac ! (offset + 2)))
                 OR (ucast (mac ! (offset + 3)) :: 32 word)
      in binCode mod (pow10 ! nat digits))"

text \<open>\<^verbatim>\<open>fmt.Sprintf("%0*d", ...)\<close> on an unsigned value.\<close>

definition zero_padded :: "nat \<Rightarrow> nat \<Rightarrow> string" where
  "zero_padded w n = replicate (w - length (decimal n)) (CHR ''0'') @ decimal n"

definition codeForStep ::
  "(algorithm \<Rightarrow> bytes \<Rightarrow> bytes \<Rightarrow> bytes) \<Rightarrow> bytes \<Rightarrow> params \<Rightarrow> 64 word \<Rightarrow> string" where
  "codeForStep hmac secret p counterValue =
     (let mac = hmac (pa_alg p) secret (be64 counterValue)
      in zero_padded (nat (pa_digits p)) (unat (truncate_code mac (pa_digits p))))"

definition Code ::
  "(algorithm \<Rightarrow> bytes \<Rightarrow> bytes \<Rightarrow> bytes) \<Rightarrow> bytes \<Rightarrow> params \<Rightarrow> instant \<Rightarrow> totp_err + string" where
  "Code hmac secret p t =
     (case Validate p of
        Some e \<Rightarrow> Inl e
      | None \<Rightarrow>
          if length secret = 0 then Inl ErrShortSecret
          else case counterFor (Timestep p t) of
            (counter, ok) \<Rightarrow>
              if \<not> ok then Inl ErrTimeBeforeEpoch else Inr (codeForStep hmac secret p counter))"

subsection \<open>Verification\<close>

text \<open>\<^verbatim>\<open>normalise\<close>: the loop over the bytes, then the length check.\<close>

definition ascii_digit :: "char \<Rightarrow> bool" where
  "ascii_digit c \<longleftrightarrow> 48 \<le> (of_char c :: nat) \<and> (of_char c :: nat) \<le> 57"

definition separators :: "char list" where
  "separators = [CHR '' '', CHR 0x09, CHR ''-'', CHR ''_'']"

fun normalise_loop :: "string \<Rightarrow> string \<Rightarrow> string option" where
  "normalise_loop [] b = Some b"
| "normalise_loop (c # cs) b =
     (if ascii_digit c then normalise_loop cs (b @ [c])
      else if c \<in> set separators then normalise_loop cs b
      else None)"

definition normalise :: "string \<Rightarrow> int \<Rightarrow> string option" where
  "normalise presented digits =
     (case normalise_loop presented [] of
        None \<Rightarrow> None
      | Some s \<Rightarrow> if int (length s) \<noteq> digits then None else Some s)"

text \<open>\<^verbatim>\<open>bits.Sub64\<close> and \<^verbatim>\<open>subtle.ConstantTimeCompare\<close>, by their documented results.\<close>

definition sub64 :: "64 word \<Rightarrow> 64 word \<Rightarrow> 64 word \<Rightarrow> 64 word \<times> 64 word" where
  "sub64 x y b = (x - y - b, if uint x < uint y + uint b then 1 else 0)"

definition ct_compare :: "string \<Rightarrow> string \<Rightarrow> 64 word" where
  "ct_compare a b = (if a = b then 1 else 0)"

definition ctGreater :: "64 word \<Rightarrow> 64 word \<Rightarrow> 64 word" where
  "ctGreater a b =
     (let bias = push_bit 63 1; (_, borrow) = sub64 (b XOR bias) (a XOR bias) 0 in borrow)"

definition boolToInt :: "bool \<Rightarrow> 64 word" where
  "boolToInt b = (if b then 1 else 0)"

fun verify_loop ::
  "(algorithm \<Rightarrow> bytes \<Rightarrow> bytes \<Rightarrow> bytes) \<Rightarrow> bytes \<Rightarrow> params \<Rightarrow> string \<Rightarrow> int
   \<Rightarrow> int list \<Rightarrow> 64 word \<Rightarrow> 64 word \<Rightarrow> 64 word \<times> 64 word" where
  "verify_loop hmac secret p candidate lastStep [] matched matchedStep = (matched, matchedStep)"
| "verify_loop hmac secret p candidate lastStep (s # ss) matched matchedStep =
     (let (counter, inRange) = counterFor s;
          code = codeForStep hmac secret p counter;
          eq = ct_compare code candidate;
          fresh = ctGreater (word_of_int s) (word_of_int lastStep);
          hit = eq AND fresh AND boolToInt inRange;
          mask = - hit
      in verify_loop hmac secret p candidate lastStep ss (matched OR hit)
           (matchedStep XOR (mask AND (word_of_int s XOR matchedStep))))"

definition Verify ::
  "(algorithm \<Rightarrow> bytes \<Rightarrow> bytes \<Rightarrow> bytes) \<Rightarrow> bytes \<Rightarrow> params \<Rightarrow> string \<Rightarrow> instant \<Rightarrow> int
   \<Rightarrow> int \<times> bool" where
  "Verify hmac secret p presented t lastStep =
     (if Validate p \<noteq> None \<or> length secret = 0 then (0, False)
      else case normalise presented (pa_digits p) of
        None \<Rightarrow> (0, False)
      | Some candidate \<Rightarrow>
          let now = Timestep p t in
          if now < 0 then (0, False)
          else case verify_loop hmac secret p candidate lastStep
                      [now - pa_skew p .. now + pa_skew p] 0 0 of
            (matched, matchedStep) \<Rightarrow>
              if matched \<noteq> 1 then (0, False) else (sint matchedStep, True))"

subsection \<open>The branch-free primitives\<close>

lemma bit_bias: "bit (push_bit k (1 :: 64 word)) n \<longleftrightarrow> n = k \<and> k < 64"
  by (auto simp: bit_simps)

lemma xor_bias: "(w :: 64 word) XOR push_bit 63 1 = w + push_bit 63 1"
proof (cases "bit w 63")
  case False
  have "w AND push_bit 63 1 = 0"
    by (rule bit_word_eqI) (use False in \<open>simp only: bit_and_iff bit_bias, auto\<close>)
  then show ?thesis by (simp only: disjunctive_add_eq_xor)
next
  case True
  define u where "u = w XOR push_bit 63 1"
  have "u AND push_bit 63 1 = 0"
    by (rule bit_word_eqI) (use True in \<open>simp only: u_def bit_and_iff bit_xor_iff bit_bias, auto\<close>)
  then have "u + push_bit 63 1 = u XOR push_bit 63 1"
    by (simp only: disjunctive_add_eq_xor)
  also have "\<dots> = w" by (simp only: u_def xor.assoc xor_self_eq xor.right_neutral)
  finally have undo: "u + push_bit 63 1 = w" .
  have "w + push_bit 63 1 = (u + push_bit 63 1) + push_bit 63 1" by (simp only: undo)
  also have "\<dots> = u + (push_bit 63 1 + push_bit 63 1)" by (rule add.assoc)
  also have "push_bit 63 1 + push_bit 63 1 = (0 :: 64 word)" by simp
  finally show ?thesis by (simp add: u_def)
qed

lemma uint_bias: "uint ((w :: 64 word) XOR push_bit 63 1) = sint w + 2 ^ 63"
proof -
  have "uint (w + push_bit 63 1) = take_bit 64 (uint w + 2 ^ 63)"
    by (simp add: uint_word_ariths take_bit_eq_mod)
  also have "\<dots> = signed_take_bit 63 (uint w) + 2 ^ 63"
    by (simp add: signed_take_bit_eq_take_bit_shift)
  also have "signed_take_bit 63 (uint w) = sint w" by (simp add: sint_uint)
  finally show ?thesis by (simp only: xor_bias)
qed

lemma ctGreater_eq: "ctGreater a b = (if sint b < sint a then 1 else 0)"
  by (simp add: ctGreater_def sub64_def uint_bias del: push_bit_of_1)

lemma sint_word_of_int_id:
  "min_int64 \<le> x \<Longrightarrow> x \<le> max_int64 \<Longrightarrow> sint (word_of_int x :: 64 word) = x"
  by (simp add: sint_uint uint_word_of_int_eq signed_take_bit_take_bit signed_take_bit_int_eq_self
      min_int64_def max_int64_def)

subsection \<open>Lengths and shapes\<close>

lemma decimal_length_le: "n < 10 ^ k \<Longrightarrow> 0 < k \<Longrightarrow> length (decimal n) \<le> k"
proof (induction n arbitrary: k rule: decimal.induct)
  case (1 n)
  show ?case
  proof (cases "n < 10")
    case True
    with 1 show ?thesis by (simp add: decimal.simps [of n])
  next
    case False
    from "1.prems"(2) obtain j where k: "k = Suc j" by (cases k) auto
    have "0 < j"
    proof (rule ccontr)
      assume "\<not> 0 < j"
      with k "1.prems"(1) False show False by simp
    qed
    note k = k this
    have "n < 10 ^ j * 10" using "1.prems"(1) k(1) by (simp add: mult.commute)
    then have "n div 10 < 10 ^ j" by (rule less_mult_imp_div_less)
    with False k "1.IH" have "length (decimal (n div 10)) \<le> j" by blast
    with False k show ?thesis by (simp add: decimal.simps [of n])
  qed
qed

lemma decimal_digits: "c \<in> set (decimal n) \<Longrightarrow> ascii_digit c"
proof (induction n rule: decimal.induct)
  case (1 n)
  have "ascii_digit (decimal_digit k)" if "k < 10" for k
  proof -
    from that have "k \<in> set [0, 1, 2, 3, 4, 5, 6, 7, 8, 9]" by (simp, arith)
    then show ?thesis by (auto simp: ascii_digit_def decimal_digit_def)
  qed
  with 1 show ?case
    by (cases "n < 10") (auto simp: decimal.simps [of n])
qed

lemma zero_padded_length: "n < 10 ^ w \<Longrightarrow> 0 < w \<Longrightarrow> length (zero_padded w n) = w"
  using decimal_length_le by (fastforce simp: zero_padded_def)

lemma zero_padded_digits: "c \<in> set (zero_padded w n) \<Longrightarrow> ascii_digit c"
  by (auto simp: zero_padded_def ascii_digit_def dest: decimal_digits)

lemma truncate_code_bound:
  assumes "0 \<le> digits" and "digits \<le> 8"
  shows "unat (truncate_code mac digits) < 10 ^ nat digits"
proof -
  have "nat digits \<in> set [0..<9]" using assms by (simp add: nat_less_iff)
  then have "nat digits \<in> set [0, 1, 2, 3, 4, 5, 6, 7, 8]"
    by (simp add: upt_rec numeral_eq_Suc)
  moreover have "unat (x mod m) < unat m" if "0 < unat m" for x m :: "32 word"
    using that by (simp add: unat_mod)
  ultimately show ?thesis
    by (auto simp: truncate_code_def Let_def pow10_def unat_mod)
qed

lemma Validate_None:
  "Validate p = None \<longleftrightarrow>
     alg_valid (pa_alg p) \<and> 6 \<le> pa_digits p \<and> pa_digits p \<le> 8 \<and> 0 < pa_period p
     \<and> go_mod (pa_period p) second = 0 \<and> 0 \<le> pa_skew p"
  by (auto simp: Validate_def MaxDigits_def)

lemma codeForStep_shape:
  assumes "Validate p = None"
  shows "length (codeForStep hmac secret p c) = nat (pa_digits p)
       \<and> (\<forall>x \<in> set (codeForStep hmac secret p c). ascii_digit x)"
proof -
  from assms have d: "6 \<le> pa_digits p" "pa_digits p \<le> 8" by (auto simp: Validate_None)
  then have "unat (truncate_code mac (pa_digits p)) < 10 ^ nat (pa_digits p)" for mac
    by (intro truncate_code_bound) auto
  with d show ?thesis
    by (auto simp: codeForStep_def Let_def zero_padded_length dest: zero_padded_digits)
qed

lemma normalise_loop_eq:
  "normalise_loop cs b =
     (if \<forall>c \<in> set cs. ascii_digit c \<or> c \<in> set separators
      then Some (b @ filter ascii_digit cs) else None)"
proof (induction cs arbitrary: b)
  case Nil
  show ?case by simp
next
  case (Cons c cs)
  have "\<not> (ascii_digit c \<and> c \<in> set separators)"
    by (auto simp: ascii_digit_def separators_def)
  with Cons show ?case by auto
qed

lemma normalise_Some:
  "normalise presented digits = Some c \<longleftrightarrow>
     (\<forall>x \<in> set presented. ascii_digit x \<or> x \<in> set separators)
     \<and> c = filter ascii_digit presented \<and> int (length c) = digits"
  by (auto simp: normalise_def normalise_loop_eq)

subsection \<open>The timestep\<close>

lemma Timestep_floor:
  assumes "0 < go_div (pa_period p) second"
  shows "Timestep p t = unix_seconds t div go_div (pa_period p) second"
proof -
  define step where "step = go_div (pa_period p) second"
  have step: "0 < step" using assms by (simp add: step_def)
  show ?thesis
  proof (cases "unix_seconds t < 0")
    case False
    with step show ?thesis by (simp add: Timestep_def Let_def flip: step_def) (simp add: go_div_nonneg)
  next
    case True
    define n where "n = - unix_seconds t"
    have n: "0 < n" using True by (simp add: n_def)
    have "(n + step - 1) div step = - ((- n) div step)"
    proof (rule int_div_pos_eq)
      show "n + step - 1 = step * - ((- n) div step) + (step - 1 - (- n) mod step)"
        using mult_div_mod_eq [of step "- n"] by (simp add: algebra_simps)
      show "0 \<le> step - 1 - (- n) mod step" using pos_mod_bound [OF step, of "- n"] by simp
      show "step - 1 - (- n) mod step < step" using pos_mod_sign [OF step, of "- n"] by simp
    qed
    moreover have "0 \<le> n + step - 1" using n step by simp
    ultimately show ?thesis
      using True step by (simp add: Timestep_def Let_def flip: step_def) (simp add: go_div_nonneg n_def)
  qed
qed

subsection \<open>The branch-free loop\<close>

text \<open>What one candidate step of the window has to satisfy to be accepted.\<close>

definition accepts ::
  "(algorithm \<Rightarrow> bytes \<Rightarrow> bytes \<Rightarrow> bytes) \<Rightarrow> bytes \<Rightarrow> params \<Rightarrow> string \<Rightarrow> int \<Rightarrow> int \<Rightarrow> bool" where
  "accepts hmac secret p candidate lastStep s \<longleftrightarrow>
     0 \<le> s \<and> lastStep < s \<and> codeForStep hmac secret p (word_of_int s) = candidate"

lemma verify_loop_eq:
  assumes "min_int64 \<le> lastStep" "lastStep \<le> max_int64"
    and "\<forall>s \<in> set ss. min_int64 \<le> s \<and> s \<le> max_int64"
  shows "verify_loop hmac secret p candidate lastStep ss m ms =
    (let hits = filter (accepts hmac secret p candidate lastStep) ss
     in if hits = [] then (m, ms) else (m OR 1, word_of_int (last hits)))"
  using assms(3)
proof (induction ss arbitrary: m ms)
  case Nil
  show ?case by simp
next
  case (Cons s ss)
  define counter where "counter = (if s < 0 then 0 else word_of_int s :: 64 word)"
  define hit where "hit = ct_compare (codeForStep hmac secret p counter) candidate
    AND ctGreater (word_of_int s) (word_of_int lastStep) AND boolToInt (\<not> s < 0)"
  have cf: "counterFor s = (counter, \<not> s < 0)"
    by (simp add: counterFor_def counter_def)
  have "sint (word_of_int s :: 64 word) = s" "sint (word_of_int lastStep :: 64 word) = lastStep"
    using Cons.prems assms(1,2) by (simp_all add: sint_word_of_int_id)
  then have hit: "hit = (if accepts hmac secret p candidate lastStep s then 1 else 0)"
    by (auto simp: hit_def ct_compare_def ctGreater_eq boolToInt_def accepts_def counter_def)
  have unfold: "verify_loop hmac secret p candidate lastStep (s # ss) m ms =
     verify_loop hmac secret p candidate lastStep ss (m OR hit)
       (ms XOR ((- hit) AND (word_of_int s XOR ms)))"
    by (simp add: cf Let_def hit_def)
  have IH: "verify_loop hmac secret p candidate lastStep ss m' ms' =
    (let hits = filter (accepts hmac secret p candidate lastStep) ss
     in if hits = [] then (m', ms') else (m' OR 1, word_of_int (last hits)))" for m' ms'
    using Cons by simp
  show ?case
  proof (cases "accepts hmac secret p candidate lastStep s")
    case True
    have "ms XOR ((- 1) AND (word_of_int s XOR ms)) = word_of_int s"
      by (rule bit_word_eqI) (auto simp: bit_simps)
    with True hit show ?thesis by (subst unfold, subst IH) (simp add: Let_def or.assoc)
  next
    case False
    then have "hit = 0" by (simp add: hit)
    with False show ?thesis by (subst unfold, subst IH) (simp add: Let_def)
  qed
qed

text \<open>The dynamic truncation never reads past a digest of at least 20 bytes.\<close>

lemma truncation_in_range:
  fixes mac :: bytes
  assumes "20 \<le> length mac"
  shows "unat (last mac AND 0x0f) + 3 < length mac"
proof -
  have "last mac AND 0x0f \<le> 0x0f" by (rule word_and_le1)
  then have "unat (last mac AND 0x0f) \<le> unat (0x0f :: 8 word)" by (simp only: word_le_nat_alt)
  with assms show ?thesis by simp
qed

subsection \<open>Reference\<close>

text \<open>
  The verification the constant-time code stands for: the steps of the window that are
  not before the epoch, not spent, and whose code is the presented one; the latest of
  them is the answer.
\<close>

definition verify_spec ::
  "(algorithm \<Rightarrow> bytes \<Rightarrow> bytes \<Rightarrow> bytes) \<Rightarrow> bytes \<Rightarrow> params \<Rightarrow> string \<Rightarrow> instant \<Rightarrow> int
   \<Rightarrow> int \<times> bool" where
  "verify_spec hmac secret p presented t lastStep =
     (if Validate p \<noteq> None \<or> secret = [] \<or> Timestep p t < 0 then (0, False)
      else case normalise presented (pa_digits p) of
        None \<Rightarrow> (0, False)
      | Some candidate \<Rightarrow>
          (let hits = filter (accepts hmac secret p candidate lastStep)
                        [Timestep p t - pa_skew p .. Timestep p t + pa_skew p]
           in if hits = [] then (0, False) else (last hits, True)))"

definition int64_window :: "params \<Rightarrow> instant \<Rightarrow> int \<Rightarrow> bool" where
  "int64_window p t lastStep \<longleftrightarrow>
     min_int64 \<le> lastStep \<and> lastStep \<le> max_int64
     \<and> min_int64 \<le> Timestep p t - pa_skew p \<and> Timestep p t + pa_skew p \<le> max_int64"

lemma Verify_eq_spec:
  assumes "int64_window p t lastStep"
  shows "Verify hmac secret p presented t lastStep = verify_spec hmac secret p presented t lastStep"
proof (cases "normalise presented (pa_digits p)")
  case None
  then show ?thesis by (simp add: Verify_def verify_spec_def)
next
  case (Some candidate)
  let ?w = "[Timestep p t - pa_skew p .. Timestep p t + pa_skew p]"
  define hits where "hits = filter (accepts hmac secret p candidate lastStep) ?w"
  have range: "\<forall>s \<in> set ?w. min_int64 \<le> s \<and> s \<le> max_int64"
    using assms by (auto simp: int64_window_def)
  have loop: "verify_loop hmac secret p candidate lastStep ?w 0 0 =
      (if hits = [] then (0, 0) else (1, word_of_int (last hits)))"
    using assms range by (subst verify_loop_eq) (auto simp: int64_window_def hits_def Let_def)
  have "sint (word_of_int (last hits) :: 64 word) = last hits" if "hits \<noteq> []"
  proof -
    have "last hits \<in> set ?w" using last_in_set [OF that] by (auto simp: hits_def)
    with range show ?thesis by (intro sint_word_of_int_id) blast+
  qed
  then show ?thesis
    using Some loop by (simp add: Verify_def verify_spec_def Let_def flip: hits_def)
qed

lemma verify_spec_Some:
  assumes "verify_spec hmac secret p presented t lastStep = (s, True)"
  obtains c where "normalise presented (pa_digits p) = Some c" "Validate p = None"
    "accepts hmac secret p c lastStep s" "\<bar>s - Timestep p t\<bar> \<le> pa_skew p"
proof -
  from assms obtain c where c: "normalise presented (pa_digits p) = Some c" "Validate p = None"
    by (auto simp: verify_spec_def Let_def split: if_splits option.splits)
  define hits where "hits = filter (accepts hmac secret p c lastStep)
    [Timestep p t - pa_skew p .. Timestep p t + pa_skew p]"
  from assms c have "hits \<noteq> []" "s = last hits"
    by (auto simp: verify_spec_def Let_def hits_def split: if_splits)
  then have "s \<in> set hits" by simp
  with c that show ?thesis by (auto simp: hits_def)
qed

subsection \<open>Properties\<close>

definition example_hmac :: "algorithm \<Rightarrow> bytes \<Rightarrow> bytes \<Rightarrow> bytes" where
  "example_hmac a k m = take 11 (k @ [0, 0, 0, 0, 0, 0, 0, 0, 0, 0, 0]) @ rev m @ [last m]"

definition example_params :: params where
  "example_params = \<lparr>pa_alg = SHA1, pa_digits = 6, pa_period = 30 * second, pa_skew = 1\<rparr>"

definition example_secret :: bytes where
  "example_secret = [1, 2, 3, 4, 5]"

lemma example_params_ok:
  "Validate example_params = None" "Timestep example_params (95 * second) = 3"
  "int64_window example_params (95 * second) 2" "int64_window example_params (95 * second) 1"
  by (simp_all add: example_params_def Validate_def MaxDigits_def go_mod_def go_div_def second_def
      Timestep_def unix_seconds_def int64_window_def min_int64_def max_int64_def)

lemma example_truncations:
  "truncate_code (example_hmac SHA1 example_secret (be64 2)) 6 = 595072"
  "truncate_code (example_hmac SHA1 example_secret (be64 3)) 6 = 436544"
  "truncate_code (example_hmac SHA1 example_secret (be64 4)) 6 = 886080"
  by (simp_all add: example_hmac_def example_secret_def be64_def truncate_code_def pow10_def Let_def)

lemma example_paddings:
  "zero_padded 6 595072 = ''595072''" "zero_padded 6 436544 = ''436544''"
  "zero_padded 6 886080 = ''886080''"
  by (simp_all add: zero_padded_def decimal.simps decimal_digit_def)

lemma example_codes:
  "codeForStep example_hmac example_secret example_params 2 = ''595072''"
  "codeForStep example_hmac example_secret example_params 3 = ''436544''"
  "codeForStep example_hmac example_secret example_params 4 = ''886080''"
  by (simp_all add: codeForStep_def example_params_def example_truncations example_paddings)

text \<open>
  C4: the constant-time verification is correct. For any HMAC, the branch-free loop of
  \<^verbatim>\<open>Verify\<close>, with its 0/1 flags, sign mask, XOR select and biased comparison on 64-bit
  words, computes the plain search: the latest unspent step of the window whose code is
  the presented one, and \<open>(0, false)\<close> for anything else, a spent code, a malformed one and
  a wrong one alike.
\<close>

theorem totp_verify_reference:
  assumes "int64_window p t lastStep"
  shows "Verify hmac secret p presented t lastStep = verify_spec hmac secret p presented t lastStep"
  using assms by (rule Verify_eq_spec)

theorem totp_verify_reference_witness:
  "Verify example_hmac example_secret example_params ''436 544'' (95 * second) 2
     = verify_spec example_hmac example_secret example_params ''436 544'' (95 * second) 2"
  by (rule totp_verify_reference [OF example_params_ok(3)])

text \<open>
  A spent or foreign code never verifies. When \<^verbatim>\<open>Verify\<close> accepts, the step it returns is
  above the highest one already spent, not before the epoch, within the tolerance of the
  current step, and the digits presented are exactly the code of that step.
\<close>

theorem totp_verify_sound:
  assumes "int64_window p t lastStep"
    and "Verify hmac secret p presented t lastStep = (s, True)"
  shows "lastStep < s \<and> 0 \<le> s \<and> \<bar>s - Timestep p t\<bar> \<le> pa_skew p
       \<and> filter ascii_digit presented = codeForStep hmac secret p (word_of_int s)"
proof -
  from assms have "verify_spec hmac secret p presented t lastStep = (s, True)"
    by (simp add: Verify_eq_spec)
  then obtain c where "normalise presented (pa_digits p) = Some c"
      "accepts hmac secret p c lastStep s" "\<bar>s - Timestep p t\<bar> \<le> pa_skew p"
    by (rule verify_spec_Some)
  then show ?thesis by (auto simp: accepts_def normalise_Some)
qed

text \<open>
  A current code is accepted. The code \<^verbatim>\<open>Code\<close> generates for an instant verifies at
  that instant, with or without grouping separators, whenever its step is not spent yet,
  and the step consumed is at least the current one.
\<close>

theorem totp_code_verifies:
  assumes "int64_window p t lastStep" and "Code hmac secret p t = Inr code"
    and "lastStep < Timestep p t"
    and "filter ascii_digit presented = code" and "set presented \<subseteq> set code \<union> set separators"
  shows "\<exists>s \<ge> Timestep p t. Verify hmac secret p presented t lastStep = (s, True)"
proof -
  let ?T = "Timestep p t"
  have ok: "Validate p = None" "secret \<noteq> []" "0 \<le> ?T"
    and code: "code = codeForStep hmac secret p (word_of_int ?T)"
    using assms(2) by (auto simp: Code_def counterFor_def split: option.splits if_splits)
  have shape: "int (length code) = pa_digits p" "\<forall>x \<in> set code. ascii_digit x"
    using codeForStep_shape [OF ok(1), of hmac secret "word_of_int ?T"] ok(1)
    by (auto simp: code Validate_None)
  have norm: "normalise presented (pa_digits p) = Some code"
    using assms(4,5) shape by (auto simp: normalise_Some)
  define hits where "hits = filter (accepts hmac secret p code lastStep) [?T - pa_skew p .. ?T + pa_skew p]"
  have "0 \<le> pa_skew p" using ok(1) by (simp add: Validate_None)
  then have T: "?T \<in> set hits"
    using assms(3) ok(3) by (simp add: hits_def accepts_def code)
  then have ne: "hits \<noteq> []" by auto
  have "sorted hits" unfolding hits_def by (rule sorted_wrt_filter) (rule sorted_upto)
  moreover obtain i where "i < length hits" "hits ! i = ?T" using T by (auto simp: in_set_conv_nth)
  ultimately have "?T \<le> last hits"
    using ne sorted_nth_mono [of hits i "length hits - 1"] by (auto simp: last_conv_nth)
  moreover have "verify_spec hmac secret p presented t lastStep = (last hits, True)"
    using ok norm ne by (simp add: verify_spec_def Let_def flip: hits_def)
  ultimately show ?thesis
    using Verify_eq_spec [OF assms(1)] by auto
qed

theorem totp_code_verifies_witness:
  "\<exists>s \<ge> 3. Verify example_hmac example_secret example_params ''436-544'' (95 * second) 2 = (s, True)"
proof -
  have code: "Code example_hmac example_secret example_params (95 * second) = Inr ''436544''"
    using example_codes(2) by (simp add: Code_def example_params_ok counterFor_def example_secret_def)
  have grouped: "filter ascii_digit ''436-544'' = ''436544''" "set ''436-544'' \<subseteq> set ''436544'' \<union> set separators"
    by (simp_all add: ascii_digit_def separators_def)
  show ?thesis
    using totp_code_verifies [OF example_params_ok(3) code _ grouped] by (simp add: example_params_ok)
qed

theorem totp_verify_sound_witness:
  "Verify example_hmac example_secret example_params ''436544'' (95 * second) 1 = (3, True)
   \<and> (1 :: int) < 3 \<and> \<bar>3 - Timestep example_params (95 * second)\<bar> \<le> pa_skew example_params"
proof -
  have n: "normalise ''436544'' (pa_digits example_params) = Some ''436544''"
    by (simp add: normalise_Some ascii_digit_def example_params_def)
  have w: "[3 - pa_skew example_params .. 3 + pa_skew example_params] = [2, 3, 4]"
    by (simp add: example_params_def upto_rec1)
  have v: "Verify example_hmac example_secret example_params ''436544'' (95 * second) 1 = (3, True)"
    using example_codes n w
    by (simp add: Verify_eq_spec [OF example_params_ok(4)] verify_spec_def example_params_ok
        accepts_def example_secret_def Let_def)
  show ?thesis
    using v totp_verify_sound [OF example_params_ok(4) v] by simp
qed

text \<open>
  Timesteps and codes have the shape the protocol needs. With a positive period the
  timestep is the floor of the Unix time divided by the period, before the epoch too,
  where Go's division alone would round the wrong way; and every generated code has
  exactly the configured number of characters, all of them ASCII digits.
\<close>

theorem totp_timestep_and_shape:
  assumes "Validate p = None"
  shows "Timestep p t = unix_seconds t div (pa_period p div second)
       \<and> length (codeForStep hmac secret p c) = nat (pa_digits p)
       \<and> (\<forall>x \<in> set (codeForStep hmac secret p c). ascii_digit x)"
proof -
  from assms have per: "0 < pa_period p" "go_mod (pa_period p) second = 0"
    by (auto simp: Validate_None)
  then have q: "go_div (pa_period p) second = pa_period p div second" "pa_period p mod second = 0"
    by (auto simp: go_div_nonneg go_mod_nonneg second_def)
  have "0 < pa_period p div second"
  proof -
    have "pa_period p = second * (pa_period p div second)" using q(2) by auto
    with per(1) show ?thesis by (simp add: zero_less_mult_iff second_def)
  qed
  then show ?thesis
    using codeForStep_shape [OF assms] by (simp add: Timestep_floor q(1))
qed

theorem totp_timestep_and_shape_witness:
  "Timestep example_params (- 1) = -1
   \<and> length (codeForStep example_hmac example_secret example_params 3) = 6"
  using totp_timestep_and_shape [OF example_params_ok(1), of "- 1" example_hmac example_secret 3]
  by (simp add: example_params_def second_def unix_seconds_def)

end
