(* ===== verification/Single_Use.thy ===== *)
theory Single_Use
  imports Prelude
begin

text \<open>
  The contract behind every single-use value of the service (a TOTP step, a recovery code,
  an enrolment ticket, a WebAuthn challenge): a value can be spent only while it is not
  spent, spending it leaves it spent, and nothing else the system does makes it unspent.
  From that contract alone, no run of the system, however its steps are ordered and
  whichever of them fail, spends the value twice.
\<close>

text \<open>
  A run: any sequence of attempts to spend (each accepted or refused) and of other steps.
  The number is how many attempts were accepted.
\<close>

inductive spend_run :: "('s \<Rightarrow> bool \<Rightarrow> 's \<Rightarrow> bool) \<Rightarrow> ('s \<Rightarrow> 's \<Rightarrow> bool) \<Rightarrow> 's \<Rightarrow> nat \<Rightarrow> 's \<Rightarrow> bool"
  for spend other where
  run_start: "spend_run spend other s 0 s"
| run_accept: "spend_run spend other s n u \<Longrightarrow> spend u True v \<Longrightarrow> spend_run spend other s (Suc n) v"
| run_refuse: "spend_run spend other s n u \<Longrightarrow> spend u False v \<Longrightarrow> spend_run spend other s n v"
| run_other: "spend_run spend other s n u \<Longrightarrow> other u v \<Longrightarrow> spend_run spend other s n v"

inductive_cases spend_run_elim: "spend_run spend other s n u"

locale single_use =
  fixes spend :: "'s \<Rightarrow> bool \<Rightarrow> 's \<Rightarrow> bool"
    and other :: "'s \<Rightarrow> 's \<Rightarrow> bool"
    and spent :: "'s \<Rightarrow> bool"
    and inv :: "'s \<Rightarrow> bool"
  assumes spend_fresh: "inv s \<Longrightarrow> spend s True s' \<Longrightarrow> \<not> spent s \<and> spent s'"
    and spend_keeps: "inv s \<Longrightarrow> spend s b s' \<Longrightarrow> inv s' \<and> (spent s \<longrightarrow> spent s')"
    and other_keeps: "inv s \<Longrightarrow> other s s' \<Longrightarrow> inv s' \<and> (spent s \<longrightarrow> spent s')"
begin

lemma run_invariant:
  assumes "spend_run spend other s n u" and "inv s"
  shows "inv u \<and> (spent s \<longrightarrow> spent u \<and> n = 0) \<and> (0 < n \<longrightarrow> spent u) \<and> n \<le> 1"
  using assms
proof (induction rule: spend_run.induct)
  case (run_start s)
  then show ?case by simp
next
  case (run_accept s n u v)
  then have "inv u" "\<not> spent u" "spent v" "inv v"
    using spend_fresh [of u v] spend_keeps [of u True v] by blast+
  with run_accept show ?case by auto
next
  case (run_refuse s n u v)
  then show ?case using spend_keeps [of u False v] by blast
next
  case (run_other s n u v)
  then show ?case using other_keeps [of u v] by blast
qed

lemma at_most_once: "spend_run spend other s n u \<Longrightarrow> inv s \<Longrightarrow> n \<le> 1"
  using run_invariant by blast

lemma never_again: "spend_run spend other s n u \<Longrightarrow> inv s \<Longrightarrow> spent s \<Longrightarrow> n = 0"
  using run_invariant by blast

end

end
