(* ===== verification/Totp_Store.thy ===== *)
theory Totp_Store
  imports Totp Single_Use
begin

text \<open>
  \<^verbatim>\<open>internal/store/sqlite/totp.go\<close>: the TOTP secrets of a subject, and the anti-replay
  counter. \<^verbatim>\<open>ConsumeTOTPStep\<close> is a compare-and-swap on \<^verbatim>\<open>last_timestep\<close>.
\<close>

subsection \<open>Operations\<close>

text \<open>The CHECK constraints of the table \<^verbatim>\<open>totp_secrets\<close>.\<close>

definition totp_row_ok :: "totp_secret \<Rightarrow> bool" where
  "totp_row_ok r \<longleftrightarrow> ts_algorithm r \<in> {''SHA1'', ''SHA256'', ''SHA512''} \<and> ts_digits r \<in> {6, 8}
     \<and> 15 \<le> ts_period r \<and> ts_period r \<le> 120 \<and> 0 \<le> ts_last_step r"

text \<open>
  The primary key, and the partial unique index that allows a subject one pending secret.
  No UPDATE below makes a secret pending, so only an INSERT can meet the index.
\<close>

definition totp_pending :: "totp_secret \<Rightarrow> bool" where
  "totp_pending r \<longleftrightarrow> ts_revoked r = None \<and> ts_confirmed r = None"

definition totp_clash :: "totp_secret \<Rightarrow> totp_secret \<Rightarrow> bool" where
  "totp_clash old new \<longleftrightarrow> ts_id old = ts_id new
     \<or> totp_pending old \<and> totp_pending new \<and> ts_tenant old = ts_tenant new \<and> ts_subject old = ts_subject new"

definition totp_insert :: "totp_secret \<Rightarrow> tables \<Rightarrow> sql_error + unit \<times> tables" where
  "totp_insert r t =
     (if \<not> totp_row_ok r then Inl (SqlMsg ''CHECK constraint failed'')
      else if \<not> subject_exists (ts_subject r) t then Inl (SqlMsg ''FOREIGN KEY constraint failed'')
      else case insert_row totp_clash r (tb_totp t) of
        Inl e \<Rightarrow> Inl e
      | Inr rows \<Rightarrow> Inr ((), t\<lparr>tb_totp := rows\<rparr>))"

definition totp_update :: "(totp_secret \<Rightarrow> bool) \<Rightarrow> (totp_secret \<Rightarrow> totp_secret) \<Rightarrow> tables
    \<Rightarrow> sql_error + int \<times> tables" where
  "totp_update p f t =
     Inr (count_where p (tb_totp t), t\<lparr>tb_totp := update_where p f (tb_totp t)\<rparr>)"

definition CreateTOTPSecret :: "totp_secret \<Rightarrow> (tables, unit) proc" where
  "CreateTOTPSecret sec =
     (if ts_id sec = '''' \<or> ts_tenant sec = '''' \<or> ts_subject sec = '''' then
        failp (OtherErr ''sqlite: totp secret requires id, tenant and subject'')
      else if length (ts_sealed sec) = 0 then
        failp (OtherErr ''sqlite: totp secret must be sealed before storage'')
      else bindp wall_clock (\<lambda>wall.
        let sec = (if is_zero_time (ts_created sec) then sec\<lparr>ts_created := wall\<rparr> else sec) in
        in_tx (bindp
          (exec map_error (totp_update
             (\<lambda>r. ts_tenant r = ts_tenant sec \<and> ts_subject r = ts_subject sec
                \<and> ts_revoked r = None \<and> ts_confirmed r = None)
             (\<lambda>r. r\<lparr>ts_revoked := Some (ts_created sec)\<rparr>)))
          (\<lambda>_. exec map_error (totp_insert sec)))))"

definition GetActiveTOTPSecret :: "string \<Rightarrow> string \<Rightarrow> (tables, totp_secret) proc" where
  "GetActiveTOTPSecret tenantID subjectID =
     query_row map_error (\<lambda>t. latest_by ts_created
       (filter (\<lambda>r. ts_tenant r = tenantID \<and> ts_subject r = subjectID
                  \<and> ts_revoked r = None \<and> ts_confirmed r \<noteq> None) (tb_totp t)))"

definition GetPendingTOTPSecret :: "string \<Rightarrow> string \<Rightarrow> (tables, totp_secret) proc" where
  "GetPendingTOTPSecret tenantID subjectID =
     query_row map_error (\<lambda>t. latest_by ts_created
       (filter (\<lambda>r. ts_tenant r = tenantID \<and> ts_subject r = subjectID
                  \<and> ts_revoked r = None \<and> ts_confirmed r = None) (tb_totp t)))"

definition ConfirmTOTPSecret :: "string \<Rightarrow> string \<Rightarrow> instant \<Rightarrow> (tables, unit) proc" where
  "ConfirmTOTPSecret tenantID secretID at =
     in_tx (bindp
       (exec map_error (totp_update
          (\<lambda>r. ts_tenant r = tenantID \<and> ts_id r = secretID \<and> ts_confirmed r = None \<and> ts_revoked r = None)
          (\<lambda>r. r\<lparr>ts_confirmed := Some at\<rparr>)))
       (\<lambda>n. if n = 0 then failp ErrNotFound else ret ()))"

definition RevokeTOTPSecret :: "string \<Rightarrow> string \<Rightarrow> instant \<Rightarrow> (tables, unit) proc" where
  "RevokeTOTPSecret tenantID secretID at =
     in_tx (bindp
       (exec map_error (totp_update
          (\<lambda>r. ts_tenant r = tenantID \<and> ts_id r = secretID \<and> ts_revoked r = None)
          (\<lambda>r. r\<lparr>ts_revoked := Some at\<rparr>)))
       (\<lambda>n. if n = 0 then failp ErrNotFound else ret ()))"

text \<open>
  The result struct of \<^verbatim>\<open>ConsumeTOTPStep\<close>. When the call returns an error the struct is not
  looked at by its callers, and the model returns the error alone.
\<close>

record totp_consume =
  tc_accepted :: bool
  tc_previous :: int

definition ConsumeTOTPStep :: "string \<Rightarrow> string \<Rightarrow> int \<Rightarrow> int \<Rightarrow> (tables, totp_consume) proc" where
  "ConsumeTOTPStep tenantID secretID expectedPrev step =
     (if step \<le> expectedPrev then ret \<lparr>tc_accepted = False, tc_previous = expectedPrev\<rparr>
      else in_tx (bindp
        (exec map_error (totp_update
           (\<lambda>r. ts_tenant r = tenantID \<and> ts_id r = secretID \<and> ts_last_step r = expectedPrev
              \<and> step > ts_last_step r \<and> ts_revoked r = None)
           (\<lambda>r. r\<lparr>ts_last_step := step\<rparr>)))
        (\<lambda>n. if n = 1 then ret \<lparr>tc_accepted = True, tc_previous = expectedPrev\<rparr>
             else bindp
               (query raw_error (\<lambda>t. find_row (\<lambda>r. ts_tenant r = tenantID \<and> ts_id r = secretID) (tb_totp t)))
               (\<lambda>found. case found of
                  None \<Rightarrow> failp ErrNotFound
                | Some r \<Rightarrow> ret \<lparr>tc_accepted = False, tc_previous = ts_last_step r\<rparr>))))"

subsection \<open>Invariants\<close>

text \<open>The primary key, and the CHECK constraints, over the whole table.\<close>

definition totp_inv :: "tables \<Rightarrow> bool" where
  "totp_inv t \<longleftrightarrow> distinct (map ts_id (tb_totp t)) \<and> (\<forall>r \<in> set (tb_totp t). totp_row_ok r)"

lemma totp_inv_update:
  assumes "totp_inv t" and "totp_update p f t = Inr (n, t')"
    and "\<And>r. ts_id (f r) = ts_id r" and "\<And>r. p r \<Longrightarrow> totp_row_ok r \<Longrightarrow> totp_row_ok (f r)"
  shows "totp_inv t'"
proof -
  have "map ts_id (update_where p f (tb_totp t)) = map ts_id (tb_totp t)"
    by (rule map_update_where) (rule assms(3))
  with assms show ?thesis
    by (auto simp: totp_inv_def totp_update_def set_update_where)
qed

lemma totp_inv_insert: "totp_inv t \<Longrightarrow> totp_insert r t = Inr (u, t') \<Longrightarrow> totp_inv t'"
  by (fastforce simp: totp_inv_def totp_insert_def totp_clash_def insert_row_Inr split: if_splits sum.splits)

lemma totp_row_ok_fields [simp]:
  "totp_row_ok (r\<lparr>ts_revoked := x\<rparr>) = totp_row_ok r"
  "totp_row_ok (r\<lparr>ts_confirmed := x\<rparr>) = totp_row_ok r"
  by (simp_all add: totp_row_ok_def)

lemma keeps_totp_inv_update:
  "(\<And>r. ts_id (f r) = ts_id r) \<Longrightarrow> (\<And>r. p r \<Longrightarrow> totp_row_ok r \<Longrightarrow> totp_row_ok (f r))
     \<Longrightarrow> keeps totp_inv (exec w (totp_update p f))"
  by (rule keeps_exec) (erule (1) totp_inv_update, blast+)

lemma keeps_CreateTOTPSecret: "keeps totp_inv (CreateTOTPSecret sec)"
  unfolding CreateTOTPSecret_def Let_def
  by (intro keeps_if keeps_bindp keeps_failp keeps_wall_clock keeps_in_tx_of keeps_totp_inv_update
      keeps_exec) (auto dest: totp_inv_insert)

lemma keeps_ConfirmTOTPSecret: "keeps totp_inv (ConfirmTOTPSecret tid i at)"
  unfolding ConfirmTOTPSecret_def
  by (intro keeps_if keeps_bindp keeps_failp keeps_ret keeps_in_tx_of keeps_totp_inv_update) auto

lemma keeps_RevokeTOTPSecret: "keeps totp_inv (RevokeTOTPSecret tid i at)"
  unfolding RevokeTOTPSecret_def
  by (intro keeps_if keeps_bindp keeps_failp keeps_ret keeps_in_tx_of keeps_totp_inv_update) auto

lemma keeps_ConsumeTOTPStep: "keeps totp_inv (ConsumeTOTPStep tid i prev step)"
  unfolding ConsumeTOTPStep_def
  by (intro keeps_if keeps_bindp keeps_ret keeps_in_tx_of keeps_totp_inv_update keeps_query)
    (auto simp: totp_row_ok_def split: option.split)

subsection \<open>The compare-and-swap\<close>

definition consume_accepted :: "totp_consume res \<Rightarrow> bool" where
  "consume_accepted r \<longleftrightarrow> (case r of Inl _ \<Rightarrow> False | Inr c \<Rightarrow> tc_accepted c)"

text \<open>The row a secret's identifier names, and the state in which \<open>step\<close> can no longer be spent.\<close>

definition totp_spent :: "string \<Rightarrow> string \<Rightarrow> int \<Rightarrow> tables \<Rightarrow> bool" where
  "totp_spent tenantID secretID step t \<longleftrightarrow>
     (\<exists>r \<in> set (tb_totp t). ts_tenant r = tenantID \<and> ts_id r = secretID
        \<and> step \<le> ts_last_step r)"

lemma ConsumeTOTPStep_outcome:
  assumes run: "ConsumeTOTPStep tid i prev step s = (r, s')" and inv: "totp_inv (os_db s)"
  shows "os_db s' = os_db s \<and> \<not> consume_accepted r
    \<or> prev < step
      \<and> (\<exists>row \<in> set (tb_totp (os_db s)). ts_tenant row = tid \<and> ts_id row = i
           \<and> ts_last_step row = prev \<and> ts_revoked row = None)
      \<and> os_db s' = os_db s\<lparr>tb_totp := update_where
           (\<lambda>x. ts_tenant x = tid \<and> ts_id x = i \<and> ts_last_step x = prev \<and> ts_revoked x = None)
           (\<lambda>x. x\<lparr>ts_last_step := step\<rparr>) (tb_totp (os_db s))\<rparr>
      \<and> r = Inr \<lparr>tc_accepted = True, tc_previous = prev\<rparr>"
proof (cases "step \<le> prev")
  case True
  with run show ?thesis by (auto simp: ConsumeTOTPStep_def ret_def consume_accepted_def)
next
  case False
  let ?p = "\<lambda>x. ts_tenant x = tid \<and> ts_id x = i \<and> ts_last_step x = prev \<and> ts_revoked x = None"
  have p_eq: "(\<lambda>x. ts_tenant x = tid \<and> ts_id x = i \<and> ts_last_step x = prev
      \<and> step > ts_last_step x \<and> ts_revoked x = None) = ?p"
    using False by auto
  note run' = run [unfolded ConsumeTOTPStep_def if_not_P [OF False] p_eq]
  show ?thesis
  proof (cases r)
    case (Inl e)
    with run' show ?thesis by (auto dest: in_tx_Inl simp: consume_accepted_def)
  next
    case (Inr c)
    obtain n s3 s2 where
      upd0: "totp_update ?p (\<lambda>x. x\<lparr>ts_last_step := step\<rparr>) (os_db s) = Inr (n, os_db s3)"
      and rest: "(if n = 1 then ret \<lparr>tc_accepted = True, tc_previous = prev\<rparr>
             else bindp
               (query raw_error (\<lambda>t. find_row (\<lambda>r. ts_tenant r = tid \<and> ts_id r = i) (tb_totp t)))
               (\<lambda>found. case found of
                  None \<Rightarrow> failp ErrNotFound
                | Some r \<Rightarrow> ret \<lparr>tc_accepted = False, tc_previous = ts_last_step r\<rparr>)) s3 = (Inr c, s2)"
      and db: "os_db s' = os_db s2"
      by (rule in_tx_exec_Inr [OF run' [unfolded Inr]])
    from upd0 have upd: "n = count_where ?p (tb_totp (os_db s))"
      "os_db s3 = os_db s\<lparr>tb_totp := update_where ?p (\<lambda>x. x\<lparr>ts_last_step := step\<rparr>) (tb_totp (os_db s))\<rparr>"
      by (auto simp: totp_update_def)
    have le1: "n \<le> 1"
      unfolding upd(1) by (rule count_where_key_le_1 [where key = ts_id and k = i])
        (use inv in \<open>auto simp: totp_inv_def\<close>)
    show ?thesis
    proof (cases "n = 1")
      case True
      with upd(1) have "\<exists>row \<in> set (tb_totp (os_db s)). ?p row"
        using count_where_pos [of ?p] by fastforce
      with True rest db upd False Inr show ?thesis by (auto simp: ret_def)
    next
      case n: False
      with le1 upd(1) have "n = 0" using count_where_nonneg [of ?p] by (smt (verit))
      with upd have "os_db s3 = os_db s"
        by (simp add: update_where_none count_where_zero)
      with n rest db Inr show ?thesis
        by (auto simp: bindp_Inr ret_def failp_def consume_accepted_def split: option.splits
            dest!: query_frame)
    qed
  qed
qed

lemma totp_spent_update:
  assumes "totp_spent tid i step t" and "totp_update p f t = Inr (n, t')"
    and "\<And>r. ts_id (f r) = ts_id r \<and> ts_tenant (f r) = ts_tenant r"
    and "\<And>r. p r \<Longrightarrow> ts_last_step r \<le> ts_last_step (f r)"
  shows "totp_spent tid i step t'"
proof -
  from assms(1) obtain r where r: "r \<in> set (tb_totp t)" "ts_tenant r = tid" "ts_id r = i"
    "step \<le> ts_last_step r"
    by (auto simp: totp_spent_def)
  let ?r = "if p r then f r else r"
  from r(1) have "?r \<in> set (update_where p f (tb_totp t))"
    by (auto simp: update_where_def)
  moreover have "ts_tenant ?r = tid" "ts_id ?r = i" "step \<le> ts_last_step ?r"
    using r assms(3) [of r] assms(4) [of r] by auto
  ultimately have "\<exists>x \<in> set (update_where p f (tb_totp t)).
      ts_tenant x = tid \<and> ts_id x = i \<and> step \<le> ts_last_step x"
    by blast
  with assms(2) show ?thesis by (auto simp: totp_spent_def totp_update_def)
qed

lemma keeps_spent_update:
  "(\<And>r. ts_id (f r) = ts_id r \<and> ts_tenant (f r) = ts_tenant r)
     \<Longrightarrow> (\<And>r. p r \<Longrightarrow> ts_last_step r \<le> ts_last_step (f r))
     \<Longrightarrow> keeps (totp_spent tid i step) (exec w (totp_update p f))"
  by (rule keeps_exec) (erule (1) totp_spent_update, blast+)

lemma keeps_spent_insert: "keeps (totp_spent tid i step) (exec w (totp_insert r))"
  by (rule keeps_exec)
    (auto simp: totp_spent_def totp_insert_def insert_row_Inr split: if_splits sum.splits)

lemma spent_CreateTOTPSecret: "keeps (totp_spent tid i step) (CreateTOTPSecret sec)"
  unfolding CreateTOTPSecret_def Let_def
  by (intro keeps_if keeps_bindp keeps_failp keeps_wall_clock keeps_in_tx_of keeps_spent_update
      keeps_spent_insert) auto

lemma spent_ConfirmTOTPSecret: "keeps (totp_spent tid i step) (ConfirmTOTPSecret tid' j at)"
  unfolding ConfirmTOTPSecret_def
  by (intro keeps_if keeps_bindp keeps_failp keeps_ret keeps_in_tx_of keeps_spent_update) auto

lemma spent_RevokeTOTPSecret: "keeps (totp_spent tid i step) (RevokeTOTPSecret tid' j at)"
  unfolding RevokeTOTPSecret_def
  by (intro keeps_if keeps_bindp keeps_failp keeps_ret keeps_in_tx_of keeps_spent_update) auto

lemma spent_ConsumeTOTPStep: "keeps (totp_spent tid i step) (ConsumeTOTPStep tid' j prev st)"
  unfolding ConsumeTOTPStep_def
  by (intro keeps_if keeps_bindp keeps_ret keeps_in_tx_of keeps_spent_update keeps_query)
    (auto split: option.split)

subsection \<open>A step is spent at most once\<close>

text \<open>
  An attempt to spend \<open>step\<close> of one secret, with whatever previous value the caller read;
  and every other step of the system: the operations on TOTP secrets, this secret's and the
  others', and any step that leaves the table of secrets alone (other tables, the clock,
  the script of engine failures). Rows are never removed here: the only statement that
  deletes secrets is the purge of a whole subject, outside this component.
\<close>

definition totp_attempt :: "string \<Rightarrow> string \<Rightarrow> int \<Rightarrow> db \<Rightarrow> bool \<Rightarrow> db \<Rightarrow> bool" where
  "totp_attempt tid i step s b s' \<longleftrightarrow>
     (\<exists>prev r. ConsumeTOTPStep tid i prev step s = (r, s') \<and> b = consume_accepted r)"

inductive totp_other :: "db \<Rightarrow> db \<Rightarrow> bool" where
  create: "CreateTOTPSecret sec s = (r, s') \<Longrightarrow> totp_other s s'"
| confirm: "ConfirmTOTPSecret tid i at s = (q, s') \<Longrightarrow> totp_other s s'"
| revoke: "RevokeTOTPSecret tid i at s = (q, s') \<Longrightarrow> totp_other s s'"
| consume: "ConsumeTOTPStep tid i prev step s = (c, s') \<Longrightarrow> totp_other s s'"
| frame: "tb_totp (os_db s') = tb_totp (os_db s) \<Longrightarrow> totp_other s s'"

lemma totp_other_keeps:
  "totp_other s s' \<Longrightarrow> totp_inv (os_db s) \<Longrightarrow>
     totp_inv (os_db s') \<and> (totp_spent tid i step (os_db s) \<longrightarrow> totp_spent tid i step (os_db s'))"
proof (induction rule: totp_other.induct)
  case (frame s' s)
  then show ?case by (simp add: totp_inv_def totp_spent_def)
qed (blast dest: keepsD [OF keeps_CreateTOTPSecret] keepsD [OF spent_CreateTOTPSecret]
    keepsD [OF keeps_ConfirmTOTPSecret] keepsD [OF spent_ConfirmTOTPSecret]
    keepsD [OF keeps_RevokeTOTPSecret] keepsD [OF spent_RevokeTOTPSecret]
    keepsD [OF keeps_ConsumeTOTPStep] keepsD [OF spent_ConsumeTOTPStep])+

lemma totp_attempt_fresh:
  assumes "totp_inv (os_db s)" and "totp_attempt tid i step s True s'"
  shows "\<not> totp_spent tid i step (os_db s) \<and> totp_spent tid i step (os_db s')"
proof -
  from assms(2) obtain prev r where "ConsumeTOTPStep tid i prev step s = (r, s')" "consume_accepted r"
    by (auto simp: totp_attempt_def)
  with ConsumeTOTPStep_outcome [OF this(1) assms(1)] obtain row where lt: "prev < step"
    and row: "row \<in> set (tb_totp (os_db s))" "ts_tenant row = tid" "ts_id row = i"
      "ts_last_step row = prev" "ts_revoked row = None"
    and db: "os_db s' = os_db s\<lparr>tb_totp := update_where
           (\<lambda>x. ts_tenant x = tid \<and> ts_id x = i \<and> ts_last_step x = prev \<and> ts_revoked x = None)
           (\<lambda>x. x\<lparr>ts_last_step := step\<rparr>) (tb_totp (os_db s))\<rparr>"
    by blast
  have "distinct (map ts_id (tb_totp (os_db s)))" using assms(1) by (simp add: totp_inv_def)
  with row(1,3) have only: "x = row" if "x \<in> set (tb_totp (os_db s))" "ts_id x = i" for x
    using that by (metis distinct_map inj_onD)
  have "\<not> totp_spent tid i step (os_db s)"
    using only lt row(4) by (force simp: totp_spent_def)
  moreover have "totp_spent tid i step (os_db s')"
    unfolding totp_spent_def db
    by (rule bexI [of _ "row\<lparr>ts_last_step := step\<rparr>"]) (use row in \<open>auto simp: set_update_where\<close>)
  ultimately show ?thesis ..
qed

interpretation totp_cas: single_use "totp_attempt tid i step" totp_other
    "\<lambda>s. totp_spent tid i step (os_db s)" "\<lambda>s. totp_inv (os_db s)" for tid i step
proof unfold_locales
  fix s s' :: db and b
  assume inv: "totp_inv (os_db s)"
  show "totp_attempt tid i step s True s' \<Longrightarrow>
      \<not> totp_spent tid i step (os_db s) \<and> totp_spent tid i step (os_db s')"
    using inv by (rule totp_attempt_fresh)
  show "totp_attempt tid i step s b s' \<Longrightarrow>
      totp_inv (os_db s') \<and> (totp_spent tid i step (os_db s) \<longrightarrow> totp_spent tid i step (os_db s'))"
    using inv by (auto simp: totp_attempt_def dest: totp_other.consume totp_other_keeps)
  show "totp_other s s' \<Longrightarrow>
      totp_inv (os_db s') \<and> (totp_spent tid i step (os_db s) \<longrightarrow> totp_spent tid i step (os_db s'))"
    using inv by (simp add: totp_other_keeps)
qed

subsection \<open>Enrolment\<close>

lemma CreateTOTPSecret_outcome:
  assumes run: "CreateTOTPSecret sec s = (r, s')"
  shows "(\<forall>e. r = Inl e \<longrightarrow> os_db s' = os_db s) \<and>
    (r = Inr () \<longrightarrow> (\<exists>at. os_db s' = os_db s\<lparr>tb_totp := update_where
           (\<lambda>x. ts_tenant x = ts_tenant sec \<and> ts_subject x = ts_subject sec
              \<and> ts_revoked x = None \<and> ts_confirmed x = None)
           (\<lambda>x. x\<lparr>ts_revoked := Some at\<rparr>) (tb_totp (os_db s)) @ [sec\<lparr>ts_created := at\<rparr>]\<rparr>
         \<and> (\<not> is_zero_time (ts_created sec) \<longrightarrow> at = ts_created sec)))"
proof (cases "ts_id sec = '''' \<or> ts_tenant sec = '''' \<or> ts_subject sec = '''' \<or> length (ts_sealed sec) = 0")
  case True
  with run show ?thesis by (auto simp: CreateTOTPSecret_def failp_def split: if_splits)
next
  case False
  define sec' where "sec' = (if is_zero_time (ts_created sec) then sec\<lparr>ts_created := os_wall s\<rparr> else sec)"
  let ?upd = "totp_update
             (\<lambda>r. ts_tenant r = ts_tenant sec' \<and> ts_subject r = ts_subject sec'
                \<and> ts_revoked r = None \<and> ts_confirmed r = None)
             (\<lambda>r. r\<lparr>ts_revoked := Some (ts_created sec')\<rparr>)"
  from False run have run': "in_tx (bindp (exec map_error ?upd) (\<lambda>_. exec map_error (totp_insert sec'))) s = (r, s')"
    by (simp add: CreateTOTPSecret_def bindp_def wall_clock_def sec'_def Let_def)
  have same: "ts_tenant sec' = ts_tenant sec" "ts_subject sec' = ts_subject sec"
    "sec' = sec\<lparr>ts_created := ts_created sec'\<rparr>"
    by (simp_all add: sec'_def)
  show ?thesis
  proof (cases r)
    case (Inl e)
    with run' show ?thesis by (auto dest: in_tx_Inl)
  next
    case (Inr u)
    obtain n s3 s2 where upd: "?upd (os_db s) = Inr (n, os_db s3)"
      and ins: "exec map_error (totp_insert sec') s3 = (Inr u, s2)" and db: "os_db s' = os_db s2"
      by (rule in_tx_exec_Inr [OF run' [unfolded Inr]])
    from exec_Inr [OF ins] have "totp_insert sec' (os_db s3) = Inr (u, os_db s2)" by simp
    moreover from upd have "os_db s3 = os_db s\<lparr>tb_totp := update_where
           (\<lambda>x. ts_tenant x = ts_tenant sec' \<and> ts_subject x = ts_subject sec'
              \<and> ts_revoked x = None \<and> ts_confirmed x = None)
           (\<lambda>x. x\<lparr>ts_revoked := Some (ts_created sec')\<rparr>) (tb_totp (os_db s))\<rparr>"
      by (simp add: totp_update_def)
    ultimately have A: "os_db s' = os_db s\<lparr>tb_totp := update_where
           (\<lambda>x. ts_tenant x = ts_tenant sec \<and> ts_subject x = ts_subject sec
              \<and> ts_revoked x = None \<and> ts_confirmed x = None)
           (\<lambda>x. x\<lparr>ts_revoked := Some (ts_created sec')\<rparr>) (tb_totp (os_db s))
         @ [sec\<lparr>ts_created := ts_created sec'\<rparr>]\<rparr>"
      unfolding same(1,2) same(3) [symmetric] using db by (auto simp: totp_insert_def insert_row_Inr split: if_splits sum.splits)
    have B: "\<not> is_zero_time (ts_created sec) \<longrightarrow> ts_created sec' = ts_created sec"
      by (simp add: sec'_def)
    show ?thesis
      unfolding Inr using A B by (intro conjI impI allI exI [of _ "ts_created sec'"]) simp_all
  qed
qed

subsection \<open>Properties\<close>

text \<open>
  C5: a TOTP step is accepted at most once. In any interleaving of attempts to consume
  one step of one secret (with any previously read counter) with the other operations on
  TOTP secrets, and under any engine failures, at most one attempt is accepted, and none
  when the counter had already reached the step.
\<close>

theorem totp_step_at_most_once:
  assumes "spend_run (totp_attempt tid i step) totp_other s n u" and "totp_inv (os_db s)"
  shows "n \<le> 1 \<and> (totp_spent tid i step (os_db s) \<longrightarrow> n = 0)"
  using totp_cas.at_most_once [OF assms] totp_cas.never_again [OF assms] by blast

definition demo_secret :: totp_secret where
  "demo_secret = \<lparr>ts_id = ''k1'', ts_tenant = ''t'', ts_subject = ''u'', ts_sealed = [1],
     ts_algorithm = ''SHA1'', ts_digits = 6, ts_period = 30, ts_last_step = 5, ts_label = [],
     ts_created = 10, ts_confirmed = Some 11, ts_revoked = None\<rparr>"

definition demo_subject :: subject where
  "demo_subject = \<lparr>sb_id = ''u'', sb_tenant = ''t'', sb_ref_hmac = [7], sb_ref_sealed = [8], sb_display = [],
     sb_status = SubjectActive, sb_created = 1, sb_updated = 1, sb_deleted = None\<rparr>"

definition demo_totp_db :: db where
  "demo_totp_db = fresh_os 100 (empty_tables\<lparr>tb_subjects := [demo_subject], tb_totp := [demo_secret]\<rparr>)"

lemma demo_totp_inv: "totp_inv (os_db demo_totp_db)"
  by (simp add: demo_totp_db_def demo_secret_def totp_inv_def totp_row_ok_def)

lemma demo_totp_accept:
  "ConsumeTOTPStep ''t'' ''k1'' 5 7 demo_totp_db =
     (Inr \<lparr>tc_accepted = True, tc_previous = 5\<rparr>,
      demo_totp_db\<lparr>os_db := empty_tables\<lparr>tb_subjects := [demo_subject], tb_totp := [demo_secret\<lparr>ts_last_step := 7\<rparr>]\<rparr>\<rparr>)"
  by (simp add: ConsumeTOTPStep_def demo_totp_db_def demo_secret_def tx_simps totp_update_def)

theorem totp_step_at_most_once_witness:
  "\<exists>n u. spend_run (totp_attempt ''t'' ''k1'' 7) totp_other demo_totp_db n u \<and> n = 1 \<and> n \<le> 1"
proof -
  have "spend_run (totp_attempt ''t'' ''k1'' 7) totp_other demo_totp_db (Suc 0)
      (demo_totp_db\<lparr>os_db := empty_tables\<lparr>tb_subjects := [demo_subject], tb_totp := [demo_secret\<lparr>ts_last_step := 7\<rparr>]\<rparr>\<rparr>)"
  proof (rule run_accept [OF run_start])
    show "totp_attempt ''t'' ''k1'' 7 demo_totp_db True
      (demo_totp_db\<lparr>os_db := empty_tables\<lparr>tb_subjects := [demo_subject], tb_totp := [demo_secret\<lparr>ts_last_step := 7\<rparr>]\<rparr>\<rparr>)"
      unfolding totp_attempt_def using demo_totp_accept by (fastforce simp: consume_accepted_def)
  qed
  with totp_step_at_most_once [OF this demo_totp_inv] show ?thesis by auto
qed

text \<open>
  Enrolling twice never leaves two pending secrets, and an unproved secret is never
  usable. After a successful \<^verbatim>\<open>CreateTOTPSecret\<close> of an unconfirmed secret, the new secret is
  the only pending one of its subject, and the active secret \<^verbatim>\<open>GetActiveTOTPSecret\<close> returns
  (when the engine answers) is confirmed, unrevoked, and was already in the table before;
  a failed creation leaves the database as it was.
\<close>

theorem totp_enrolment:
  assumes "CreateTOTPSecret sec s = (r, s')" and "ts_confirmed sec = None" and "ts_revoked sec = None"
  shows "(r = Inr () \<longrightarrow>
      (\<exists>at. {x \<in> set (tb_totp (os_db s')). ts_tenant x = ts_tenant sec \<and> ts_subject x = ts_subject sec
              \<and> ts_confirmed x = None \<and> ts_revoked x = None} = {sec\<lparr>ts_created := at\<rparr>}) \<and>
      (\<forall>a s''. GetActiveTOTPSecret (ts_tenant sec) (ts_subject sec) s' = (Inr a, s'') \<longrightarrow>
         a \<in> set (tb_totp (os_db s)) \<and> ts_confirmed a \<noteq> None \<and> ts_revoked a = None)) \<and>
    (is_ok r \<or> os_db s' = os_db s)"
proof (cases r)
  case (Inl e)
  with CreateTOTPSecret_outcome [OF assms(1)] show ?thesis by simp
next
  case (Inr u)
  then have "r = Inr ()" by simp
  with CreateTOTPSecret_outcome [OF assms(1)] obtain at where "os_db s' = os_db s\<lparr>tb_totp := update_where
           (\<lambda>x. ts_tenant x = ts_tenant sec \<and> ts_subject x = ts_subject sec
              \<and> ts_revoked x = None \<and> ts_confirmed x = None)
           (\<lambda>x. x\<lparr>ts_revoked := Some at\<rparr>) (tb_totp (os_db s)) @ [sec\<lparr>ts_created := at\<rparr>]\<rparr>"
    by blast
  then have db: "tb_totp (os_db s') = update_where
           (\<lambda>x. ts_tenant x = ts_tenant sec \<and> ts_subject x = ts_subject sec
              \<and> ts_revoked x = None \<and> ts_confirmed x = None)
           (\<lambda>x. x\<lparr>ts_revoked := Some at\<rparr>) (tb_totp (os_db s)) @ [sec\<lparr>ts_created := at\<rparr>]"
    by simp
  have "a \<in> set (tb_totp (os_db s)) \<and> ts_confirmed a \<noteq> None \<and> ts_revoked a = None"
    if "GetActiveTOTPSecret (ts_tenant sec) (ts_subject sec) s' = (Inr a, s'')" for a s''
  proof -
    from latest_by_Some [OF query_row_Inr [OF that [unfolded GetActiveTOTPSecret_def]]]
    have a: "a \<in> set (tb_totp (os_db s'))" "ts_confirmed a \<noteq> None" "ts_revoked a = None" by auto
    from a(1) show ?thesis unfolding db set_append set_update_where using a(2,3) assms(2) by auto
  qed
  moreover have "{x \<in> set (tb_totp (os_db s')). ts_tenant x = ts_tenant sec \<and> ts_subject x = ts_subject sec
              \<and> ts_confirmed x = None \<and> ts_revoked x = None} = {sec\<lparr>ts_created := at\<rparr>}"
    unfolding db set_append set_update_where using assms(2,3) by auto
  ultimately show ?thesis using Inr by auto
qed

theorem totp_enrolment_witness:
  "fst (CreateTOTPSecret (demo_secret\<lparr>ts_id := ''k2'', ts_confirmed := None\<rparr>) demo_totp_db) = Inr () \<and>
   (\<exists>at. {x \<in> set (tb_totp (os_db (snd (CreateTOTPSecret
             (demo_secret\<lparr>ts_id := ''k2'', ts_confirmed := None\<rparr>) demo_totp_db)))).
        ts_tenant x = ''t'' \<and> ts_subject x = ''u'' \<and> ts_confirmed x = None \<and> ts_revoked x = None}
      = {demo_secret\<lparr>ts_id := ''k2'', ts_confirmed := None, ts_created := at\<rparr>})"
proof -
  let ?sec = "demo_secret\<lparr>ts_id := ''k2'', ts_confirmed := None\<rparr>"
  have ok: "fst (CreateTOTPSecret ?sec demo_totp_db) = Inr ()"
    by (simp add: CreateTOTPSecret_def demo_totp_db_def demo_secret_def tx_simps totp_update_def
        totp_insert_def totp_clash_def totp_pending_def subject_exists_def demo_subject_def totp_row_ok_def
        insert_row_def wall_clock_def is_zero_time_def zero_time_def)
  have "CreateTOTPSecret ?sec demo_totp_db =
      (fst (CreateTOTPSecret ?sec demo_totp_db), snd (CreateTOTPSecret ?sec demo_totp_db))"
    by simp
  from totp_enrolment [OF this] ok show ?thesis by (simp add: demo_secret_def)
qed

end
