(* ===== verification/Throttle_Interface.thy ===== *)
theory Throttle_Interface
  imports Models
begin

text \<open>
  The interface \<^verbatim>\<open>store.ThrottleStore\<close> (\<^verbatim>\<open>internal/store/store.go\<close>): the operations the
  limiter calls, as a record of functions over the store's state, and the contract each
  promises, as a locale. The contract speaks of a view of the state: which bucket, if any,
  is kept under a tenant and a key.
\<close>

record 's throttle_ops =
  op_hit :: "string \<Rightarrow> string \<Rightarrow> string \<Rightarrow> duration \<Rightarrow> instant \<Rightarrow> bool \<Rightarrow> ('s, throttle_state) call"
  op_block :: "string \<Rightarrow> string \<Rightarrow> instant \<Rightarrow> ('s, unit) call"
  op_get :: "string \<Rightarrow> string \<Rightarrow> ('s, throttle_state) call"
  op_reset :: "string \<Rightarrow> string \<Rightarrow> ('s, unit) call"
  op_reset_subject :: "string \<Rightarrow> string \<Rightarrow> ('s, int) call"
  op_delete_stale :: "instant \<Rightarrow> ('s, int) call"

type_synonym buckets = "string \<times> string \<Rightarrow> throttle_state option"

text \<open>
  What one attempt makes of a bucket: the counters restart when the window has run out, and
  count on otherwise; a block is never touched, and neither is a known owner.
\<close>

definition fail_inc :: "bool \<Rightarrow> int" where
  "fail_inc failure = (if failure then 1 else 0)"

definition window_over :: "duration \<Rightarrow> instant \<Rightarrow> throttle_state \<Rightarrow> bool" where
  "window_over window now st \<longleftrightarrow> th_window st \<le> now - window"

fun hit_state :: "throttle_state option \<Rightarrow> string \<Rightarrow> string \<Rightarrow> string \<Rightarrow> duration \<Rightarrow> instant \<Rightarrow> bool
    \<Rightarrow> throttle_state" where
  "hit_state None tenant key subject window now failure =
     \<lparr>th_key = key, th_tenant = tenant, th_subject = subject, th_window = now, th_attempts = 1,
      th_failures = fail_inc failure, th_blocked = None, th_updated = now\<rparr>"
| "hit_state (Some st) tenant key subject window now failure =
     st\<lparr>th_subject := (if th_subject st = [] then subject else th_subject st),
        th_window := (if window_over window now st then now else th_window st),
        th_attempts := (if window_over window now st then 1 else th_attempts st + 1),
        th_failures := (if window_over window now st then fail_inc failure
                        else th_failures st + fail_inc failure),
        th_updated := now\<rparr>"

text \<open>The buckets a subject's reset removes, and those the sweep of stale buckets removes.\<close>

definition owned_by :: "string \<Rightarrow> string \<Rightarrow> string \<times> string \<Rightarrow> throttle_state \<Rightarrow> bool" where
  "owned_by tenant subject tk st \<longleftrightarrow> fst tk = tenant \<and> th_subject st = subject"

definition stale_bucket :: "instant \<Rightarrow> throttle_state \<Rightarrow> bool" where
  "stale_bucket cutoff st \<longleftrightarrow> th_updated st < cutoff
     \<and> (case th_blocked st of None \<Rightarrow> True | Some u \<Rightarrow> u < cutoff)"

definition without :: "(string \<times> string \<Rightarrow> throttle_state \<Rightarrow> bool) \<Rightarrow> buckets \<Rightarrow> buckets" where
  "without p m tk = (case m tk of None \<Rightarrow> None | Some st \<Rightarrow> if p tk st then None else Some st)"

lemma hit_state_known [simp]:
  "th_blocked (hit_state (Some st) t k sj w now f) = th_blocked st"
  "th_blocked (hit_state None t k sj w now f) = None"
  by simp_all

lemma hit_state_blocked:
  "th_blocked (hit_state b t k sj w now f) = (case b of None \<Rightarrow> None | Some st \<Rightarrow> th_blocked st)"
  by (cases b) simp_all

text \<open>
  The contract. \<open>ready\<close> says the store answers every well-formed request; a law that does not
  mention it holds whatever the store's health. \<open>inv\<close> is the store's own invariant.
\<close>

locale throttle_store =
  fixes ops :: "'s throttle_ops"
    and view :: "'s \<Rightarrow> buckets"
    and inv :: "'s \<Rightarrow> bool"
    and ready :: "'s \<Rightarrow> bool"
  assumes hit_law: "op_hit ops t k sj w now f s = (Inr st, s') \<Longrightarrow>
      st = hit_state (view s (t, k)) t k sj w now f \<and> view s' = (view s)((t, k) \<mapsto> st)"
    and hit_error: "op_hit ops t k sj w now f s = (Inl e, s') \<Longrightarrow> view s' = view s"
    and hit_ready: "ready s \<Longrightarrow> t \<noteq> [] \<Longrightarrow> k \<noteq> [] \<Longrightarrow> 0 < w \<Longrightarrow>
      \<exists>st s'. op_hit ops t k sj w now f s = (Inr st, s') \<and> ready s'"
    and block_law: "op_block ops t k u s = (Inr x, s') \<Longrightarrow>
      \<exists>st. view s' = (view s)((t, k) \<mapsto> st) \<and> th_blocked st = Some u
        \<and> (\<forall>st0. view s (t, k) = Some st0 \<longrightarrow>
             st = st0\<lparr>th_blocked := Some u, th_updated := th_updated st\<rparr>)
        \<and> (view s (t, k) = None \<longrightarrow> th_attempts st = 0 \<and> th_failures st = 0 \<and> th_subject st = [])"
    and block_error: "op_block ops t k u s = (Inl e, s') \<Longrightarrow> view s' = view s"
    and block_ready: "ready s \<Longrightarrow> t \<noteq> [] \<Longrightarrow> k \<noteq> [] \<Longrightarrow>
      \<exists>s'. op_block ops t k u s = (Inr (), s') \<and> ready s'"
    and get_law: "op_get ops t k s = (Inr st, s') \<Longrightarrow> view s (t, k) = Some st \<and> view s' = view s"
    and get_error: "op_get ops t k s = (Inl e, s') \<Longrightarrow>
      view s' = view s \<and> (e = ErrNotFound \<longrightarrow> view s (t, k) = None)"
    and get_ready: "ready s \<Longrightarrow>
      \<exists>s'. op_get ops t k s = ((case view s (t, k) of None \<Rightarrow> Inl ErrNotFound | Some st \<Rightarrow> Inr st), s')
         \<and> ready s'"
    and reset_law: "op_reset ops t k s = (Inr x, s') \<Longrightarrow> view s' = (view s)((t, k) := None)"
    and reset_error: "op_reset ops t k s = (Inl e, s') \<Longrightarrow>
      view s' = view s \<and> (e = ErrNotFound \<longrightarrow> view s (t, k) = None)"
    and reset_ready: "ready s \<Longrightarrow>
      \<exists>r s'. op_reset ops t k s = (r, s') \<and> (r = Inr () \<or> r = Inl ErrNotFound) \<and> ready s'"
    and reset_subject_law: "inv s \<Longrightarrow> op_reset_subject ops t sj s = (Inr n, s') \<Longrightarrow>
      view s' = without (owned_by t sj) (view s)"
    and reset_subject_error: "op_reset_subject ops t sj s = (Inl e, s') \<Longrightarrow>
      view s' = view s \<and> e \<noteq> ErrNotFound"
    and delete_stale_law: "inv s \<Longrightarrow> op_delete_stale ops cutoff s = (Inr n, s') \<Longrightarrow>
      view s' = without (\<lambda>_. stale_bucket cutoff) (view s)"
    and delete_stale_error: "op_delete_stale ops cutoff s = (Inl e, s') \<Longrightarrow> view s' = view s"
    and hit_inv: "op_hit ops t k sj w now f s = (rh, s') \<Longrightarrow> inv s \<Longrightarrow> inv s'"
    and block_inv: "op_block ops t k u s = (rb, s') \<Longrightarrow> inv s \<Longrightarrow> inv s'"
    and get_inv: "op_get ops t k s = (rg, s') \<Longrightarrow> inv s \<Longrightarrow> inv s'"
    and reset_inv: "op_reset ops t k s = (rr, s') \<Longrightarrow> inv s \<Longrightarrow> inv s'"
    and reset_subject_inv: "op_reset_subject ops t sj s = (rn, s') \<Longrightarrow> inv s \<Longrightarrow> inv s'"
    and delete_stale_inv: "op_delete_stale ops cutoff s = (rn, s') \<Longrightarrow> inv s \<Longrightarrow> inv s'"
    and counters_inv: "inv s \<Longrightarrow> view s (t, k) = Some st \<Longrightarrow>
      0 \<le> th_failures st \<and> th_failures st \<le> th_attempts st"
begin

text \<open>A call of \<open>op_reset\<close> whose missing row is tolerated leaves no bucket under the key.\<close>

lemma reset_gone:
  assumes "op_reset ops t k s = (r, s')" and "r = Inl ErrNotFound \<or> is_ok r"
  shows "view s' = (view s)((t, k) := None)"
  using assms by (cases r) (auto dest!: reset_law reset_error)

end

end
