(* ===== verification/Go_Net.thy ===== *)
theory Go_Net
  imports Go_Strings
begin

unbundle bit_operations_syntax

text \<open>
  The parts of Go's \<^verbatim>\<open>net\<close> and \<^verbatim>\<open>net/netip\<close> packages the program calls on addresses:
  \<^verbatim>\<open>ParseIP\<close>, \<^verbatim>\<open>ParseCIDR\<close>, \<^verbatim>\<open>SplitHostPort\<close>, \<^verbatim>\<open>IP.To4\<close>, \<^verbatim>\<open>IP.Mask\<close> and
  \<^verbatim>\<open>IP.String\<close>. An \<^verbatim>\<open>IP\<close> is a list of 4 or 16 bytes.
\<close>

subsection \<open>Parsing\<close>

definition dec_value :: "char \<Rightarrow> nat option" where
  "dec_value c = (let n = (of_char c :: nat) in if 48 \<le> n \<and> n \<le> 57 then Some (n - 48) else None)"

text \<open>\<^verbatim>\<open>parseIPv4Fields\<close>: the digits read of the current field, its value, the fields before.\<close>

fun v4_loop :: "string \<Rightarrow> nat \<Rightarrow> nat \<Rightarrow> bytes \<Rightarrow> bytes option" where
  "v4_loop [] d v acc = (if d = 0 \<or> length acc < 3 then None else Some (acc @ [of_nat v]))"
| "v4_loop (c # cs) d v acc =
     (case dec_value c of
        Some n \<Rightarrow>
          if d = 1 \<and> v = 0 then None
          else if v * 10 + n > 255 then None
          else v4_loop cs (Suc d) (v * 10 + n) acc
      | None \<Rightarrow>
          if c \<noteq> CHR ''.'' then None
          else if d = 0 \<or> cs = [] then None
          else if length acc = 3 then None
          else v4_loop cs 0 0 (acc @ [of_nat v]))"

definition parseIPv4 :: "string \<Rightarrow> bytes option" where
  "parseIPv4 s = v4_loop s 0 0 []"

text \<open>One hexadecimal group: how many digits, its value, what follows.\<close>

fun take_hex :: "string \<Rightarrow> nat \<Rightarrow> nat \<Rightarrow> (nat \<times> nat \<times> string) option" where
  "take_hex [] off acc = Some (off, acc, [])"
| "take_hex (c # cs) off acc =
     (case hex_value c of
        None \<Rightarrow> Some (off, acc, c # cs)
      | Some n \<Rightarrow> if off > 3 then None else take_hex cs (Suc off) (acc * 16 + n))"

text \<open>
  The loop of \<^verbatim>\<open>parseIPv6\<close>. The first argument is how many two-byte groups are still to
  come, which is the loop's bound; \<open>e\<close> is the position of the ellipsis.
\<close>

fun v6_loop :: "nat \<Rightarrow> string \<Rightarrow> bytes \<Rightarrow> nat option \<Rightarrow> (string \<times> bytes \<times> nat option) option" where
  "v6_loop 0 s acc e = Some (s, acc, e)"
| "v6_loop (Suc k) s acc e =
     (case take_hex s 0 0 of
        None \<Rightarrow> None
      | Some (off, v, rest) \<Rightarrow>
          if off = 0 then None
          else if rest \<noteq> [] \<and> hd rest = CHR ''.'' then
            (if e = None \<and> length acc \<noteq> 12 then None
             else if length acc + 4 > 16 then None
             else case v4_loop s 0 0 [] of
                    None \<Rightarrow> None
                  | Some q \<Rightarrow> Some ([], acc @ q, e))
          else
            (let acc' = acc @ [of_nat (v div 256), of_nat (v mod 256)] in
             case rest of
               [] \<Rightarrow> Some ([], acc', e)
             | c # cs \<Rightarrow>
                 if c \<noteq> CHR '':'' then None
                 else if cs = [] then None
                 else if hd cs = CHR '':'' then
                   (if e \<noteq> None then None
                    else if tl cs = [] then Some ([], acc', Some (length acc'))
                    else v6_loop k (tl cs) acc' (Some (length acc')))
                 else v6_loop k cs acc' e))"

definition v6_expand :: "string \<times> bytes \<times> nat option \<Rightarrow> bytes option" where
  "v6_expand r = (case r of (s, acc, e) \<Rightarrow>
     if s \<noteq> [] then None
     else if length acc < 16 then
       (case e of
          None \<Rightarrow> None
        | Some p \<Rightarrow> Some (take p acc @ replicate (16 - length acc) 0 @ drop p acc))
     else if e \<noteq> None then None
     else Some acc)"

text \<open>\<^verbatim>\<open>parseIPv6\<close>, answering the address and its zone.\<close>

definition parseIPv6 :: "string \<Rightarrow> (bytes \<times> string) option" where
  "parseIPv6 inp =
     (let (s, zone, bad) = (case index_byte (CHR ''%'') inp of
            None \<Rightarrow> (inp, [], False)
          | Some i \<Rightarrow> (take i inp, drop (Suc i) inp, drop (Suc i) inp = [])) in
      if bad then None
      else if length s \<ge> 2 \<and> s ! 0 = CHR '':'' \<and> s ! 1 = CHR '':'' then
        (if drop 2 s = [] then Some (replicate 16 0, zone)
         else map_option (\<lambda>ip. (ip, zone))
                (Option.bind (v6_loop 8 (drop 2 s) [] (Some 0)) v6_expand))
      else map_option (\<lambda>ip. (ip, zone)) (Option.bind (v6_loop 8 s [] None) v6_expand))"

text \<open>\<^verbatim>\<open>netip.ParseAddr\<close>: the first dot, colon or percent sign decides the family.\<close>

datatype addr = Addr4 bytes | Addr6 bytes string

fun ParseAddr_scan :: "string \<Rightarrow> string \<Rightarrow> addr option" where
  "ParseAddr_scan s [] = None"
| "ParseAddr_scan s (c # cs) =
     (if c = CHR ''.'' then map_option Addr4 (parseIPv4 s)
      else if c = CHR '':'' then map_option (\<lambda>(ip, zone). Addr6 ip zone) (parseIPv6 s)
      else if c = CHR ''%'' then None
      else ParseAddr_scan s cs)"

definition ParseAddr :: "string \<Rightarrow> addr option" where
  "ParseAddr s = ParseAddr_scan s s"

definition v4_in_v6 :: bytes where
  "v4_in_v6 = replicate 10 0 @ [255, 255]"

fun As16 :: "addr \<Rightarrow> bytes" where
  "As16 (Addr4 b) = v4_in_v6 @ b"
| "As16 (Addr6 b _) = b"

fun zone_of :: "addr \<Rightarrow> string" where
  "zone_of (Addr4 _) = []"
| "zone_of (Addr6 _ z) = z"

fun BitLen :: "addr \<Rightarrow> nat" where
  "BitLen (Addr4 _) = 32"
| "BitLen (Addr6 _ _) = 128"

definition ParseIP :: "string \<Rightarrow> bytes option" where
  "ParseIP s = (case ParseAddr s of
     None \<Rightarrow> None
   | Some a \<Rightarrow> if zone_of a \<noteq> [] then None else Some (As16 a))"

definition To4 :: "bytes \<Rightarrow> bytes option" where
  "To4 ip =
     (if length ip = 4 then Some ip
      else if length ip = 16 \<and> take 10 ip = replicate 10 0 \<and> ip ! 10 = 255 \<and> ip ! 11 = 255
      then Some (drop 12 ip)
      else None)"

subsection \<open>Masks\<close>

definition mask_byte :: "nat \<Rightarrow> byte" where
  "mask_byte n = (if n \<ge> 8 then 255 else of_nat (256 - 2 ^ (8 - n)))"

definition CIDRMask :: "nat \<Rightarrow> nat \<Rightarrow> bytes" where
  "CIDRMask ones bits = map (\<lambda>i. mask_byte (ones - 8 * i)) [0..<bits div 8]"

definition Mask :: "bytes \<Rightarrow> bytes \<Rightarrow> bytes" where
  "Mask ip m =
     (let m = (if length m = 16 \<and> length ip = 4 \<and> (\<forall>b \<in> set (take 12 m). b = 255)
               then drop 12 m else m);
          ip = (if length m = 4 \<and> length ip = 16 \<and> take 12 ip = v4_in_v6
                then drop 12 ip else ip) in
      if length ip \<noteq> length m then [] else map2 (\<lambda>a b. a AND b) ip m)"

text \<open>\<^verbatim>\<open>dtoi\<close> over a whole string: at least one digit, digits only, below 0xFFFFFF throughout.\<close>

fun dtoi :: "string \<Rightarrow> nat \<Rightarrow> nat option" where
  "dtoi [] n = Some n"
| "dtoi (c # cs) n =
     (case dec_value c of
        None \<Rightarrow> None
      | Some d \<Rightarrow> if n * 10 + d \<ge> 0xFFFFFF then None else dtoi cs (n * 10 + d))"

text \<open>\<^verbatim>\<open>net.ParseCIDR\<close>, answering the network address, the one result the callers use.\<close>

definition ParseCIDR :: "string \<Rightarrow> bytes option" where
  "ParseCIDR s = (case index_byte (CHR ''/'') s of
     None \<Rightarrow> None
   | Some i \<Rightarrow>
       (case ParseAddr (take i s) of
          None \<Rightarrow> None
        | Some a \<Rightarrow>
            if zone_of a \<noteq> [] then None
            else if drop (Suc i) s = [] then None
            else (case dtoi (drop (Suc i) s) 0 of
                    None \<Rightarrow> None
                  | Some n \<Rightarrow>
                      if n > BitLen a then None
                      else Some (Mask (As16 a) (CIDRMask n (BitLen a))))))"

subsection \<open>Host and port\<close>

definition last_index_byte :: "char \<Rightarrow> string \<Rightarrow> nat option" where
  "last_index_byte c s = map_option (\<lambda>i. length s - Suc i) (index_byte c (rev s))"

definition SplitHostPort :: "string \<Rightarrow> (string \<times> string) option" where
  "SplitHostPort hp = (case last_index_byte (CHR '':'') hp of
     None \<Rightarrow> None
   | Some i \<Rightarrow>
       (let finish = (\<lambda>host j k.
              if CHR ''['' \<in> set (drop j hp) then None
              else if CHR '']'' \<in> set (drop k hp) then None
              else Some (host, drop (Suc i) hp)) in
        if hp ! 0 = CHR ''['' then
          (case index_byte (CHR '']'') hp of
             None \<Rightarrow> None
           | Some e \<Rightarrow> if e + 1 = length hp \<or> e + 1 \<noteq> i then None
                       else finish (drop 1 (take e hp)) 1 (e + 1))
        else if CHR '':'' \<in> set (take i hp) then None
        else finish (take i hp) 0 0))"

subsection \<open>Printing\<close>

definition appendDecimal :: "nat \<Rightarrow> string" where
  "appendDecimal x =
     (if x \<ge> 100 then [hex_digit (x div 100)] else []) @
     (if x \<ge> 10 then [hex_digit (x div 10 mod 10)] else []) @ [hex_digit (x mod 10)]"

definition v4_string :: "bytes \<Rightarrow> string" where
  "v4_string ip =
     appendDecimal (unat (ip ! 0)) @ CHR ''.'' # appendDecimal (unat (ip ! 1)) @ CHR ''.'' #
     appendDecimal (unat (ip ! 2)) @ CHR ''.'' # appendDecimal (unat (ip ! 3))"

definition appendHex :: "nat \<Rightarrow> string" where
  "appendHex x =
     (if x \<ge> 0x1000 then [hex_digit (x div 0x1000)] else []) @
     (if x \<ge> 0x100 then [hex_digit (x div 0x100 mod 16)] else []) @
     (if x \<ge> 0x10 then [hex_digit (x div 0x10 mod 16)] else []) @ [hex_digit (x mod 16)]"

definition v6u16 :: "bytes \<Rightarrow> nat \<Rightarrow> nat" where
  "v6u16 ip i = unat (ip ! (2 * i)) * 256 + unat (ip ! (2 * i + 1))"

text \<open>How many of the groups from \<open>i\<close> on are zero, and the first longest run of two or more.\<close>

definition zero_run :: "bytes \<Rightarrow> nat \<Rightarrow> nat" where
  "zero_run ip i = length (takeWhile (\<lambda>j. v6u16 ip j = 0) [i..<8])"

definition zero_gap :: "bytes \<Rightarrow> nat \<times> nat" where
  "zero_gap ip = fold (\<lambda>i (a, b). if zero_run ip i \<ge> 2 \<and> zero_run ip i > b - a
                                    then (i, i + zero_run ip i) else (a, b)) [0..<8] (255, 255)"

text \<open>
  The second loop of \<^verbatim>\<open>appendTo6\<close> from group \<open>i\<close>; the bound is the number of groups left.
\<close>

fun v6_print :: "nat \<Rightarrow> bytes \<Rightarrow> nat \<times> nat \<Rightarrow> nat \<Rightarrow> string" where
  "v6_print 0 ip gap i = []"
| "v6_print (Suc k) ip gap i =
     (if i \<ge> 8 then []
      else if i = fst gap then
        '':'' @ '':'' @
        (if snd gap \<ge> 8 then []
         else appendHex (v6u16 ip (snd gap)) @ v6_print k ip gap (Suc (snd gap)))
      else (if i > 0 then '':'' else []) @ appendHex (v6u16 ip i) @ v6_print k ip gap (Suc i))"

definition v6_string :: "bytes \<Rightarrow> string" where
  "v6_string ip = v6_print 8 ip (zero_gap ip) 0"

text \<open>\<^verbatim>\<open>IP.String\<close>, on the addresses of 4 or 16 bytes the program prints.\<close>

definition IP_String :: "bytes \<Rightarrow> string" where
  "IP_String ip = (case To4 ip of Some p \<Rightarrow> v4_string p | None \<Rightarrow> v6_string ip)"

subsection \<open>Printing and parsing back\<close>

lemma dec_value_digit: "n < 10 \<Longrightarrow> dec_value (hex_digit n) = Some n"
proof -
  assume "n < 10"
  then have "n \<in> set [0..<10]" by simp
  moreover have "\<forall>n \<in> set [0..<10]. dec_value (hex_digit n) = Some n" by code_simp
  ultimately show ?thesis by blast
qed

lemma v4_loop_digit:
  "n < 10 \<Longrightarrow> v4_loop (hex_digit n # cs) d v acc =
     (if d = 1 \<and> v = 0 \<or> v * 10 + n > 255 then None else v4_loop cs (Suc d) (v * 10 + n) acc)"
  by (simp add: dec_value_digit)

lemma v4_loop_dot:
  "v4_loop (CHR ''.'' # cs) d v acc =
     (if d = 0 \<or> cs = [] \<or> length acc = 3 then None else v4_loop cs 0 0 (acc @ [of_nat v]))"
proof -
  have "dec_value (CHR ''.'') = None" by code_simp
  then show ?thesis by simp
qed

lemma v4_loop_end: "v4_loop [] d v acc = (if d = 0 \<or> length acc < 3 then None else Some (acc @ [of_nat v]))"
  by simp

declare v4_loop.simps [simp del]

lemma v4_loop_decimal:
  assumes "x < 256"
  shows "\<exists>d > 0. v4_loop (appendDecimal x @ rest) 0 0 acc = v4_loop rest d x acc"
proof -
  consider "x < 10" | "10 \<le> x" "x < 100" | "100 \<le> x" by linarith
  then show ?thesis
  proof cases
    case 1
    then have "v4_loop (appendDecimal x @ rest) 0 0 acc = v4_loop rest 1 x acc"
      by (simp add: appendDecimal_def v4_loop_digit)
    then show ?thesis by (intro exI [of _ 1]) simp
  next
    case 2
    obtain p q where "x div 10 = p" "x mod 10 = q" by blast
    moreover from this 2 have "p < 10" "q < 10" "0 < p" "x = p * 10 + q" "p mod 10 = p" by auto
    ultimately have "v4_loop (appendDecimal x @ rest) 0 0 acc = v4_loop rest 2 x acc"
      using 2 by (simp add: appendDecimal_def v4_loop_digit numeral_2_eq_2)
    then show ?thesis by (intro exI [of _ 2]) simp
  next
    case 3
    define p q r where "p = x div 100" and "q = x div 10 mod 10" and "r = x mod 10"
    note d = p_def [symmetric] q_def [symmetric] r_def [symmetric]
    have lt: "p < 10" "q < 10" "r < 10" "0 < p"
      unfolding p_def q_def r_def using 3 assms by auto
    have "x div 10 div 10 = p" by (simp add: p_def flip: div_mult2_eq)
    moreover have "x = x div 10 * 10 + x mod 10" "x div 10 = x div 10 div 10 * 10 + x div 10 mod 10"
      by simp_all
    ultimately have x: "x = (p * 10 + q) * 10 + r"
      unfolding q_def r_def by metis
    then have le: "p * 10 + q \<le> 255" using assms by (simp add: algebra_simps)
    have str: "appendDecimal x = [hex_digit p, hex_digit q, hex_digit r]"
      using d 3 by (simp add: appendDecimal_def)
    have "v4_loop (appendDecimal x @ rest) 0 0 acc = v4_loop rest 3 ((p * 10 + q) * 10 + r) acc"
      unfolding str using lt le assms [unfolded x] by (simp add: v4_loop_digit numeral_3_eq_3)
    then have "v4_loop (appendDecimal x @ rest) 0 0 acc = v4_loop rest 3 x acc"
      by (simp only: x [symmetric])
    then show ?thesis by (intro exI [of _ 3]) simp
  qed
qed

lemma unat_byte [simp]: "unat (b :: byte) < 256"
proof -
  have "unat b < 2 ^ LENGTH(8)" by (rule unsigned_less)
  then show ?thesis by simp
qed

lemma v4_roundtrip:
  assumes "length ip = 4"
  shows "parseIPv4 (v4_string ip) = Some ip"
proof -
  from assms obtain a b c d where ip: "ip = [a, b, c, d]"
    by (auto simp: numeral_eq_Suc length_Suc_conv)
  have ne: "appendDecimal n \<noteq> []" for n by (simp add: appendDecimal_def)
  have dot: "v4_loop (appendDecimal (unat x) @ CHR ''.'' # cs) 0 0 acc = v4_loop cs 0 0 (acc @ [x])"
    if "cs \<noteq> []" "length acc < 3" for x :: byte and cs acc
  proof -
    obtain d where "d > 0" "v4_loop (appendDecimal (unat x) @ CHR ''.'' # cs) 0 0 acc
        = v4_loop (CHR ''.'' # cs) d (unat x) acc"
      using v4_loop_decimal [of "unat x" "CHR ''.'' # cs" acc] by auto
    with that show ?thesis by (simp add: v4_loop_dot)
  qed
  have last: "v4_loop (appendDecimal (unat x)) 0 0 acc = Some (acc @ [x])" if "length acc = 3" for x :: byte and acc
    using v4_loop_decimal [of "unat x" "[]" acc] that by (auto simp: v4_loop_end)
  show ?thesis
    unfolding parseIPv4_def v4_string_def ip by (simp add: dot last ne)
qed

lemma hex_digits_of:
  "(x :: nat) = ((x div 0x1000 * 16 + x div 0x100 mod 16) * 16 + x div 0x10 mod 16) * 16 + x mod 16"
proof -
  have "x div 0x1000 = x div 0x100 div 16" "x div 0x100 = x div 0x10 div 16"
    by (simp_all flip: div_mult2_eq)
  moreover have "x = x div 16 * 16 + x mod 16" "x div 16 = x div 16 div 16 * 16 + x div 16 mod 16"
    "x div 0x100 = x div 0x100 div 16 * 16 + x div 0x100 mod 16"
    by simp_all
  ultimately show ?thesis by metis
qed

lemma take_hex_digit:
  "n < 16 \<Longrightarrow> take_hex (hex_digit n # cs) off acc =
     (if off > 3 then None else take_hex cs (Suc off) (acc * 16 + n))"
  by (simp add: hex_value_digit)

lemma take_hex_stop:
  "rest = [] \<or> hex_value (hd rest) = None \<Longrightarrow> take_hex rest off acc = Some (off, acc, rest)"
  by (cases rest) auto

declare take_hex.simps [simp del]

lemma take_hex_append:
  assumes "x < 65536" and stop: "rest = [] \<or> hex_value (hd rest) = None"
  shows "\<exists>d > 0. take_hex (appendHex x @ rest) 0 0 = Some (d, x, rest)"
proof -
  define p q r s where "p = x div 0x1000" and "q = x div 0x100 mod 16" and "r = x div 0x10 mod 16"
    and "s = x mod 16"
  note d = p_def [symmetric] q_def [symmetric] r_def [symmetric] s_def [symmetric]
  have x: "x = ((p * 16 + q) * 16 + r) * 16 + s"
    unfolding p_def q_def r_def s_def by (rule hex_digits_of)
  have lt: "p < 16" "q < 16" "r < 16" "s < 16"
    unfolding p_def q_def r_def s_def using assms(1) by auto
  consider "x < 0x10" | "0x10 \<le> x" "x < 0x100" | "0x100 \<le> x" "x < 0x1000" | "0x1000 \<le> x"
    by linarith
  then show ?thesis
  proof cases
    case 1
    then have "p = 0" "q = 0" "r = 0" by (simp_all add: p_def q_def r_def)
    moreover have "appendHex x = [hex_digit s]" using 1 by (simp add: appendHex_def d)
    ultimately have "take_hex (appendHex x @ rest) 0 0 = Some (1, ((p * 16 + q) * 16 + r) * 16 + s, rest)"
      using lt by (simp add: take_hex_digit take_hex_stop [OF stop])
    then show ?thesis unfolding x [symmetric] by (intro exI [of _ 1]) simp
  next
    case 2
    then have "p = 0" "q = 0" by (simp_all add: p_def q_def)
    moreover have "appendHex x = [hex_digit r, hex_digit s]" using 2 by (simp add: appendHex_def d)
    ultimately have "take_hex (appendHex x @ rest) 0 0 = Some (2, ((p * 16 + q) * 16 + r) * 16 + s, rest)"
      using lt by (simp add: take_hex_digit take_hex_stop [OF stop] numeral_2_eq_2)
    then show ?thesis unfolding x [symmetric] by (intro exI [of _ 2]) simp
  next
    case 3
    then have "p = 0" by (simp_all add: p_def)
    moreover have "appendHex x = [hex_digit q, hex_digit r, hex_digit s]"
      using 3 by (simp add: appendHex_def d)
    ultimately have "take_hex (appendHex x @ rest) 0 0 = Some (3, ((p * 16 + q) * 16 + r) * 16 + s, rest)"
      using lt by (simp add: take_hex_digit take_hex_stop [OF stop] numeral_3_eq_3)
    then show ?thesis unfolding x [symmetric] by (intro exI [of _ 3]) simp
  next
    case 4
    have "appendHex x = [hex_digit p, hex_digit q, hex_digit r, hex_digit s]"
      using 4 by (simp add: appendHex_def d)
    then have "take_hex (appendHex x @ rest) 0 0 = Some (4, ((p * 16 + q) * 16 + r) * 16 + s, rest)"
      using lt by (simp add: take_hex_digit take_hex_stop [OF stop] eval_nat_numeral)
    then show ?thesis unfolding x [symmetric] by (intro exI [of _ 4]) simp
  qed
qed

lemma hex_value_colon [simp]: "hex_value (CHR '':'') = None"
  by code_simp

text \<open>The characters the printers use.\<close>

definition hex_chars :: "char set" where
  "hex_chars = set ''0123456789abcdef''"

lemma hex_digit_set: "n < 16 \<Longrightarrow> hex_digit n \<in> hex_chars"
  unfolding hex_digit_def hex_chars_def by (rule nth_mem) simp

lemma appendHex_set: "x < 65536 \<Longrightarrow> set (appendHex x) \<subseteq> hex_chars"
  by (auto simp: appendHex_def intro!: hex_digit_set)

lemma appendDecimal_set: "x < 256 \<Longrightarrow> set (appendDecimal x) \<subseteq> hex_chars"
  by (auto simp: appendDecimal_def intro!: hex_digit_set)

lemma appendHex_nonempty [simp]: "appendHex x \<noteq> []"
  by (simp add: appendHex_def)

lemma appendHex_no_colon: "x < 65536 \<Longrightarrow> CHR '':'' \<notin> set (appendHex x)"
  using appendHex_set [of x] by (auto simp: hex_chars_def)

subsection \<open>A network of 64 bits prints and parses back\<close>

definition masked64 :: "bytes \<Rightarrow> bool" where
  "masked64 m \<longleftrightarrow> length m = 16 \<and> drop 8 m = replicate 8 0"

fun v6_head :: "nat list \<Rightarrow> string" where
  "v6_head [] = []"
| "v6_head [g] = appendHex g"
| "v6_head (g # h # gs) = appendHex g @ CHR '':'' # v6_head (h # gs)"

definition lead_groups :: "bytes \<Rightarrow> nat list" where
  "lead_groups m = (let g = v6u16 m in
     if g 3 \<noteq> 0 then [g 0, g 1, g 2, g 3]
     else if g 2 \<noteq> 0 then [g 0, g 1, g 2]
     else if g 1 \<noteq> 0 then [g 0, g 1]
     else if g 0 \<noteq> 0 then [g 0] else [])"

lemma masked64_groups:
  assumes "masked64 m"
  shows "v6u16 m 4 = 0" "v6u16 m 5 = 0" "v6u16 m 6 = 0" "v6u16 m 7 = 0"
proof -
  have nth: "m ! (8 + i) = 0" if "i < 8" for i
  proof -
    have "drop 8 m ! i = m ! (8 + i)" using assms by (intro nth_drop) (simp add: masked64_def)
    moreover have "drop 8 m = replicate 8 0" using assms by (simp add: masked64_def)
    ultimately show ?thesis using that by simp
  qed
  show "v6u16 m 4 = 0" "v6u16 m 5 = 0" "v6u16 m 6 = 0" "v6u16 m 7 = 0"
    using nth [of 0] nth [of 1] nth [of 2] nth [of 3] nth [of 4] nth [of 5] nth [of 6] nth [of 7]
    by (simp_all add: v6u16_def)
qed

lemma upto_groups:
  "[0..<8] = [0, 1, 2, 3, 4, 5, 6, 7 :: nat]" "[1..<8] = [1, 2, 3, 4, 5, 6, 7 :: nat]"
  "[2..<8] = [2, 3, 4, 5, 6, 7 :: nat]" "[3..<8] = [3, 4, 5, 6, 7 :: nat]"
  "[4..<8] = [4, 5, 6, 7 :: nat]" "[5..<8] = [5, 6, 7 :: nat]" "[6..<8] = [6, 7 :: nat]"
  "[7..<8] = [7 :: nat]"
  by (simp_all add: upt_conv_Cons)

lemma masked64_gap:
  assumes "masked64 m"
  shows "zero_gap m = (length (lead_groups m), 8)"
proof -
  note z = masked64_groups [OF assms]
  have runs: "zero_run m 7 = 1" "zero_run m 6 = 2" "zero_run m 5 = 3" "zero_run m 4 = 4"
    "zero_run m 3 = (if v6u16 m 3 = 0 then 5 else 0)"
    "zero_run m 2 = (if v6u16 m 2 = 0 then Suc (zero_run m 3) else 0)"
    "zero_run m 1 = (if v6u16 m 1 = 0 then Suc (zero_run m 2) else 0)"
    "zero_run m 0 = (if v6u16 m 0 = 0 then Suc (zero_run m 1) else 0)"
    unfolding zero_run_def upto_groups using z by simp_all
  show ?thesis
    unfolding zero_gap_def upto_groups(1)
    by (cases "v6u16 m 3 = 0"; cases "v6u16 m 2 = 0"; cases "v6u16 m 1 = 0"; cases "v6u16 m 0 = 0")
      (simp_all add: runs [unfolded One_nat_def] lead_groups_def Let_def)
qed

lemma masked64_string:
  assumes "masked64 m"
  shows "v6_string m = v6_head (lead_groups m) @ ''::''"
proof -
  have eight: "(8 :: nat) = Suc (Suc (Suc (Suc (Suc (Suc (Suc (Suc 0)))))))" by simp
  show ?thesis
    unfolding v6_string_def masked64_gap [OF assms] eight
    by (cases "v6u16 m 3 = 0"; cases "v6u16 m 2 = 0"; cases "v6u16 m 1 = 0"; cases "v6u16 m 0 = 0")
      (simp_all add: lead_groups_def Let_def eval_nat_numeral)
qed

definition group_bytes :: "nat \<Rightarrow> bytes" where
  "group_bytes v = [of_nat (v div 256), of_nat (v mod 256)]"

lemma length_group_bytes [simp]: "length (group_bytes v) = 2"
  by (simp add: group_bytes_def)

lemma v6_loop_more:
  assumes "x < 65536" and "c \<noteq> CHR '':''"
  shows "v6_loop (Suc k) (appendHex x @ CHR '':'' # c # cs) acc e = v6_loop k (c # cs) (acc @ group_bytes x) e"
proof -
  obtain d where "d > 0" "take_hex (appendHex x @ CHR '':'' # c # cs) 0 0 = Some (d, x, CHR '':'' # c # cs)"
    using take_hex_append [OF assms(1), of "CHR '':'' # c # cs"] by auto
  then show ?thesis using assms(2) by (simp add: group_bytes_def)
qed

lemma v6_loop_last:
  assumes "x < 65536"
  shows "v6_loop (Suc k) (appendHex x @ ''::'') acc None =
    Some ([], acc @ group_bytes x, Some (length acc + 2))"
proof -
  obtain d where "d > 0" "take_hex (appendHex x @ ''::'') 0 0 = Some (d, x, ''::'')"
    using take_hex_append [OF assms(1), of "''::''"] by auto
  then show ?thesis by (simp add: group_bytes_def)
qed

declare v6_loop.simps [simp del]

lemma v6_head_Cons: "gs \<noteq> [] \<Longrightarrow> v6_head (g # gs) = appendHex g @ CHR '':'' # v6_head gs"
  by (cases gs) simp_all

lemma v6_head_hd:
  assumes "x < 65536"
  shows "\<exists>c cs. v6_head (x # gs) = c # cs \<and> c \<in> hex_chars"
proof -
  obtain c cs where "appendHex x = c # cs" by (cases "appendHex x") simp_all
  with appendHex_set [OF assms] show ?thesis by (cases gs) auto
qed

lemma hex_not_colon: "c \<in> hex_chars \<Longrightarrow> c \<noteq> CHR '':''"
  by (auto simp: hex_chars_def)

lemma v6_loop_head:
  "gs \<noteq> [] \<Longrightarrow> length gs \<le> k \<Longrightarrow> \<forall>g \<in> set gs. g < 65536 \<Longrightarrow>
     v6_loop k (v6_head gs @ ''::'') acc None =
       Some ([], acc @ concat (map group_bytes gs), Some (length acc + 2 * length gs))"
proof (induction gs arbitrary: k acc)
  case Nil
  then show ?case by simp
next
  case (Cons g gs)
  from Cons.prems obtain k' where k: "k = Suc k'" by (cases k) auto
  show ?case
  proof (cases gs)
    case Nil
    with Cons.prems k show ?thesis by (simp add: v6_loop_last)
  next
    case (Cons h hs)
    with Cons.prems obtain c cs where c: "v6_head gs @ ''::'' = c # cs" "c \<noteq> CHR '':''"
      using v6_head_hd [of h hs] hex_not_colon by (metis append_Cons list.set_intros(1,2))
    have "v6_loop k (v6_head (g # gs) @ ''::'') acc None = v6_loop k' (v6_head gs @ ''::'') (acc @ group_bytes g) None"
      using v6_loop_more [of g c k' cs acc None] c Cons Cons.prems k by (simp add: v6_head_Cons)
    also have "\<dots> = Some ([], acc @ group_bytes g @ concat (map group_bytes gs),
        Some (length acc + 2 + 2 * length gs))"
      using Cons.IH [of k' "acc @ group_bytes g"] Cons Cons.prems k by (simp add: length_group_bytes)
    finally show ?thesis by simp
  qed
qed

lemma v6u16_less: "v6u16 m i < 65536"
proof -
  have "unat (m ! (2 * i)) \<le> 255" "unat (m ! (2 * i + 1)) \<le> 255"
    using unat_byte [of "m ! (2 * i)"] unat_byte [of "m ! (2 * i + 1)"] by linarith+
  then show ?thesis by (simp add: v6u16_def)
qed

lemma group_bytes_v6u16: "group_bytes (v6u16 m i) = [m ! (2 * i), m ! (2 * i + 1)]"
  using unat_byte [of "m ! (2 * i + 1)"] by (simp add: group_bytes_def v6u16_def)

lemma v6u16_zero: "v6u16 m i = 0 \<longleftrightarrow> m ! (2 * i) = 0 \<and> m ! (2 * i + 1) = 0"
  by (simp add: v6u16_def unat_eq_0)

lemma lead_groups_less: "g \<in> set (lead_groups m) \<Longrightarrow> g < 65536"
  by (auto simp: lead_groups_def Let_def v6u16_less split: if_splits)

lemma lead_groups_length: "length (lead_groups m) \<le> 4"
  by (simp add: lead_groups_def Let_def)

lemma eight_list: "length xs = 8 \<Longrightarrow> \<exists>a b c d e f g h. xs = [a, b, c, d, e, f, g, h]"
  by (auto simp: numeral_eq_Suc length_Suc_conv)

lemma lead_groups_bytes:
  assumes "masked64 m"
  shows "concat (map group_bytes (lead_groups m)) @ replicate (16 - 2 * length (lead_groups m)) 0 = m"
proof -
  have "m = take 8 m @ drop 8 m" by simp
  moreover have "length (take 8 m) = 8" "drop 8 m = replicate 8 0"
    using assms by (simp_all add: masked64_def)
  moreover obtain a b c d e f g h where "take 8 m = [a, b, c, d, e, f, g, h]"
    using eight_list [OF \<open>length (take 8 m) = 8\<close>] by blast
  ultimately have "m = [a, b, c, d, e, f, g, h] @ replicate 8 0" by metis
  then have m: "m = [a, b, c, d, e, f, g, h, 0, 0, 0, 0, 0, 0, 0, 0]"
    by (simp add: eval_nat_numeral)
  show ?thesis
    unfolding lead_groups_def Let_def
    by (simp add: group_bytes_v6u16 v6u16_zero) (simp add: m eval_nat_numeral)
qed

definition addr_chars :: "char set" where
  "addr_chars = set ''0123456789abcdef:./''"

lemma hex_addr: "hex_chars \<subseteq> addr_chars"
  by (auto simp: hex_chars_def addr_chars_def)

lemma strip1_none:
  assumes "set s \<subseteq> C" and "\<forall>q \<in> set runes. \<not> set q \<subseteq> C"
  shows "strip1 runes s = None"
proof -
  have "\<not> prefix q s" if "q \<in> set runes" for q
    using that assms by (fastforce simp: prefix_def)
  then show ?thesis by (auto simp: strip1_def find_None_iff)
qed

text \<open>Printable ASCII is never trimmed.\<close>

definition printable :: "char set" where
  "printable = {c. 33 \<le> (of_char c :: nat) \<and> (of_char c :: nat) < 127}"

lemma TrimSpace_printable: "set s \<subseteq> printable \<Longrightarrow> TrimSpace s = s"
proof -
  assume s: "set s \<subseteq> printable"
  have runes: "\<forall>q \<in> set space_runes. \<not> set q \<subseteq> printable"
    by (simp add: space_runes_def printable_def)
  have "trim_left s = s"
    using s runes by (simp add: trim_left_def strip_all_fixed strip1_none)
  moreover have "trim_right s = s"
    using s runes strip1_none [of "rev s" printable "map rev space_runes"]
    by (simp add: trim_right_def strip_all_fixed)
  ultimately show ?thesis by (simp add: TrimSpace_def)
qed

lemma addr_printable: "addr_chars \<subseteq> printable"
  by (simp add: addr_chars_def printable_def)

lemma TrimSpace_addr: "set s \<subseteq> addr_chars \<Longrightarrow> TrimSpace s = s"
  using addr_printable TrimSpace_printable by blast

lemma index_byte_None: "index_byte c s = None \<longleftrightarrow> c \<notin> set s"
  by (induction s) auto

lemma hex_not_special: "c \<in> hex_chars \<Longrightarrow> c \<noteq> CHR ''.'' \<and> c \<noteq> CHR '':'' \<and> c \<noteq> CHR ''%''"
  by (auto simp: hex_chars_def)

lemma ParseAddr_scan_hex: "set u \<subseteq> hex_chars \<Longrightarrow> ParseAddr_scan s (u @ w) = ParseAddr_scan s w"
  by (induction u) (auto dest: hex_not_special)

lemma v4_string_chars: "set (v4_string ip) \<subseteq> addr_chars - {CHR '':'', CHR ''/''}"
proof -
  have "hex_chars \<subseteq> addr_chars - {CHR '':'', CHR ''/''}"
    by (auto simp: hex_chars_def addr_chars_def)
  moreover have "CHR ''.'' \<in> addr_chars - {CHR '':'', CHR ''/''}" by (simp add: addr_chars_def)
  ultimately show ?thesis
    unfolding v4_string_def set_append list.set(2)
    using appendDecimal_set [OF unat_byte [of "ip ! 0"]] appendDecimal_set [OF unat_byte [of "ip ! 1"]]
      appendDecimal_set [OF unat_byte [of "ip ! 2"]] appendDecimal_set [OF unat_byte [of "ip ! 3"]]
    by blast
qed

lemma ParseAddr_v4: "length ip = 4 \<Longrightarrow> ParseAddr (v4_string ip) = Some (Addr4 ip)"
proof -
  assume "length ip = 4"
  then have rt: "parseIPv4 (v4_string ip) = Some ip" by (rule v4_roundtrip)
  have "ParseAddr_scan s (v4_string ip) = map_option Addr4 (parseIPv4 s)" for s
    unfolding v4_string_def using appendDecimal_set [OF unat_byte]
    by (simp add: ParseAddr_scan_hex)
  with rt show ?thesis by (simp add: ParseAddr_def)
qed

lemma v6_head_chars: "\<forall>g \<in> set gs. g < 65536 \<Longrightarrow> set (v6_head gs) \<subseteq> insert (CHR '':'') hex_chars"
proof (induction gs rule: v6_head.induct)
  case (2 g)
  then show ?case using appendHex_set [of g] by auto
next
  case (3 g h gs)
  then show ?case using appendHex_set [of g] by auto
qed simp

lemma v6_head_colon:
  "\<forall>g \<in> set gs. g < 65536 \<Longrightarrow> \<exists>u w. v6_head gs @ ''::'' = u @ CHR '':'' # w \<and> set u \<subseteq> hex_chars"
proof (cases gs rule: v6_head.cases)
  case 1
  then show ?thesis by (intro exI [of _ "[]"] exI [of _ "'':''"]) simp
next
  case (2 g)
  assume "\<forall>g \<in> set gs. g < 65536"
  with 2 appendHex_set [of g] show ?thesis by (intro exI [of _ "appendHex g"] exI [of _ "'':''"]) simp
next
  case (3 g h hs)
  assume "\<forall>g \<in> set gs. g < 65536"
  with 3 appendHex_set [of g] show ?thesis by (intro exI [of _ "appendHex g"] exI [of _ "v6_head (h # hs) @ ''::''"]) simp
qed

lemma length_groups: "length (concat (map group_bytes gs)) = 2 * length gs"
  by (induction gs) simp_all

lemma v6_parse:
  assumes "masked64 m"
  shows "parseIPv6 (v6_string m) = Some (m, [])"
proof -
  let ?gs = "lead_groups m"
  have lt: "\<forall>g \<in> set ?gs. g < 65536" by (simp add: lead_groups_less)
  have str: "v6_string m = v6_head ?gs @ ''::''" by (rule masked64_string [OF assms])
  have pct: "index_byte (CHR ''%'') (v6_string m) = None"
    unfolding str index_byte_None using v6_head_chars [OF lt] by (auto simp: hex_chars_def)
  have bytes: "concat (map group_bytes ?gs) @ replicate (16 - 2 * length ?gs) 0 = m"
    by (rule lead_groups_bytes [OF assms])
  show ?thesis
  proof (cases ?gs)
    case Nil
    with bytes pct show ?thesis by (simp add: parseIPv6_def str)
  next
    case (Cons g gs)
    with lt obtain c cs where c: "v6_head ?gs = c # cs" "c \<in> hex_chars"
      using v6_head_hd [of g gs] by auto
    then have not_colon: "v6_string m ! 0 \<noteq> CHR '':''"
      using hex_not_colon [OF c(2)] by (simp add: str)
    have "v6_loop 8 (v6_string m) [] None = Some ([], concat (map group_bytes ?gs), Some (2 * length ?gs))"
      unfolding str using v6_loop_head [of ?gs 8 "[]"] Cons lt lead_groups_length [of m] by simp
    moreover have len: "length (concat (map group_bytes ?gs)) = 2 * length ?gs"
      by (rule length_groups)
    ultimately show ?thesis
      using pct not_colon bytes lead_groups_length [of m]
      by (simp add: parseIPv6_def v6_expand_def)
  qed
qed

lemma ParseAddr_v6: "masked64 m \<Longrightarrow> ParseAddr (v6_string m) = Some (Addr6 m [])"
proof -
  assume m: "masked64 m"
  have lt: "\<forall>g \<in> set (lead_groups m). g < 65536" by (simp add: lead_groups_less)
  obtain u w where u: "v6_string m = u @ CHR '':'' # w" "set u \<subseteq> hex_chars"
    using v6_head_colon [OF lt] by (auto simp: masked64_string [OF m])
  have "ParseAddr_scan s (v6_string m) = map_option (\<lambda>(ip, zone). Addr6 ip zone) (parseIPv6 s)" for s
    unfolding u(1) by (simp add: ParseAddr_scan_hex [OF u(2)])
  then show ?thesis by (simp add: ParseAddr_def v6_parse [OF m])
qed

lemma masked64_To4: "masked64 m \<Longrightarrow> To4 m = None"
proof -
  assume m: "masked64 m"
  have "drop 8 m ! 2 = m ! (8 + 2)" using m by (intro nth_drop) (simp add: masked64_def)
  with m have "m ! 10 = 0" by (simp add: masked64_def)
  with m show ?thesis by (simp add: To4_def masked64_def)
qed

lemma mask64_bytes: "CIDRMask 64 128 = replicate 8 255 @ replicate 8 0"
  by code_simp

lemma Mask64: "length ip = 16 \<Longrightarrow> Mask ip (CIDRMask 64 128) = take 8 ip @ replicate 8 0"
proof -
  assume len: "length ip = 16"
  have ones: "map2 (\<lambda>a b. a AND b) xs (replicate n (255 :: byte)) = xs" if "length xs = n" for xs n
    using that
  proof (induction xs arbitrary: n)
    case (Cons x xs)
    have "(255 :: byte) = - 1" by simp
    then have "x AND 255 = x" for x :: byte by (simp only: and.right_neutral)
    with Cons show ?case by auto
  qed simp
  have zeros: "map2 (\<lambda>a b. a AND b) ys (replicate n (0 :: byte)) = replicate n 0" if "length ys = n" for ys n
    using that by (induction ys arbitrary: n) auto
  have "ip = take 8 ip @ drop 8 ip" by simp
  then have "Mask ip (CIDRMask 64 128)
      = map2 (\<lambda>a b. a AND b) (take 8 ip @ drop 8 ip) (replicate 8 255 @ replicate 8 0)"
    using len by (simp add: Mask_def mask64_bytes)
  also have "\<dots> = take 8 ip @ replicate 8 0"
    using len ones [of "take 8 ip" 8] zeros [of "drop 8 ip" 8] by (simp add: zip_append del: append_take_drop_id)
  finally show ?thesis .
qed

lemma masked64_Mask: "length ip = 16 \<Longrightarrow> masked64 (Mask ip (CIDRMask 64 128))"
  by (simp add: Mask64 masked64_def)

lemma Mask64_fixed: "masked64 m \<Longrightarrow> Mask m (CIDRMask 64 128) = m"
  by (metis Mask64 append_take_drop_id masked64_def)


subsection \<open>Lengths\<close>

lemma v4_loop_length: "v4_loop s d v acc = Some r \<Longrightarrow> length acc \<le> 3 \<Longrightarrow> length r = 4"
  by (induction s d v acc rule: v4_loop.induct)
    (auto simp: v4_loop.simps split: option.splits if_splits)

lemma v6_loop_length:
  "v6_loop k s acc e = Some (s', acc', e') \<Longrightarrow> length acc + 2 * k \<le> 16 \<Longrightarrow> length acc' \<le> 16"
proof (induction k s acc e rule: v6_loop.induct)
  case (1 s acc e)
  then show ?case by (simp add: v6_loop.simps)
next
  case (2 k s acc e)
  obtain off v rest where t: "take_hex s 0 0 = Some (off, v, rest)"
    using "2.prems"(1) by (auto simp: v6_loop.simps split: option.splits)
  show ?case
  proof (cases "rest \<noteq> [] \<and> hd rest = CHR ''.''")
    case True
    with "2.prems" t show ?thesis
      by (auto simp: v6_loop.simps split: option.splits if_splits dest!: v4_loop_length)
  next
    case False
    with "2.prems" t "2.IH" [OF t] show ?thesis
      by (auto simp: v6_loop.simps Let_def split: list.splits if_splits)
  qed
qed

lemma v6_expand_length:
  "v6_expand (s, acc, e) = Some ip \<Longrightarrow> length acc \<le> 16 \<Longrightarrow> length ip = 16"
  by (auto simp: v6_expand_def split: if_splits option.splits)

lemma parseIPv6_length: "parseIPv6 s = Some (ip, z) \<Longrightarrow> length ip = 16"
  by (auto simp: parseIPv6_def Let_def split: option.splits if_splits prod.splits bind_splits
      dest!: v6_expand_length [OF _ v6_loop_length])

lemma ParseAddr_length:
  "ParseAddr_scan s t = Some a \<Longrightarrow> length (As16 a) = 16"
  by (induction t)
    (auto simp: parseIPv4_def v4_in_v6_def split: if_splits dest!: v4_loop_length parseIPv6_length)

lemma ParseIP_length: "ParseIP s = Some ip \<Longrightarrow> length ip = 16"
  by (auto simp: ParseIP_def ParseAddr_def split: option.splits if_splits dest!: ParseAddr_length)

subsection \<open>Host and port of a bare address\<close>

lemma SplitHostPort_no_colon: "CHR '':'' \<notin> set s \<Longrightarrow> SplitHostPort s = None"
  using index_byte_None [of "CHR '':''" "rev s"] by (simp add: SplitHostPort_def last_index_byte_def)

lemma SplitHostPort_v6:
  assumes "masked64 m"
  shows "SplitHostPort (v6_string m) = None"
proof -
  let ?gs = "lead_groups m"
  have lt: "\<forall>g \<in> set ?gs. g < 65536" by (simp add: lead_groups_less)
  have str: "v6_string m = v6_head ?gs @ ''::''" by (rule masked64_string [OF assms])
  have last: "last_index_byte (CHR '':'') (v6_string m) = Some (length (v6_head ?gs) + 1)"
    by (simp add: last_index_byte_def str)
  have first: "v6_string m ! 0 \<noteq> CHR ''[''"
  proof (cases "v6_head ?gs")
    case (Cons c cs)
    then have "c \<in> insert (CHR '':'') hex_chars" using v6_head_chars [OF lt] by auto
    with Cons show ?thesis by (auto simp: str hex_chars_def)
  qed (simp add: str)
  have "CHR '':'' \<in> set (take (length (v6_head ?gs) + 1) (v6_string m))"
    by (simp add: str)
  with last first show ?thesis by (simp add: SplitHostPort_def Let_def)
qed

lemma IP_String_v4: "length ip = 4 \<Longrightarrow> IP_String ip = v4_string ip"
  by (simp add: IP_String_def To4_def)

lemma IP_String_v6: "masked64 m \<Longrightarrow> IP_String m = v6_string m"
  by (simp add: IP_String_def masked64_To4)

lemma To4_length: "To4 ip = Some v \<Longrightarrow> length v = 4"
  by (auto simp: To4_def split: if_splits)

lemma To4_mapped: "length v = 4 \<Longrightarrow> To4 (v4_in_v6 @ v) = Some v"
  by (simp add: To4_def v4_in_v6_def nth_append)

lemma ParseIP_v4: "length v = 4 \<Longrightarrow> ParseIP (v4_string v) = Some (v4_in_v6 @ v)"
  by (simp add: ParseIP_def ParseAddr_v4)

lemma ParseIP_v6: "masked64 m \<Longrightarrow> ParseIP (v6_string m) = Some m"
  by (simp add: ParseIP_def ParseAddr_v6)

lemma v6_string_chars: "masked64 m \<Longrightarrow> set (v6_string m) \<subseteq> insert (CHR '':'') hex_chars"
  using v6_head_chars [of "lead_groups m"] by (auto simp: masked64_string dest: lead_groups_less)

lemma ParseCIDR_v6:
  assumes "masked64 m"
  shows "ParseCIDR (v6_string m @ ''/64'') = Some m"
proof -
  let ?s = "v6_string m @ ''/64''"
  have "CHR ''/'' \<notin> set (v6_string m)"
    using v6_string_chars [OF assms] by (auto simp: hex_chars_def)
  then have i: "index_byte (CHR ''/'') ?s = Some (length (v6_string m))"
    by (rule index_byte_append)
  have parts: "take (length (v6_string m)) ?s = v6_string m" "drop (Suc (length (v6_string m))) ?s = ''64''"
    by simp_all
  have d: "dtoi ''64'' 0 = Some 64" by (simp add: dec_value_def)
  show ?thesis
    unfolding ParseCIDR_def i option.case parts ParseAddr_v6 [OF assms] d
    by (simp add: Mask64_fixed [OF assms])
qed

end
