(* ===== verification/Throttle.thy ===== *)
theory Throttle
  imports Throttle_Interface Go_Net "HOL-Library.AList"
begin

text \<open>
  \<^verbatim>\<open>internal/throttle/throttle.go\<close>: the limiter. It keeps no state of its own; every counter is
  in the store, reached through the operations of \<^verbatim>\<open>store.ThrottleStore\<close>. The hash function
  is a parameter of the limiter (\<^verbatim>\<open>crypto/sha256\<close>); every definition and lemma holds for any
  function. A reading of the limiter's clock is an argument of the operation that makes it,
  one argument per reading. A Go map from dimensions is an association list with distinct
  keys, read with \<open>map_of\<close>.
\<close>

subsection \<open>Types\<close>

text \<open>
  \<^verbatim>\<open>Dimension\<close> is a string type: a value outside the constants is \<open>UnknownDim\<close>, and the
  empty dimension of a result that names none is \<open>UnknownDim []\<close>.
\<close>

datatype dimension = DimSubject | DimIP | DimAPIKey | DimAdminRevoke | DimEnrolmentTicket
  | UnknownDim string

fun dim_name :: "dimension \<Rightarrow> string" where
  "dim_name DimSubject = ''subject''"
| "dim_name DimIP = ''ip''"
| "dim_name DimAPIKey = ''api_key''"
| "dim_name DimAdminRevoke = ''admin_revoke''"
| "dim_name DimEnrolmentTicket = ''enrolment_ticket''"
| "dim_name (UnknownDim s) = s"

type_synonym factor = string

definition FactorWebAuthn :: factor where "FactorWebAuthn = ''webauthn''"
definition FactorTOTP :: factor where "FactorTOTP = ''totp''"
definition FactorRecovery :: factor where "FactorRecovery = ''recovery''"

definition subjectFactors :: "factor list" where
  "subjectFactors = [[], FactorWebAuthn, FactorTOTP, FactorRecovery]"

definition dimensionOrder :: "dimension list" where
  "dimensionOrder = [DimSubject, DimIP, DimAPIKey, DimAdminRevoke, DimEnrolmentTicket]"

definition unknownIP :: string where
  "unknownIP = ''unknown''"

text \<open>The section of the configuration the limiter reads (\<^verbatim>\<open>config.Throttle\<close>).\<close>

record throttle_cfg =
  tg_enabled :: bool
  tg_window :: duration
  tg_max_subject :: int
  tg_max_ip :: int
  tg_max_key :: int
  tg_lockout :: duration
  tg_revoke_burst :: int

record 's limiter =
  lm_store :: "'s throttle_ops"
  lm_cfg :: throttle_cfg
  lm_factor :: factor
  lm_sha :: "bytes \<Rightarrow> bytes"

definition New :: "'s throttle_ops \<Rightarrow> throttle_cfg \<Rightarrow> (bytes \<Rightarrow> bytes) \<Rightarrow> 's limiter" where
  "New st cfg sha = \<lparr>lm_store = st, lm_cfg = cfg, lm_factor = [], lm_sha = sha\<rparr>"

definition ForFactor :: "'s limiter \<Rightarrow> factor \<Rightarrow> 's limiter" where
  "ForFactor l factor = l\<lparr>lm_factor := factor\<rparr>"

record counter =
  ct_attempts :: int
  ct_failures :: int

record verdict =
  vd_allowed :: bool
  vd_blocked :: bool
  vd_retry :: duration
  vd_dim :: dimension
  vd_attempts :: int
  vd_failures :: int
  vd_advisory :: bool
  vd_counters :: "(dimension \<times> counter) list"

definition zero_verdict :: verdict where
  "zero_verdict = \<lparr>vd_allowed = False, vd_blocked = False, vd_retry = 0, vd_dim = UnknownDim [],
     vd_attempts = 0, vd_failures = 0, vd_advisory = False, vd_counters = []\<rparr>"

definition allowed_verdict :: verdict where
  "allowed_verdict = zero_verdict\<lparr>vd_allowed := True\<rparr>"

record observed =
  ob_dim :: dimension
  ob_key :: string
  ob_st :: throttle_state

subsection \<open>Bucket keys\<close>

text \<open>
  \<^verbatim>\<open>NormaliseIP\<close>: its second half, from \<^verbatim>\<open>SplitHostPort\<close> on, is \<open>normalise_host\<close>.
\<close>

definition normalise_host :: "string \<Rightarrow> string" where
  "normalise_host s =
     (let s = (case SplitHostPort s of Some (host, _) \<Rightarrow> host | None \<Rightarrow> s) in
      case ParseIP s of
        None \<Rightarrow> unknownIP
      | Some ip \<Rightarrow>
          (case To4 ip of
             Some v4 \<Rightarrow> IP_String v4
           | None \<Rightarrow> IP_String (Mask ip (CIDRMask 64 128)) @ ''/64''))"

definition NormaliseIP :: "string \<Rightarrow> string" where
  "NormaliseIP raw =
     (let s = TrimSpace raw in
      if s = [] \<or> s = unknownIP then unknownIP
      else if CHR ''/'' \<in> set s then
        (case ParseCIDR s of
           None \<Rightarrow> unknownIP
         | Some network \<Rightarrow> normalise_host (IP_String network))
      else normalise_host s)"

definition normaliseValue :: "dimension \<Rightarrow> string \<Rightarrow> string" where
  "normaliseValue dim v = (if dim = DimIP then NormaliseIP v else TrimSpace v)"

definition bucketDomain :: string where
  "bucketDomain = ''n0passtemps/throttle/v1''"

definition bucketKeyHexLen :: nat where
  "bucketKeyHexLen = 32"

text \<open>What \<^verbatim>\<open>BucketKey\<close> writes into the hash.\<close>

definition bucket_preimage :: "'s limiter \<Rightarrow> dimension \<Rightarrow> string \<Rightarrow> string \<Rightarrow> bytes" where
  "bucket_preimage l dim tenantID v =
     writeField (bytes_of bucketDomain) @ writeField (bytes_of (dim_name dim)) @
     writeField (bytes_of tenantID) @ writeField (bytes_of (normaliseValue dim v)) @
     (if dim = DimSubject \<and> lm_factor l \<noteq> [] then writeField (bytes_of (lm_factor l)) else [])"

definition BucketKey :: "'s limiter \<Rightarrow> dimension \<Rightarrow> string \<Rightarrow> string \<Rightarrow> string" where
  "BucketKey l dim tenantID v =
     take bucketKeyHexLen (hex_encode (lm_sha l (bucket_preimage l dim tenantID v)))"

subsection \<open>Limits and verdicts\<close>

text \<open>The thresholds of a dimension: attempts, failures.\<close>

fun limits :: "'s limiter \<Rightarrow> dimension \<Rightarrow> (int \<times> int) res" where
  "limits l DimSubject = Inr (0, tg_max_subject (lm_cfg l))"
| "limits l DimIP = Inr (0, tg_max_ip (lm_cfg l))"
| "limits l DimAPIKey = Inr (tg_max_key (lm_cfg l), 0)"
| "limits l DimAdminRevoke = Inr (tg_revoke_burst (lm_cfg l), 0)"
| "limits l DimEnrolmentTicket = Inr (0, tg_max_subject (lm_cfg l))"
| "limits l (UnknownDim s) = Inl (OtherErr ''throttle: unknown dimension'')"

fun validate :: "'s limiter \<Rightarrow> (dimension \<times> string) list \<Rightarrow> unit res" where
  "validate l [] = Inr ()"
| "validate l ((dim, _) # rest) =
     (case limits l dim of Inl e \<Rightarrow> Inl e | Inr _ \<Rightarrow> validate l rest)"

definition locksOut :: "'s limiter \<Rightarrow> dimension \<Rightarrow> bool" where
  "locksOut l dim \<longleftrightarrow> \<not> (dim = DimSubject \<and> lm_factor l = FactorWebAuthn)"

definition ownedByOneParty :: "dimension \<Rightarrow> bool" where
  "ownedByOneParty dim \<longleftrightarrow> dim = DimSubject \<or> dim = DimEnrolmentTicket"

text \<open>\<^verbatim>\<open>ceilSeconds\<close>, with the wrap-around of the 64-bit addition written out.\<close>

definition ceilSeconds :: "duration \<Rightarrow> duration" where
  "ceilSeconds d =
     (if d \<le> 0 then 0
      else let r = go_mod d second in
        if r \<noteq> 0 then wrap64 (d + (second - r)) else d)"

definition blockedResult :: "dimension \<Rightarrow> throttle_state \<Rightarrow> duration \<Rightarrow> verdict" where
  "blockedResult dim st remaining = zero_verdict
     \<lparr>vd_blocked := True, vd_retry := ceilSeconds remaining, vd_dim := dim,
      vd_attempts := th_attempts st, vd_failures := th_failures st\<rparr>"

definition rateLimitedResult :: "dimension \<Rightarrow> throttle_state \<Rightarrow> duration \<Rightarrow> verdict" where
  "rateLimitedResult dim st remaining = (blockedResult dim st remaining)\<lparr>vd_blocked := False\<rparr>"

definition advisoryResult :: "dimension \<Rightarrow> throttle_state \<Rightarrow> verdict" where
  "advisoryResult dim st = zero_verdict
     \<lparr>vd_allowed := True, vd_advisory := True, vd_dim := dim,
      vd_attempts := th_attempts st, vd_failures := th_failures st\<rparr>"

definition keepClosest :: "verdict \<Rightarrow> dimension \<Rightarrow> throttle_state \<Rightarrow> verdict" where
  "keepClosest current dim st =
     (if vd_dim current \<noteq> UnknownDim [] \<and>
         (th_failures st < vd_failures current
          \<or> th_failures st = vd_failures current \<and> th_attempts st \<le> vd_attempts current)
      then current
      else zero_verdict\<lparr>vd_allowed := True, vd_dim := dim,
             vd_attempts := th_attempts st, vd_failures := th_failures st\<rparr>)"

definition withCounters :: "verdict \<Rightarrow> (dimension \<times> counter) list \<Rightarrow> verdict" where
  "withCounters res counters = (if counters \<noteq> [] then res\<lparr>vd_counters := counters\<rparr> else res)"

definition counter_of :: "throttle_state \<Rightarrow> counter" where
  "counter_of st = \<lparr>ct_attempts = th_attempts st, ct_failures = th_failures st\<rparr>"

text \<open>\<^verbatim>\<open>st.BlockedUntil.Sub(now)\<close>, on a blocked bucket.\<close>

definition remaining_block :: "throttle_state \<Rightarrow> instant \<Rightarrow> duration" where
  "remaining_block st now = (case th_blocked st of None \<Rightarrow> 0 | Some u \<Rightarrow> time_sub u now)"

subsection \<open>Check\<close>

fun check_loop :: "'s limiter \<Rightarrow> string \<Rightarrow> (dimension \<times> string) list \<Rightarrow> instant \<Rightarrow> dimension list
    \<Rightarrow> verdict \<Rightarrow> (dimension \<times> counter) list \<Rightarrow> ('s, verdict) call" where
  "check_loop l tenantID dims now [] closest counters = ret (withCounters closest counters)"
| "check_loop l tenantID dims now (dim # rest) closest counters =
     (case map_of dims dim of
        None \<Rightarrow> check_loop l tenantID dims now rest closest counters
      | Some value \<Rightarrow>
          (let v = normaliseValue dim value in
           if v = [] then check_loop l tenantID dims now rest closest counters
           else bindp (caught (op_get (lm_store l) tenantID (BucketKey l dim tenantID v)))
             (\<lambda>r. case r of
                Inl e \<Rightarrow>
                  if e = ErrNotFound then check_loop l tenantID dims now rest closest counters
                  else failp e
              | Inr st \<Rightarrow>
                  (let counters = AList.update dim (counter_of st) counters in
                   if blocked st now
                   then ret (withCounters (blockedResult dim st (remaining_block st now)) counters)
                   else check_loop l tenantID dims now rest (keepClosest closest dim st) counters))))"

definition Check :: "'s limiter \<Rightarrow> string \<Rightarrow> (dimension \<times> string) list \<Rightarrow> instant
    \<Rightarrow> ('s, verdict) call" where
  "Check l tenantID dims now =
     (if \<not> tg_enabled (lm_cfg l) then ret allowed_verdict
      else case validate l dims of
             Inl e \<Rightarrow> failp e
           | Inr _ \<Rightarrow> check_loop l tenantID dims now dimensionOrder allowed_verdict [])"

subsection \<open>Record\<close>

definition owner_of :: "dimension \<Rightarrow> string \<Rightarrow> string" where
  "owner_of dim v = (if dim = DimSubject then v else [])"

fun hit_loop :: "'s limiter \<Rightarrow> string \<Rightarrow> (dimension \<times> string) list \<Rightarrow> instant \<Rightarrow> bool \<Rightarrow> dimension list
    \<Rightarrow> observed list \<Rightarrow> ('s, observed list) call" where
  "hit_loop l tenantID dims now failure [] seen = ret seen"
| "hit_loop l tenantID dims now failure (dim # rest) seen =
     (case map_of dims dim of
        None \<Rightarrow> hit_loop l tenantID dims now failure rest seen
      | Some value \<Rightarrow>
          (let v = normaliseValue dim value in
           if v = [] then hit_loop l tenantID dims now failure rest seen
           else
             (let key = BucketKey l dim tenantID v in
              bindp (op_hit (lm_store l) tenantID key (owner_of dim v) (tg_window (lm_cfg l)) now failure)
                (\<lambda>st. hit_loop l tenantID dims now failure rest
                        (seen @ [\<lparr>ob_dim = dim, ob_key = key, ob_st = st\<rparr>])))))"

definition clear :: "'s limiter \<Rightarrow> string \<Rightarrow> observed \<Rightarrow> ('s, unit) call" where
  "clear l tenantID ob =
     bindp (caught (op_reset (lm_store l) tenantID (ob_key ob)))
       (\<lambda>r. case r of
          Inl e \<Rightarrow> if e \<noteq> ErrNotFound then failp e else ret ()
        | Inr _ \<Rightarrow> ret ())"

definition judge :: "'s limiter \<Rightarrow> string \<Rightarrow> observed \<Rightarrow> instant \<Rightarrow> bool \<Rightarrow> ('s, verdict) call" where
  "judge l tenantID ob now failure =
     (if blocked (ob_st ob) now
      then ret (blockedResult (ob_dim ob) (ob_st ob) (remaining_block (ob_st ob) now))
      else case limits l (ob_dim ob) of
        Inl e \<Rightarrow> failp e
      | Inr (maxAttempts, maxFailures) \<Rightarrow>
          if ob_dim ob = DimAPIKey then
            (if maxAttempts > 0 \<and> th_attempts (ob_st ob) > maxAttempts
             then ret (rateLimitedResult (ob_dim ob) (ob_st ob)
                         (time_sub (th_window (ob_st ob) + tg_window (lm_cfg l)) now))
             else ret allowed_verdict)
          else
            (let crossed = (failure \<and> maxFailures > 0 \<and> th_failures (ob_st ob) \<ge> maxFailures
                            \<or> maxAttempts > 0 \<and> th_attempts (ob_st ob) \<ge> maxAttempts) in
             if \<not> crossed then
               (if \<not> failure \<and> ownedByOneParty (ob_dim ob) \<and> th_failures (ob_st ob) > 0
                then bindp (clear l tenantID ob) (\<lambda>_. ret allowed_verdict)
                else ret allowed_verdict)
             else if \<not> locksOut l (ob_dim ob) then ret (advisoryResult (ob_dim ob) (ob_st ob))
             else bindp (op_block (lm_store l) tenantID (ob_key ob) (now + tg_lockout (lm_cfg l)))
                    (\<lambda>_. ret (blockedResult (ob_dim ob) (ob_st ob) (tg_lockout (lm_cfg l))))))"

text \<open>What the loop of \<^verbatim>\<open>Record\<close> holds after one more verdict.\<close>

definition combine :: "verdict \<Rightarrow> verdict \<Rightarrow> observed \<Rightarrow> verdict" where
  "combine refused v ob =
     (if \<not> vd_allowed refused then refused
      else if \<not> vd_allowed v then v
      else if vd_advisory v \<and> \<not> vd_advisory refused then v
      else if vd_advisory refused then refused
      else keepClosest refused (ob_dim ob) (ob_st ob))"

fun judge_loop :: "'s limiter \<Rightarrow> string \<Rightarrow> instant \<Rightarrow> bool \<Rightarrow> observed list \<Rightarrow> verdict
    \<Rightarrow> ('s, verdict) call" where
  "judge_loop l tenantID now failure [] refused = ret refused"
| "judge_loop l tenantID now failure (ob # rest) refused =
     bindp (judge l tenantID ob now failure)
       (\<lambda>v. judge_loop l tenantID now failure rest (combine refused v ob))"

definition counters_of :: "observed list \<Rightarrow> (dimension \<times> counter) list" where
  "counters_of seen = fold (\<lambda>ob. AList.update (ob_dim ob) (counter_of (ob_st ob))) seen []"

definition Record :: "'s limiter \<Rightarrow> string \<Rightarrow> (dimension \<times> string) list \<Rightarrow> bool \<Rightarrow> instant
    \<Rightarrow> ('s, verdict) call" where
  "Record l tenantID dims failure now =
     (if \<not> tg_enabled (lm_cfg l) then ret allowed_verdict
      else case validate l dims of
        Inl e \<Rightarrow> failp e
      | Inr _ \<Rightarrow>
          bindp (hit_loop l tenantID dims now failure dimensionOrder [])
            (\<lambda>seen. bindp (judge_loop l tenantID now failure seen allowed_verdict)
               (\<lambda>refused. ret (withCounters refused (counters_of seen)))))"

subsection \<open>Reserve, Fail and Succeed\<close>

text \<open>
  A reservation made while limiting is disabled holds no limiter. A nil pointer is \<open>None\<close>
  where a reservation is passed.
\<close>

record 's reservation =
  rv_limiter :: "'s limiter option"
  rv_tenant :: string
  rv_now :: instant
  rv_held :: "observed list"
  rv_shared :: "(dimension \<times> string) list"

definition empty_reservation :: "'s reservation" where
  "empty_reservation = \<lparr>rv_limiter = None, rv_tenant = [], rv_now = zero_time, rv_held = [],
     rv_shared = []\<rparr>"

definition judgeReserved :: "'s limiter \<Rightarrow> string \<Rightarrow> observed \<Rightarrow> instant \<Rightarrow> ('s, verdict) call" where
  "judgeReserved l tenantID ob now =
     (if blocked (ob_st ob) now
      then ret (blockedResult (ob_dim ob) (ob_st ob) (remaining_block (ob_st ob) now))
      else case limits l (ob_dim ob) of
        Inl e \<Rightarrow> failp e
      | Inr (_, maxFailures) \<Rightarrow>
          if maxFailures \<le> 0 \<or> th_failures (ob_st ob) \<le> maxFailures then ret allowed_verdict
          else if \<not> locksOut l (ob_dim ob) then ret (advisoryResult (ob_dim ob) (ob_st ob))
          else bindp (op_block (lm_store l) tenantID (ob_key ob) (now + tg_lockout (lm_cfg l)))
                 (\<lambda>_. ret (blockedResult (ob_dim ob) (ob_st ob) (tg_lockout (lm_cfg l)))))"

fun reserve_hits :: "'s limiter \<Rightarrow> string \<Rightarrow> (dimension \<times> string) list \<Rightarrow> instant \<Rightarrow> dimension list
    \<Rightarrow> observed list \<Rightarrow> (dimension \<times> string) list
    \<Rightarrow> ('s, observed list \<times> (dimension \<times> string) list) call" where
  "reserve_hits l tenantID dims now [] held shared = ret (held, shared)"
| "reserve_hits l tenantID dims now (dim # rest) held shared =
     (case map_of dims dim of
        None \<Rightarrow> reserve_hits l tenantID dims now rest held shared
      | Some value \<Rightarrow>
          if \<not> ownedByOneParty dim
          then reserve_hits l tenantID dims now rest held (AList.update dim value shared)
          else
            (let v = normaliseValue dim value in
             if v = [] then reserve_hits l tenantID dims now rest held shared
             else
               (let key = BucketKey l dim tenantID v in
                bindp (op_hit (lm_store l) tenantID key (owner_of dim v) (tg_window (lm_cfg l)) now True)
                  (\<lambda>st. reserve_hits l tenantID dims now rest
                          (held @ [\<lparr>ob_dim = dim, ob_key = key, ob_st = st\<rparr>]) shared))))"

fun judge_held :: "'s limiter \<Rightarrow> string \<Rightarrow> instant \<Rightarrow> observed list \<Rightarrow> verdict \<Rightarrow> ('s, verdict) call" where
  "judge_held l tenantID now [] refused = ret refused"
| "judge_held l tenantID now (ob # rest) refused =
     bindp (judgeReserved l tenantID ob now)
       (\<lambda>v. judge_held l tenantID now rest
              (if vd_allowed refused \<and> \<not> vd_allowed v then v else refused))"

definition Reserve :: "'s limiter \<Rightarrow> string \<Rightarrow> (dimension \<times> string) list \<Rightarrow> instant \<Rightarrow> instant
    \<Rightarrow> ('s, 's reservation option \<times> verdict) call" where
  "Reserve l tenantID dims check_now now =
     (if \<not> tg_enabled (lm_cfg l) then ret (Some empty_reservation, allowed_verdict)
      else bindp (Check l tenantID dims check_now) (\<lambda>checked.
        if \<not> vd_allowed checked then ret (None, checked)
        else bindp (reserve_hits l tenantID dims now dimensionOrder [] []) (\<lambda>(held, shared).
          bindp (judge_held l tenantID now held allowed_verdict) (\<lambda>refused.
            if \<not> vd_allowed refused then ret (None, withCounters refused (vd_counters checked))
            else ret (Some \<lparr>rv_limiter = Some l, rv_tenant = tenantID, rv_now = now,
                            rv_held = held, rv_shared = shared\<rparr>,
                      withCounters allowed_verdict (vd_counters checked))))))"

fun fail_loop :: "'s limiter \<Rightarrow> string \<Rightarrow> instant \<Rightarrow> observed list \<Rightarrow> (dimension \<times> counter) list
    \<Rightarrow> verdict \<Rightarrow> ('s, (dimension \<times> counter) list \<times> verdict) call" where
  "fail_loop l tenantID now [] counters tripped = ret (counters, tripped)"
| "fail_loop l tenantID now (ob # rest) counters tripped =
     bindp (judge l tenantID ob now True)
       (\<lambda>v. fail_loop l tenantID now rest
              (AList.update (ob_dim ob) (counter_of (ob_st ob)) counters)
              (if vd_allowed tripped \<and> \<not> vd_allowed v then v
               else if vd_allowed tripped \<and> \<not> vd_advisory tripped \<and> vd_advisory v then v
               else tripped))"

definition Fail :: "'s reservation option \<Rightarrow> instant \<Rightarrow> ('s, verdict) call" where
  "Fail rv now =
     (case rv of
        None \<Rightarrow> ret allowed_verdict
      | Some r \<Rightarrow>
          (case rv_limiter r of
             None \<Rightarrow> ret allowed_verdict
           | Some l \<Rightarrow>
               bindp (Record l (rv_tenant r) (rv_shared r) True now) (\<lambda>res.
                 bindp (fail_loop l (rv_tenant r) (rv_now r) (rv_held r) (vd_counters res) allowed_verdict)
                   (\<lambda>(counters, tripped).
                      ret (withCounters
                            (if \<not> vd_allowed tripped \<or> vd_advisory tripped then tripped else res)
                            counters)))))"

fun succeed_loop :: "'s limiter \<Rightarrow> string \<Rightarrow> observed list \<Rightarrow> (dimension \<times> counter) list
    \<Rightarrow> ('s, (dimension \<times> counter) list) call" where
  "succeed_loop l tenantID [] counters = ret counters"
| "succeed_loop l tenantID (ob # rest) counters =
     bindp (clear l tenantID ob)
       (\<lambda>_. succeed_loop l tenantID rest
              (AList.update (ob_dim ob)
                 \<lparr>ct_attempts = th_attempts (ob_st ob), ct_failures = th_failures (ob_st ob) - 1\<rparr>
                 counters))"

definition Succeed :: "'s reservation option \<Rightarrow> instant \<Rightarrow> ('s, verdict) call" where
  "Succeed rv now =
     (case rv of
        None \<Rightarrow> ret allowed_verdict
      | Some r \<Rightarrow>
          (case rv_limiter r of
             None \<Rightarrow> ret allowed_verdict
           | Some l \<Rightarrow>
               bindp (Record l (rv_tenant r) (rv_shared r) False now) (\<lambda>res.
                 bindp (succeed_loop l (rv_tenant r) (rv_held r) (vd_counters res))
                   (\<lambda>counters. ret (withCounters res counters)))))"

subsection \<open>ResetSubject\<close>

text \<open>The errors are collected and joined, so the answer is the list of them, empty for nil.\<close>

definition reset_errors :: "err list \<Rightarrow> 'a res \<Rightarrow> err list" where
  "reset_errors errs r = (case r of Inl e \<Rightarrow> if e \<noteq> ErrNotFound then errs @ [e] else errs | Inr _ \<Rightarrow> errs)"

fun reset_factors :: "'s limiter \<Rightarrow> string \<Rightarrow> string \<Rightarrow> factor list \<Rightarrow> err list \<Rightarrow> 's \<Rightarrow> err list \<times> 's" where
  "reset_factors l tenantID subjectID [] errs s = (errs, s)"
| "reset_factors l tenantID subjectID (f # fs) errs s =
     (case op_reset (lm_store l) tenantID
             (BucketKey (ForFactor l f) DimSubject tenantID subjectID) s of
        (r, s') \<Rightarrow> reset_factors l tenantID subjectID fs (reset_errors errs r) s')"

definition ResetSubject :: "'s limiter \<Rightarrow> string \<Rightarrow> string \<Rightarrow> 's \<Rightarrow> err list \<times> 's" where
  "ResetSubject l tenantID subjectID s =
     (if subjectID = [] then ([OtherErr ''throttle: reset subject: subject id is required''], s)
      else
        (case reset_factors l tenantID subjectID subjectFactors [] s of
           (errs, s1) \<Rightarrow>
             (case op_reset_subject (lm_store l) tenantID subjectID s1 of
                (r, s2) \<Rightarrow> (reset_errors errs r, s2))))"

subsection \<open>The buckets an attempt concerns\<close>

text \<open>
  The dimensions of a request that identify somebody, with their normalised values, in the
  order of evaluation; and what an attempt makes of the buckets they name.
\<close>

definition supplied :: "(dimension \<times> string) list \<Rightarrow> dimension list \<Rightarrow> (dimension \<times> string) list" where
  "supplied dims order = List.map_filter
     (\<lambda>dim. case map_of dims dim of
        None \<Rightarrow> None
      | Some value \<Rightarrow> if normaliseValue dim value = [] then None
                      else Some (dim, normaliseValue dim value)) order"

definition key_of :: "'s limiter \<Rightarrow> string \<Rightarrow> dimension \<times> string \<Rightarrow> string" where
  "key_of l t dv = BucketKey l (fst dv) t (snd dv)"

definition hit_of :: "'s limiter \<Rightarrow> string \<Rightarrow> instant \<Rightarrow> bool \<Rightarrow> buckets \<Rightarrow> dimension \<times> string
    \<Rightarrow> throttle_state" where
  "hit_of l t now failure m dv =
     hit_state (m (t, key_of l t dv)) t (key_of l t dv) (owner_of (fst dv) (snd dv))
       (tg_window (lm_cfg l)) now failure"

definition obs_of :: "'s limiter \<Rightarrow> string \<Rightarrow> instant \<Rightarrow> bool \<Rightarrow> buckets \<Rightarrow> dimension \<times> string
    \<Rightarrow> observed" where
  "obs_of l t now failure m dv =
     \<lparr>ob_dim = fst dv, ob_key = key_of l t dv, ob_st = hit_of l t now failure m dv\<rparr>"

fun hit_all :: "'s limiter \<Rightarrow> string \<Rightarrow> instant \<Rightarrow> bool \<Rightarrow> (dimension \<times> string) list \<Rightarrow> buckets
    \<Rightarrow> observed list \<times> buckets" where
  "hit_all l t now failure [] m = ([], m)"
| "hit_all l t now failure (dv # rest) m =
     (case hit_all l t now failure rest (m((t, key_of l t dv) \<mapsto> hit_of l t now failure m dv)) of
        (obs, m') \<Rightarrow> (obs_of l t now failure m dv # obs, m'))"

lemma supplied_Nil [simp]: "supplied dims [] = []"
  by (simp add: supplied_def List.map_filter_def)

lemma supplied_Cons:
  "supplied dims (dim # order) =
     (case map_of dims dim of
        None \<Rightarrow> supplied dims order
      | Some value \<Rightarrow> if normaliseValue dim value = [] then supplied dims order
                      else (dim, normaliseValue dim value) # supplied dims order)"
  by (simp add: supplied_def List.map_filter_def split: option.split)

lemma supplied_dim: "dv \<in> set (supplied dims order) \<Longrightarrow> fst dv \<in> set order"
  by (induction order) (auto simp: supplied_Cons split: option.splits if_splits)

lemma supplied_distinct: "distinct order \<Longrightarrow> distinct (map fst (supplied dims order))"
  by (induction order)
    (auto simp: supplied_Cons split: option.split dest: supplied_dim)

lemma distinct_order [simp]: "distinct dimensionOrder"
  by (simp add: dimensionOrder_def)

lemma hit_all_spec:
  assumes "distinct (map (key_of l t) dvs)"
  shows "fst (hit_all l t now f dvs m) = map (obs_of l t now f m) dvs
    \<and> (\<forall>dv \<in> set dvs. snd (hit_all l t now f dvs m) (t, key_of l t dv) = Some (hit_of l t now f m dv))
    \<and> (\<forall>tk. tk \<notin> (\<lambda>dv. (t, key_of l t dv)) ` set dvs \<longrightarrow> snd (hit_all l t now f dvs m) tk = m tk)"
  using assms
proof (induction dvs arbitrary: m)
  case Nil
  then show ?case by simp
next
  case (Cons dv dvs)
  define m1 where "m1 = m((t, key_of l t dv) \<mapsto> hit_of l t now f m dv)"
  obtain obs m2 where rest: "hit_all l t now f dvs m1 = (obs, m2)" by force
  have same: "hit_of l t now f m1 dv' = hit_of l t now f m dv'" if "dv' \<in> set dvs" for dv'
  proof -
    from that Cons.prems have "key_of l t dv' \<noteq> key_of l t dv" by (auto simp: image_iff)
    then show ?thesis by (simp add: hit_of_def m1_def)
  qed
  from Cons.prems have "distinct (map (key_of l t) dvs)" by simp
  from Cons.IH [OF this, of m1]
  have IH: "obs = map (obs_of l t now f m1) dvs"
    "\<And>dv. dv \<in> set dvs \<Longrightarrow> m2 (t, key_of l t dv) = Some (hit_of l t now f m1 dv)"
    "\<And>tk. tk \<notin> (\<lambda>dv. (t, key_of l t dv)) ` set dvs \<Longrightarrow> m2 tk = m1 tk"
    unfolding rest fst_conv snd_conv by blast+
  have out: "hit_all l t now f (dv # dvs) m = (obs_of l t now f m dv # obs, m2)"
    using rest by (simp add: m1_def)
  have "obs = map (obs_of l t now f m) dvs"
    unfolding IH(1) by (simp add: obs_of_def same)
  moreover have "m2 (t, key_of l t dv) = Some (hit_of l t now f m dv)"
    using IH(3) [of "(t, key_of l t dv)"] Cons.prems by (auto simp: m1_def image_iff)
  moreover have "m2 tk = m tk" if "tk \<notin> (\<lambda>dv. (t, key_of l t dv)) ` set (dv # dvs)" for tk
    using that IH(3) [of tk] by (auto simp: m1_def)
  ultimately show ?case
    unfolding out using IH(2) same by auto
qed

subsection \<open>What a judged bucket means\<close>

datatype judgement = JBlocked | JRate | JPass | JClear | JAdvise | JLock

definition judgement :: "'s limiter \<Rightarrow> dimension \<Rightarrow> throttle_state \<Rightarrow> instant \<Rightarrow> bool \<Rightarrow> judgement" where
  "judgement l dim st now failure =
     (case limits l dim of Inl _ \<Rightarrow> JPass | Inr (maxAttempts, maxFailures) \<Rightarrow>
        if blocked st now then JBlocked
        else if dim = DimAPIKey then
          (if 0 < maxAttempts \<and> maxAttempts < th_attempts st then JRate else JPass)
        else if failure \<and> 0 < maxFailures \<and> maxFailures \<le> th_failures st
             \<or> 0 < maxAttempts \<and> maxAttempts \<le> th_attempts st
        then (if locksOut l dim then JLock else JAdvise)
        else if \<not> failure \<and> ownedByOneParty dim \<and> 0 < th_failures st then JClear
        else JPass)"

definition refuses :: "judgement \<Rightarrow> bool" where
  "refuses j \<longleftrightarrow> j \<in> {JBlocked, JRate, JLock}"

text \<open>What a judgement leaves in the bucket that held \<open>st\<close>.\<close>

fun judged_bucket :: "'s limiter \<Rightarrow> instant \<Rightarrow> throttle_state \<Rightarrow> judgement \<Rightarrow> throttle_state option \<Rightarrow> bool" where
  "judged_bucket l now st JClear b = (b = None)"
| "judged_bucket l now st JLock b =
     (\<exists>at. b = Some (st\<lparr>th_blocked := Some (now + tg_lockout (lm_cfg l)), th_updated := at\<rparr>))"
| "judged_bucket l now st _ b = (b = Some st)"

lemma validate_ok: "validate l dims = Inr () \<longleftrightarrow> (\<forall>dv \<in> set dims. is_ok (limits l (fst dv)))"
  by (induction dims) (auto simp: is_ok_iff split: sum.splits)

lemma limits_known: "dim \<in> set dimensionOrder \<Longrightarrow> \<exists>a f. limits l dim = Inr (a, f)"
  by (auto simp: dimensionOrder_def)

lemma verdict_allowed_simps [simp]:
  "vd_allowed allowed_verdict" "\<not> vd_advisory allowed_verdict" "vd_counters allowed_verdict = []"
  "\<not> vd_allowed (blockedResult d st r)" "\<not> vd_allowed (rateLimitedResult d st r)"
  "vd_allowed (advisoryResult d st)" "vd_advisory (advisoryResult d st)"
  "vd_allowed (withCounters v cs) = vd_allowed v"
  "vd_advisory (withCounters v cs) = vd_advisory v"
  "vd_retry (withCounters v cs) = vd_retry v"
  "vd_dim (withCounters v cs) = vd_dim v"
  by (simp_all add: allowed_verdict_def zero_verdict_def blockedResult_def rateLimitedResult_def
      advisoryResult_def withCounters_def)

lemma keepClosest_allowed [simp]: "vd_allowed v \<Longrightarrow> vd_allowed (keepClosest v d st)"
  by (simp add: keepClosest_def)

lemma combine_allowed [simp]: "vd_allowed (combine r v ob) \<longleftrightarrow> vd_allowed r \<and> vd_allowed v"
  by (auto simp: combine_def)

subsection \<open>The limiter over any store that keeps the contract\<close>

context throttle_store
begin

lemma judge_res:
  assumes "lm_store l = ops" and "judge l t ob now failure s = (Inr v, s')"
    and "ob_dim ob \<in> set dimensionOrder"
    and "view s (t, ob_key ob) = Some (ob_st ob)"
  shows "judged_bucket l now (ob_st ob) (judgement l (ob_dim ob) (ob_st ob) now failure)
           (view s' (t, ob_key ob))
    \<and> (\<forall>tk. tk \<noteq> (t, ob_key ob) \<longrightarrow> view s' tk = view s tk)
    \<and> (vd_allowed v \<longleftrightarrow> \<not> refuses (judgement l (ob_dim ob) (ob_st ob) now failure))"
proof -
  obtain a f where lim: "limits l (ob_dim ob) = Inr (a, f)"
    using limits_known [OF assms(3)] by blast
  define j where "j = judgement l (ob_dim ob) (ob_st ob) now failure"
  note j = j_def [unfolded judgement_def lim, simplified]
  note run = assms(2) [unfolded judge_def lim Let_def]
  have quiet: "?thesis" if "s' = s" "j \<notin> {JClear, JLock}" "vd_allowed v \<longleftrightarrow> \<not> refuses j"
    using that assms(4) unfolding j_def [symmetric] by (cases j) auto
  show ?thesis
  proof (cases j)
    case JClear
    from run j JClear have "clear l t ob s = (Inr (), s')" "v = allowed_verdict"
      by (auto simp: bindp_Inr ret_def split: if_splits)
    then obtain r where "op_reset ops t (ob_key ob) s = (r, s')" "r = Inl ErrNotFound \<or> is_ok r"
      using assms(1)
      by (auto simp: clear_def bindp_Inr caught_def ret_def failp_def split: prod.splits sum.splits if_splits)
    from reset_gone [OF this] \<open>v = allowed_verdict\<close> JClear show ?thesis
      unfolding j_def [symmetric] by (simp add: refuses_def)
  next
    case JLock
    from run j JLock have v: "v = blockedResult (ob_dim ob) (ob_st ob) (tg_lockout (lm_cfg l))"
      and "op_block ops t (ob_key ob) (now + tg_lockout (lm_cfg l)) s = (Inr (), s')"
      using assms(1) by (auto simp: bindp_Inr ret_def split: if_splits)
    from block_law [OF this(2)] v JLock assms(4) show ?thesis
      unfolding j_def [symmetric] by (auto simp: refuses_def)
  qed (rule quiet; use run j in \<open>auto simp: ret_def bindp_Inr refuses_def split: if_splits\<close>)+
qed

lemma hit_loop_res:
  assumes "lm_store l = ops"
  shows "hit_loop l t dims now failure order seen s = (Inr out, s') \<Longrightarrow>
    out = seen @ fst (hit_all l t now failure (supplied dims order) (view s))
    \<and> view s' = snd (hit_all l t now failure (supplied dims order) (view s))"
proof (induction order arbitrary: seen s)
  case Nil
  then show ?case by (simp add: ret_def)
next
  case (Cons dim order)
  show ?case
  proof (cases "\<exists>value. map_of dims dim = Some value \<and> normaliseValue dim value \<noteq> []")
    case False
    with Cons show ?thesis by (auto simp: supplied_Cons split: option.splits)
  next
    case True
    then obtain x where given: "map_of dims dim = Some x" "normaliseValue dim x \<noteq> []"
      by blast
    let ?dv = "(dim, normaliseValue dim x)"
    from Cons.prems given obtain st s1
      where hit: "op_hit ops t (key_of l t ?dv) (owner_of dim (snd ?dv)) (tg_window (lm_cfg l)) now failure s
          = (Inr st, s1)"
        and rest: "hit_loop l t dims now failure order
            (seen @ [\<lparr>ob_dim = dim, ob_key = key_of l t ?dv, ob_st = st\<rparr>]) s1 = (Inr out, s')"
      by (auto simp: assms Let_def bindp_Inr key_of_def)
    define m1 where "m1 = (view s)((t, key_of l t ?dv) \<mapsto> hit_of l t now failure (view s) ?dv)"
    obtain obs m2 where all: "hit_all l t now failure (supplied dims order) m1 = (obs, m2)"
      by force
    from hit_law [OF hit] have st: "st = hit_of l t now failure (view s) ?dv" and "view s1 = m1"
      by (auto simp: hit_of_def m1_def)
    with Cons.IH [OF rest] all have "out = seen @ obs_of l t now failure (view s) ?dv # obs \<and> view s' = m2"
      by (simp add: obs_of_def)
    moreover have "hit_all l t now failure (supplied dims (dim # order)) (view s)
        = (obs_of l t now failure (view s) ?dv # obs, m2)"
      using all given by (simp add: supplied_Cons m1_def)
    ultimately show ?thesis by simp
  qed
qed

lemma judge_loop_res:
  assumes "lm_store l = ops" and "set (map ob_dim obs) \<subseteq> set dimensionOrder"
    and "distinct (map ob_key obs)"
    and "\<forall>ob \<in> set obs. view s (t, ob_key ob) = Some (ob_st ob)"
    and "judge_loop l t now failure obs refused s = (Inr v, s')"
  shows "(\<forall>ob \<in> set obs. judged_bucket l now (ob_st ob)
            (judgement l (ob_dim ob) (ob_st ob) now failure) (view s' (t, ob_key ob)))
    \<and> (\<forall>tk. tk \<notin> (\<lambda>ob. (t, ob_key ob)) ` set obs \<longrightarrow> view s' tk = view s tk)
    \<and> (vd_allowed v \<longleftrightarrow> vd_allowed refused \<and>
         (\<forall>ob \<in> set obs. \<not> refuses (judgement l (ob_dim ob) (ob_st ob) now failure)))"
  using assms(2-5)
proof (induction obs arbitrary: refused s)
  case Nil
  then show ?case by (simp add: ret_def)
next
  case (Cons ob obs)
  from Cons.prems(4) obtain v1 s1 where j: "judge l t ob now failure s = (Inr v1, s1)"
    and rest: "judge_loop l t now failure obs (combine refused v1 ob) s1 = (Inr v, s')"
    by (auto simp: bindp_Inr)
  have "ob_dim ob \<in> set dimensionOrder" "view s (t, ob_key ob) = Some (ob_st ob)"
    using Cons.prems by auto
  note J = judge_res [OF assms(1) j this]
  have held: "\<forall>x \<in> set obs. view s1 (t, ob_key x) = Some (ob_st x)"
    using J Cons.prems(2,3) by (auto simp: image_iff)
  have "set (map ob_dim obs) \<subseteq> set dimensionOrder" "distinct (map ob_key obs)"
    using Cons.prems by auto
  note IH = Cons.IH [OF this held rest]
  have "(t, ob_key ob) \<notin> (\<lambda>ob. (t, ob_key ob)) ` set obs"
    using Cons.prems(2) by (auto simp: image_iff)
  with IH J show ?case by auto
qed

end

text \<open>The buckets one party owns, which a reservation counts in; and the reservations granted.\<close>

definition held_dims :: "(dimension \<times> string) list \<Rightarrow> dimension list \<Rightarrow> (dimension \<times> string) list" where
  "held_dims dims order = filter (\<lambda>dv. ownedByOneParty (fst dv)) (supplied dims order)"

definition granted :: "'s limiter \<Rightarrow> dimension \<Rightarrow> throttle_state \<Rightarrow> instant \<Rightarrow> bool" where
  "granted l dim st now \<longleftrightarrow> \<not> blocked st now \<and>
     (case limits l dim of Inl _ \<Rightarrow> False
      | Inr (_, maxFailures) \<Rightarrow>
          maxFailures \<le> 0 \<or> th_failures st \<le> maxFailures \<or> \<not> locksOut l dim)"

context throttle_store
begin

lemma check_loop_res:
  assumes "lm_store l = ops"
  shows "check_loop l t dims now order closest cs s = (Inr v, s') \<Longrightarrow> vd_allowed closest \<Longrightarrow>
    view s' = view s \<and>
    (if vd_allowed v
     then \<forall>dv \<in> set (supplied dims order). \<forall>st. view s (t, key_of l t dv) = Some st \<longrightarrow> \<not> blocked st now
     else \<exists>dv \<in> set (supplied dims order). \<exists>st. view s (t, key_of l t dv) = Some st \<and> blocked st now
        \<and> vd_dim v = fst dv \<and> vd_retry v = ceilSeconds (remaining_block st now))"
proof (induction order arbitrary: closest cs s)
  case Nil
  then show ?case by (auto simp: ret_def)
next
  case (Cons dim order)
  show ?case
  proof (cases "\<exists>x. map_of dims dim = Some x \<and> normaliseValue dim x \<noteq> []")
    case False
    with Cons show ?thesis by (auto simp: supplied_Cons split: option.splits)
  next
    case True
    then obtain x where given: "map_of dims dim = Some x" "normaliseValue dim x \<noteq> []" by blast
    let ?dv = "(dim, normaliseValue dim x)"
    have sup: "supplied dims (dim # order) = ?dv # supplied dims order"
      using given by (simp add: supplied_Cons)
    obtain r s1 where get: "op_get ops t (key_of l t ?dv) s = (r, s1)" by fastforce
    note run = Cons.prems(1) [simplified, unfolded given option.case Let_def assms]
    show ?thesis
    proof (cases r)
      case (Inl e)
      with run get given have e: "e = ErrNotFound"
        and rest: "check_loop l t dims now order closest cs s1 = (Inr v, s')"
        by (auto simp: bindp_Inr caught_def failp_def key_of_def split: if_splits)
      from get_error [OF get [unfolded Inl]] e have "view s1 = view s" "view s (t, key_of l t ?dv) = None"
        by auto
      with Cons.IH [OF rest Cons.prems(2)] show ?thesis by (auto simp: sup)
    next
      case (Inr st)
      from get_law [OF get [unfolded Inr]] have at: "view s (t, key_of l t ?dv) = Some st"
        and vs1: "view s1 = view s" by auto
      show ?thesis
      proof (cases "blocked st now")
        case True
        with run get given Inr have "v = withCounters (blockedResult dim st (remaining_block st now))
            (AList.update dim (counter_of st) cs)" "s' = s1"
          by (auto simp: bindp_Inr caught_def ret_def key_of_def)
        with True at vs1 show ?thesis
          by (auto simp: sup blockedResult_def zero_verdict_def withCounters_def)
      next
        case False
        with run get given Inr have rest: "check_loop l t dims now order (keepClosest closest dim st)
            (AList.update dim (counter_of st) cs) s1 = (Inr v, s')"
          by (auto simp: bindp_Inr caught_def key_of_def)
        from Cons.IH [OF rest] Cons.prems(2) at vs1 False show ?thesis
          by (auto simp: sup)
      qed
    qed
  qed
qed

lemma Check_res:
  assumes "lm_store l = ops" and "tg_enabled (lm_cfg l)" and "Check l t dims now s = (Inr v, s')"
  shows "view s' = view s \<and>
    (if vd_allowed v
     then \<forall>dv \<in> set (supplied dims dimensionOrder). \<forall>st.
            view s (t, key_of l t dv) = Some st \<longrightarrow> \<not> blocked st now
     else \<exists>dv \<in> set (supplied dims dimensionOrder). \<exists>st.
            view s (t, key_of l t dv) = Some st \<and> blocked st now
            \<and> vd_dim v = fst dv \<and> vd_retry v = ceilSeconds (remaining_block st now))"
  using assms(2,3)
  by (intro check_loop_res [OF assms(1)]) (auto simp: Check_def failp_def split: sum.splits)

lemma Record_res:
  assumes "lm_store l = ops" and "tg_enabled (lm_cfg l)"
    and "distinct (map (key_of l t) (supplied dims dimensionOrder))"
    and "Record l t dims failure now s = (Inr v, s')"
  shows "(\<forall>dv \<in> set (supplied dims dimensionOrder).
            judged_bucket l now (hit_of l t now failure (view s) dv)
              (judgement l (fst dv) (hit_of l t now failure (view s) dv) now failure)
              (view s' (t, key_of l t dv)))
    \<and> (\<forall>tk. tk \<notin> (\<lambda>dv. (t, key_of l t dv)) ` set (supplied dims dimensionOrder) \<longrightarrow> view s' tk = view s tk)
    \<and> (vd_allowed v \<longleftrightarrow> (\<forall>dv \<in> set (supplied dims dimensionOrder).
         \<not> refuses (judgement l (fst dv) (hit_of l t now failure (view s) dv) now failure)))"
proof -
  let ?dvs = "supplied dims dimensionOrder"
  let ?obs = "map (obs_of l t now failure (view s)) ?dvs"
  from assms(2,4) obtain seen s1 w where
    hits: "hit_loop l t dims now failure dimensionOrder [] s = (Inr seen, s1)"
    and judged: "judge_loop l t now failure seen allowed_verdict s1 = (Inr w, s')"
    and v: "v = withCounters w (counters_of seen)"
    by (auto simp: Record_def bindp_Inr failp_def ret_def split: sum.splits)
  note A = hit_all_spec [OF assms(3), of now failure "view s"]
  from hit_loop_res [OF assms(1) hits] A have seen: "seen = ?obs" by simp
  have s1: "\<forall>dv \<in> set ?dvs. view s1 (t, key_of l t dv) = Some (hit_of l t now failure (view s) dv)"
    "\<And>tk. tk \<notin> (\<lambda>dv. (t, key_of l t dv)) ` set ?dvs \<Longrightarrow> view s1 tk = view s tk"
    unfolding hit_loop_res [OF assms(1) hits, THEN conjunct2] using A by blast+
  have keys: "map ob_key ?obs = map (key_of l t) ?dvs" by (simp add: obs_of_def)
  have "set (map ob_dim ?obs) \<subseteq> set dimensionOrder"
    by (auto simp: obs_of_def dest: supplied_dim)
  moreover have "distinct (map ob_key ?obs)" unfolding keys by (rule assms(3))
  moreover have "\<forall>ob \<in> set ?obs. view s1 (t, ob_key ob) = Some (ob_st ob)"
    using s1(1) by (auto simp: obs_of_def)
  ultimately have J: "(\<forall>ob \<in> set ?obs. judged_bucket l now (ob_st ob)
            (judgement l (ob_dim ob) (ob_st ob) now failure) (view s' (t, ob_key ob)))"
    "\<forall>tk. tk \<notin> (\<lambda>ob. (t, ob_key ob)) ` set ?obs \<longrightarrow> view s' tk = view s1 tk"
    "vd_allowed w \<longleftrightarrow> (\<forall>ob \<in> set ?obs. \<not> refuses (judgement l (ob_dim ob) (ob_st ob) now failure))"
    using judge_loop_res [OF assms(1) _ _ _ judged [unfolded seen]] verdict_allowed_simps(1) by blast+
  have img: "(\<lambda>ob. (t, ob_key ob)) ` set ?obs = (\<lambda>dv. (t, key_of l t dv)) ` set ?dvs"
    by (auto simp: obs_of_def image_iff)
  show ?thesis
    using J s1(2) unfolding v img by (auto simp: obs_of_def)
qed

end

subsection \<open>Runs of the store\<close>

text \<open>
  The operations of the store that concurrent requests interleave, each one atomic: any list of
  them is a possible run. \<open>perform\<close> says whether the operation succeeded, and the state after it.
\<close>

datatype store_op =
    OpHit string string string duration instant bool
  | OpBlock string string instant
  | OpGet string string
  | OpReset string string
  | OpResetSubject string string
  | OpSweep instant

fun perform :: "'s throttle_ops \<Rightarrow> store_op \<Rightarrow> 's \<Rightarrow> bool \<times> 's" where
  "perform ops (OpHit t k sj w now f) s = map_prod is_ok id (op_hit ops t k sj w now f s)"
| "perform ops (OpBlock t k until) s = map_prod is_ok id (op_block ops t k until s)"
| "perform ops (OpGet t k) s = map_prod is_ok id (op_get ops t k s)"
| "perform ops (OpReset t k) s = map_prod is_ok id (op_reset ops t k s)"
| "perform ops (OpResetSubject t sj) s = map_prod is_ok id (op_reset_subject ops t sj s)"
| "perform ops (OpSweep cutoff) s = map_prod is_ok id (op_delete_stale ops cutoff s)"

fun perform_all :: "'s throttle_ops \<Rightarrow> store_op list \<Rightarrow> 's \<Rightarrow> 's" where
  "perform_all ops [] s = s"
| "perform_all ops (x # xs) s = perform_all ops xs (snd (perform ops x s))"

text \<open>
  A run seen from one bucket: \<open>grants\<close> is a hit that counts an attempt in it, as a failure and in the
  limiter's window, and that the limiter grants; \<open>gives_back\<close> is a step that gives the failure
  budget back, by restarting the window or by removing the bucket. \<open>burst\<close> counts both.
\<close>

definition bucket_failures :: "throttle_state option \<Rightarrow> int" where
  "bucket_failures b = (case b of None \<Rightarrow> 0 | Some st \<Rightarrow> th_failures st)"

fun grants :: "'s limiter \<Rightarrow> dimension \<Rightarrow> string \<Rightarrow> string \<Rightarrow> store_op \<Rightarrow> throttle_state option \<Rightarrow> bool" where
  "grants l dim t k (OpHit t' k' sj w now f) after \<longleftrightarrow>
     t' = t \<and> k' = k \<and> w = tg_window (lm_cfg l) \<and> f
     \<and> (case after of None \<Rightarrow> False | Some st \<Rightarrow> granted l dim st now)"
| "grants l dim t k _ after \<longleftrightarrow> False"

fun gives_back :: "string \<Rightarrow> string \<Rightarrow> store_op \<Rightarrow> throttle_state option \<Rightarrow> throttle_state option \<Rightarrow> bool" where
  "gives_back t k (OpHit t' k' sj w now f) before after \<longleftrightarrow>
     t' = t \<and> k' = k \<and> (case before of None \<Rightarrow> False | Some st \<Rightarrow> window_over w now st)"
| "gives_back t k _ before after \<longleftrightarrow> before \<noteq> None \<and> after = None"

fun burst :: "'s throttle_ops \<Rightarrow> ('s \<Rightarrow> buckets) \<Rightarrow> 's limiter \<Rightarrow> dimension \<Rightarrow> string \<Rightarrow> string
    \<Rightarrow> store_op list \<Rightarrow> 's \<Rightarrow> nat \<times> nat" where
  "burst ops view l dim t k [] s = (0, 0)"
| "burst ops view l dim t k (x # xs) s =
     (case perform ops x s of (ok, u) \<Rightarrow>
      case burst ops view l dim t k xs u of (n, c) \<Rightarrow>
        (n + of_bool (ok \<and> grants l dim t k x (view u (t, k))),
         c + of_bool (ok \<and> gives_back t k x (view s (t, k)) (view u (t, k)))))"

text \<open>
  The end of a lock after a run: a later block of the bucket replaces it, whichever is the earlier.
  There is none once an operation was asked for that may lift the lock: a reset of the bucket or of
  its owner, or a sweep whose cutoff lies past the lock's end.
\<close>

fun may_unlock :: "string \<Rightarrow> string \<Rightarrow> store_op \<Rightarrow> throttle_state option \<Rightarrow> instant \<Rightarrow> bool" where
  "may_unlock t k (OpReset t' k') before until \<longleftrightarrow> t' = t \<and> k' = k"
| "may_unlock t k (OpResetSubject t' sj) before until \<longleftrightarrow>
     (case before of None \<Rightarrow> False | Some st \<Rightarrow> owned_by t' sj (t, k) st)"
| "may_unlock t k (OpSweep cutoff) before until \<longleftrightarrow> until < cutoff"
| "may_unlock t k _ before until \<longleftrightarrow> False"

fun next_end :: "string \<Rightarrow> string \<Rightarrow> store_op \<Rightarrow> bool \<Rightarrow> instant \<Rightarrow> instant" where
  "next_end t k (OpBlock t' k' until') ok until = (if ok \<and> t' = t \<and> k' = k then until' else until)"
| "next_end t k _ ok until = until"

fun lock_end :: "'s throttle_ops \<Rightarrow> ('s \<Rightarrow> buckets) \<Rightarrow> string \<Rightarrow> string \<Rightarrow> store_op list \<Rightarrow> instant \<Rightarrow> 's \<Rightarrow> instant option" where
  "lock_end ops view t k [] until s = Some until"
| "lock_end ops view t k (x # xs) until s =
     (if may_unlock t k x (view s (t, k)) until then None
      else case perform ops x s of (ok, u) \<Rightarrow> lock_end ops view t k xs (next_end t k x ok until) u)"

definition locked_until :: "throttle_state option \<Rightarrow> instant \<Rightarrow> bool" where
  "locked_until b until \<longleftrightarrow> (\<exists>st. b = Some st \<and> th_blocked st = Some until)"

context throttle_store
begin

lemma performedE:
  assumes "map_prod is_ok id y = (ok, u)"
  obtains r where "y = (r, u)" "ok = is_ok r"
  using assms by (cases y) simp

lemma perform_inv: "perform ops x s = (ok, u) \<Longrightarrow> inv s \<Longrightarrow> inv u"
  by (cases x) (auto simp: map_prod_def split: prod.splits
      dest: hit_inv block_inv get_inv reset_inv reset_subject_inv delete_stale_inv)

text \<open>What a step makes of the view.\<close>

lemma perform_view:
  assumes "perform ops x s = (ok, u)" and "inv s"
  shows "if ok then (case x of
        OpHit t k sj w now f \<Rightarrow> view u = (view s)((t, k) \<mapsto> hit_state (view s (t, k)) t k sj w now f)
      | OpBlock t k until \<Rightarrow> \<exists>st. view u = (view s)((t, k) \<mapsto> st) \<and> th_blocked st = Some until
          \<and> th_failures st = bucket_failures (view s (t, k))
      | OpGet t k \<Rightarrow> view u = view s
      | OpReset t k \<Rightarrow> view u = (view s)((t, k) := None)
      | OpResetSubject t sj \<Rightarrow> view u = without (owned_by t sj) (view s)
      | OpSweep cutoff \<Rightarrow> view u = without (\<lambda>_. stale_bucket cutoff) (view s))
    else view u = view s"
proof (cases x)
  case (OpHit t k sj w now f)
  then obtain r where "op_hit ops t k sj w now f s = (r, u)" "ok = is_ok r" using assms(1) by (auto elim: performedE)
  then show ?thesis by (cases r) (auto simp: OpHit dest: hit_law hit_error)
next
  case (OpBlock t k until)
  then obtain r where r: "op_block ops t k until s = (r, u)" "ok = is_ok r" using assms(1) by (auto elim: performedE)
  show ?thesis
  proof (cases r)
    case (Inl e)
    with r show ?thesis by (auto simp: OpBlock dest: block_error)
  next
    case (Inr y)
    with r(1) have "op_block ops t k until s = (Inr y, u)" by simp
    from block_law [OF this] obtain st where st: "view u = (view s)((t, k) \<mapsto> st)" "th_blocked st = Some until"
      "\<forall>st0. view s (t, k) = Some st0 \<longrightarrow> st = st0\<lparr>th_blocked := Some until, th_updated := th_updated st\<rparr>"
      "view s (t, k) = None \<longrightarrow> th_attempts st = 0 \<and> th_failures st = 0 \<and> th_subject st = []"
      by (elim exE conjE) (rule that)
    have "th_failures st = bucket_failures (view s (t, k))"
    proof (cases "view s (t, k)")
      case (Some st0)
      have "st = st0\<lparr>th_blocked := Some until, th_updated := th_updated st\<rparr>" by (rule st(3) [rule_format, OF Some])
      then have "th_failures st = th_failures (st0\<lparr>th_blocked := Some until, th_updated := th_updated st\<rparr>)" by (rule arg_cong)
      with Some show ?thesis by (simp add: bucket_failures_def)
    qed (use st(4) in \<open>simp add: bucket_failures_def\<close>)
    with st r Inr show ?thesis by (auto simp: OpBlock)
  qed
next
  case (OpGet t k)
  then obtain r where "op_get ops t k s = (r, u)" "ok = is_ok r" using assms(1) by (auto elim: performedE)
  then show ?thesis by (cases r) (auto simp: OpGet dest: get_law get_error)
next
  case (OpReset t k)
  then obtain r where "op_reset ops t k s = (r, u)" "ok = is_ok r" using assms(1) by (auto elim: performedE)
  then show ?thesis by (cases r) (auto simp: OpReset dest: reset_law reset_error)
next
  case (OpResetSubject t sj)
  then obtain r where "op_reset_subject ops t sj s = (r, u)" "ok = is_ok r" using assms(1) by (auto elim: performedE)
  then show ?thesis using assms(2) by (cases r) (auto simp: OpResetSubject dest: reset_subject_law reset_subject_error)
next
  case (OpSweep cutoff)
  then obtain r where "op_delete_stale ops cutoff s = (r, u)" "ok = is_ok r" using assms(1) by (auto elim: performedE)
  then show ?thesis using assms(2) by (cases r) (auto simp: OpSweep dest: delete_stale_law delete_stale_error)
qed

text \<open>A grant uses up one failure of what the budget leaves, and a step that gives it back gives at most all.\<close>

lemma perform_budget:
  assumes "limits l dim = Inr (a, mf)" and "0 < mf" and "locksOut l dim" and "inv s"
    and step: "perform ops x s = (ok, u)"
  shows "of_bool (ok \<and> grants l dim t k x (view u (t, k))) + max 0 (mf - bucket_failures (view u (t, k)))
    \<le> max 0 (mf - bucket_failures (view s (t, k)))
      + mf * of_bool (ok \<and> gives_back t k x (view s (t, k)) (view u (t, k)))"
proof (cases ok)
  case False
  with perform_view [OF step assms(4)] show ?thesis by simp
next
  case True
  note view = perform_view [OF step assms(4), unfolded if_P [OF True]]
  have nonneg: "0 \<le> bucket_failures (view s (t, k))"
    using counters_inv [OF assms(4)] by (auto simp: bucket_failures_def split: option.split)
  show ?thesis
  proof (cases x)
    case (OpHit t' k' sj w now f)
    show ?thesis
    proof (cases "(t', k') = (t, k)")
      case False
      with view OpHit show ?thesis by auto
    next
      case here: True
      with view OpHit have u: "view u (t, k) = Some (hit_state (view s (t, k)) t k sj w now f)" by simp
      show ?thesis
        using u nonneg assms(1-3) True here
        by (cases "view s (t, k)") (auto simp: OpHit bucket_failures_def granted_def fail_inc_def)
    qed
  next
    case (OpBlock t' k' until)
    with view have "bucket_failures (view u (t, k)) = bucket_failures (view s (t, k))" "view u (t, k) = None \<longrightarrow> view s (t, k) = None"
      by (auto simp: bucket_failures_def split: if_splits)
    with assms(2) show ?thesis by (simp add: OpBlock)
  qed (use view nonneg assms(2) True in \<open>auto simp: without_def bucket_failures_def split: option.splits\<close>)
qed

lemma burst_bound:
  assumes "limits l dim = Inr (a, mf)" and "0 < mf" and "locksOut l dim" and "inv s"
  shows "burst ops view l dim t k xs s = (n, c) \<Longrightarrow>
    int n \<le> max 0 (mf - bucket_failures (view s (t, k))) + mf * int c"
  using assms(4)
proof (induction xs arbitrary: s n c)
  case (Cons x xs)
  obtain ok u where step: "perform ops x s = (ok, u)" by fastforce
  obtain n' c' where rest: "burst ops view l dim t k xs u = (n', c')" by fastforce
  have n: "n = n' + of_bool (ok \<and> grants l dim t k x (view u (t, k)))"
    and c: "c = c' + of_bool (ok \<and> gives_back t k x (view s (t, k)) (view u (t, k)))"
    using Cons.prems(1) step rest by auto
  from Cons.IH [OF rest perform_inv [OF step Cons.prems(2)]]
    perform_budget [OF assms(1-3) Cons.prems(2) step, of t k]
  show ?case unfolding n c of_nat_add of_nat_of_bool distrib_left by linarith
qed simp

lemma perform_lock:
  assumes "inv s" and "locked_until (view s (t, k)) until" and step: "perform ops x s = (ok, u)"
    and "\<not> may_unlock t k x (view s (t, k)) until"
  shows "locked_until (view u (t, k)) (next_end t k x ok until)"
proof (cases ok)
  case False
  with perform_view [OF step assms(1)] assms(2) show ?thesis by (cases x) auto
next
  case True
  note view = perform_view [OF step assms(1), unfolded if_P [OF True]]
  show ?thesis
    using view assms(2,4) True
    by (cases x) (auto simp: locked_until_def hit_state_blocked without_def stale_bucket_def)
qed

lemma lock_kept:
  assumes "inv s" and "locked_until (view s (t, k)) until"
  shows "lock_end ops view t k xs until s = Some e \<Longrightarrow>
    inv (perform_all ops xs s) \<and> locked_until (view (perform_all ops xs s) (t, k)) e"
  using assms
proof (induction xs arbitrary: s until)
  case (Cons x xs)
  obtain ok u where step: "perform ops x s = (ok, u)" by fastforce
  with Cons.prems have "lock_end ops view t k xs (next_end t k x ok until) u = Some e"
    and ok: "\<not> may_unlock t k x (view s (t, k)) until" by (auto split: if_splits)
  from Cons.IH [OF this(1) perform_inv [OF step Cons.prems(2)] perform_lock [OF Cons.prems(2,3) step ok]] step
  show ?case by simp
qed simp

end

subsection \<open>Reservations and the administrative unlock\<close>

definition factor_keys :: "'s limiter \<Rightarrow> string \<Rightarrow> string \<Rightarrow> string set" where
  "factor_keys l t sj = (\<lambda>f. BucketKey (ForFactor l f) DimSubject t sj) ` set subjectFactors"

lemma held_dims_Nil [simp]: "held_dims dims [] = []"
  by (simp add: held_dims_def)

lemma held_dims_Cons:
  "held_dims dims (dim # order) =
     (case map_of dims dim of
        None \<Rightarrow> held_dims dims order
      | Some x \<Rightarrow> if normaliseValue dim x = [] \<or> \<not> ownedByOneParty dim then held_dims dims order
                  else (dim, normaliseValue dim x) # held_dims dims order)"
  by (simp add: held_dims_def supplied_Cons split: option.split)

context throttle_store
begin

lemma reserve_hits_res:
  assumes "lm_store l = ops"
  shows "reserve_hits l t dims now order held shared s = (Inr (held', shared'), s') \<Longrightarrow>
    held' = held @ fst (hit_all l t now True (held_dims dims order) (view s))
    \<and> view s' = snd (hit_all l t now True (held_dims dims order) (view s))"
proof (induction order arbitrary: held shared s)
  case Nil
  then show ?case by (simp add: ret_def)
next
  case (Cons dim order)
  show ?case
  proof (cases "\<exists>x. map_of dims dim = Some x \<and> normaliseValue dim x \<noteq> [] \<and> ownedByOneParty dim")
    case False
    with Cons show ?thesis by (auto simp: held_dims_Cons split: option.splits if_splits)
  next
    case True
    then obtain x where given: "map_of dims dim = Some x" "normaliseValue dim x \<noteq> []" "ownedByOneParty dim"
      by blast
    let ?dv = "(dim, normaliseValue dim x)"
    from Cons.prems given obtain st s1
      where hit: "op_hit ops t (key_of l t ?dv) (owner_of dim (snd ?dv)) (tg_window (lm_cfg l)) now True s
          = (Inr st, s1)"
        and rest: "reserve_hits l t dims now order
            (held @ [\<lparr>ob_dim = dim, ob_key = key_of l t ?dv, ob_st = st\<rparr>]) shared s1 = (Inr (held', shared'), s')"
      by (auto simp: assms Let_def bindp_Inr key_of_def)
    define m1 where "m1 = (view s)((t, key_of l t ?dv) \<mapsto> hit_of l t now True (view s) ?dv)"
    obtain obs m2 where all: "hit_all l t now True (held_dims dims order) m1 = (obs, m2)"
      by force
    from hit_law [OF hit] have st: "st = hit_of l t now True (view s) ?dv" and "view s1 = m1"
      by (auto simp: hit_of_def m1_def)
    with Cons.IH [OF rest] all have "held' = held @ obs_of l t now True (view s) ?dv # obs \<and> view s' = m2"
      by (simp add: obs_of_def)
    moreover have "hit_all l t now True (held_dims dims (dim # order)) (view s)
        = (obs_of l t now True (view s) ?dv # obs, m2)"
      using all given by (simp add: held_dims_Cons m1_def)
    ultimately show ?thesis by simp
  qed
qed

lemma judgeReserved_res:
  assumes "lm_store l = ops" and "judgeReserved l t ob now s = (Inr v, s')"
  shows "(vd_allowed v \<longleftrightarrow> granted l (ob_dim ob) (ob_st ob) now) \<and> (vd_allowed v \<longrightarrow> s' = s)
    \<and> (\<not> vd_allowed v \<longrightarrow> blocked (ob_st ob) now
         \<or> (\<exists>st. view s' (t, ob_key ob) = Some st \<and> th_blocked st = Some (now + tg_lockout (lm_cfg l))))"
proof (cases "blocked (ob_st ob) now")
  case True
  with assms(2) show ?thesis by (auto simp: judgeReserved_def granted_def ret_def)
next
  case False
  with assms(2) obtain a mf where lim: "limits l (ob_dim ob) = Inr (a, mf)"
    by (auto simp: judgeReserved_def failp_def split: sum.splits)
  show ?thesis
  proof (cases "mf \<le> 0 \<or> th_failures (ob_st ob) \<le> mf \<or> \<not> locksOut l (ob_dim ob)")
    case True
    with assms(2) False lim show ?thesis
      by (auto simp: judgeReserved_def granted_def ret_def split: if_splits)
  next
    case over: False
    with assms(2) False lim obtain s1
      where b: "op_block ops t (ob_key ob) (now + tg_lockout (lm_cfg l)) s = (Inr (), s')"
        and v: "v = blockedResult (ob_dim ob) (ob_st ob) (tg_lockout (lm_cfg l))"
      using assms(1) by (auto simp: judgeReserved_def bindp_Inr ret_def)
    from block_law [OF b] over False lim v show ?thesis
      by (auto simp: granted_def)
  qed
qed

lemma judge_held_res:
  assumes "lm_store l = ops"
  shows "judge_held l t now obs refused s = (Inr v, s') \<Longrightarrow>
    (vd_allowed v \<longleftrightarrow> vd_allowed refused \<and> (\<forall>ob \<in> set obs. granted l (ob_dim ob) (ob_st ob) now))
    \<and> (vd_allowed v \<longrightarrow> s' = s)"
proof (induction obs arbitrary: refused s)
  case Nil
  then show ?case by (simp add: ret_def)
next
  case (Cons ob obs)
  then obtain v1 s1 where j: "judgeReserved l t ob now s = (Inr v1, s1)"
    and rest: "judge_held l t now obs
        (if vd_allowed refused \<and> \<not> vd_allowed v1 then v1 else refused) s1 = (Inr v, s')"
    by (auto simp: bindp_Inr)
  from judgeReserved_res [OF assms j] Cons.IH [OF rest] show ?case by auto
qed

lemma Reserve_res:
  assumes "lm_store l = ops" and "tg_enabled (lm_cfg l)"
    and "distinct (map (key_of l t) (held_dims dims dimensionOrder))"
    and "Reserve l t dims n1 now s = (Inr (rv, v), s')"
  shows "(vd_allowed v \<longleftrightarrow> rv \<noteq> None)
    \<and> (rv \<noteq> None \<longleftrightarrow>
        (\<forall>dv \<in> set (supplied dims dimensionOrder). \<forall>st. view s (t, key_of l t dv) = Some st \<longrightarrow> \<not> blocked st n1)
        \<and> (\<forall>dv \<in> set (held_dims dims dimensionOrder). granted l (fst dv) (hit_of l t now True (view s) dv) now))
    \<and> (\<forall>r. rv = Some r \<longrightarrow>
        rv_held r = map (obs_of l t now True (view s)) (held_dims dims dimensionOrder)
        \<and> rv_limiter r = Some l \<and> rv_tenant r = t \<and> rv_now r = now
        \<and> (\<forall>dv \<in> set (held_dims dims dimensionOrder).
             view s' (t, key_of l t dv) = Some (hit_of l t now True (view s) dv)))
    \<and> (\<not> (\<forall>dv \<in> set (supplied dims dimensionOrder). \<forall>st.
             view s (t, key_of l t dv) = Some st \<longrightarrow> \<not> blocked st n1) \<longrightarrow> view s' = view s)"
proof -
  let ?hd = "held_dims dims dimensionOrder"
  from assms(2,4) obtain checked s1 where chk: "Check l t dims n1 s = (Inr checked, s1)"
    and rest: "(if \<not> vd_allowed checked then ret (None, checked)
        else bindp (reserve_hits l t dims now dimensionOrder [] []) (\<lambda>(held, shared).
          bindp (judge_held l t now held allowed_verdict) (\<lambda>refused.
            if \<not> vd_allowed refused then ret (None, withCounters refused (vd_counters checked))
            else ret (Some \<lparr>rv_limiter = Some l, rv_tenant = t, rv_now = now,
                            rv_held = held, rv_shared = shared\<rparr>,
                      withCounters allowed_verdict (vd_counters checked))))) s1 = (Inr (rv, v), s')"
    by (auto simp: Reserve_def bindp_Inr)
  note C = Check_res [OF assms(1,2) chk]
  show ?thesis
  proof (cases "vd_allowed checked")
    case False
    with rest C show ?thesis by (auto simp: ret_def)
  next
    case True
    from True rest obtain held shared s2 refused s3
      where hits: "reserve_hits l t dims now dimensionOrder [] [] s1 = (Inr (held, shared), s2)"
        and judged: "judge_held l t now held allowed_verdict s2 = (Inr refused, s3)"
        and out: "(if \<not> vd_allowed refused then ret (None, withCounters refused (vd_counters checked))
            else ret (Some \<lparr>rv_limiter = Some l, rv_tenant = t, rv_now = now,
                            rv_held = held, rv_shared = shared\<rparr>,
                      withCounters allowed_verdict (vd_counters checked))) s3 = (Inr (rv, v), s')"
      by (auto simp: bindp_Inr)
    from C True have vs1: "view s1 = view s"
      and free: "\<forall>dv \<in> set (supplied dims dimensionOrder). \<forall>st. view s (t, key_of l t dv) = Some st \<longrightarrow> \<not> blocked st n1"
      by auto
    note A = hit_all_spec [OF assms(3), of now True "view s"]
    note H = reserve_hits_res [OF assms(1) hits, unfolded vs1]
    from H A have held: "held = map (obs_of l t now True (view s)) ?hd" by simp
    have vs2: "view s2 (t, key_of l t dv) = Some (hit_of l t now True (view s) dv)" if "dv \<in> set ?hd" for dv
      unfolding H [THEN conjunct2] using A that by blast
    have ok: "vd_allowed refused \<longleftrightarrow> (\<forall>dv \<in> set ?hd. granted l (fst dv) (hit_of l t now True (view s) dv) now)"
      and same: "vd_allowed refused \<Longrightarrow> s3 = s2"
      using judge_held_res [OF assms(1) judged] by (auto simp: held obs_of_def)
    show ?thesis
    proof (cases "vd_allowed refused")
      case True
      with out have "rv = Some \<lparr>rv_limiter = Some l, rv_tenant = t, rv_now = now, rv_held = held, rv_shared = shared\<rparr>"
        "v = withCounters allowed_verdict (vd_counters checked)" "s' = s2"
        using same by (auto simp: ret_def)
      with True ok free held vs2 show ?thesis by simp
    next
      case False
      with out have "rv = None" "v = withCounters refused (vd_counters checked)"
        by (auto simp: ret_def)
      with False ok free show ?thesis by auto
    qed
  qed
qed

lemma reset_factors_res:
  assumes "lm_store l = ops"
  shows "reset_factors l t sj fs errs s = ([], s') \<Longrightarrow>
    errs = [] \<and> view s' = (\<lambda>tk. if fst tk = t \<and> snd tk \<in> (\<lambda>f. BucketKey (ForFactor l f) DimSubject t sj) ` set fs
                                then None else view s tk)"
proof (induction fs arbitrary: errs s)
  case Nil
  then show ?case by simp
next
  case (Cons f fs)
  let ?k = "BucketKey (ForFactor l f) DimSubject t sj"
  obtain r s1 where op: "op_reset ops t ?k s = (r, s1)" by force
  with Cons.prems assms have rest: "reset_factors l t sj fs (reset_errors errs r) s1 = ([], s')"
    by simp
  from Cons.IH [OF rest] have "errs = []" and r: "r = Inl ErrNotFound \<or> is_ok r"
    and v: "view s' = (\<lambda>tk. if fst tk = t \<and> snd tk \<in> (\<lambda>f. BucketKey (ForFactor l f) DimSubject t sj) ` set fs
                            then None else view s1 tk)"
    by (auto simp: reset_errors_def split: sum.splits if_splits)
  from reset_gone [OF op r] have "view s1 = (view s)((t, ?k) := None)" .
  with v \<open>errs = []\<close> show ?case by (auto simp: fun_eq_iff)
qed

lemma reset_factors_inv:
  assumes "lm_store l = ops"
  shows "reset_factors l t sj fs errs s = (errs', s') \<Longrightarrow> inv s \<Longrightarrow> inv s'"
proof (induction fs arbitrary: errs s)
  case (Cons f fs)
  obtain r s1 where op: "op_reset ops t (BucketKey (ForFactor l f) DimSubject t sj) s = (r, s1)"
    by force
  with Cons.prems(1) assms have "reset_factors l t sj fs (reset_errors errs r) s1 = (errs', s')" by simp
  then show ?case by (rule Cons.IH) (rule reset_inv [OF op Cons.prems(2)])
qed simp

lemma ResetSubject_res:
  assumes "lm_store l = ops" and "inv s" and "ResetSubject l t sj s = ([], s')"
  shows "view s' = (\<lambda>tk. case view s tk of
      None \<Rightarrow> None
    | Some st \<Rightarrow> if fst tk = t \<and> (snd tk \<in> factor_keys l t sj \<or> th_subject st = sj) then None else Some st)"
proof -
  from assms(1,3) have "sj \<noteq> []" by (auto simp: ResetSubject_def)
  obtain errs s1 where f: "reset_factors l t sj subjectFactors [] s = (errs, s1)" by force
  obtain r where op: "op_reset_subject ops t sj s1 = (r, s')" and errs: "reset_errors errs r = []"
    using assms(1,3) f \<open>sj \<noteq> []\<close> by (auto simp: ResetSubject_def split: prod.splits)
  have "errs = []" and r: "r = Inl ErrNotFound \<or> is_ok r"
    using errs by (auto simp: reset_errors_def split: sum.splits if_splits)
  with op obtain n where ok: "op_reset_subject ops t sj s1 = (Inr n, s')"
    by (auto simp: is_ok_iff dest: reset_subject_error)
  have "inv s1" by (rule reset_factors_inv [OF assms(1) f assms(2)])
  from reset_subject_law [OF this ok] reset_factors_res [OF assms(1) f [unfolded \<open>errs = []\<close>]]
  show ?thesis
    by (auto simp: fun_eq_iff without_def owned_by_def factor_keys_def split: option.split)
qed

end

subsection \<open>Addresses, keys and rounding\<close>

lemma network_shape:
  assumes "ParseIP s = Some ip"
  shows "(\<exists>v. length v = 4 \<and> To4 ip = Some v \<and> IP_String v = v4_string v)
    \<or> To4 ip = None \<and> masked64 (Mask ip (CIDRMask 64 128))
      \<and> IP_String (Mask ip (CIDRMask 64 128)) = v6_string (Mask ip (CIDRMask 64 128))"
proof (cases "To4 ip")
  case None
  with masked64_Mask [OF ParseIP_length [OF assms]] show ?thesis by (simp add: IP_String_v6)
next
  case (Some v)
  from To4_length [OF Some] Some show ?thesis by (simp add: IP_String_v4)
qed

lemma normalise_host_shape:
  "normalise_host s = unknownIP \<or> (\<exists>v. length v = 4 \<and> normalise_host s = v4_string v)
   \<or> (\<exists>m. masked64 m \<and> normalise_host s = v6_string m @ ''/64'')"
proof -
  define h where "h = (case SplitHostPort s of Some (host, _) \<Rightarrow> host | None \<Rightarrow> s)"
  show ?thesis
  proof (cases "ParseIP h")
    case None
    then show ?thesis unfolding normalise_host_def Let_def h_def [symmetric] by simp
  next
    case (Some ip)
    then have eq: "normalise_host s =
      (case To4 ip of Some v4 \<Rightarrow> IP_String v4 | None \<Rightarrow> IP_String (Mask ip (CIDRMask 64 128)) @ ''/64'')"
      unfolding normalise_host_def Let_def h_def [symmetric] by simp
    from network_shape [OF Some] show ?thesis
      unfolding eq by (elim disjE exE conjE) auto
  qed
qed

lemma NormaliseIP_shape:
  "NormaliseIP raw = unknownIP \<or> (\<exists>v. length v = 4 \<and> NormaliseIP raw = v4_string v)
   \<or> (\<exists>m. masked64 m \<and> NormaliseIP raw = v6_string m @ ''/64'')"
  unfolding NormaliseIP_def Let_def
  by (cases "ParseCIDR (TrimSpace raw)") (simp_all add: normalise_host_shape)

lemma NormaliseIP_unknown: "NormaliseIP unknownIP = unknownIP"
proof -
  have "TrimSpace unknownIP = unknownIP"
    by (rule TrimSpace_printable) (simp add: unknownIP_def printable_def)
  then show ?thesis by (simp add: NormaliseIP_def)
qed

lemma NormaliseIP_v4: "length v = 4 \<Longrightarrow> NormaliseIP (v4_string v) = v4_string v"
proof -
  assume v: "length v = 4"
  have chars: "set (v4_string v) \<subseteq> addr_chars - {CHR '':'', CHR ''/''}" by (rule v4_string_chars)
  then have "TrimSpace (v4_string v) = v4_string v" by (intro TrimSpace_addr) blast
  moreover have "v4_string v \<noteq> []" by (simp add: v4_string_def)
  moreover have "v4_string v \<noteq> unknownIP"
  proof -
    have "CHR ''.'' \<in> set (v4_string v)" by (simp add: v4_string_def)
    then show ?thesis by (auto simp: unknownIP_def)
  qed
  moreover have "CHR ''/'' \<notin> set (v4_string v)" "CHR '':'' \<notin> set (v4_string v)" using chars by blast+
  moreover from this v have "normalise_host (v4_string v) = v4_string v"
    by (simp add: normalise_host_def SplitHostPort_no_colon ParseIP_v4 To4_mapped IP_String_v4)
  ultimately show ?thesis by (simp add: NormaliseIP_def)
qed

lemma NormaliseIP_v6: "masked64 m \<Longrightarrow> NormaliseIP (v6_string m @ ''/64'') = v6_string m @ ''/64''"
proof -
  assume m: "masked64 m"
  have "set (v6_string m) \<subseteq> addr_chars"
  proof -
    have "CHR '':'' \<in> addr_chars" by (simp add: addr_chars_def)
    then show ?thesis using v6_string_chars [OF m] hex_addr by blast
  qed
  moreover have "set ''/64'' \<subseteq> addr_chars" by (simp add: addr_chars_def)
  ultimately have trim: "TrimSpace (v6_string m @ ''/64'') = v6_string m @ ''/64''"
    by (intro TrimSpace_addr) (simp only: set_append Un_subset_iff)
  have slash: "CHR ''/'' \<in> set (v6_string m @ ''/64'')" by simp
  then have "v6_string m @ ''/64'' \<noteq> unknownIP" by (auto simp: unknownIP_def)
  moreover have "normalise_host (v6_string m) = v6_string m @ ''/64''"
    by (simp add: normalise_host_def IP_String_v6 SplitHostPort_v6 ParseIP_v6 masked64_To4
        Mask64_fixed m)
  ultimately show ?thesis
    unfolding NormaliseIP_def trim Let_def using slash
    by (simp add: ParseCIDR_v6 IP_String_v6 m)
qed

lemma NormaliseIP_idem [simp]: "NormaliseIP (NormaliseIP raw) = NormaliseIP raw"
  using NormaliseIP_shape [of raw] NormaliseIP_unknown NormaliseIP_v4 NormaliseIP_v6 by metis

lemma normaliseValue_idem [simp]: "normaliseValue dim (normaliseValue dim v) = normaliseValue dim v"
  by (simp add: normaliseValue_def)

lemma take_hex_encode: "take (2 * n) (hex_encode bs) = hex_encode (take n bs)"
proof (induction bs arbitrary: n)
  case Nil
  then show ?case by (simp add: hex_encode_def)
next
  case (Cons b bs)
  then show ?case by (cases n) (simp_all add: hex_encode_def hex_byte_def)
qed

lemma dim_name_inject:
  "d \<in> set dimensionOrder \<Longrightarrow> d' \<in> set dimensionOrder \<Longrightarrow> dim_name d = dim_name d' \<longleftrightarrow> d = d'"
  by (auto simp: dimensionOrder_def)

lemma bucket_preimage_inject:
  assumes "d \<in> set dimensionOrder" and "d' \<in> set dimensionOrder"
    and "framable t" and "framable t'" and "framable (normaliseValue d v)"
    and "framable (normaliseValue d' v')" and "framable (lm_factor l)" and "framable (lm_factor l')"
    and "bucket_preimage l d t v = bucket_preimage l' d' t' v'"
  shows "d = d' \<and> t = t' \<and> normaliseValue d v = normaliseValue d' v'
    \<and> (d = DimSubject \<longrightarrow> lm_factor l = lm_factor l')"
proof -
  have names: "framable (dim_name d)" "framable (dim_name d')"
    using assms(1,2) by (auto simp: dimensionOrder_def framable_def)
  have "framable bucketDomain" by (simp add: bucketDomain_def framable_def)
  with assms names show ?thesis
    by (auto simp: bucket_preimage_def dim_name_inject split: if_splits)
qed

lemma ceilSeconds_bounds:
  assumes "0 < d" and "d \<le> max_int64 - second"
  shows "d \<le> ceilSeconds d \<and> ceilSeconds d < d + second \<and> ceilSeconds d mod second = 0"
proof -
  have r: "go_mod d second = d mod second" using assms(1) by (simp add: go_mod_nonneg second_def)
  have rb: "0 \<le> d mod second" "d mod second < second" by (simp_all add: second_def)
  show ?thesis
  proof (cases "d mod second = 0")
    case True
    with assms r show ?thesis by (simp add: ceilSeconds_def second_def)
  next
    case False
    have "wrap64 (d + (second - d mod second)) = d + (second - d mod second)"
      by (rule wrap64_id) (use assms rb in \<open>auto simp: min_int64_def\<close>)
    with assms(1) r False have c: "ceilSeconds d = d + (second - d mod second)"
      by (simp add: ceilSeconds_def)
    have "d + (second - d mod second) = (d div second + 1) * second"
      by (simp add: algebra_simps minus_mod_eq_mult_div)
    then have "(d + (second - d mod second)) mod second = 0" by simp
    with c rb False show ?thesis by simp
  qed
qed

end
