(* ===== verification/Throttle_Store.thy ===== *)
theory Throttle_Store
  imports Throttle Sqlite_Base
begin

text \<open>
  \<^verbatim>\<open>internal/store/sqlite/throttle.go\<close>: the rate-limit buckets in SQLite, one row per
  (tenant, key), which is the primary key of the table. The upserts are written as the SQL
  statements are: the inserted row, and the assignments of the \<^verbatim>\<open>DO UPDATE\<close> branch.
\<close>

subsection \<open>Operations\<close>

definition bucket_of :: "string \<Rightarrow> string \<Rightarrow> throttle_state \<Rightarrow> bool" where
  "bucket_of tenantID bucketKey r \<longleftrightarrow> th_tenant r = tenantID \<and> th_key r = bucketKey"

text \<open>
  INSERT ... ON CONFLICT (tenant_id, bucket_key) DO UPDATE ... RETURNING: \<open>f old excluded\<close> is the
  row the update branch makes.
\<close>

definition upsert_bucket :: "throttle_state \<Rightarrow> (throttle_state \<Rightarrow> throttle_state \<Rightarrow> throttle_state)
    \<Rightarrow> tables \<Rightarrow> sql_error + throttle_state \<times> tables" where
  "upsert_bucket new f t =
     (let p = bucket_of (th_tenant new) (th_key new) in
      case find_row p (tb_throttle t) of
        None \<Rightarrow> Inr (new, t\<lparr>tb_throttle := tb_throttle t @ [new]\<rparr>)
      | Some old \<Rightarrow>
          Inr (f old new, t\<lparr>tb_throttle := update_where p (\<lambda>r. f r new) (tb_throttle t)\<rparr>))"

definition delete_buckets :: "(throttle_state \<Rightarrow> bool) \<Rightarrow> tables \<Rightarrow> sql_error + int \<times> tables" where
  "delete_buckets p t =
     Inr (count_where p (tb_throttle t), t\<lparr>tb_throttle := delete_where p (tb_throttle t)\<rparr>)"

definition Hit :: "string \<Rightarrow> string \<Rightarrow> string \<Rightarrow> duration \<Rightarrow> instant \<Rightarrow> bool
    \<Rightarrow> (tables, throttle_state) proc" where
  "Hit tenantID bucketKey subjectID window now failure =
     (if tenantID = [] \<or> bucketKey = [] then
        failp (OtherErr ''sqlite: throttle hit requires a tenant and a bucket key'')
      else if window \<le> 0 then
        failp (OtherErr ''sqlite: throttle hit requires a positive window'')
      else
        (let rollBefore = now - window;
             failInc = (if failure then 1 else 0) in
         in_tx (exec map_error (upsert_bucket
           \<lparr>th_key = bucketKey, th_tenant = tenantID, th_subject = subjectID, th_window = now,
            th_attempts = 1, th_failures = failInc, th_blocked = None, th_updated = now\<rparr>
           (\<lambda>old new. old
              \<lparr>th_subject := (if th_subject old \<noteq> [] then th_subject old else th_subject new),
               th_window := (if th_window old \<le> rollBefore then th_window new else th_window old),
               th_attempts := (if th_window old \<le> rollBefore then 1 else th_attempts old + 1),
               th_failures := (if th_window old \<le> rollBefore then failInc
                               else th_failures old + failInc),
               th_updated := th_updated new\<rparr>)))))"

definition Block :: "string \<Rightarrow> string \<Rightarrow> instant \<Rightarrow> (tables, unit) proc" where
  "Block tenantID bucketKey until =
     (if tenantID = [] \<or> bucketKey = [] then
        failp (OtherErr ''sqlite: throttle block requires a tenant and a bucket key'')
      else bindp wall_clock (\<lambda>now.
        bindp (exec map_error (upsert_bucket
           \<lparr>th_key = bucketKey, th_tenant = tenantID, th_subject = [], th_window = now,
            th_attempts = 0, th_failures = 0, th_blocked = Some until, th_updated = now\<rparr>
           (\<lambda>old new. old\<lparr>th_blocked := th_blocked new, th_updated := th_updated new\<rparr>)))
        (\<lambda>_. ret ())))"

definition GetThrottle :: "string \<Rightarrow> string \<Rightarrow> (tables, throttle_state) proc" where
  "GetThrottle tenantID bucketKey =
     query_row map_error (\<lambda>t. find_row (bucket_of tenantID bucketKey) (tb_throttle t))"

definition ResetThrottle :: "string \<Rightarrow> string \<Rightarrow> (tables, unit) proc" where
  "ResetThrottle tenantID bucketKey =
     bindp (exec map_error (delete_buckets (bucket_of tenantID bucketKey)))
       (\<lambda>n. if n = 0 then failp ErrNotFound else ret ())"

definition ResetSubjectThrottles :: "string \<Rightarrow> string \<Rightarrow> (tables, int) proc" where
  "ResetSubjectThrottles tenantID subjectID =
     (if tenantID = [] \<or> subjectID = [] then
        failp (OtherErr ''sqlite: reset requires a tenant and a subject'')
      else exec map_error (delete_buckets
             (\<lambda>r. th_tenant r = tenantID \<and> th_subject r = subjectID \<and> th_subject r \<noteq> [])))"

definition DeleteStaleThrottles :: "instant \<Rightarrow> (tables, int) proc" where
  "DeleteStaleThrottles cutoff =
     exec map_error (delete_buckets
       (\<lambda>r. th_updated r < cutoff
          \<and> (case th_blocked r of None \<Rightarrow> True | Some u \<Rightarrow> u < cutoff)))"

subsection \<open>Invariant\<close>

text \<open>The primary key of the table, and what the counters of every row satisfy.\<close>

definition bucket_key_of :: "throttle_state \<Rightarrow> string \<times> string" where
  "bucket_key_of r = (th_tenant r, th_key r)"

definition throttle_inv :: "tables \<Rightarrow> bool" where
  "throttle_inv t \<longleftrightarrow> distinct (map bucket_key_of (tb_throttle t))
     \<and> (\<forall>r \<in> set (tb_throttle t). 0 \<le> th_failures r \<and> th_failures r \<le> th_attempts r)"

lemma bucket_of_key: "bucket_of t k r \<longleftrightarrow> bucket_key_of r = (t, k)"
  by (simp add: bucket_of_def bucket_key_of_def)

lemma throttle_inv_upsert:
  assumes "throttle_inv t" and "upsert_bucket new f t = Inr (st, t')"
    and "0 \<le> th_failures new \<and> th_failures new \<le> th_attempts new"
    and "\<And>r. bucket_key_of (f r new) = bucket_key_of r"
    and "\<And>r. 0 \<le> th_failures r \<Longrightarrow> th_failures r \<le> th_attempts r \<Longrightarrow>
      0 \<le> th_failures (f r new) \<and> th_failures (f r new) \<le> th_attempts (f r new)"
  shows "throttle_inv t'"
proof (cases "find_row (bucket_of (th_tenant new) (th_key new)) (tb_throttle t)")
  case None
  then have "\<forall>r \<in> set (tb_throttle t). bucket_key_of r \<noteq> bucket_key_of new"
    by (auto simp: find_row_None bucket_of_def bucket_key_of_def)
  then have "bucket_key_of new \<notin> bucket_key_of ` set (tb_throttle t)"
    by (metis imageE)
  with None assms(1-3) show ?thesis
    by (auto simp: upsert_bucket_def throttle_inv_def)
next
  case (Some old)
  let ?p = "bucket_of (th_tenant new) (th_key new)"
  have "map bucket_key_of (update_where ?p (\<lambda>r. f r new) (tb_throttle t))
      = map bucket_key_of (tb_throttle t)"
    by (rule map_update_where) (rule assms(4))
  with Some assms(1,2,5) show ?thesis
    by (auto simp: upsert_bucket_def throttle_inv_def set_update_where)
qed

lemma throttle_inv_delete:
  "throttle_inv t \<Longrightarrow> delete_buckets p t = Inr (n, t') \<Longrightarrow> throttle_inv t'"
  by (auto simp: throttle_inv_def delete_buckets_def delete_where_def distinct_map_filter)

lemma keeps_throttle_delete: "keeps throttle_inv (exec w (delete_buckets p))"
  by (rule keeps_exec) (rule throttle_inv_delete)

lemma keeps_Hit: "keeps throttle_inv (Hit t k sj w now f)"
  unfolding Hit_def Let_def
  by (intro keeps_if keeps_failp keeps_in_tx_of keeps_exec, erule (1) throttle_inv_upsert)
    (auto simp: bucket_key_of_def)

lemma keeps_Block: "keeps throttle_inv (Block t k u)"
  unfolding Block_def
  by (intro keeps_if keeps_failp keeps_bindp keeps_wall_clock keeps_ret keeps_exec,
      erule (1) throttle_inv_upsert) (auto simp: bucket_key_of_def)

lemma keeps_GetThrottle: "keeps throttle_inv (GetThrottle t k)"
  unfolding GetThrottle_def by (rule keeps_query_row)

lemma keeps_ResetThrottle: "keeps throttle_inv (ResetThrottle t k)"
  unfolding ResetThrottle_def
  by (intro keeps_bindp keeps_throttle_delete keeps_if keeps_failp keeps_ret)

lemma keeps_ResetSubjectThrottles: "keeps throttle_inv (ResetSubjectThrottles t sj)"
  unfolding ResetSubjectThrottles_def by (intro keeps_if keeps_failp keeps_throttle_delete)

lemma keeps_DeleteStaleThrottles: "keeps throttle_inv (DeleteStaleThrottles cutoff)"
  unfolding DeleteStaleThrottles_def by (rule keeps_throttle_delete)

subsection \<open>The store meets its interface\<close>

definition bucket_view :: "db \<Rightarrow> buckets" where
  "bucket_view s tk = find_row (bucket_of (fst tk) (snd tk)) (tb_throttle (os_db s))"

definition sqlite_throttle :: "db throttle_ops" where
  "sqlite_throttle = \<lparr>op_hit = Hit, op_block = Block, op_get = GetThrottle, op_reset = ResetThrottle,
     op_reset_subject = ResetSubjectThrottles, op_delete_stale = DeleteStaleThrottles\<rparr>"

definition healthy :: "'t os \<Rightarrow> bool" where
  "healthy s \<longleftrightarrow> os_faults s = []"

lemma view_cong: "os_db s' = os_db s \<Longrightarrow> bucket_view s' = bucket_view s"
  by (simp add: bucket_view_def fun_eq_iff)

lemma upsert_view:
  assumes "upsert_bucket new f (os_db s) = Inr (st, os_db s')"
    and "\<And>r. bucket_key_of (f r new) = bucket_key_of r"
  shows "st = (case bucket_view s (th_tenant new, th_key new) of None \<Rightarrow> new | Some old \<Rightarrow> f old new)
    \<and> bucket_view s' = (bucket_view s)((th_tenant new, th_key new) \<mapsto> st)"
proof
  let ?p = "bucket_of (th_tenant new) (th_key new)"
  show st: "st = (case bucket_view s (th_tenant new, th_key new) of None \<Rightarrow> new | Some old \<Rightarrow> f old new)"
    using assms(1) by (auto simp: upsert_bucket_def bucket_view_def Let_def split: option.splits)
  show "bucket_view s' = (bucket_view s)((th_tenant new, th_key new) \<mapsto> st)"
  proof
    fix tk :: "string \<times> string"
    obtain t k where tk: "tk = (t, k)" by (cases tk)
    have same: "bucket_of t k (f r new) = bucket_of t k r" for r
      using assms(2) [of r] by (simp add: bucket_of_key)
    show "bucket_view s' tk = ((bucket_view s)((th_tenant new, th_key new) \<mapsto> st)) tk"
    proof (cases "find_row ?p (tb_throttle (os_db s))")
      case None
      with assms(1) [symmetric] have "tb_throttle (os_db s') = tb_throttle (os_db s) @ [new]" "st = new"
        by (auto simp: upsert_bucket_def Let_def)
      with None show ?thesis
        by (auto simp: bucket_view_def tk find_row_append bucket_of_def split: option.split)
    next
      case (Some old)
      with assms(1) [symmetric] have "tb_throttle (os_db s') = update_where ?p (\<lambda>r. f r new) (tb_throttle (os_db s))"
        "st = f old new"
        by (auto simp: upsert_bucket_def Let_def)
      then have upd: "bucket_view s' tk = map_option (\<lambda>r. if ?p r then f r new else r) (bucket_view s tk)"
        using find_row_update_where [of ?p "bucket_of t k" "\<lambda>r. f r new", OF same]
        by (simp add: bucket_view_def tk)
      show ?thesis
      proof (cases "tk = (th_tenant new, th_key new)")
        case True
        with Some find_row_Some [OF Some] upd \<open>st = f old new\<close> show ?thesis
          by (simp add: bucket_view_def)
      next
        case False
        have "\<not> ?p r" if "bucket_view s tk = Some r" for r
          using find_row_Some [OF that [unfolded bucket_view_def]] False
          by (auto simp: bucket_of_def tk)
        with upd False show ?thesis by (cases "bucket_view s tk") auto
      qed
    qed
  qed
qed

lemma delete_view:
  assumes "delete_buckets q (os_db s) = Inr (n, os_db s')" and "throttle_inv (os_db s)"
  shows "bucket_view s' = without (\<lambda>_. q) (bucket_view s)"
proof
  fix tk
  have "find_row (bucket_of (fst tk) (snd tk)) (delete_where q (tb_throttle (os_db s))) =
     (case find_row (bucket_of (fst tk) (snd tk)) (tb_throttle (os_db s)) of
        None \<Rightarrow> None | Some r \<Rightarrow> if q r then None else Some r)"
    by (rule find_row_delete_where [where key = bucket_key_of and k = tk])
      (use assms(2) in \<open>auto simp: throttle_inv_def bucket_of_key\<close>)
  with assms(1) [symmetric] show "bucket_view s' tk = without (\<lambda>_. q) (bucket_view s) tk"
    by (auto simp: bucket_view_def delete_buckets_def without_def)
qed

lemma in_tx_exec_res:
  assumes "in_tx (exec wrap body) s = (r, s')"
  shows "case r of Inl e \<Rightarrow> os_db s' = os_db s | Inr x \<Rightarrow> body (os_db s) = Inr (x, os_db s')"
proof (cases r)
  case (Inl e)
  with assms show ?thesis by (auto dest: in_tx_Inl)
next
  case (Inr x)
  obtain s1 s2 where "os_db s1 = os_db s" "exec wrap body s1 = (Inr x, s2)" "os_db s' = os_db s2"
    using in_tx_Inr [OF assms [unfolded Inr]] by metis
  with Inr show ?thesis by (auto dest: exec_Inr)
qed

lemma Hit_Inr:
  assumes "Hit t k sj w now f s = (Inr st, s')"
  shows "st = hit_state (bucket_view s (t, k)) t k sj w now f
    \<and> bucket_view s' = (bucket_view s)((t, k) \<mapsto> st)"
proof -
  let ?new = "\<lparr>th_key = k, th_tenant = t, th_subject = sj, th_window = now, th_attempts = 1,
      th_failures = if f then 1 else 0, th_blocked = None, th_updated = now\<rparr>"
  let ?f = "\<lambda>old new. old
              \<lparr>th_subject := (if th_subject old \<noteq> [] then th_subject old else th_subject new),
               th_window := (if th_window old \<le> now - w then th_window new else th_window old),
               th_attempts := (if th_window old \<le> now - w then 1 else th_attempts old + 1),
               th_failures := (if th_window old \<le> now - w then (if f then 1 else 0)
                               else th_failures old + (if f then 1 else 0)),
               th_updated := th_updated new\<rparr>"
  from assms have "in_tx (exec map_error (upsert_bucket ?new ?f)) s = (Inr st, s')"
    by (simp add: Hit_def failp_def Let_def split: if_splits)
  from in_tx_exec_res [OF this] have up: "upsert_bucket ?new ?f (os_db s) = Inr (st, os_db s')" by simp
  from upsert_view [OF up] have st: "st = (case bucket_view s (t, k) of None \<Rightarrow> ?new | Some old \<Rightarrow> ?f old ?new)"
    and v: "bucket_view s' = (bucket_view s)((t, k) \<mapsto> st)"
    by (simp_all add: bucket_key_of_def)
  have "st = hit_state (bucket_view s (t, k)) t k sj w now f"
  proof (cases "bucket_view s (t, k)")
    case None
    with st show ?thesis by (simp add: fail_inc_def)
  next
    case (Some old)
    with st have "st = ?f old ?new" by simp
    with Some show ?thesis
      by (cases f; cases "th_window old \<le> now - w"; cases "th_subject old = []")
        (simp_all add: fail_inc_def window_over_def)
  qed
  with v show ?thesis by simp
qed

lemma Hit_Inl: "Hit t k sj w now f s = (Inl e, s') \<Longrightarrow> bucket_view s' = bucket_view s"
  by (rule view_cong) (auto simp: Hit_def failp_def Let_def split: if_splits dest!: in_tx_Inl)

lemma Block_Inr:
  assumes "Block t k u s = (Inr x, s')"
  shows "\<exists>st. bucket_view s' = (bucket_view s)((t, k) \<mapsto> st) \<and> th_blocked st = Some u
        \<and> (\<forall>st0. bucket_view s (t, k) = Some st0 \<longrightarrow>
             st = st0\<lparr>th_blocked := Some u, th_updated := th_updated st\<rparr>)
        \<and> (bucket_view s (t, k) = None \<longrightarrow> th_attempts st = 0 \<and> th_failures st = 0 \<and> th_subject st = [])"
proof -
  let ?new = "\<lparr>th_key = k, th_tenant = t, th_subject = [], th_window = os_wall s, th_attempts = 0,
      th_failures = 0, th_blocked = Some u, th_updated = os_wall s\<rparr>"
  let ?f = "\<lambda>old new. old\<lparr>th_blocked := th_blocked new, th_updated := th_updated new\<rparr>"
  from assms obtain st where "exec map_error (upsert_bucket ?new ?f) s = (Inr st, s')"
    by (auto simp: Block_def failp_def bindp_def wall_clock_def ret_def
        split: if_splits prod.splits sum.splits)
  from exec_Inr [OF this] have up: "upsert_bucket ?new ?f (os_db s) = Inr (st, os_db s')" by blast
  from upsert_view [OF up] have st: "st = (case bucket_view s (t, k) of None \<Rightarrow> ?new | Some old \<Rightarrow> ?f old ?new)"
    and v: "bucket_view s' = (bucket_view s)((t, k) \<mapsto> st)"
    by (simp_all add: bucket_key_of_def)
  show ?thesis
    by (rule exI [of _ st]) (use v in \<open>simp add: st split: option.split\<close>)
qed

lemma Block_Inl: "Block t k u s = (Inl e, s') \<Longrightarrow> bucket_view s' = bucket_view s"
  by (rule view_cong) (auto simp: Block_def failp_def bindp_def wall_clock_def ret_def
      split: if_splits prod.splits sum.splits dest!: exec_Inl)

lemma GetThrottle_res:
  assumes "GetThrottle t k s = (r, s')"
  shows "bucket_view s' = bucket_view s"
    and "r = Inr st \<Longrightarrow> bucket_view s (t, k) = Some st"
    and "r = Inl ErrNotFound \<Longrightarrow> bucket_view s (t, k) = None"
proof -
  show "bucket_view s' = bucket_view s"
    using query_row_frame [OF assms [unfolded GetThrottle_def]] by (intro view_cong) simp
  show "r = Inr st \<Longrightarrow> bucket_view s (t, k) = Some st"
    using assms by (auto simp: GetThrottle_def bucket_view_def dest: query_row_Inr)
  show "r = Inl ErrNotFound \<Longrightarrow> bucket_view s (t, k) = None"
    using assms by (auto simp: GetThrottle_def bucket_view_def dest: query_row_NotFound)
qed

lemma ResetThrottle_res:
  assumes "ResetThrottle t k s = (r, s')"
  shows "r = Inr x \<Longrightarrow> bucket_view s' = (bucket_view s)((t, k) := None)"
    and "r = Inl e \<Longrightarrow> bucket_view s' = bucket_view s \<and> (e = ErrNotFound \<longrightarrow> bucket_view s (t, k) = None)"
proof -
  let ?ex = "exec map_error (delete_buckets (bucket_of t k))"
  obtain q s1 where ex: "?ex s = (q, s1)" by (cases "?ex s")
  show "bucket_view s' = (bucket_view s)((t, k) := None)" if "r = Inr x"
  proof -
    from assms that ex obtain n where n: "?ex s = (Inr n, s')"
      by (auto simp: ResetThrottle_def bindp_def failp_def ret_def split: sum.splits if_splits)
    from exec_Inr [OF n] have db: "tb_throttle (os_db s') = delete_where (bucket_of t k) (tb_throttle (os_db s))"
      by (auto simp: delete_buckets_def dest: sym [of _ "os_db s'"])
    show ?thesis
    proof
      fix tk
      show "bucket_view s' tk = ((bucket_view s)((t, k) := None)) tk"
      proof (cases "tk = (t, k)")
        case True
        then show ?thesis by (simp add: bucket_view_def db find_row_None)
      next
        case False
        have "find_row (bucket_of (fst tk) (snd tk)) (delete_where (bucket_of t k) rows)
            = find_row (bucket_of (fst tk) (snd tk)) rows" for rows
          using False by (induction rows) (auto simp: delete_where_def bucket_of_def prod_eq_iff)
        with False show ?thesis by (simp add: bucket_view_def db)
      qed
    qed
  qed
  show "bucket_view s' = bucket_view s \<and> (e = ErrNotFound \<longrightarrow> bucket_view s (t, k) = None)" if e: "r = Inl e"
  proof (cases q)
    case (Inl e')
    with ex have "e' \<noteq> ErrNotFound"
      by (auto simp: exec_def delete_buckets_def split: prod.splits option.splits if_splits)
    moreover from Inl assms e ex have "e = e'" "os_db s' = os_db s"
      by (auto simp: ResetThrottle_def bindp_def dest!: exec_Inl)
    ultimately show ?thesis by (auto intro: view_cong)
  next
    case (Inr n)
    with assms e ex have n: "n = 0" "s' = s1"
      by (auto simp: ResetThrottle_def bindp_def failp_def ret_def split: if_splits)
    from exec_Inr [OF ex [unfolded Inr]] have "n = count_where (bucket_of t k) (tb_throttle (os_db s))"
      and db: "os_db s1 = os_db s\<lparr>tb_throttle := delete_where (bucket_of t k) (tb_throttle (os_db s))\<rparr>"
      by (auto simp: delete_buckets_def dest: sym [of _ "os_db s1"])
    with n have none: "\<forall>x \<in> set (tb_throttle (os_db s)). \<not> bucket_of t k x"
      by (simp add: count_where_zero)
    with db have "os_db s1 = os_db s" by (simp add: delete_where_none)
    with none n show ?thesis by (auto simp: bucket_view_def find_row_None)
  qed
qed

lemma upsert_bucket_ok: "\<exists>st t'. upsert_bucket new f t = Inr (st, t')"
  by (simp add: upsert_bucket_def Let_def split: option.split)

lemma exec_upsert_ready:
  assumes "healthy s"
  shows "\<exists>st s'. exec wrap (upsert_bucket new f) s = (Inr st, s') \<and> healthy s'"
  using upsert_bucket_ok [of new f "os_db s"] assms by (auto simp: healthy_def tx_simps)

lemma in_tx_ready:
  assumes "\<exists>x s'. fn s = (Inr x, s') \<and> healthy s'" and "healthy s"
  shows "\<exists>x s'. in_tx fn s = (Inr x, s') \<and> healthy s'"
  using assms by (auto simp: healthy_def tx_simps)

lemma Hit_ready:
  assumes "healthy s" and "t \<noteq> []" and "k \<noteq> []" and "0 < w"
  shows "\<exists>st s'. Hit t k sj w now f s = (Inr st, s') \<and> healthy s'"
  using assms by (auto simp: Hit_def Let_def intro!: in_tx_ready exec_upsert_ready)

lemma Block_ready:
  assumes "healthy s" and "t \<noteq> []" and "k \<noteq> []"
  shows "\<exists>s'. Block t k u s = (Inr (), s') \<and> healthy s'"
proof -
  let ?m = "exec map_error (upsert_bucket
           \<lparr>th_key = k, th_tenant = t, th_subject = [], th_window = os_wall s,
            th_attempts = 0, th_failures = 0, th_blocked = Some u, th_updated = os_wall s\<rparr>
           (\<lambda>old new. old\<lparr>th_blocked := th_blocked new, th_updated := th_updated new\<rparr>))"
  obtain st s' where "?m s = (Inr st, s')" "healthy s'"
    using exec_upsert_ready [OF assms(1)] by blast
  then show ?thesis
    using assms(2,3) by (auto simp: Block_def bindp_def wall_clock_def ret_def)
qed

lemma GetThrottle_ready:
  "healthy s \<Longrightarrow> \<exists>s'. GetThrottle t k s
     = ((case bucket_view s (t, k) of None \<Rightarrow> Inl ErrNotFound | Some st \<Rightarrow> Inr st), s') \<and> healthy s'"
  by (auto simp: GetThrottle_def healthy_def tx_simps bucket_view_def split: option.split)

lemma ResetThrottle_ready:
  "healthy s \<Longrightarrow> \<exists>r s'. ResetThrottle t k s = (r, s') \<and> (r = Inr () \<or> r = Inl ErrNotFound) \<and> healthy s'"
  by (auto simp: ResetThrottle_def healthy_def tx_simps delete_buckets_def)

lemma ResetSubjectThrottles_Inr:
  assumes "throttle_inv (os_db s)" and "ResetSubjectThrottles t sj s = (Inr n, s')"
  shows "bucket_view s' = without (owned_by t sj) (bucket_view s)"
proof -
  from assms(2) have sj: "sj \<noteq> []"
    and ex: "exec map_error (delete_buckets
             (\<lambda>r. th_tenant r = t \<and> th_subject r = sj \<and> th_subject r \<noteq> [])) s = (Inr n, s')"
    by (auto simp: ResetSubjectThrottles_def failp_def split: if_splits)
  from delete_view [OF _ assms(1)] exec_Inr [OF ex] have v: "bucket_view s' =
      without (\<lambda>_ r. th_tenant r = t \<and> th_subject r = sj \<and> th_subject r \<noteq> []) (bucket_view s)"
    by blast
  show ?thesis
  proof
    fix tk
    have "th_tenant r = fst tk" if "bucket_view s tk = Some r" for r
      using find_row_Some [OF that [unfolded bucket_view_def]] by (simp add: bucket_of_def)
    then show "bucket_view s' tk = without (owned_by t sj) (bucket_view s) tk"
      using sj by (auto simp: v without_def owned_by_def split: option.split)
  qed
qed

lemma ResetSubjectThrottles_Inl:
  assumes "ResetSubjectThrottles t sj s = (Inl e, s')"
  shows "bucket_view s' = bucket_view s \<and> e \<noteq> ErrNotFound"
proof
  show "bucket_view s' = bucket_view s"
    using assms by (intro view_cong)
      (auto simp: ResetSubjectThrottles_def failp_def split: if_splits dest!: exec_Inl)
  show "e \<noteq> ErrNotFound"
    using assms
    by (auto simp: ResetSubjectThrottles_def failp_def exec_def delete_buckets_def
        split: if_splits prod.splits option.splits)
qed

lemma DeleteStaleThrottles_Inr:
  assumes "throttle_inv (os_db s)" and "DeleteStaleThrottles cutoff s = (Inr n, s')"
  shows "bucket_view s' = without (\<lambda>_. stale_bucket cutoff) (bucket_view s)"
proof -
  from assms(2) have "delete_buckets (stale_bucket cutoff) (os_db s) = Inr (n, os_db s')"
    by (auto simp: DeleteStaleThrottles_def stale_bucket_def [abs_def] dest!: exec_Inr)
  then show ?thesis by (rule delete_view) (rule assms(1))
qed

lemma DeleteStaleThrottles_Inl:
  "DeleteStaleThrottles cutoff s = (Inl e, s') \<Longrightarrow> bucket_view s' = bucket_view s"
  by (rule view_cong) (auto simp: DeleteStaleThrottles_def dest!: exec_Inl)

lemma bucket_view_counters:
  "throttle_inv (os_db s) \<Longrightarrow> bucket_view s (t, k) = Some st \<Longrightarrow>
     0 \<le> th_failures st \<and> th_failures st \<le> th_attempts st"
  by (auto simp: bucket_view_def throttle_inv_def dest!: find_row_Some)

interpretation sqlite_throttle: throttle_store sqlite_throttle bucket_view
    "\<lambda>s. throttle_inv (os_db s)" healthy
proof (unfold_locales, goal_cases)
  case 1 then show ?case by (simp add: sqlite_throttle_def Hit_Inr)
next
  case 2 then show ?case by (simp add: sqlite_throttle_def Hit_Inl)
next
  case 3 then show ?case by (simp add: sqlite_throttle_def Hit_ready)
next
  case 4 then show ?case by (simp add: sqlite_throttle_def Block_Inr)
next
  case 5 then show ?case by (simp add: sqlite_throttle_def Block_Inl)
next
  case 6 then show ?case by (simp add: sqlite_throttle_def Block_ready)
next
  case 7 then show ?case by (auto simp: sqlite_throttle_def dest: GetThrottle_res)
next
  case 8 then show ?case by (auto simp: sqlite_throttle_def dest: GetThrottle_res)
next
  case 9 then show ?case by (simp add: sqlite_throttle_def GetThrottle_ready)
next
  case 10 then show ?case by (simp add: sqlite_throttle_def ResetThrottle_res)
next
  case 11 then show ?case by (simp add: sqlite_throttle_def ResetThrottle_res)
next
  case 12 then show ?case by (simp add: sqlite_throttle_def ResetThrottle_ready)
next
  case 13 then show ?case by (simp add: sqlite_throttle_def ResetSubjectThrottles_Inr)
next
  case 14 then show ?case by (simp add: sqlite_throttle_def ResetSubjectThrottles_Inl)
next
  case 15 then show ?case by (simp add: sqlite_throttle_def DeleteStaleThrottles_Inr)
next
  case 16 then show ?case by (simp add: sqlite_throttle_def DeleteStaleThrottles_Inl)
next
  case 17 then show ?case by (simp add: sqlite_throttle_def keepsD [OF keeps_Hit])
next
  case 18 then show ?case by (simp add: sqlite_throttle_def keepsD [OF keeps_Block])
next
  case 19 then show ?case by (simp add: sqlite_throttle_def keepsD [OF keeps_GetThrottle])
next
  case 20 then show ?case by (simp add: sqlite_throttle_def keepsD [OF keeps_ResetThrottle])
next
  case 21 then show ?case by (simp add: sqlite_throttle_def keepsD [OF keeps_ResetSubjectThrottles])
next
  case 22 then show ?case by (simp add: sqlite_throttle_def keepsD [OF keeps_DeleteStaleThrottles])
next
  case 23 then show ?case by (rule bucket_view_counters)
qed

end
