(* ===== verification/Throttle_Limits.thy ===== *)
theory Throttle_Limits
  imports Throttle_Store
begin

text \<open>
  What the limiter guarantees over the SQLite store: the properties of
  \<^verbatim>\<open>internal/throttle\<close> together with \<^verbatim>\<open>internal/store/sqlite/throttle.go\<close>, each resting on
  the interpretation of the store's contract.
\<close>

subsection \<open>A concrete limiter\<close>

definition demo_cfg :: throttle_cfg where
  "demo_cfg = \<lparr>tg_enabled = True, tg_window = 900, tg_max_subject = 3, tg_max_ip = 50,
     tg_max_key = 2, tg_lockout = 600, tg_revoke_burst = 2\<rparr>"

definition demo_limiter :: "db limiter" where
  "demo_limiter = ForFactor (New sqlite_throttle demo_cfg
     (\<lambda>b. of_nat (length b) # replicate 31 0)) FactorTOTP"

definition demo_dims :: "(dimension \<times> string) list" where
  "demo_dims = [(DimAPIKey, ''k''), (DimSubject, ''u'')]"

definition demo_key :: string where
  "demo_key = key_of demo_limiter ''t'' (DimSubject, ''u'')"

definition demo_bucket :: throttle_state where
  "demo_bucket = \<lparr>th_key = demo_key, th_tenant = ''t'', th_subject = ''u'', th_window = 1000,
     th_attempts = 5, th_failures = 2, th_blocked = Some 2000, th_updated = 1400\<rparr>"

definition demo_throttle_db :: db where
  "demo_throttle_db = fresh_os 1500 (empty_tables\<lparr>tb_throttle := [demo_bucket]\<rparr>)"

definition demo_empty_db :: db where
  "demo_empty_db = fresh_os 1500 empty_tables"

lemma demo_values [simp]:
  "normaliseValue DimSubject ''u'' = ''u''" "normaliseValue DimAPIKey ''k'' = ''k''"
  by (simp_all add: normaliseValue_def TrimSpace_printable printable_def)

lemma demo_limiter_sel [simp]:
  "lm_store demo_limiter = sqlite_throttle" "lm_cfg demo_limiter = demo_cfg"
  "tg_enabled demo_cfg" "tg_window demo_cfg = 900" "tg_max_subject demo_cfg = 3"
  "tg_max_key demo_cfg = 2" "tg_lockout demo_cfg = 600"
  by (simp_all add: demo_limiter_def ForFactor_def New_def demo_cfg_def)

lemma demo_supplied: "supplied demo_dims dimensionOrder = [(DimSubject, ''u''), (DimAPIKey, ''k'')]"
  by (simp add: demo_dims_def dimensionOrder_def supplied_Cons)

lemma demo_keys_distinct:
  "key_of demo_limiter ''t'' (DimAPIKey, ''k'') \<noteq> demo_key"
proof -
  have "hex_encode (4 # xs) \<noteq> hex_encode (5 # xs)" for xs by simp
  have k: "BucketKey demo_limiter d ''t'' v = hex_encode (take 16 (of_nat
      (length (bucket_preimage demo_limiter d ''t'' v)) # replicate 31 0))" for d v
    using take_hex_encode [of 16]
    by (simp add: BucketKey_def bucketKeyHexLen_def demo_limiter_def ForFactor_def New_def
        bucket_preimage_def)
  show ?thesis
    unfolding demo_key_def key_of_def k
    by (simp add: bucket_preimage_def writeField_def bucketDomain_def demo_limiter_def
        ForFactor_def FactorTOTP_def)
qed

lemma demo_bucket_sel [simp]:
  "th_tenant demo_bucket = ''t''" "th_key demo_bucket = demo_key" "th_blocked demo_bucket = Some 2000"
  by (simp_all add: demo_bucket_def)

lemma demo_view:
  "bucket_view demo_throttle_db (''t'', demo_key) = Some demo_bucket"
  "bucket_view demo_throttle_db (''t'', key_of demo_limiter ''t'' (DimAPIKey, ''k'')) = None"
  using demo_keys_distinct by (simp_all add: bucket_view_def demo_throttle_db_def bucket_of_def)

lemma demo_throttle_inv: "throttle_inv (os_db demo_throttle_db)"
  by (simp add: throttle_inv_def demo_throttle_db_def demo_bucket_def)

subsection \<open>Properties\<close>

text \<open>
  The check before a ceremony. \<^verbatim>\<open>Check\<close> records nothing (no bucket changes), and it
  allows the attempt exactly when no bucket named by a supplied dimension is blocked; a
  refusal names the dimension of a blocked bucket, and its \<^verbatim>\<open>RetryAfter\<close> covers the rest of
  the block, rounded up by less than a second.
\<close>

theorem throttle_check:
  assumes "lm_store l = sqlite_throttle" and "tg_enabled (lm_cfg l)"
    and "Check l t dims now s = (Inr v, s')"
  shows "bucket_view s' = bucket_view s \<and>
    (vd_allowed v \<longleftrightarrow> (\<forall>dv \<in> set (supplied dims dimensionOrder). \<forall>st.
       bucket_view s (t, key_of l t dv) = Some st \<longrightarrow> \<not> blocked st now)) \<and>
    (\<not> vd_allowed v \<longrightarrow> (\<exists>dv \<in> set (supplied dims dimensionOrder). \<exists>st u.
       bucket_view s (t, key_of l t dv) = Some st \<and> th_blocked st = Some u \<and> now < u
       \<and> vd_dim v = fst dv
       \<and> (u - now \<le> max_int64 - second \<longrightarrow> u - now \<le> vd_retry v \<and> vd_retry v < u - now + second)))"
proof -
  note C = sqlite_throttle.Check_res [OF assms]
  have "\<exists>dv \<in> set (supplied dims dimensionOrder). \<exists>st u.
       bucket_view s (t, key_of l t dv) = Some st \<and> th_blocked st = Some u \<and> now < u
       \<and> vd_dim v = fst dv
       \<and> (u - now \<le> max_int64 - second \<longrightarrow> u - now \<le> vd_retry v \<and> vd_retry v < u - now + second)"
    if "\<not> vd_allowed v"
  proof -
    from C that obtain dv st where dv: "dv \<in> set (supplied dims dimensionOrder)"
      "bucket_view s (t, key_of l t dv) = Some st" "blocked st now" "vd_dim v = fst dv"
      "vd_retry v = ceilSeconds (remaining_block st now)"
      by auto
    then obtain u where u: "th_blocked st = Some u" "now < u" by (auto simp: blocked_iff)
    have "u - now \<le> vd_retry v \<and> vd_retry v < u - now + second" if le: "u - now \<le> max_int64 - second"
    proof -
      have "time_sub u now = u - now"
        by (rule time_sub_exact) (use u le in \<open>auto simp: min_int64_def second_def\<close>)
      with ceilSeconds_bounds [OF _ le] u dv(5) show ?thesis by (simp add: remaining_block_def)
    qed
    with dv u show ?thesis by blast
  qed
  with C show ?thesis by (auto split: if_splits)
qed

lemma demo_check:
  "\<exists>v s'. Check demo_limiter ''t'' demo_dims 1500 demo_throttle_db = (Inr v, s')"
proof -
  have get: "op_get sqlite_throttle ''t'' (BucketKey demo_limiter DimSubject ''t'' ''u'') demo_throttle_db
      = (Inr demo_bucket, demo_throttle_db)"
    by (simp add: sqlite_throttle_def GetThrottle_def tx_simps demo_throttle_db_def bucket_of_def
        demo_key_def key_of_def)
  show ?thesis
    by (simp add: Check_def demo_dims_def dimensionOrder_def tx_simps get blocked_def Let_def)
qed

theorem throttle_check_witness:
  "\<exists>v s'. Check demo_limiter ''t'' demo_dims 1500 demo_throttle_db = (Inr v, s') \<and> \<not> vd_allowed v
     \<and> bucket_view s' = bucket_view demo_throttle_db"
proof -
  obtain v s' where run: "Check demo_limiter ''t'' demo_dims 1500 demo_throttle_db = (Inr v, s')"
    using demo_check by blast
  have "blocked demo_bucket 1500" by (simp add: blocked_def)
  with throttle_check [OF _ _ run] demo_view run show ?thesis
    by (simp add: demo_supplied demo_key_def)
qed
text \<open>
  C10: an attempt is recorded in every bucket before any is judged. \<^verbatim>\<open>Record\<close> hits the
  bucket of every supplied dimension exactly once, whatever the others hold, and then leaves
  each as its own judgement says: locked for the lockout duration when its budget is used
  up, cleared after a success when one party owns it, otherwise as the hit left it. No other
  bucket changes, and the attempt is refused exactly when one of the judgements refuses.
\<close>

theorem throttle_record:
  assumes "lm_store l = sqlite_throttle" and "tg_enabled (lm_cfg l)"
    and "distinct (map (key_of l t) (supplied dims dimensionOrder))"
    and "Record l t dims failure now s = (Inr v, s')"
  shows "(\<forall>dv \<in> set (supplied dims dimensionOrder).
            judged_bucket l now (hit_of l t now failure (bucket_view s) dv)
              (judgement l (fst dv) (hit_of l t now failure (bucket_view s) dv) now failure)
              (bucket_view s' (t, key_of l t dv)))
    \<and> (\<forall>tk. tk \<notin> (\<lambda>dv. (t, key_of l t dv)) ` set (supplied dims dimensionOrder) \<longrightarrow>
         bucket_view s' tk = bucket_view s tk)
    \<and> (vd_allowed v \<longleftrightarrow> (\<forall>dv \<in> set (supplied dims dimensionOrder).
         \<not> refuses (judgement l (fst dv) (hit_of l t now failure (bucket_view s) dv) now failure)))"
  by (rule sqlite_throttle.Record_res [OF assms])

lemma demo_record:
  "\<exists>v s'. Record demo_limiter ''t'' [(DimSubject, ''u'')] True 2500 demo_throttle_db = (Inr v, s')"
proof -
  obtain st s1 where hit: "op_hit sqlite_throttle ''t'' (BucketKey demo_limiter DimSubject ''t'' ''u'')
      ''u'' 900 2500 True demo_throttle_db = (Inr st, s1)" "healthy s1"
    using sqlite_throttle.hit_ready [of demo_throttle_db "''t''"
        "BucketKey demo_limiter DimSubject ''t'' ''u''" 900 "''u''" 2500 True]
    by (auto simp: healthy_def demo_throttle_db_def BucketKey_def bucketKeyHexLen_def hex_encode_def
        hex_byte_def demo_limiter_def ForFactor_def New_def)
  from sqlite_throttle.hit_law [OF hit(1)] demo_view(1)
  have st: "th_blocked st = Some 2000" "th_failures st = 1"
    by (auto simp: demo_key_def key_of_def demo_bucket_def window_over_def fail_inc_def)
  have "judge demo_limiter ''t'' \<lparr>ob_dim = DimSubject,
      ob_key = BucketKey demo_limiter DimSubject ''t'' ''u'', ob_st = st\<rparr> 2500 True s1 = (Inr allowed_verdict, s1)"
    using st by (simp add: judge_def blocked_def ret_def Let_def)
  with hit show ?thesis
    by (simp add: Record_def dimensionOrder_def tx_simps Let_def owner_of_def)
qed

theorem throttle_record_witness:
  "\<exists>v s'. Record demo_limiter ''t'' [(DimSubject, ''u'')] True 2500 demo_throttle_db = (Inr v, s')
     \<and> vd_allowed v \<and> bucket_failures (bucket_view s' (''t'', demo_key)) = 1"
proof -
  obtain v s' where run: "Record demo_limiter ''t'' [(DimSubject, ''u'')] True 2500 demo_throttle_db = (Inr v, s')"
    using demo_record by blast
  have sup: "supplied [(DimSubject, ''u'')] dimensionOrder = [(DimSubject, ''u'')]"
    by (simp add: dimensionOrder_def supplied_Cons)
  define h where "h = hit_state (Some demo_bucket) ''t'' demo_key ''u'' 900 2500 True"
  have hit: "hit_of demo_limiter ''t'' 2500 True (bucket_view demo_throttle_db) (DimSubject, ''u'') = h"
    using demo_view(1) by (simp add: hit_of_def demo_key_def owner_of_def h_def)
  have h: "th_blocked h = Some 2000" "th_failures h = 1"
    by (simp_all add: h_def demo_bucket_def window_over_def fail_inc_def)
  then have j: "judgement demo_limiter DimSubject h 2500 True = JPass"
    by (simp add: judgement_def blocked_def)
  from throttle_record [OF _ _ _ run]
  have "bucket_view s' (''t'', demo_key) = Some h" "vd_allowed v"
    by (simp_all add: sup hit j refuses_def demo_key_def)
  with run h show ?thesis by (auto simp: bucket_failures_def)
qed

text \<open>The rule of a grant, spelled out: the budget bounds a bucket that locks out and has one.\<close>

lemma granted_iff:
  "granted l dim st now \<longleftrightarrow> \<not> blocked st now \<and>
     (\<exists>a mf. limits l dim = Inr (a, mf) \<and> (locksOut l dim \<and> 0 < mf \<longrightarrow> th_failures st \<le> mf))"
  by (auto simp: granted_def split: sum.splits)

text \<open>
  C11: a reservation. \<^verbatim>\<open>Reserve\<close> grants an attempt exactly when no supplied bucket was blocked
  at its check and every bucket owned by one party, hit with this attempt as a failure, is
  unblocked and, if it locks out and has a failure budget, within it; the budget of a bucket that
  does not lock out (the per-subject one of the WebAuthn factor) refuses nothing. A granted attempt
  is left counted in each of those buckets, which the reservation holds, and an attempt
  refused by the check changes no bucket.
\<close>

theorem throttle_reserve:
  assumes "lm_store l = sqlite_throttle" and "tg_enabled (lm_cfg l)"
    and "distinct (map (key_of l t) (held_dims dims dimensionOrder))"
    and "Reserve l t dims n1 now s = (Inr (rv, v), s')"
  shows "(vd_allowed v \<longleftrightarrow> rv \<noteq> None)
    \<and> (rv \<noteq> None \<longleftrightarrow>
        (\<forall>dv \<in> set (supplied dims dimensionOrder). \<forall>st.
           bucket_view s (t, key_of l t dv) = Some st \<longrightarrow> \<not> blocked st n1)
        \<and> (\<forall>dv \<in> set (held_dims dims dimensionOrder). let h = hit_of l t now True (bucket_view s) dv in
             \<not> blocked h now \<and>
             (\<exists>a mf. limits l (fst dv) = Inr (a, mf) \<and> (locksOut l (fst dv) \<and> 0 < mf \<longrightarrow> th_failures h \<le> mf))))
    \<and> (\<forall>r. rv = Some r \<longrightarrow>
        rv_held r = map (obs_of l t now True (bucket_view s)) (held_dims dims dimensionOrder)
        \<and> rv_limiter r = Some l \<and> rv_tenant r = t \<and> rv_now r = now
        \<and> (\<forall>dv \<in> set (held_dims dims dimensionOrder).
             bucket_view s' (t, key_of l t dv) = Some (hit_of l t now True (bucket_view s) dv)))
    \<and> (\<not> (\<forall>dv \<in> set (supplied dims dimensionOrder). \<forall>st.
             bucket_view s (t, key_of l t dv) = Some st \<longrightarrow> \<not> blocked st n1) \<longrightarrow>
        bucket_view s' = bucket_view s)"
  unfolding Let_def granted_iff [symmetric] by (rule sqlite_throttle.Reserve_res [OF assms])

lemma demo_reserve:
  "\<exists>rv v s'. Reserve demo_limiter ''t'' [(DimSubject, ''u'')] 1500 1500 demo_throttle_db = (Inr (rv, v), s')"
proof -
  have get: "op_get sqlite_throttle ''t'' (BucketKey demo_limiter DimSubject ''t'' ''u'') demo_throttle_db
      = (Inr demo_bucket, demo_throttle_db)"
    by (simp add: sqlite_throttle_def GetThrottle_def tx_simps demo_throttle_db_def bucket_of_def
        demo_key_def key_of_def)
  show ?thesis
    by (simp add: Reserve_def Check_def dimensionOrder_def tx_simps get blocked_def Let_def)
qed

theorem throttle_reserve_witness:
  "\<exists>v s'. Reserve demo_limiter ''t'' [(DimSubject, ''u'')] 1500 1500 demo_throttle_db = (Inr (None, v), s')
     \<and> bucket_view s' = bucket_view demo_throttle_db"
proof -
  obtain rv v s' where run: "Reserve demo_limiter ''t'' [(DimSubject, ''u'')] 1500 1500 demo_throttle_db
      = (Inr (rv, v), s')"
    using demo_reserve by blast
  have sup: "supplied [(DimSubject, ''u'')] dimensionOrder = [(DimSubject, ''u'')]"
    "held_dims [(DimSubject, ''u'')] dimensionOrder = [(DimSubject, ''u'')]"
    by (simp_all add: dimensionOrder_def supplied_Cons held_dims_Cons ownedByOneParty_def)
  have "blocked demo_bucket 1500" by (simp add: blocked_def)
  with throttle_reserve [OF _ _ _ run] demo_view(1) run show ?thesis
    by (simp add: sup demo_key_def)
qed

text \<open>
  C3: a burst cannot overshoot the budget. Take any run of the store's atomic operations, on any
  buckets, failed ones included, in any order. The attempts that hit one lockable bucket and are
  granted are no more than the budget leaves over the failures already counted when the run began,
  plus one full budget for each time the run gave it back: a hit that found the window run out, or
  a reset of the bucket, a reset of its owner or a sweep that removed it. So inside one window, with
  no success that clears the bucket, they are at most what the budget leaves.
\<close>

theorem throttle_burst:
  assumes "limits l dim = Inr (a, mf)" and "0 < mf" and "locksOut l dim" and "throttle_inv (os_db s)"
    and "burst sqlite_throttle bucket_view l dim t k run s = (n, c)"
  shows "int n \<le> max 0 (mf - bucket_failures (bucket_view s (t, k))) + mf * int c"
  by (rule sqlite_throttle.burst_bound [OF assms])

lemma demo_hit_view:
  assumes "os_faults s = []"
  shows "\<exists>u. perform sqlite_throttle (OpHit ''t'' ''k'' ''u'' 900 now True) s = (True, u) \<and> os_faults u = []
    \<and> bucket_view u (''t'', ''k'') = Some (hit_state (bucket_view s (''t'', ''k'')) ''t'' ''k'' ''u'' 900 now True)"
proof -
  obtain st u where hit: "op_hit sqlite_throttle ''t'' ''k'' ''u'' 900 now True s = (Inr st, u)" "healthy u"
    using sqlite_throttle.hit_ready [of s "''t''" "''k''" 900 "''u''" now True] assms by (auto simp: healthy_def)
  from sqlite_throttle.hit_law [OF hit(1)] hit show ?thesis by (auto simp: healthy_def)
qed

lemma demo_reset_view:
  assumes "os_faults s = []" and "bucket_view s (''t'', ''k'') \<noteq> None"
  shows "\<exists>u. perform sqlite_throttle (OpReset ''t'' ''k'') s = (True, u) \<and> os_faults u = [] \<and> bucket_view u (''t'', ''k'') = None"
proof -
  obtain r u where reset: "op_reset sqlite_throttle ''t'' ''k'' s = (r, u)" "r = Inr () \<or> r = Inl ErrNotFound" "healthy u"
    using sqlite_throttle.reset_ready [of s "''t''" "''k''"] assms(1) by (auto simp: healthy_def)
  then have "r = Inr ()" using sqlite_throttle.reset_error [of "''t''" "''k''" s ErrNotFound u] assms(2) by auto
  with reset sqlite_throttle.reset_law [of "''t''" "''k''" s "()" u] show ?thesis by (auto simp: healthy_def)
qed

text \<open>Two attempts, a success that clears the bucket, and a third attempt: three grants, one budget given back.\<close>

theorem throttle_burst_witness:
  "\<exists>c. burst sqlite_throttle bucket_view demo_limiter DimSubject ''t'' ''k''
      [OpHit ''t'' ''k'' ''u'' 900 10 True, OpHit ''t'' ''k'' ''u'' 900 11 True, OpReset ''t'' ''k'',
       OpHit ''t'' ''k'' ''u'' 900 12 True] demo_empty_db = (3, c) \<and> c = 1 \<and> (3 :: int) \<le> 3 + 3 * int c"
proof -
  let ?run = "[OpHit ''t'' ''k'' ''u'' 900 10 True, OpHit ''t'' ''k'' ''u'' 900 11 True, OpReset ''t'' ''k'',
       OpHit ''t'' ''k'' ''u'' 900 12 True]"
  have none: "bucket_view demo_empty_db (''t'', ''k'') = None" "os_faults demo_empty_db = []"
    by (simp_all add: bucket_view_def demo_empty_db_def empty_tables_def)
  obtain s1 where s1: "perform sqlite_throttle (OpHit ''t'' ''k'' ''u'' 900 10 True) demo_empty_db = (True, s1)"
      "os_faults s1 = []" "bucket_view s1 (''t'', ''k'') = Some (hit_state None ''t'' ''k'' ''u'' 900 10 True)"
    using demo_hit_view [OF none(2), of 10] none(1) by auto
  obtain s2 where s2: "perform sqlite_throttle (OpHit ''t'' ''k'' ''u'' 900 11 True) s1 = (True, s2)" "os_faults s2 = []"
      "bucket_view s2 (''t'', ''k'') = Some (hit_state (bucket_view s1 (''t'', ''k'')) ''t'' ''k'' ''u'' 900 11 True)"
    using demo_hit_view [OF s1(2), of 11] by blast
  obtain s3 where s3: "perform sqlite_throttle (OpReset ''t'' ''k'') s2 = (True, s3)" "os_faults s3 = []"
      "bucket_view s3 (''t'', ''k'') = None"
    using demo_reset_view [OF s2(2)] s2(3) by auto
  obtain s4 where s4: "perform sqlite_throttle (OpHit ''t'' ''k'' ''u'' 900 12 True) s3 = (True, s4)"
      "bucket_view s4 (''t'', ''k'') = Some (hit_state None ''t'' ''k'' ''u'' 900 12 True)"
    using demo_hit_view [OF s3(2), of 12] s3(3) by auto
  have b: "burst sqlite_throttle bucket_view demo_limiter DimSubject ''t'' ''k'' ?run demo_empty_db = (3, 1)"
    using none(1) s1 s2 s3 s4
    by (simp add: granted_def blocked_def fail_inc_def window_over_def del: perform.simps)
  have "locksOut demo_limiter DimSubject"
    by (simp add: locksOut_def demo_limiter_def ForFactor_def FactorTOTP_def FactorWebAuthn_def)
  moreover have "throttle_inv (os_db demo_empty_db)" by (simp add: throttle_inv_def demo_empty_db_def empty_tables_def)
  ultimately have "int 3 \<le> max 0 (3 - bucket_failures (bucket_view demo_empty_db (''t'', ''k''))) + 3 * int 1"
    using throttle_burst [OF _ _ _ _ b] by simp
  with b none(1) show ?thesis by (simp add: bucket_failures_def)
qed

text \<open>
  C12: a lockout lasts. After a bucket is blocked until an instant, and any run of the store's
  operations on any buckets, failed ones included, in any order, the bucket is blocked until
  exactly the instant the last successful block of it named (a later block replaces the end of the
  lock, by an earlier instant too), or the first one if none did, unless the run asked for one of the
  three operations that may lift a lock: a reset of the bucket, a reset of the subject that owns
  it, or a sweep of stale buckets whose cutoff lies past the lock's end. Hits never lift or move
  it, whether or not the window has run out. At every moment before that instant the check of a
  request that names the bucket refuses it.
\<close>

theorem throttle_lockout_lasts:
  assumes "lm_store l = sqlite_throttle" and "tg_enabled (lm_cfg l)"
    and "throttle_inv (os_db s)" and "dv \<in> set (supplied dims dimensionOrder)"
    and "bucket_view s (t, key_of l t dv) = Some st" and "th_blocked st = Some until"
    and "lock_end sqlite_throttle bucket_view t (key_of l t dv) run until s = Some ending"
    and "now < ending" and "Check l t dims now (perform_all sqlite_throttle run s) = (Inr v, u')"
  shows "(\<exists>st'. bucket_view (perform_all sqlite_throttle run s) (t, key_of l t dv) = Some st' \<and> th_blocked st' = Some ending)
    \<and> \<not> vd_allowed v"
proof -
  let ?u = "perform_all sqlite_throttle run s"
  have "locked_until (bucket_view s (t, key_of l t dv)) until" using assms(5,6) by (simp add: locked_until_def)
  from sqlite_throttle.lock_kept [OF assms(3) this assms(7)] obtain st'
    where st': "bucket_view ?u (t, key_of l t dv) = Some st'" "th_blocked st' = Some ending"
    by (auto simp: locked_until_def)
  then have "blocked st' now" using assms(8) by (simp add: blocked_iff)
  with sqlite_throttle.Check_res [OF assms(1,2,9)] assms(4) st' show ?thesis
    by (auto split: if_splits)
qed

text \<open>A sweep that leaves the lock, and an administrator's block that shortens it.\<close>

lemma demo_shorter:
  "perform sqlite_throttle (OpSweep 1600) demo_throttle_db = (True, demo_throttle_db)"
  "perform sqlite_throttle (OpBlock ''t'' demo_key 1800) demo_throttle_db
     = (True, demo_throttle_db\<lparr>os_db := empty_tables\<lparr>tb_throttle := [demo_bucket\<lparr>th_blocked := Some 1800, th_updated := 1500\<rparr>]\<rparr>\<rparr>)"
proof -
  have "demo_key \<noteq> []"
    by (simp add: demo_key_def key_of_def BucketKey_def bucketKeyHexLen_def hex_encode_def hex_byte_def demo_limiter_def
        ForFactor_def New_def)
  then show "perform sqlite_throttle (OpBlock ''t'' demo_key 1800) demo_throttle_db
     = (True, demo_throttle_db\<lparr>os_db := empty_tables\<lparr>tb_throttle := [demo_bucket\<lparr>th_blocked := Some 1800, th_updated := 1500\<rparr>]\<rparr>\<rparr>)"
    by (simp add: sqlite_throttle_def Block_def demo_throttle_db_def tx_simps upsert_bucket_def bucket_of_def update_where_def
        wall_clock_def bindp_def exec_ok ret_def)
qed (simp add: sqlite_throttle_def DeleteStaleThrottles_def demo_throttle_db_def tx_simps delete_buckets_def delete_where_def)

theorem throttle_lockout_lasts_witness:
  "\<exists>v u'. Check demo_limiter ''t'' demo_dims 1700
      (perform_all sqlite_throttle [OpSweep 1600, OpBlock ''t'' demo_key 1800] demo_throttle_db) = (Inr v, u') \<and> \<not> vd_allowed v"
proof -
  let ?run = "[OpSweep 1600, OpBlock ''t'' demo_key 1800]"
  let ?b = "demo_bucket\<lparr>th_blocked := Some 1800, th_updated := 1500\<rparr>"
  let ?u = "demo_throttle_db\<lparr>os_db := empty_tables\<lparr>tb_throttle := [?b]\<rparr>\<rparr>"
  have u: "perform_all sqlite_throttle ?run demo_throttle_db = ?u"
    by (simp add: demo_shorter del: perform.simps)
  have e: "lock_end sqlite_throttle bucket_view ''t'' demo_key ?run 2000 demo_throttle_db = Some 1800"
    by (simp add: demo_shorter del: perform.simps)
  have get: "op_get sqlite_throttle ''t'' (BucketKey demo_limiter DimSubject ''t'' ''u'') ?u = (Inr ?b, ?u)"
    by (simp add: sqlite_throttle_def GetThrottle_def tx_simps demo_throttle_db_def bucket_of_def demo_key_def key_of_def)
  have run: "\<exists>v u'. Check demo_limiter ''t'' demo_dims 1700 ?u = (Inr v, u')"
    by (simp add: Check_def demo_dims_def dimensionOrder_def tx_simps get blocked_def Let_def)
  then obtain v u' where run: "Check demo_limiter ''t'' demo_dims 1700 (perform_all sqlite_throttle ?run demo_throttle_db) = (Inr v, u')"
    unfolding u by blast
  have "\<not> vd_allowed v"
    using throttle_lockout_lasts [OF _ _ demo_throttle_inv _ _ _ _ _ run, of "(DimSubject, ''u'')" demo_bucket 2000 1800]
      demo_view(1) e
    by (simp add: demo_supplied demo_key_def)
  with run show ?thesis by blast
qed

text \<open>
  C13: bucket keys do not collide by construction. If two buckets (dimension, tenant, value,
  and the factor of the per-subject dimension) share a key, then either they are the same
  bucket, or two different messages have the same first 16 bytes of digest: the framing of
  the hashed fields is injective whatever the values contain.
\<close>

theorem throttle_key_separation:
  assumes "d \<in> set dimensionOrder" and "d' \<in> set dimensionOrder" and "lm_sha l' = lm_sha l"
    and "framable t" and "framable t'" and "framable (normaliseValue d v)"
    and "framable (normaliseValue d' v')" and "framable (lm_factor l)" and "framable (lm_factor l')"
    and "BucketKey l d t v = BucketKey l' d' t' v'"
  shows "d = d' \<and> t = t' \<and> normaliseValue d v = normaliseValue d' v'
      \<and> (d = DimSubject \<longrightarrow> lm_factor l = lm_factor l')
    \<or> bucket_preimage l d t v \<noteq> bucket_preimage l' d' t' v'
      \<and> take 16 (lm_sha l (bucket_preimage l d t v)) = take 16 (lm_sha l (bucket_preimage l' d' t' v'))"
proof (cases "bucket_preimage l d t v = bucket_preimage l' d' t' v'")
  case True
  then show ?thesis using bucket_preimage_inject [OF assms(1,2,4-9)] by blast
next
  case False
  have "hex_encode (take 16 (lm_sha l (bucket_preimage l d t v)))
      = hex_encode (take 16 (lm_sha l (bucket_preimage l' d' t' v')))"
    using assms(3,10) take_hex_encode [of 16] by (simp add: BucketKey_def bucketKeyHexLen_def)
  with False show ?thesis by simp
qed

theorem throttle_key_separation_witness:
  "BucketKey demo_limiter DimSubject ''t'' ''u'' = BucketKey demo_limiter DimSubject ''t'' '' u '' \<and>
   normaliseValue DimSubject ''u'' = normaliseValue DimSubject '' u ''"
proof -
  have n: "normaliseValue DimSubject '' u '' = ''u''"
    unfolding normaliseValue_def by code_simp
  then have k: "BucketKey demo_limiter DimSubject ''t'' ''u'' = BucketKey demo_limiter DimSubject ''t'' '' u ''"
    by (simp add: BucketKey_def bucket_preimage_def)
  have f: "framable ''t''" "framable (lm_factor demo_limiter)" "framable ''u''"
    by (simp_all add: framable_def demo_limiter_def ForFactor_def FactorTOTP_def)
  have same: "bucket_preimage demo_limiter DimSubject ''t'' ''u'' = bucket_preimage demo_limiter DimSubject ''t'' '' u ''"
    using n by (simp add: bucket_preimage_def)
  from throttle_key_separation [OF _ _ refl f(1,1) _ _ f(2,2) k] n f same show ?thesis
    by (simp add: dimensionOrder_def k)
qed

text \<open>
  The administrative unlock. When \<^verbatim>\<open>ResetSubject\<close> reports no error, the buckets of all
  four factors of the subject, and every other bucket the store attributes to the subject,
  are gone; every other bucket is exactly as it was.
\<close>

theorem throttle_unlock:
  assumes "lm_store l = sqlite_throttle" and "throttle_inv (os_db s)"
    and "ResetSubject l t sj s = ([], s')"
  shows "bucket_view s' = (\<lambda>tk. case bucket_view s tk of
      None \<Rightarrow> None
    | Some st \<Rightarrow> if fst tk = t \<and> (snd tk \<in> factor_keys l t sj \<or> th_subject st = sj) then None else Some st)"
  by (rule sqlite_throttle.ResetSubject_res [OF assms])

theorem throttle_unlock_witness:
  "\<exists>s'. ResetSubject demo_limiter ''t'' ''u'' demo_throttle_db = ([], s')
     \<and> bucket_view s' (''t'', demo_key) = None"
proof -
  have fac: "\<exists>s1. reset_factors demo_limiter ''t'' ''u'' fs [] s = ([], s1) \<and> healthy s1"
    if "healthy s" for fs s
    using that
  proof (induction fs arbitrary: s)
    case (Cons f fs)
    obtain r s1 where "op_reset sqlite_throttle ''t'' (BucketKey (ForFactor demo_limiter f) DimSubject ''t'' ''u'') s = (r, s1)"
      "r = Inr () \<or> r = Inl ErrNotFound" "healthy s1"
      using sqlite_throttle.reset_ready [OF Cons.prems] by blast
    with Cons.IH [of s1] show ?case by (auto simp: reset_errors_def)
  qed simp
  have "healthy demo_throttle_db" by (simp add: healthy_def demo_throttle_db_def)
  from fac [OF this, of subjectFactors] obtain s1
    where s1: "reset_factors demo_limiter ''t'' ''u'' subjectFactors [] demo_throttle_db = ([], s1)" "healthy s1"
    by blast
  then have "\<exists>n s'. op_reset_subject sqlite_throttle ''t'' ''u'' s1 = (Inr n, s')"
    by (simp add: sqlite_throttle_def ResetSubjectThrottles_def tx_simps healthy_def delete_buckets_def)
  with s1 obtain s' where run: "ResetSubject demo_limiter ''t'' ''u'' demo_throttle_db = ([], s')"
    by (auto simp: ResetSubject_def reset_errors_def)
  from throttle_unlock [OF _ demo_throttle_inv run] demo_view(1) run show ?thesis
    by (auto simp: demo_bucket_def)
qed

text \<open>
  Addresses are reduced to one canonical bucket value. \<^verbatim>\<open>NormaliseIP\<close> is idempotent, and
  its result is always the fixed unknown bucket, a dotted IPv4 address, or the /64 network
  of an IPv6 address in canonical text, for every input string whatever.
\<close>

theorem normalise_ip_canonical:
  "NormaliseIP (NormaliseIP raw) = NormaliseIP raw \<and>
   (NormaliseIP raw = unknownIP
    \<or> (\<exists>v. length v = 4 \<and> ParseIP (NormaliseIP raw) = Some (v4_in_v6 @ v) \<and> NormaliseIP raw = v4_string v)
    \<or> (\<exists>m. length m = 16 \<and> drop 8 m = replicate 8 0 \<and> ParseCIDR (NormaliseIP raw) = Some m
         \<and> NormaliseIP raw = v6_string m @ ''/64''))"
proof -
  consider (unknown) "NormaliseIP raw = unknownIP"
    | (v4) v where "length v = 4" "NormaliseIP raw = v4_string v"
    | (v6) m where "masked64 m" "NormaliseIP raw = v6_string m @ ''/64''"
    using NormaliseIP_shape [of raw] by blast
  then show ?thesis
  proof cases
    case unknown
    then show ?thesis by (simp add: NormaliseIP_unknown)
  next
    case v4
    then show ?thesis by (auto simp: ParseIP_v4 NormaliseIP_v4)
  next
    case v6
    then show ?thesis
      using NormaliseIP_idem [of raw] ParseCIDR_v6 [OF v6(1)] by (auto simp: masked64_def)
  qed
qed

end
