(* ===== verification/Go_Json.thy ===== *)
theory Go_Json
  imports Go_Net
begin

text \<open>
  Go's \<^verbatim>\<open>encoding/json\<close>, the part the program uses on documents it did not write itself:
  decoding a text into a struct of named fields. A document is parsed by the JSON grammar
  (with the package's limit of 10000 nested containers); a key selects a field by its exact
  name or, failing that, by Unicode case folding; a value of the wrong type is an error that
  is reported at the end. A string that is not valid UTF-8 is left as it is rather than
  repaired with U+FFFD: no comparison the program makes with a decoded string tells the two
  apart, since it compares with ASCII texts only.
\<close>

subsection \<open>Documents\<close>

datatype json =
    JNull
  | JBool bool
  | JNum string
  | JStr string
  | JArr "json list"
  | JObj "(string \<times> json) list"

definition json_space :: "char \<Rightarrow> bool" where
  "json_space c \<longleftrightarrow> (of_char c :: nat) \<in> {32, 9, 10, 13}"

definition skip_ws :: "string \<Rightarrow> string" where
  "skip_ws s = dropWhile json_space s"

definition is_digit :: "char \<Rightarrow> bool" where
  "is_digit c \<longleftrightarrow> dec_value c \<noteq> None"

definition utf8 :: "nat \<Rightarrow> string" where
  "utf8 n = map char_of
     (if n < 0x80 then [n]
      else if n < 0x800 then [0xC0 + n div 64, 0x80 + n mod 64]
      else if n < 0x10000 then [0xE0 + n div 4096, 0x80 + n div 64 mod 64, 0x80 + n mod 64]
      else [0xF0 + n div 262144, 0x80 + n div 4096 mod 64, 0x80 + n div 64 mod 64, 0x80 + n mod 64])"

text \<open>Four hexadecimal digits after \<^verbatim>\<open>\u\<close>.\<close>

fun hex4 :: "string \<Rightarrow> (nat \<times> string) option" where
  "hex4 (a # b # c # d # rest) =
     (case (hex_value a, hex_value b, hex_value c, hex_value d) of
        (Some p, Some q, Some r, Some t) \<Rightarrow> Some (((p * 16 + q) * 16 + r) * 16 + t, rest)
      | _ \<Rightarrow> None)"
| "hex4 _ = None"

fun starts_u :: "string \<Rightarrow> bool" where
  "starts_u (a # b # _) = (a = char_of (92 :: nat) \<and> b = CHR ''u'')"
| "starts_u _ = False"

text \<open>
  \<^verbatim>\<open>\u\<close> escapes: a low surrogate that follows a high one completes a character, any other
  surrogate is U+FFFD.
\<close>

definition escape_u :: "string \<Rightarrow> (string \<times> string) option" where
  "escape_u s =
     (case hex4 s of
        None \<Rightarrow> None
      | Some (hi, rest) \<Rightarrow>
          if 0xD800 \<le> hi \<and> hi < 0xDC00 then
            (case (if starts_u rest then hex4 (drop 2 rest) else None) of
               Some (lo, rest') \<Rightarrow>
                 if 0xDC00 \<le> lo \<and> lo < 0xE000
                 then Some (utf8 (0x10000 + (hi - 0xD800) * 1024 + (lo - 0xDC00)), rest')
                 else Some (utf8 0xFFFD, rest)
             | None \<Rightarrow> Some (utf8 0xFFFD, rest))
          else if 0xDC00 \<le> hi \<and> hi < 0xE000 then Some (utf8 0xFFFD, rest)
          else Some (utf8 hi, rest))"

definition simple_escape :: "char \<Rightarrow> char option" where
  "simple_escape c =
     (let n = (of_char c :: nat) in
      if n \<in> {34, 92, 47} then Some c
      else if c = CHR ''b'' then Some (char_of (8 :: nat))
      else if c = CHR ''f'' then Some (char_of (12 :: nat))
      else if c = CHR ''n'' then Some (char_of (10 :: nat))
      else if c = CHR ''r'' then Some (char_of (13 :: nat))
      else if c = CHR ''t'' then Some (char_of (9 :: nat))
      else None)"

text \<open>
  The parsers take a bound on their steps, the length of the text being enough; a string
  body runs to the closing quote, and an unescaped control character is an error.
\<close>

fun parse_string :: "nat \<Rightarrow> string \<Rightarrow> string \<Rightarrow> (string \<times> string) option" where
  "parse_string 0 s acc = None"
| "parse_string (Suc k) [] acc = None"
| "parse_string (Suc k) (c # cs) acc =
     (if c = char_of (34 :: nat) then Some (acc, cs)
      else if (of_char c :: nat) < 32 then None
      else if c = char_of (92 :: nat) then
        (case cs of
           [] \<Rightarrow> None
         | e # ds \<Rightarrow>
             if e = CHR ''u'' then
               (case escape_u ds of
                  None \<Rightarrow> None
                | Some (t, rest) \<Rightarrow> parse_string k rest (acc @ t))
             else
               (case simple_escape e of
                  None \<Rightarrow> None
                | Some d \<Rightarrow> parse_string k ds (acc @ [d])))
      else parse_string k cs (acc @ [c]))"

definition take_digits :: "string \<Rightarrow> string \<times> string" where
  "take_digits s = (takeWhile is_digit s, dropWhile is_digit s)"

text \<open>A number literal: sign, integer part without leading zeros, fraction, exponent.\<close>

definition parse_fraction :: "string \<times> string \<Rightarrow> (string \<times> string) option" where
  "parse_fraction p = (case p of (lit, s) \<Rightarrow>
     if s \<noteq> [] \<and> hd s = CHR ''.'' then
       (case take_digits (tl s) of (ds, rest) \<Rightarrow>
          if ds = [] then None else Some (lit @ CHR ''.'' # ds, rest))
     else Some (lit, s))"

definition parse_exponent :: "string \<times> string \<Rightarrow> (string \<times> string) option" where
  "parse_exponent p = (case p of (lit, s) \<Rightarrow>
     if s \<noteq> [] \<and> (hd s = CHR ''e'' \<or> hd s = CHR ''E'') then
       (let (sgn, t) = (if tl s \<noteq> [] \<and> (hd (tl s) = CHR ''+'' \<or> hd (tl s) = CHR ''-'')
                        then ([hd (tl s)], tl (tl s)) else ([], tl s)) in
        case take_digits t of (ds, rest) \<Rightarrow>
          if ds = [] then None else Some (lit @ hd s # sgn @ ds, rest))
     else Some (lit, s))"

definition parse_number :: "string \<Rightarrow> (string \<times> string) option" where
  "parse_number s =
     (let (sgn, t) = (if s \<noteq> [] \<and> hd s = CHR ''-'' then ([CHR ''-''], tl s) else ([], s)) in
      case take_digits t of (ds, rest) \<Rightarrow>
        if ds = [] then None
        else if hd ds = CHR ''0'' \<and> tl ds \<noteq> []
        then Some (sgn @ [CHR ''0''], tl ds @ rest)
        else Option.bind (parse_fraction (sgn @ ds, rest)) parse_exponent)"

definition max_depth :: nat where
  "max_depth = 10000"

fun parse_value :: "nat \<Rightarrow> nat \<Rightarrow> string \<Rightarrow> (json \<times> string) option"
  and parse_elements :: "nat \<Rightarrow> nat \<Rightarrow> string \<Rightarrow> json list \<Rightarrow> (json \<times> string) option"
  and parse_members :: "nat \<Rightarrow> nat \<Rightarrow> string \<Rightarrow> (string \<times> json) list \<Rightarrow> (json \<times> string) option"
where
  "parse_value 0 d s = None"
| "parse_value (Suc k) d s =
     (case skip_ws s of
        [] \<Rightarrow> None
      | c # cs \<Rightarrow>
          if c = CHR ''{'' then
            (if d \<ge> max_depth then None
             else if skip_ws cs \<noteq> [] \<and> hd (skip_ws cs) = CHR ''}'' then Some (JObj [], tl (skip_ws cs))
             else parse_members k (Suc d) cs [])
          else if c = CHR ''['' then
            (if d \<ge> max_depth then None
             else if skip_ws cs \<noteq> [] \<and> hd (skip_ws cs) = CHR '']'' then Some (JArr [], tl (skip_ws cs))
             else parse_elements k (Suc d) cs [])
          else if c = char_of (34 :: nat) then
            map_option (\<lambda>(t, rest). (JStr t, rest)) (parse_string (Suc k) cs [])
          else if prefix ''true'' (c # cs) then Some (JBool True, drop 4 (c # cs))
          else if prefix ''false'' (c # cs) then Some (JBool False, drop 5 (c # cs))
          else if prefix ''null'' (c # cs) then Some (JNull, drop 4 (c # cs))
          else map_option (\<lambda>(t, rest). (JNum t, rest)) (parse_number (c # cs)))"
| "parse_elements 0 d s vs = None"
| "parse_elements (Suc k) d s vs =
     (case parse_value k d s of
        None \<Rightarrow> None
      | Some (v, rest) \<Rightarrow>
          (case skip_ws rest of
             [] \<Rightarrow> None
           | c # cs \<Rightarrow>
               if c = CHR '','' then parse_elements k d cs (vs @ [v])
               else if c = CHR '']'' then Some (JArr (vs @ [v]), cs)
               else None))"
| "parse_members 0 d s ms = None"
| "parse_members (Suc k) d s ms =
     (case skip_ws s of
        [] \<Rightarrow> None
      | q # t \<Rightarrow>
          if q \<noteq> char_of (34 :: nat) then None
          else
            (case parse_string (Suc k) t [] of
               None \<Rightarrow> None
             | Some (key, rest) \<Rightarrow>
                 (case skip_ws rest of
                    [] \<Rightarrow> None
                  | c # cs \<Rightarrow>
                      if c \<noteq> CHR '':'' then None
                      else
                        (case parse_value k d cs of
                           None \<Rightarrow> None
                         | Some (v, rest') \<Rightarrow>
                             (case skip_ws rest' of
                                [] \<Rightarrow> None
                              | e # es \<Rightarrow>
                                  if e = CHR '','' then parse_members k d es (ms @ [(key, v)])
                                  else if e = CHR ''}'' then Some (JObj (ms @ [(key, v)]), es)
                                  else None)))))"

text \<open>The whole text is one value. Every step of the parsers consumes input or descends.\<close>

definition parse_json :: "string \<Rightarrow> json option" where
  "parse_json s =
     (case parse_value (3 * length s + 3) 0 s of
        None \<Rightarrow> None
      | Some (v, rest) \<Rightarrow> if skip_ws rest = [] then Some v else None)"

subsection \<open>Decoding into a struct\<close>

text \<open>
  Case folding of keys: ASCII letters, and the two characters outside ASCII whose simple
  folding orbit reaches it, U+017F (long s) and U+212A (the Kelvin sign).
\<close>

definition ascii_lower :: "char \<Rightarrow> char" where
  "ascii_lower c = (let n = (of_char c :: nat) in if 65 \<le> n \<and> n \<le> 90 then char_of (n + 32) else c)"

fun fold_key :: "string \<Rightarrow> string" where
  "fold_key [] = []"
| "fold_key (c # cs) =
     (if prefix (map char_of [0xC5 :: nat, 0xBF]) (c # cs) then CHR ''s'' # fold_key (drop 1 cs)
      else if prefix (map char_of [0xE2 :: nat, 0x84, 0xAA]) (c # cs) then CHR ''k'' # fold_key (drop 2 cs)
      else ascii_lower c # fold_key cs)"

definition key_is :: "string \<Rightarrow> string \<Rightarrow> bool" where
  "key_is name key \<longleftrightarrow> key = name \<or> fold_key key = fold_key name"

text \<open>\<^verbatim>\<open>strconv.ParseInt\<close> on a number literal, into 64 bits.\<close>

fun dec_digits :: "string \<Rightarrow> int \<Rightarrow> int option" where
  "dec_digits [] n = Some n"
| "dec_digits (c # cs) n =
     (case dec_value c of None \<Rightarrow> None | Some d \<Rightarrow> dec_digits cs (n * 10 + int d))"

definition parse_int64 :: "string \<Rightarrow> int option" where
  "parse_int64 s =
     (let (neg, ds) = (if s \<noteq> [] \<and> hd s = CHR ''-'' then (True, tl s) else (False, s)) in
      if ds = [] then None
      else case dec_digits ds 0 of
        None \<Rightarrow> None
      | Some n \<Rightarrow>
          let v = (if neg then - n else n) in
          if v < min_int64 \<or> v > max_int64 then None else Some v)"

text \<open>A string field, an integer field: the new value of the field and whether there was an error.\<close>

fun into_string :: "json \<Rightarrow> string \<Rightarrow> string \<times> bool" where
  "into_string (JStr t) old = (t, False)"
| "into_string JNull old = (old, False)"
| "into_string _ old = (old, True)"

fun into_int64 :: "json \<Rightarrow> int \<Rightarrow> int \<times> bool" where
  "into_int64 (JNum t) old = (case parse_int64 t of Some n \<Rightarrow> (n, False) | None \<Rightarrow> (old, True))"
| "into_int64 JNull old = (old, False)"
| "into_int64 _ old = (old, True)"

subsection \<open>Reading back what the program writes\<close>

text \<open>Characters a JSON string holds unescaped.\<close>

definition plain :: "char \<Rightarrow> bool" where
  "plain c \<longleftrightarrow> 32 \<le> (of_char c :: nat) \<and> (of_char c :: nat) \<noteq> 34 \<and> (of_char c :: nat) \<noteq> 92"

definition dquote :: char where
  "dquote = char_of (34 :: nat)"

lemma plain_iff: "plain c \<longleftrightarrow> \<not> (of_char c :: nat) < 32 \<and> c \<noteq> char_of (34 :: nat) \<and> c \<noteq> char_of (92 :: nat)"
proof -
  have "c = char_of n \<longleftrightarrow> (of_char c :: nat) = n" if "n < 256" for n :: nat
    using that char_of_eq_iff [of n c] by (auto simp: take_bit_eq_mod)
  then show ?thesis by (auto simp: plain_def)
qed

lemma parse_string_plain:
  "\<forall>c \<in> set t. plain c \<Longrightarrow> length t < k \<Longrightarrow>
     parse_string k (t @ dquote # rest) acc = Some (acc @ t, rest)"
proof (induction t arbitrary: k acc)
  case Nil
  then show ?case by (cases k) (simp_all add: dquote_def)
next
  case (Cons c t)
  then obtain k' where "k = Suc k'" by (cases k) auto
  with Cons show ?case by (simp add: plain_iff)
qed

lemma skip_ws_id: "s = [] \<or> \<not> json_space (hd s) \<Longrightarrow> skip_ws s = s"
  by (cases s) (auto simp: skip_ws_def)

lemma json_space_simps [simp]:
  "\<not> json_space dquote" "\<not> json_space (CHR '':'')" "\<not> json_space (CHR '','')"
  "\<not> json_space (CHR ''{'')" "\<not> json_space (CHR ''}'')"
  by (simp_all add: json_space_def dquote_def)

lemma dquote_neq [simp]:
  "dquote \<noteq> CHR ''{''" "dquote \<noteq> CHR ''[''" "dquote \<noteq> CHR ''}''" "dquote \<noteq> CHR ''-''"
  by (simp_all add: dquote_def char_of_eq_iff)

lemma members_string:
  assumes "\<forall>c \<in> set key. plain c" and "\<forall>c \<in> set t. plain c" and "length key < k" and "length t < k"
    and "e \<in> {CHR '','', CHR ''}''}"
  shows "parse_members (Suc k) d (dquote # key @ dquote # CHR '':'' # dquote # t @ dquote # e # es) ms =
     (if e = CHR '','' then parse_members k d es (ms @ [(key, JStr t)])
      else Some (JObj (ms @ [(key, JStr t)]), es))"
proof -
  obtain k' where k: "k = Suc k'" using assms(3) by (cases k) auto
  have "parse_value k d (dquote # t @ dquote # e # es) = Some (JStr t, e # es)"
    using assms(2,4) parse_string_plain [of t k "e # es" "[]"]
    by (simp add: k skip_ws_id dquote_def [symmetric])
  moreover have "parse_string (Suc k) (key @ dquote # CHR '':'' # dquote # t @ dquote # e # es) []
      = Some (key, CHR '':'' # dquote # t @ dquote # e # es)"
    using assms(1,3) parse_string_plain [of key "Suc k" "CHR '':'' # dquote # t @ dquote # e # es" "[]"]
    by simp
  moreover have "\<not> json_space e" using assms(5) by auto
  ultimately show ?thesis
    using assms(5) by (auto simp: skip_ws_id dquote_def [symmetric])
qed

lemma take_digits_append:
  "\<forall>c \<in> set ds. is_digit c \<Longrightarrow> \<not> is_digit e \<Longrightarrow> take_digits (ds @ e # es) = (ds, e # es)"
  by (simp add: take_digits_def takeWhile_append dropWhile_append)

lemma decimal_value: "n < 10 \<Longrightarrow> dec_value (decimal_digit n) = Some n"
proof -
  assume "n < 10"
  then have "n \<in> set [0..<10]" by simp
  moreover have "\<forall>n \<in> set [0..<10]. dec_value (decimal_digit n) = Some n" by code_simp
  ultimately show ?thesis by blast
qed

lemma decimal_is_digit: "c \<in> set (decimal n) \<Longrightarrow> is_digit c"
proof (induction n rule: decimal.induct)
  case (1 n)
  then show ?case
    by (cases "n < 10") (auto simp: decimal.simps [of n] is_digit_def decimal_value)
qed

lemma decimal_nonempty [simp]: "decimal n \<noteq> []"
  by (cases "n < 10") (simp_all add: decimal.simps [of n])

lemma decimal_no_leading_zero: "hd (decimal n) = CHR ''0'' \<Longrightarrow> tl (decimal n) = []"
proof (induction n rule: decimal.induct)
  case (1 n)
  show ?case
  proof (cases "n < 10")
    case True
    then show ?thesis by (simp add: decimal.simps [of n])
  next
    case False
    have zero: "hd (decimal m) = CHR ''0'' \<Longrightarrow> m = 0" for m
    proof (induction m rule: decimal.induct)
      case (1 m)
      show ?case
      proof (cases "m < 10")
        case True
        then have "m \<in> set [0..<10]" by simp
        moreover have "\<forall>m \<in> set [0..<10]. decimal_digit m = CHR ''0'' \<longrightarrow> m = 0" by code_simp
        ultimately show ?thesis using "1.prems" True by (auto simp: decimal.simps [of m])
      next
        case False
        with 1 have "m div 10 = 0" by (simp add: decimal.simps [of m])
        with False show ?thesis by simp
      qed
    qed
    from False "1.prems" have "hd (decimal (n div 10)) = CHR ''0''" by (simp add: decimal.simps [of n])
    with zero have "n div 10 = 0" by blast
    with False show ?thesis by simp
  qed
qed

lemma dec_digits_append: "dec_digits (s @ [c]) n =
    (case dec_digits s n of None \<Rightarrow> None | Some m \<Rightarrow> map_option (\<lambda>d. m * 10 + int d) (dec_value c))"
  by (induction s arbitrary: n) (auto split: option.split)

lemma dec_digits_decimal: "dec_digits (decimal n) 0 = Some (int n)"
proof (induction n rule: decimal.induct)
  case (1 n)
  show ?case
  proof (cases "n < 10")
    case True
    then show ?thesis by (simp add: decimal.simps [of n] decimal_value)
  next
    case False
    with 1 have "dec_digits (decimal (n div 10)) 0 = Some (int (n div 10))" by simp
    moreover have "int (n div 10) * 10 + int (n mod 10) = int n"
      by (metis div_mult_mod_eq of_nat_add of_nat_mult of_nat_numeral)
    ultimately show ?thesis
      using False by (simp add: decimal.simps [of n] dec_digits_append decimal_value)
  qed
qed

lemma minus_not_digit: "\<not> is_digit (CHR ''-'')" "\<not> is_digit (CHR '','')" "\<not> is_digit (CHR ''}'')"
  by (simp_all add: is_digit_def dec_value_def)

lemma decimal_hd_not_minus: "hd (decimal n) \<noteq> CHR ''-''"
  using decimal_is_digit [of "hd (decimal n)" n] minus_not_digit by auto

lemma parse_int64_decimal:
  assumes "min_int64 \<le> n" and "n \<le> max_int64"
  shows "parse_int64 (decimal_int n) = Some n"
proof (cases "n < 0")
  case True
  with assms show ?thesis
    by (simp add: parse_int64_def decimal_int_def dec_digits_decimal)
next
  case False
  with assms show ?thesis
    using decimal_hd_not_minus [of "nat n"]
    by (simp add: parse_int64_def decimal_int_def dec_digits_decimal)
qed

lemma parse_number_decimal:
  assumes "e \<in> {CHR '','', CHR ''}''}"
  shows "parse_number (decimal_int n @ e # es) = Some (decimal_int n, e # es)"
proof -
  have e: "\<not> is_digit e" "e \<noteq> CHR ''.''" "e \<noteq> CHR ''e''" "e \<noteq> CHR ''E''"
    using assms minus_not_digit by auto
  have td: "take_digits (decimal m @ e # es) = (decimal m, e # es)" for m
    using take_digits_append [of "decimal m" e es] decimal_is_digit e(1) by blast
  have nz: "\<not> (hd (decimal m) = CHR ''0'' \<and> tl (decimal m) \<noteq> [])" for m
    using decimal_no_leading_zero by blast
  show ?thesis
  proof (cases "n < 0")
    case True
    then show ?thesis
      using e nz [of "nat (- n)"] td [of "nat (- n)"]
      by (auto simp: parse_number_def decimal_int_def parse_fraction_def parse_exponent_def)
  next
    case False
    then show ?thesis
      using e nz [of "nat n"] td [of "nat n"] decimal_hd_not_minus [of "nat n"]
      by (auto simp: parse_number_def decimal_int_def parse_fraction_def parse_exponent_def)
  qed
qed

lemma decimal_int_hd: "\<exists>c cs. decimal_int n = c # cs \<and> (is_digit c \<or> c = CHR ''-'')"
proof (cases "n < 0")
  case False
  then show ?thesis
    using decimal_is_digit [of "hd (decimal (nat n))" "nat n"]
    by (cases "decimal (nat n)") (auto simp: decimal_int_def)
qed (simp add: decimal_int_def)

lemma number_start:
  assumes "is_digit c \<or> c = CHR ''-''"
  shows "\<not> json_space c" "c \<noteq> CHR ''{''" "c \<noteq> CHR ''[''" "c \<noteq> dquote" "c \<noteq> CHR ''t''"
    "c \<noteq> CHR ''f''" "c \<noteq> CHR ''n''"
proof -
  have "(of_char dquote :: nat) = 34" by (simp add: dquote_def)
  then have "\<not> is_digit dquote" "dquote \<noteq> CHR ''-''" by (auto simp: is_digit_def dec_value_def)
  with assms show "\<not> json_space c" "c \<noteq> CHR ''{''" "c \<noteq> CHR ''[''" "c \<noteq> dquote" "c \<noteq> CHR ''t''"
    "c \<noteq> CHR ''f''" "c \<noteq> CHR ''n''"
    by (auto simp: is_digit_def dec_value_def json_space_def Let_def dest: sym [of "CHR ''-''"] split: if_splits)
qed

lemma members_number:
  assumes "\<forall>c \<in> set key. plain c" and "length key < k" and "e \<in> {CHR '','', CHR ''}''}"
  shows "parse_members (Suc k) d (dquote # key @ dquote # CHR '':'' # decimal_int n @ e # es) ms =
     (if e = CHR '','' then parse_members k d es (ms @ [(key, JNum (decimal_int n))])
      else Some (JObj (ms @ [(key, JNum (decimal_int n))]), es))"
proof -
  obtain k' where k: "k = Suc k'" using assms(2) by (cases k) auto
  obtain c cs where c: "decimal_int n = c # cs" "is_digit c \<or> c = CHR ''-''"
    using decimal_int_hd by blast
  note ns = number_start [OF c(2)]
  have "parse_value k d (decimal_int n @ e # es) = Some (JNum (decimal_int n), e # es)"
    using parse_number_decimal [OF assms(3), of n es] ns
    by (simp add: k c(1) skip_ws_id dquote_def [symmetric])
  moreover have "parse_string (Suc k) (key @ dquote # CHR '':'' # decimal_int n @ e # es) []
      = Some (key, CHR '':'' # decimal_int n @ e # es)"
    using assms(1,2) parse_string_plain [of key "Suc k" "CHR '':'' # decimal_int n @ e # es" "[]"]
    by simp
  moreover have "\<not> json_space e" using assms(3) by auto
  ultimately show ?thesis
    using assms(3) by (auto simp: skip_ws_id dquote_def [symmetric])
qed

lemma members_string_comma:
  "\<forall>c \<in> set key. plain c \<Longrightarrow> \<forall>c \<in> set t. plain c \<Longrightarrow> length key < k \<Longrightarrow> length t < k \<Longrightarrow>
   parse_members (Suc k) d (dquote # key @ dquote # CHR '':'' # dquote # t @ dquote # CHR '','' # es) ms =
     parse_members k d es (ms @ [(key, JStr t)])"
  by (subst members_string) (assumption+, simp, simp)

lemma members_number_comma:
  "\<forall>c \<in> set key. plain c \<Longrightarrow> length key < k \<Longrightarrow>
   parse_members (Suc k) d (dquote # key @ dquote # CHR '':'' # decimal_int n @ CHR '','' # es) ms =
     parse_members k d es (ms @ [(key, JNum (decimal_int n))])"
  by (subst members_number) (assumption+, simp, simp)

lemma members_number_end:
  "\<forall>c \<in> set key. plain c \<Longrightarrow> length key < k \<Longrightarrow>
   parse_members (Suc k) d (dquote # key @ dquote # CHR '':'' # decimal_int n @ CHR ''}'' # es) ms =
     Some (JObj (ms @ [(key, JNum (decimal_int n))]), es)"
  by (subst members_number) (assumption+, simp, simp)

end
