(* ===== verification/Audit_Chain.thy ===== *)
theory Audit_Chain
  imports Sqlite_Base Go_Json
begin

unbundle bit_operations_syntax

text \<open>
  \<^verbatim>\<open>internal/audit/chain.go\<close> and \<^verbatim>\<open>checkpoint.go\<close>: the hash chain of the audit log, the
  salted commitment to the personal fields, verification, erasure, and the marker of a
  retention trim. The hash is the argument \<open>h\<close> (\<^verbatim>\<open>sha256.Sum256\<close>); the results hold for any
  function, and where they rest on collision resistance they name the two messages that
  would have to collide.
\<close>

subsection \<open>Hashes\<close>

definition HashSize :: nat where "HashSize = 32"

definition SaltSize :: nat where "SaltSize = 16"

definition chainDomain :: string where "chainDomain = ''n0passtemps/audit-chain/v1''"

definition piiDomain :: string where "piiDomain = ''n0passtemps/audit-pii/v1''"

definition genesis_message :: bytes where
  "genesis_message = bytes_of (chainDomain @ ''/genesis'')"

definition Genesis :: "(bytes \<Rightarrow> bytes) \<Rightarrow> bytes" where
  "Genesis h = h genesis_message"

text \<open>What \<^verbatim>\<open>PIIDigest\<close> and \<^verbatim>\<open>ComputeHash\<close> write into the hash.\<close>

definition pii_message :: "audit_entry \<Rightarrow> bytes" where
  "pii_message e =
     writeField (bytes_of piiDomain) @ writeField (ae_salt e) @ writeField (bytes_of (ae_subject e)) @
     writeField (bytes_of (ae_ip e)) @ writeField (ae_detail e)"

definition PIIDigest :: "(bytes \<Rightarrow> bytes) \<Rightarrow> audit_entry \<Rightarrow> bytes" where
  "PIIDigest h e = h (pii_message e)"

definition writeUint64 :: "64 word \<Rightarrow> bytes" where
  "writeUint64 v = be64 v"

definition chain_message :: "audit_entry \<Rightarrow> bytes \<Rightarrow> bytes" where
  "chain_message e prevHash =
     writeField (bytes_of chainDomain) @ writeField prevHash @
     writeUint64 (word_of_int (ae_seq e)) @ writeField (bytes_of (ae_tenant e)) @
     writeUint64 (word_of_int (ae_time e)) @ writeField (bytes_of (ae_event e)) @
     writeField (bytes_of (ae_actor_type e)) @ writeField (bytes_of (ae_actor e)) @
     writeField (bytes_of (ae_rtype e)) @ writeField (bytes_of (ae_rid e)) @
     writeField (bytes_of (ae_outcome e)) @ writeField (bytes_of (ae_request e)) @
     writeField (ae_pii e)"

definition ComputeHash :: "(bytes \<Rightarrow> bytes) \<Rightarrow> audit_entry \<Rightarrow> bytes \<Rightarrow> bytes" where
  "ComputeHash h e prevHash = h (chain_message e prevHash)"

text \<open>\<^verbatim>\<open>equal\<close>, with its accumulated difference.\<close>

definition equal_bytes :: "bytes \<Rightarrow> bytes \<Rightarrow> bool" where
  "equal_bytes a b =
     (if length a \<noteq> length b then False
      else fold (\<lambda>(x, y) diff. diff OR (x XOR y)) (zip a b) 0 = 0)"

subsection \<open>Appending\<close>

text \<open>\<^verbatim>\<open>Truncate(time.Microsecond)\<close>: instants are counted from an epoch that is a whole microsecond.\<close>

definition truncate_micro :: "instant \<Rightarrow> instant" where
  "truncate_micro t = t - t mod 1000"

definition NewSalt :: "('t, bytes) proc" where
  "NewSalt = rand_read SaltSize"

text \<open>
  \<^verbatim>\<open>Prepare\<close>: the salt is drawn when the entry has none. The Go test is for a nil slice; no
  caller passes an empty slice that is not nil.
\<close>

definition seal_entry :: "(bytes \<Rightarrow> bytes) \<Rightarrow> audit_entry \<Rightarrow> int \<Rightarrow> bytes \<Rightarrow> audit_entry" where
  "seal_entry h e seq prevHash =
     (let e = e\<lparr>ae_seq := seq, ae_prev := prevHash\<rparr>;
          e = e\<lparr>ae_pii := PIIDigest h e\<rparr> in
      e\<lparr>ae_hash := ComputeHash h e prevHash\<rparr>)"

definition Prepare :: "(bytes \<Rightarrow> bytes) \<Rightarrow> audit_entry \<Rightarrow> int \<Rightarrow> bytes \<Rightarrow> ('t, audit_entry) proc" where
  "Prepare h e seq prevHash =
     (let e = e\<lparr>ae_time := truncate_micro (ae_time e)\<rparr> in
      if ae_salt e = []
      then bindp NewSalt (\<lambda>salt. ret (seal_entry h (e\<lparr>ae_salt := salt\<rparr>) seq prevHash))
      else ret (seal_entry h e seq prevHash))"

subsection \<open>Verification\<close>

definition erasedDetail :: "bytes \<Rightarrow> bool" where
  "erasedDetail detail \<longleftrightarrow> detail = [] \<or> detail = bytes_of ''{}''"

definition personalFieldsVerify :: "(bytes \<Rightarrow> bytes) \<Rightarrow> audit_entry \<Rightarrow> bool" where
  "personalFieldsVerify h e =
     (if length (ae_salt e) = SaltSize then equal_bytes (PIIDigest h e) (ae_pii e)
      else if length (ae_salt e) = 0
      then ae_subject e = [] \<and> ae_ip e = [] \<and> erasedDetail (ae_detail e)
      else False)"

definition VerifyEntry :: "(bytes \<Rightarrow> bytes) \<Rightarrow> audit_entry \<Rightarrow> bytes \<Rightarrow> bool" where
  "VerifyEntry h e prevHash =
     (if length (ae_hash e) \<noteq> HashSize \<or> length (ae_prev e) \<noteq> HashSize \<or> length (ae_pii e) \<noteq> HashSize
      then False
      else if \<not> equal_bytes (ae_prev e) prevHash then False
      else if \<not> personalFieldsVerify h e then False
      else equal_bytes (ComputeHash h e prevHash) (ae_hash e))"

fun VerifySequence :: "(bytes \<Rightarrow> bytes) \<Rightarrow> audit_entry list \<Rightarrow> bytes \<Rightarrow> int" where
  "VerifySequence h [] cur = 0"
| "VerifySequence h (e # es) cur =
     (if \<not> VerifyEntry h e cur then ae_seq e else VerifySequence h es (ae_hash e))"

subsection \<open>Erasure\<close>

definition Erase :: "audit_entry \<Rightarrow> audit_entry" where
  "Erase e = e\<lparr>ae_subject := [], ae_ip := [], ae_detail := [], ae_salt := []\<rparr>"

definition Erased :: "audit_entry \<Rightarrow> bool" where
  "Erased e \<longleftrightarrow> length (ae_salt e) = 0"

subsection \<open>The marker of a retention trim\<close>

definition PruneAction :: string where
  "PruneAction = ''retention_prune''"

definition quoted :: "string \<Rightarrow> string" where
  "quoted s = char_of (34 :: nat) # s @ [char_of (34 :: nat)]"

text \<open>
  \<^verbatim>\<open>PruneMarkerDetail\<close>. The two strings it quotes with \<^verbatim>\<open>%q\<close> are printable ASCII without
  quotes or backslashes, so quoting adds the quotes only.
\<close>

definition prune_marker_text :: "int \<Rightarrow> bytes \<Rightarrow> int \<Rightarrow> string" where
  "prune_marker_text throughSeq throughHash entries =
     CHR ''{'' # quoted ''action'' @ CHR '':'' # quoted PruneAction @
     CHR '','' # quoted ''pruned_through_seq'' @ CHR '':'' # decimal_int throughSeq @
     CHR '','' # quoted ''pruned_through_hash'' @ CHR '':'' # quoted (hex_encode throughHash) @
     CHR '','' # quoted ''entries'' @ CHR '':'' # decimal_int entries @ [CHR ''}'']"

definition PruneMarkerDetail :: "int \<Rightarrow> bytes \<Rightarrow> int \<Rightarrow> bytes" where
  "PruneMarkerDetail throughSeq throughHash entries =
     bytes_of (prune_marker_text throughSeq throughHash entries)"

text \<open>The decoded marker, and \<^verbatim>\<open>json.Unmarshal\<close> into it.\<close>

record marker =
  mk_action :: string
  mk_seq :: int
  mk_hash :: string

definition marker_member :: "string \<times> json \<Rightarrow> marker \<times> bool \<Rightarrow> marker \<times> bool" where
  "marker_member kv acc = (case (kv, acc) of ((key, v), (m, bad)) \<Rightarrow>
     if key_is ''action'' key
     then (case into_string v (mk_action m) of (x, b) \<Rightarrow> (m\<lparr>mk_action := x\<rparr>, bad \<or> b))
     else if key_is ''pruned_through_seq'' key
     then (case into_int64 v (mk_seq m) of (x, b) \<Rightarrow> (m\<lparr>mk_seq := x\<rparr>, bad \<or> b))
     else if key_is ''pruned_through_hash'' key
     then (case into_string v (mk_hash m) of (x, b) \<Rightarrow> (m\<lparr>mk_hash := x\<rparr>, bad \<or> b))
     else (m, bad))"

definition zero_marker :: marker where
  "zero_marker = \<lparr>mk_action = [], mk_seq = 0, mk_hash = []\<rparr>"

definition unmarshal_marker :: "string \<Rightarrow> marker option" where
  "unmarshal_marker s =
     (case parse_json s of
        Some (JObj ms) \<Rightarrow>
          (case fold marker_member ms (zero_marker, False) of (m, bad) \<Rightarrow> if bad then None else Some m)
      | Some JNull \<Rightarrow> Some zero_marker
      | _ \<Rightarrow> None)"

definition text_of :: "bytes \<Rightarrow> string" where
  "text_of b = map (\<lambda>x. char_of (unat x)) b"

text \<open>
  \<^verbatim>\<open>MarkerAttestsCheckpoint\<close>. The second argument of its \<^verbatim>\<open>strings.EqualFold\<close> holds digits and
  the letters a to f, on which case folding is the ASCII one.
\<close>

definition MarkerAttestsCheckpoint :: "bytes \<Rightarrow> int \<Rightarrow> bytes \<Rightarrow> bool" where
  "MarkerAttestsCheckpoint detail throughSeq throughHash =
     (if length throughHash \<noteq> HashSize then False
      else case unmarshal_marker (text_of detail) of
        None \<Rightarrow> False
      | Some m \<Rightarrow> mk_action m = PruneAction \<and> mk_seq m = throughSeq
          \<and> map ascii_lower (mk_hash m) = map ascii_lower (hex_encode throughHash))"

subsection \<open>Verification, put plainly\<close>

lemma fold_diff_zero:
  "length a = length b \<Longrightarrow>
     fold (\<lambda>(x, y) diff. diff OR (x XOR y)) (zip a b) d = 0 \<longleftrightarrow> d = (0 :: byte) \<and> a = b"
proof (induction a b arbitrary: d rule: list_induct2)
  case (Cons x xs y ys)
  have "(d OR (x XOR y)) = 0 \<longleftrightarrow> d = 0 \<and> x = y"
    by (metis or.left_neutral or_eq_0_iff xor_self_eq bit.xor_left_self xor.right_neutral)
  with Cons show ?case by auto
qed simp

lemma equal_bytes_iff [simp]: "equal_bytes a b \<longleftrightarrow> a = b"
  by (auto simp: equal_bytes_def fold_diff_zero)

fun chain_ok :: "(bytes \<Rightarrow> bytes) \<Rightarrow> audit_entry list \<Rightarrow> bytes \<Rightarrow> bool" where
  "chain_ok h [] prev \<longleftrightarrow> True"
| "chain_ok h (e # es) prev \<longleftrightarrow> VerifyEntry h e prev \<and> chain_ok h es (ae_hash e)"

definition head_hash :: "bytes \<Rightarrow> audit_entry list \<Rightarrow> bytes" where
  "head_hash prev es = (if es = [] then prev else ae_hash (last es))"

lemma head_hash_simps [simp]:
  "head_hash prev [] = prev" "head_hash prev (e # es) = head_hash (ae_hash e) es"
  "head_hash prev (es @ [x]) = ae_hash x"
  by (simp_all add: head_hash_def)

lemma chain_ok_append [simp]:
  "chain_ok h (es @ fs) prev \<longleftrightarrow> chain_ok h es prev \<and> chain_ok h fs (head_hash prev es)"
  by (induction es arbitrary: prev) auto

lemma VerifySequence_zero:
  "\<forall>e \<in> set es. ae_seq e \<noteq> 0 \<Longrightarrow> VerifySequence h es prev = 0 \<longleftrightarrow> chain_ok h es prev"
  by (induction es arbitrary: prev) auto

text \<open>The reported number is that of the first entry that does not verify.\<close>

lemma VerifySequence_first:
  assumes "\<forall>e \<in> set es. ae_seq e \<noteq> 0" and "VerifySequence h es prev = n" and "n \<noteq> 0"
  shows "\<exists>us e vs. es = us @ e # vs \<and> chain_ok h us prev \<and> \<not> VerifyEntry h e (head_hash prev us)
           \<and> ae_seq e = n"
  using assms
proof (induction es arbitrary: prev)
  case (Cons x xs)
  show ?case
  proof (cases "VerifyEntry h x prev")
    case False
    with Cons.prems have "ae_seq x = n" by simp
    with False show ?thesis by (intro exI [of _ "[]"]) auto
  next
    case True
    with Cons.prems obtain us e vs where "xs = us @ e # vs" "chain_ok h us (ae_hash x)"
      "\<not> VerifyEntry h e (head_hash (ae_hash x) us)" "ae_seq e = n"
      using Cons.IH [of "ae_hash x"] by auto
    with True show ?thesis by (intro exI [of _ "x # us"]) auto
  qed
qed simp

lemma VerifySequence_append:
  "\<forall>e \<in> set es. ae_seq e \<noteq> 0 \<Longrightarrow>
   VerifySequence h (es @ fs) prev =
     (if VerifySequence h es prev \<noteq> 0 then VerifySequence h es prev
      else VerifySequence h fs (head_hash prev es))"
  by (induction es arbitrary: prev) auto

lemma VerifyEntry_iff:
  "VerifyEntry h e prev \<longleftrightarrow>
     length (ae_hash e) = HashSize \<and> length (ae_prev e) = HashSize \<and> length (ae_pii e) = HashSize
     \<and> ae_prev e = prev \<and> personalFieldsVerify h e \<and> ComputeHash h e prev = ae_hash e"
  by (auto simp: VerifyEntry_def)

lemma personalFieldsVerify_iff:
  "personalFieldsVerify h e \<longleftrightarrow>
     (length (ae_salt e) = SaltSize \<and> PIIDigest h e = ae_pii e)
     \<or> (ae_salt e = [] \<and> ae_subject e = [] \<and> ae_ip e = [] \<and> erasedDetail (ae_detail e))"
  by (auto simp: personalFieldsVerify_def SaltSize_def)

subsection \<open>What a hash commits to\<close>

text \<open>
  An entry a Go process can hold: strings and slices shorter than \<open>2 ^ 64\<close>, and a sequence
  number of 64 bits. Its instant is any: \<^verbatim>\<open>time.Time\<close> and the column are wider than the count of
  nanoseconds that is hashed, which wraps.
\<close>

definition entry_fits :: "audit_entry \<Rightarrow> bool" where
  "entry_fits e \<longleftrightarrow> framable (ae_tenant e) \<and> framable (ae_event e) \<and> framable (ae_actor_type e)
     \<and> framable (ae_actor e) \<and> framable (ae_subject e) \<and> framable (ae_rtype e) \<and> framable (ae_rid e)
     \<and> framable (ae_outcome e) \<and> framable (ae_ip e) \<and> framable (ae_request e)
     \<and> framable (ae_detail e) \<and> framable (ae_salt e) \<and> framable (ae_pii e)
     \<and> min_int64 \<le> ae_seq e \<and> ae_seq e \<le> max_int64"

lemma int64_word_inject:
  assumes "min_int64 \<le> x" "x \<le> max_int64" "min_int64 \<le> y" "y \<le> max_int64"
  shows "(word_of_int x :: 64 word) = word_of_int y \<longleftrightarrow> x = y"
proof
  assume eq: "(word_of_int x :: 64 word) = word_of_int y"
  have "sint (word_of_int z :: 64 word) = wrap64 z" for z
    by (simp add: sint_sbintrunc' wrap64_def)
  with eq have "wrap64 x = wrap64 y" by metis
  with assms show "x = y" by (simp add: wrap64_id)
qed simp

lemma word64_eq_mod: "x mod 2 ^ 64 = y mod 2 ^ 64 \<longleftrightarrow> (word_of_int x :: 64 word) = word_of_int y"
  by (simp add: word_of_int_eq_iff take_bit_eq_mod)

text \<open>Equal but for the instant, which is known modulo \<open>2 ^ 64\<close> nanoseconds, about 584 years.\<close>

definition same_but_time :: "audit_entry \<Rightarrow> audit_entry \<Rightarrow> bool" where
  "same_but_time e e' \<longleftrightarrow> e = e'\<lparr>ae_time := ae_time e\<rparr> \<and> ae_time e mod 2 ^ 64 = ae_time e' mod 2 ^ 64"

lemma same_but_time_exact:
  assumes "same_but_time e e'" and "min_int64 \<le> ae_time e" "ae_time e \<le> max_int64"
    and "min_int64 \<le> ae_time e'" "ae_time e' \<le> max_int64"
  shows "e = e'"
proof -
  have "(word_of_int (ae_time e) :: 64 word) = word_of_int (ae_time e')"
    using assms(1) unfolding same_but_time_def word64_eq_mod by blast
  then have "sint (word_of_int (ae_time e) :: 64 word) = sint (word_of_int (ae_time e') :: 64 word)" by simp
  moreover have "sint (word_of_int z :: 64 word) = wrap64 z" for z
    by (simp add: sint_sbintrunc' wrap64_def)
  ultimately have "ae_time e = ae_time e'" using assms(2-5) by (simp add: wrap64_id)
  with assms(1) show ?thesis by (simp add: same_but_time_def)
qed

lemma be64_append_inject [simp]: "be64 v @ r = be64 w @ r' \<longleftrightarrow> v = w \<and> r = r'"
  by simp

lemma chain_message_inject:
  assumes "entry_fits e" and "entry_fits e'" and "framable p" and "framable p'"
    and "chain_message e p = chain_message e' p'"
  shows "p = p' \<and> ae_seq e = ae_seq e' \<and> ae_tenant e = ae_tenant e' \<and> ae_time e mod 2 ^ 64 = ae_time e' mod 2 ^ 64
    \<and> ae_event e = ae_event e' \<and> ae_actor_type e = ae_actor_type e' \<and> ae_actor e = ae_actor e'
    \<and> ae_rtype e = ae_rtype e' \<and> ae_rid e = ae_rid e' \<and> ae_outcome e = ae_outcome e'
    \<and> ae_request e = ae_request e' \<and> ae_pii e = ae_pii e'"
  using assms unfolding word64_eq_mod by (simp add: chain_message_def entry_fits_def writeUint64_def int64_word_inject)

lemma pii_message_inject:
  assumes "entry_fits e" and "entry_fits e'" and "pii_message e = pii_message e'"
  shows "ae_salt e = ae_salt e' \<and> ae_subject e = ae_subject e' \<and> ae_ip e = ae_ip e'
    \<and> ae_detail e = ae_detail e'"
  using assms by (simp add: pii_message_def entry_fits_def)

lemma genesis_not_chain: "genesis_message \<noteq> chain_message e p"
proof
  assume "genesis_message = chain_message e p"
  then have "length genesis_message = length (chain_message e p)" by simp
  moreover have "length genesis_message = 34"
    by (simp add: genesis_message_def chainDomain_def)
  moreover have "34 < length (chain_message e p)"
    by (simp add: chain_message_def writeField_def writeUint64_def)
  ultimately show False by simp
qed

text \<open>The messages hashed by a log, and a collision among messages.\<close>

definition collision :: "(bytes \<Rightarrow> bytes) \<Rightarrow> bytes set \<Rightarrow> bool" where
  "collision h M \<longleftrightarrow> (\<exists>m \<in> M. \<exists>m' \<in> M. m \<noteq> m' \<and> h m = h m')"

definition log_messages :: "audit_entry list \<Rightarrow> bytes set" where
  "log_messages es = insert genesis_message
     ((\<lambda>e. chain_message e (ae_prev e)) ` set es \<union> pii_message ` set es)"

lemma collision_mono: "collision h M \<Longrightarrow> M \<subseteq> N \<Longrightarrow> collision h N"
  unfolding collision_def by blast

lemma log_messages_mono: "set es \<subseteq> set fs \<Longrightarrow> log_messages es \<subseteq> log_messages fs"
  by (auto simp: log_messages_def)

text \<open>Equal chain hashes: equal predecessors and equal committed fields, or a collision.\<close>

lemma same_but_time_Erase:
  "same_but_time (Erase e) (Erase e') \<longleftrightarrow> ae_seq e = ae_seq e' \<and> ae_tenant e = ae_tenant e'
    \<and> ae_time e mod 2 ^ 64 = ae_time e' mod 2 ^ 64
    \<and> ae_event e = ae_event e' \<and> ae_actor_type e = ae_actor_type e' \<and> ae_actor e = ae_actor e'
    \<and> ae_rtype e = ae_rtype e' \<and> ae_rid e = ae_rid e' \<and> ae_outcome e = ae_outcome e'
    \<and> ae_request e = ae_request e' \<and> ae_pii e = ae_pii e' \<and> ae_prev e = ae_prev e' \<and> ae_hash e = ae_hash e'"
  by (cases e; cases e') (auto simp: same_but_time_def Erase_def)

lemma same_but_time_personal:
  "same_but_time e e' \<longleftrightarrow> same_but_time (Erase e) (Erase e')
     \<and> ae_subject e = ae_subject e' \<and> ae_ip e = ae_ip e' \<and> ae_detail e = ae_detail e' \<and> ae_salt e = ae_salt e'"
  by (cases e; cases e') (auto simp: same_but_time_def Erase_def)

text \<open>A row whose instant is moved by a multiple of \<open>2 ^ 64\<close> nanoseconds verifies as before.\<close>

lemma VerifyEntry_time_wraps:
  "VerifyEntry h (e\<lparr>ae_time := ae_time e + 2 ^ 64 * k\<rparr>) prev = VerifyEntry h e prev"
proof -
  have "(word_of_int (ae_time e + 2 ^ 64 * k) :: 64 word) = word_of_int (ae_time e)"
    by (rule iffD1 [OF word64_eq_mod]) simp
  then have "chain_message (e\<lparr>ae_time := ae_time e + 2 ^ 64 * k\<rparr>) p = chain_message e p" for p
    by (simp add: chain_message_def writeUint64_def)
  moreover have "pii_message (e\<lparr>ae_time := ae_time e + 2 ^ 64 * k\<rparr>) = pii_message e"
    by (simp add: pii_message_def)
  ultimately show ?thesis
    by (simp add: VerifyEntry_iff ComputeHash_def personalFieldsVerify_iff PIIDigest_def)
qed

lemma framable_hash: "length b = HashSize \<Longrightarrow> framable b"
  by (rule framable_small) (simp add: HashSize_def)

lemma VerifyEntry_commits:
  assumes "VerifyEntry h e p" and "VerifyEntry h e' p'" and "entry_fits e" and "entry_fits e'"
    and "ae_hash e = ae_hash e'" and "\<not> collision h M"
    and "chain_message e p \<in> M" and "chain_message e' p' \<in> M"
  shows "p = p' \<and> same_but_time (Erase e) (Erase e')"
proof -
  have "h (chain_message e p) = h (chain_message e' p')"
    using assms(1,2,5) by (simp add: VerifyEntry_iff ComputeHash_def)
  with assms(6-8) have "chain_message e p = chain_message e' p'"
    unfolding collision_def by blast
  moreover have "framable p" "framable p'"
    using assms(1,2) by (auto simp: VerifyEntry_iff intro: framable_hash)
  ultimately show ?thesis
    using chain_message_inject [of e e' p p'] assms(1-5) by (simp add: same_but_time_Erase VerifyEntry_iff)
qed

lemma VerifyEntry_commits_personal:
  assumes "VerifyEntry h e p" and "VerifyEntry h e' p'" and "entry_fits e" and "entry_fits e'"
    and "same_but_time (Erase e) (Erase e')" and "\<not> collision h M" and "pii_message e \<in> M" and "pii_message e' \<in> M"
    and "\<not> Erased e" and "\<not> Erased e'"
  shows "same_but_time e e'"
proof -
  have "h (pii_message e) = h (pii_message e')"
    using assms(1,2,5,9,10)
    by (auto simp: VerifyEntry_iff personalFieldsVerify_iff PIIDigest_def Erased_def same_but_time_Erase)
  with assms(6-8) have "pii_message e = pii_message e'"
    unfolding collision_def by blast
  from pii_message_inject [OF assms(3,4) this] assms(5) show ?thesis
    by (subst same_but_time_personal) simp
qed

lemma head_commits:
  assumes "chain_ok h es (Genesis h)" and "chain_ok h es' (Genesis h)"
    and "\<forall>e \<in> set es \<union> set es'. entry_fits e"
    and "head_hash (Genesis h) es = head_hash (Genesis h) es'"
    and "\<not> collision h M" and "log_messages es \<union> log_messages es' \<subseteq> M"
  shows "list_all2 (\<lambda>e e'. same_but_time (Erase e) (Erase e') \<and> (\<not> Erased e \<and> \<not> Erased e' \<longrightarrow> same_but_time e e')) es es'"
  using assms
proof (induction es arbitrary: es' rule: rev_induct)
  case Nil
  show ?case
  proof (cases es' rule: rev_cases)
    case (snoc ys y)
    with Nil have "h genesis_message = h (chain_message y (ae_prev y))"
      by (simp add: VerifyEntry_iff ComputeHash_def Genesis_def)
    moreover have "genesis_message \<in> M" "chain_message y (ae_prev y) \<in> M"
      using Nil(6) snoc by (auto simp: log_messages_def)
    ultimately have "collision h M"
      unfolding collision_def using genesis_not_chain [of y "ae_prev y"] by blast
    with Nil(5) show ?thesis ..
  qed simp
next
  case (snoc x xs)
  show ?case
  proof (cases es' rule: rev_cases)
    case Nil
    with snoc have "h genesis_message = h (chain_message x (ae_prev x))"
      by (simp add: VerifyEntry_iff ComputeHash_def Genesis_def)
    moreover have "genesis_message \<in> M" "chain_message x (ae_prev x) \<in> M"
      using snoc.prems(6) by (auto simp: log_messages_def)
    ultimately have "collision h M"
      unfolding collision_def using genesis_not_chain [of x "ae_prev x"] by blast
    with snoc.prems(5) show ?thesis ..
  next
    case es': (snoc ys y)
    let ?p = "head_hash (Genesis h) xs" and ?q = "head_hash (Genesis h) ys"
    have ok: "VerifyEntry h x ?p" "VerifyEntry h y ?q" and eq: "ae_hash x = ae_hash y"
      and fits: "entry_fits x" "entry_fits y"
      using snoc.prems es' by auto
    have "chain_message x (ae_prev x) \<in> M" "chain_message y (ae_prev y) \<in> M"
      and pii: "pii_message x \<in> M" "pii_message y \<in> M"
      using snoc.prems(6) es' by (auto simp: log_messages_def)
    then have "chain_message x ?p \<in> M" "chain_message y ?q \<in> M"
      using ok by (simp_all add: VerifyEntry_iff)
    from VerifyEntry_commits [OF ok fits eq snoc.prems(5) this]
    have heads: "?p = ?q" and er: "same_but_time (Erase x) (Erase y)" by blast+
    have "log_messages xs \<union> log_messages ys \<subseteq> M"
      using snoc.prems(6) es' log_messages_mono [of xs "xs @ [x]"] log_messages_mono [of ys "ys @ [y]"]
      by auto
    then have "list_all2 (\<lambda>e e'. same_but_time (Erase e) (Erase e') \<and> (\<not> Erased e \<and> \<not> Erased e' \<longrightarrow> same_but_time e e')) xs ys"
      using snoc.IH [of ys] snoc.prems es' heads by auto
    moreover have "\<not> Erased x \<and> \<not> Erased y \<longrightarrow> same_but_time x y"
      using VerifyEntry_commits_personal [OF ok fits er snoc.prems(5) pii] by blast
    ultimately show ?thesis using er es' by (simp add: list_all2_appendI)
  qed
qed

subsection \<open>Erasure keeps the chain\<close>

lemma Erase_sel [simp]:
  "ae_seq (Erase e) = ae_seq e" "ae_hash (Erase e) = ae_hash e" "ae_prev (Erase e) = ae_prev e"
  "ae_pii (Erase e) = ae_pii e" "ae_subject (Erase e) = []" "ae_ip (Erase e) = []"
  "ae_detail (Erase e) = []" "ae_salt (Erase e) = []" "ae_tenant (Erase e) = ae_tenant e"
  "ae_time (Erase e) = ae_time e"
  by (simp_all add: Erase_def)

lemma chain_message_Erase [simp]: "chain_message (Erase e) p = chain_message e p"
  by (simp add: chain_message_def Erase_def)

lemma VerifyEntry_Erase: "VerifyEntry h e p \<Longrightarrow> VerifyEntry h (Erase e) p"
  by (auto simp: VerifyEntry_iff ComputeHash_def personalFieldsVerify_iff erasedDetail_def)

lemma chain_ok_map:
  assumes "\<And>e p. e \<in> set es \<Longrightarrow> VerifyEntry h e p \<Longrightarrow> VerifyEntry h (f e) p"
    and "\<And>e. e \<in> set es \<Longrightarrow> ae_hash (f e) = ae_hash e" and "chain_ok h es prev"
  shows "chain_ok h (map f es) prev"
  using assms by (induction es arbitrary: prev) auto

lemma head_hash_map: "(\<And>e. e \<in> set es \<Longrightarrow> ae_hash (f e) = ae_hash e) \<Longrightarrow> head_hash p (map f es) = head_hash p es"
  by (induction es arbitrary: p) auto

subsection \<open>The marker reads back what was written\<close>

lemma text_of_bytes_of [simp]: "text_of (bytes_of s) = s"
proof -
  have "char_of (unat (of_char c :: byte)) = c" for c :: char
  proof -
    have "(of_char c :: nat) < 256" by (rule nat_of_char_less_256)
    then have "unat (of_nat (of_char c) :: byte) = of_char c"
      by (simp add: unat_of_nat)
    then show ?thesis by (metis of_nat_of_char char_of_char)
  qed
  then show ?thesis by (simp add: text_of_def bytes_of_def map_idI)
qed

lemma hex_digit_chars: "n < 16 \<Longrightarrow> hex_digit n \<in> set ''0123456789abcdef''"
proof -
  assume "n < 16"
  then have "n \<in> set [0..<16]" by simp
  moreover have "\<forall>n \<in> set [0..<16]. hex_digit n \<in> set ''0123456789abcdef''" by code_simp
  ultimately show ?thesis by blast
qed

lemma hex_encode_chars: "set (hex_encode bs) \<subseteq> set ''0123456789abcdef''"
proof -
  have "set (hex_byte b) \<subseteq> set ''0123456789abcdef''" for b
  proof -
    have "unat b < 16 * 16" using unsigned_less [of b] by simp
    then have "unat b div 16 < 16" by (rule less_mult_imp_div_less)
    then have "hex_digit (unat b div 16) \<in> set ''0123456789abcdef''"
      by (rule hex_digit_chars)
    moreover have "hex_digit (unat b mod 16) \<in> set ''0123456789abcdef''"
      by (intro hex_digit_chars) simp
    ultimately show ?thesis unfolding hex_byte_def by (metis empty_set empty_subsetI insert_subset list.simps(15))
  qed
  then have "(\<Union>b \<in> set bs. set (hex_byte b)) \<subseteq> set ''0123456789abcdef''"
    by (rule UN_least)
  then show ?thesis by (simp only: hex_encode_def set_concat set_map image_image)
qed

lemma plain_text: "\<forall>c \<in> set ''0123456789abcdef''. plain c"
  "\<forall>c \<in> set ''retention_prune''. plain c" "\<forall>c \<in> set ''action''. plain c"
  "\<forall>c \<in> set ''pruned_through_seq''. plain c" "\<forall>c \<in> set ''pruned_through_hash''. plain c"
  "\<forall>c \<in> set ''entries''. plain c"
  by (simp_all add: plain_def)

lemma plain_hex: "\<forall>c \<in> set (hex_encode bs). plain c"
  using hex_encode_chars plain_text(1) by blast

lemma quoted_eq: "quoted s @ t = dquote # s @ dquote # t"
  by (simp add: quoted_def dquote_def)

lemma parse_marker:
  "parse_json (prune_marker_text n hs k) =
     Some (JObj [(''action'', JStr PruneAction), (''pruned_through_seq'', JNum (decimal_int n)),
                 (''pruned_through_hash'', JStr (hex_encode hs)), (''entries'', JNum (decimal_int k))])"
proof -
  let ?t = "prune_marker_text n hs k"
  have t: "?t = CHR ''{'' # dquote # ''action'' @ dquote # CHR '':'' # dquote # PruneAction @ dquote
      # CHR '','' # dquote # ''pruned_through_seq'' @ dquote # CHR '':'' # decimal_int n
      @ CHR '','' # dquote # ''pruned_through_hash'' @ dquote # CHR '':'' # dquote # hex_encode hs @ dquote
      # CHR '','' # dquote # ''entries'' @ dquote # CHR '':'' # decimal_int k @ CHR ''}'' # []"
    by (simp only: prune_marker_text_def quoted_eq append_assoc append.simps)
  have "20 + length (hex_encode hs) < length ?t"
    unfolding t by (simp add: PruneAction_def)
  then obtain f where f: "3 * length ?t + 3 = Suc (Suc (Suc (Suc (Suc f))))"
    and big: "20 < f" "length (hex_encode hs) < f"
    by (intro that [of "3 * length ?t - 2"]) linarith+
  note key = plain_text plain_hex
  have pa: "\<forall>c \<in> set PruneAction. plain c"
    unfolding PruneAction_def by (rule key(2))
  have l: "length ''action'' < Suc (Suc (Suc f))" "length PruneAction < Suc (Suc (Suc f))"
      "length ''pruned_through_seq'' < Suc (Suc f)" "length ''pruned_through_hash'' < Suc f"
      "length (hex_encode hs) < Suc f" "length ''entries'' < f"
    using big by (simp_all add: PruneAction_def)
  note m = members_string_comma [OF key(3) pa l(1,2)] members_number_comma [OF key(4) l(3)]
    members_string_comma [OF key(5) key(7) l(4,5)] members_number_end [OF key(6) l(6)]
  have "parse_value (Suc (Suc (Suc (Suc (Suc f))))) 0 ?t = parse_members (Suc (Suc (Suc (Suc f)))) (Suc 0) (tl ?t) []"
    unfolding t by (simp add: skip_ws_def max_depth_def)
  also have "\<dots> = Some (JObj [(''action'', JStr PruneAction), (''pruned_through_seq'', JNum (decimal_int n)),
      (''pruned_through_hash'', JStr (hex_encode hs)), (''entries'', JNum (decimal_int k))], [])"
    unfolding t list.sel
    unfolding m by simp
  finally show ?thesis by (simp add: parse_json_def f skip_ws_def)
qed

text \<open>The marker of a trim attests its own boundary, and no other.\<close>

lemma unmarshal_prune_marker:
  assumes "min_int64 \<le> n" and "n \<le> max_int64"
  shows "unmarshal_marker (prune_marker_text n hs k) =
     Some \<lparr>mk_action = PruneAction, mk_seq = n, mk_hash = hex_encode hs\<rparr>"
proof -
  have keys: "\<not> key_is ''action'' ''pruned_through_seq''" "\<not> key_is ''action'' ''pruned_through_hash''"
    "\<not> key_is ''action'' ''entries''" "\<not> key_is ''pruned_through_seq'' ''pruned_through_hash''"
    "\<not> key_is ''pruned_through_seq'' ''entries''" "\<not> key_is ''pruned_through_hash'' ''entries''"
    by (simp_all add: key_is_def ascii_lower_def char_of_eq_iff)
  then show ?thesis
    using assms by (simp add: unmarshal_marker_def parse_marker marker_member_def zero_marker_def
        parse_int64_decimal key_is_def)
qed

lemma hex_lower: "map ascii_lower (hex_encode bs) = hex_encode bs"
proof (rule map_idI)
  fix c assume "c \<in> set (hex_encode bs)"
  moreover have "\<forall>c \<in> set ''0123456789abcdef''. ascii_lower c = c" by code_simp
  ultimately show "ascii_lower c = c" using hex_encode_chars by blast
qed

lemma marker_attests:
  assumes "min_int64 \<le> n" and "n \<le> max_int64"
  shows "MarkerAttestsCheckpoint (PruneMarkerDetail n hs k) n' hs' \<longleftrightarrow>
           length hs' = HashSize \<and> n' = n \<and> hs' = hs"
  using assms by (auto simp: MarkerAttestsCheckpoint_def PruneMarkerDetail_def unmarshal_prune_marker hex_lower)

end
