(* ===== verification/Audit_Store.thy ===== *)
theory Audit_Store
  imports Audit_Chain
begin

text \<open>
  \<^verbatim>\<open>internal/store/sqlite/audit.go\<close>: the transactions over the audit log, with the CHECK
  constraints, unique indexes and triggers of the tables \<^verbatim>\<open>audit_log\<close> and
  \<^verbatim>\<open>audit_checkpoints\<close> (migrations 0001 and 0007), which refuse any other change.

  A row is an \<open>audit_entry\<close> as the columns hold it: NULL and the empty string, or the empty
  blob, are the same value (the scanner maps NULL to the empty string, and nothing writes an
  empty salt), and \<open>ae_detail\<close> holds the text of the column. The sequence column is a 64-bit
  integer; the wrap of \<^verbatim>\<open>lastSeq+1\<close> after \<open>2 ^ 63\<close> appends is not modelled.
\<close>

subsection \<open>The tables and their guards\<close>

definition audit_row_ok :: "audit_entry \<Rightarrow> bool" where
  "audit_row_ok r \<longleftrightarrow> ae_actor_type r \<in> {ActorSystem, ActorAPIKey, ActorAdmin, ActorSubject}
     \<and> ae_outcome r \<in> {OutcomeSuccess, OutcomeFailure, OutcomeDenied, OutcomeError}
     \<and> ae_seq r \<le> max_int64"

definition audit_insert :: "audit_entry \<Rightarrow> tables \<Rightarrow> sql_error + unit \<times> tables" where
  "audit_insert r t =
     (if \<not> audit_row_ok r then Inl (SqlMsg ''CHECK constraint failed'')
      else case insert_row (\<lambda>old new. ae_seq old = ae_seq new \<or> ae_hash old = ae_hash new) r (tb_audit t) of
        Inl e \<Rightarrow> Inl e
      | Inr rows \<Rightarrow> Inr ((), t\<lparr>tb_audit := rows\<rparr>))"

text \<open>\<^verbatim>\<open>audit_log_update_guard\<close>: the one update the table permits.\<close>

definition update_guard :: "audit_entry \<Rightarrow> audit_entry \<Rightarrow> bool" where
  "update_guard old new \<longleftrightarrow> ae_subject new = [] \<and> ae_ip new = [] \<and> ae_salt new = []
     \<and> ae_detail new = bytes_of ''{}'' \<and> ae_salt old \<noteq> []
     \<and> ae_seq new = ae_seq old \<and> ae_tenant new = ae_tenant old \<and> ae_time new = ae_time old
     \<and> ae_event new = ae_event old \<and> ae_actor_type new = ae_actor_type old \<and> ae_actor new = ae_actor old
     \<and> ae_rtype new = ae_rtype old \<and> ae_rid new = ae_rid old \<and> ae_outcome new = ae_outcome old
     \<and> ae_request new = ae_request old \<and> ae_pii new = ae_pii old \<and> ae_prev new = ae_prev old
     \<and> ae_hash new = ae_hash old"

definition audit_update :: "(audit_entry \<Rightarrow> bool) \<Rightarrow> (audit_entry \<Rightarrow> audit_entry) \<Rightarrow> tables
    \<Rightarrow> sql_error + int \<times> tables" where
  "audit_update p f t =
     (if list_ex (\<lambda>r. p r \<and> \<not> update_guard r (f r)) (tb_audit t)
      then Inl (SqlMsg ''audit_log permits no update other than erasure of the personal fields'')
      else Inr (count_where p (tb_audit t), t\<lparr>tb_audit := update_where p f (tb_audit t)\<rparr>))"

text \<open>\<^verbatim>\<open>audit_log_delete_guard\<close>: only rows a recorded checkpoint covers.\<close>

definition last_checkpoint :: "tables \<Rightarrow> checkpoint option" where
  "last_checkpoint t = latest_by cp_seq (tb_checkpoints t)"

definition watermark :: "tables \<Rightarrow> int" where
  "watermark t = (case last_checkpoint t of None \<Rightarrow> 0 | Some c \<Rightarrow> cp_seq c)"

definition audit_delete :: "(audit_entry \<Rightarrow> bool) \<Rightarrow> tables \<Rightarrow> sql_error + int \<times> tables" where
  "audit_delete p t =
     (if list_ex (\<lambda>r. p r \<and> ae_seq r > watermark t) (tb_audit t)
      then Inl (SqlMsg ''audit_log entries may only be removed below a recorded retention checkpoint'')
      else Inr (count_where p (tb_audit t), t\<lparr>tb_audit := delete_where p (tb_audit t)\<rparr>))"

text \<open>
  \<^verbatim>\<open>audit_checkpoints_marker_guard\<close> and \<^verbatim>\<open>audit_checkpoints_boundary_guard\<close>.
  \<^verbatim>\<open>json_extract\<close> takes the first member of the name; numbers are compared as integers.
\<close>

definition json_extract :: "bytes \<Rightarrow> string \<Rightarrow> json option" where
  "json_extract detail key =
     (case parse_json (text_of detail) of Some (JObj ms) \<Rightarrow> map_of ms key | _ \<Rightarrow> None)"

definition sql_is_int :: "json option \<Rightarrow> int \<Rightarrow> bool" where
  "sql_is_int v n = (case v of Some (JNum l) \<Rightarrow> parse_int64 l = Some n | _ \<Rightarrow> False)"

definition marker_guard :: "checkpoint \<Rightarrow> audit_entry list \<Rightarrow> bool" where
  "marker_guard c rows = list_ex (\<lambda>r. ae_seq r = cp_audit_seq c
     \<and> json_extract (ae_detail r) ''action'' = Some (JStr ''retention_prune'')
     \<and> sql_is_int (json_extract (ae_detail r) ''pruned_through_seq'') (cp_seq c)
     \<and> json_extract (ae_detail r) ''pruned_through_hash'' = Some (JStr (hex_encode (cp_hash c)))) rows"

definition boundary_guard :: "checkpoint \<Rightarrow> audit_entry list \<Rightarrow> bool" where
  "boundary_guard c rows = list_ex (\<lambda>r. ae_seq r = cp_seq c \<and> ae_hash r = cp_hash c) rows"

definition checkpoint_insert :: "checkpoint \<Rightarrow> tables \<Rightarrow> sql_error + unit \<times> tables" where
  "checkpoint_insert c t =
     (if \<not> marker_guard c (tb_audit t)
      then Inl (SqlMsg ''audit_checkpoints is append-only and takes no row that the marker it names does not attest'')
      else if \<not> boundary_guard c (tb_audit t)
      then Inl (SqlMsg ''audit_checkpoints is append-only and takes no row whose boundary entry is not present'')
      else if \<not> (cp_seq c > 0 \<and> cp_removed c \<ge> 0) then Inl (SqlMsg ''CHECK constraint failed'')
      else case insert_row (\<lambda>old new. cp_id old = cp_id new \<or> cp_seq old = cp_seq new) c (tb_checkpoints t) of
        Inl e \<Rightarrow> Inl e
      | Inr rows \<Rightarrow> Inr ((), t\<lparr>tb_checkpoints := rows\<rparr>))"

subsection \<open>The chain head and appending\<close>

definition EventSubjectRedacted :: string where "EventSubjectRedacted = ''erasure.entries_redacted''"
definition EventChainVerified :: string where "EventChainVerified = ''audit.chain_verified''"
definition EventChainBroken :: string where "EventChainBroken = ''audit.chain_broken''"

definition last_row :: "tables \<Rightarrow> audit_entry option" where
  "last_row t = latest_by ae_seq (tb_audit t)"

definition checkpointHead :: "(bytes \<Rightarrow> bytes) \<Rightarrow> (tables, int \<times> bytes) proc" where
  "checkpointHead h =
     bindp (query raw_error last_checkpoint)
       (\<lambda>c. case c of None \<Rightarrow> ret (0, Genesis h) | Some c \<Rightarrow> ret (cp_seq c, cp_hash c))"

definition ChainHead :: "(bytes \<Rightarrow> bytes) \<Rightarrow> (tables, int \<times> bytes) proc" where
  "ChainHead h =
     bindp (query raw_error last_row)
       (\<lambda>r. case r of None \<Rightarrow> checkpointHead h | Some e \<Rightarrow> ret (ae_seq e, ae_hash e))"

definition chainHeadTx :: "(bytes \<Rightarrow> bytes) \<Rightarrow> (tables, int \<times> bytes) proc" where
  "chainHeadTx h =
     bindp (query raw_error last_row)
       (\<lambda>r. case r of
          Some e \<Rightarrow> ret (ae_seq e, ae_hash e)
        | None \<Rightarrow> bindp (query raw_error last_checkpoint)
            (\<lambda>c. case c of None \<Rightarrow> ret (0, Genesis h) | Some c \<Rightarrow> ret (cp_seq c, cp_hash c)))"

text \<open>
  The three statements that read the head, prepare an entry and insert it, which \<^verbatim>\<open>Append\<close>,
  the erasure and the trim each run inside their transaction.
\<close>

definition chain_entry :: "(bytes \<Rightarrow> bytes) \<Rightarrow> audit_entry \<Rightarrow> (tables, audit_entry) proc" where
  "chain_entry h e =
     bindp (chainHeadTx h) (\<lambda>(lastSeq, prevHash).
       bindp (Prepare h e (lastSeq + 1) prevHash) (\<lambda>e.
         bindp (exec map_error (audit_insert e)) (\<lambda>_. ret e)))"

definition Append :: "(bytes \<Rightarrow> bytes) \<Rightarrow> audit_entry \<Rightarrow> (tables, audit_entry) proc" where
  "Append h e =
     (if ae_tenant e = [] then failp (OtherErr ''sqlite: audit entry requires a tenant'')
      else if ae_event e = [] then failp (OtherErr ''sqlite: audit entry requires an event type'')
      else bindp wall_clock (\<lambda>wall.
        let e = (if ae_outcome e = [] then e\<lparr>ae_outcome := OutcomeSuccess\<rparr> else e);
            e = (if is_zero_time (ae_time e) then e\<lparr>ae_time := wall\<rparr> else e);
            e = (if length (ae_detail e) = 0 then e\<lparr>ae_detail := bytes_of ''{}''\<rparr> else e) in
        in_tx (chain_entry h e)))"

subsection \<open>Reading\<close>

text \<open>\<^verbatim>\<open>scanAuditEntry\<close>: the detail an erased row and an empty one read back as.\<close>

definition scanAuditEntry :: "audit_entry \<Rightarrow> audit_entry" where
  "scanAuditEntry r =
     r\<lparr>ae_detail := (if ae_detail r \<noteq> [] \<and> ae_detail r \<noteq> bytes_of ''{}'' then ae_detail r
                    else if length (ae_salt r) > 0 then bytes_of ''{}'' else [])\<rparr>"

text \<open>SELECT ... WHERE p ORDER BY seq ASC LIMIT n.\<close>

definition select_audit :: "(audit_entry \<Rightarrow> bool) \<Rightarrow> int \<Rightarrow> tables \<Rightarrow> audit_entry list" where
  "select_audit p n t =
     map scanAuditEntry (take (nat n) (sort_key ae_seq (filter p (tb_audit t))))"

record audit_filter =
  af_event :: string
  af_subject :: string
  af_actor :: string
  af_outcome :: outcome
  af_since :: instant
  af_until :: instant
  af_after :: int
  af_limit :: int

definition escapeLike :: "string \<Rightarrow> string" where
  "escapeLike s =
     (let bs = char_of (92 :: nat);
          esc = (\<lambda>x s. concat (map (\<lambda>c. if c = x then [bs, c] else [c]) s)) in
      esc (CHR ''_'') (esc (CHR ''%'') (esc bs s)))"

text \<open>
  SQLite's LIKE with an escape character: letters of ASCII match in either case, the percent
  sign any text, the underscore one character.
\<close>

function sql_like :: "char \<Rightarrow> string \<Rightarrow> string \<Rightarrow> bool" where
  "sql_like esc [] s \<longleftrightarrow> s = []"
| "sql_like esc (p # ps) s \<longleftrightarrow>
     (if p = esc then
        (case (ps, s) of (q # qs, c # cs) \<Rightarrow> ascii_lower c = ascii_lower q \<and> sql_like esc qs cs | _ \<Rightarrow> False)
      else if p = CHR ''%'' then
        sql_like esc ps s \<or> (case s of [] \<Rightarrow> False | c # cs \<Rightarrow> sql_like esc (p # ps) cs)
      else
        (case s of [] \<Rightarrow> False
         | c # cs \<Rightarrow> (p = CHR ''_'' \<or> ascii_lower c = ascii_lower p) \<and> sql_like esc ps cs))"
  by pat_completeness auto

termination by (relation "measure (\<lambda>(_, p, s). length p + length s)") auto

definition audit_matches :: "string \<Rightarrow> audit_filter \<Rightarrow> audit_entry \<Rightarrow> bool" where
  "audit_matches tenantID f r \<longleftrightarrow>
     ae_tenant r = tenantID
     \<and> (af_event f \<noteq> [] \<longrightarrow>
          (if suffix ''.'' (af_event f)
           then sql_like (char_of (92 :: nat)) (escapeLike (af_event f) @ ''%'') (ae_event r)
           else ae_event r = af_event f))
     \<and> (af_subject f \<noteq> [] \<longrightarrow> ae_subject r = af_subject f)
     \<and> (af_actor f \<noteq> [] \<longrightarrow> ae_actor r = af_actor f)
     \<and> (af_outcome f \<noteq> [] \<longrightarrow> ae_outcome r = af_outcome f)
     \<and> (\<not> is_zero_time (af_since f) \<longrightarrow> ae_time r \<ge> af_since f)
     \<and> (\<not> is_zero_time (af_until f) \<longrightarrow> ae_time r < af_until f)
     \<and> (af_after f > 0 \<longrightarrow> ae_seq r > af_after f)"

definition QueryAudit :: "string \<Rightarrow> audit_filter \<Rightarrow> (tables, audit_entry list) proc" where
  "QueryAudit tenantID f =
     query raw_error (select_audit (audit_matches tenantID f) (clampLimit (af_limit f) 100 10000))"

definition ReadAuditRange :: "int \<Rightarrow> int \<Rightarrow> (tables, audit_entry list) proc" where
  "ReadAuditRange fromSeq limit =
     (let fromSeq = (if fromSeq < 1 then 1 else fromSeq) in
      query raw_error (select_audit (\<lambda>r. ae_seq r \<ge> fromSeq) (clampLimit limit 100 10000)))"

subsection \<open>Verification\<close>

definition unattestedCheckpoint :: "(tables, int) proc" where
  "unattestedCheckpoint =
     bindp (query raw_error last_checkpoint) (\<lambda>c. case c of
        None \<Rightarrow> ret 0
      | Some c \<Rightarrow>
          bindp (query raw_error (\<lambda>t. find_row (\<lambda>r. ae_seq r = cp_audit_seq c) (tb_audit t))) (\<lambda>m. case m of
              None \<Rightarrow> ret (cp_seq c)
            | Some r \<Rightarrow>
                if \<not> MarkerAttestsCheckpoint (ae_detail r) (cp_seq c) (cp_hash c) then ret (cp_seq c)
                else ret 0))"

definition hashBefore :: "(bytes \<Rightarrow> bytes) \<Rightarrow> int \<Rightarrow> (tables, bytes) proc" where
  "hashBefore h fromSeq =
     (if fromSeq \<le> 1 then
        bindp (query raw_error last_checkpoint)
          (\<lambda>c. case c of None \<Rightarrow> ret (Genesis h) | Some c \<Rightarrow> ret (cp_hash c))
      else
        bindp (query raw_error (\<lambda>t. latest_by ae_seq (filter (\<lambda>r. ae_seq r < fromSeq) (tb_audit t))))
          (\<lambda>r. case r of None \<Rightarrow> ret (Genesis h) | Some e \<Rightarrow> ret (ae_hash e)))"

text \<open>
  The loop of \<^verbatim>\<open>VerifyChain\<close>, one page of 1000 entries at a time. It ends because a page that
  is not empty moves the cursor past an entry; the test of the request's context at the end
  of a round is one more request that may fail. When a call fails the counts it returns
  beside the error are not looked at, and the model leaves them out.
\<close>

definition verify_page :: int where "verify_page = 1000"

definition above :: "int \<Rightarrow> tables \<Rightarrow> audit_entry list" where
  "above cursor t = filter (\<lambda>r. ae_seq r > cursor) (tb_audit t)"

definition ctx_err :: "(tables, unit) proc" where
  "ctx_err = query raw_error (\<lambda>_. ())"

lemma verify_page_shrinks:
  assumes "query raw_error (select_audit (\<lambda>r. ae_seq r > cursor) verify_page) s = (Inr batch, s1)"
    and "ctx_err s1 = (Inr u, s2)" and "batch \<noteq> []"
  shows "length (above (ae_seq (last batch)) (os_db s2)) < length (above cursor (os_db s))"
proof -
  have db: "os_db s2 = os_db s"
    using query_frame [OF assms(1)] query_frame [OF assms(2) [unfolded ctx_err_def]] by simp
  let ?rows = "sort_key ae_seq (filter (\<lambda>r. ae_seq r > cursor) (tb_audit (os_db s)))"
  have b: "batch = map scanAuditEntry (take (nat verify_page) ?rows)"
    using query_Inr [OF assms(1)] by (simp add: select_audit_def)
  with assms(3) have "last batch = scanAuditEntry (last (take (nat verify_page) ?rows))"
    and "last (take (nat verify_page) ?rows) \<in> set (take (nat verify_page) ?rows)"
    by (auto simp: last_map)
  then obtain r where r: "r \<in> set (tb_audit (os_db s))" "ae_seq r > cursor" "ae_seq (last batch) = ae_seq r"
    using set_take_subset [of "nat verify_page" ?rows] by (auto simp: scanAuditEntry_def)
  have "above (ae_seq r) (os_db s) = filter (\<lambda>x. ae_seq x > ae_seq r) (above cursor (os_db s))"
    using r(2) by (auto simp: above_def intro!: filter_cong)
  moreover have "length (filter (\<lambda>x. ae_seq x > ae_seq r) (above cursor (os_db s))) < length (above cursor (os_db s))"
    using r(1,2) by (intro length_filter_less [of r]) (auto simp: above_def)
  ultimately show ?thesis using r(3) db by simp
qed

function verify_pages :: "(bytes \<Rightarrow> bytes) \<Rightarrow> int \<Rightarrow> bytes \<Rightarrow> int \<Rightarrow> db \<Rightarrow> (int \<times> int) res \<times> db" where
  "verify_pages h cursor prevHash checked s =
     (case query raw_error (select_audit (\<lambda>r. ae_seq r > cursor) verify_page) s of
        (Inl e, s1) \<Rightarrow> (Inl e, s1)
      | (Inr batch, s1) \<Rightarrow>
          if batch = [] then (Inr (checked, 0), s1)
          else if VerifySequence h batch prevHash \<noteq> 0
          then (Inr (checked, VerifySequence h batch prevHash), s1)
          else (case ctx_err s1 of
              (Inl e, s2) \<Rightarrow> (Inl e, s2)
            | (Inr _, s2) \<Rightarrow>
                verify_pages h (ae_seq (last batch)) (ae_hash (last batch)) (checked + int (length batch)) s2))"
  by pat_completeness auto

termination
  by (relation "measure (\<lambda>(_, cursor, _, _, s). length (above cursor (os_db s)))")
    (auto intro: verify_page_shrinks [OF sym sym])

declare verify_pages.simps [simp del]

definition VerifyChain :: "(bytes \<Rightarrow> bytes) \<Rightarrow> int \<Rightarrow> (tables, int \<times> int) proc" where
  "VerifyChain h fromSeq =
     bindp (if fromSeq \<le> 1 then unattestedCheckpoint else ret 0) (\<lambda>unattested.
       if unattested \<noteq> 0 then ret (0, unattested)
       else bindp (hashBefore h fromSeq) (\<lambda>prevHash.
         let cursor = (if wrap64 (fromSeq - 1) < 0 then 0 else wrap64 (fromSeq - 1)) in
         verify_pages h cursor prevHash 0))"

subsection \<open>Erasure and retention\<close>

definition erase_row :: "audit_entry \<Rightarrow> audit_entry" where
  "erase_row r = r\<lparr>ae_subject := [], ae_ip := [], ae_salt := [], ae_detail := bytes_of ''{}''\<rparr>"

definition tombstone :: "string \<Rightarrow> string \<Rightarrow> string \<Rightarrow> instant \<Rightarrow> int \<Rightarrow> audit_entry" where
  "tombstone tenantID subjectID actorID now affected =
     \<lparr>ae_seq = 0, ae_tenant = tenantID, ae_time = now, ae_event = EventSubjectRedacted,
      ae_actor_type = ActorAdmin, ae_actor = actorID, ae_subject = [], ae_rtype = ''subject'',
      ae_rid = subjectID, ae_outcome = OutcomeSuccess, ae_ip = [], ae_request = [],
      ae_detail = bytes_of (CHR ''{'' # quoted ''erased_entries'' @ CHR '':'' # decimal_int affected @ [CHR ''}'']),
      ae_salt = [], ae_pii = [], ae_prev = [], ae_hash = []\<rparr>"

definition EraseSubjectAuditEntries ::
  "(bytes \<Rightarrow> bytes) \<Rightarrow> string \<Rightarrow> string \<Rightarrow> string \<Rightarrow> instant \<Rightarrow> (tables, int) proc" where
  "EraseSubjectAuditEntries h tenantID subjectID actorID now =
     (if tenantID = [] \<or> subjectID = [] then failp (OtherErr ''sqlite: erase requires a tenant and a subject'')
      else in_tx (bindp
        (exec map_error (audit_update
           (\<lambda>r. ae_tenant r = tenantID \<and> ae_subject r = subjectID \<and> ae_salt r \<noteq> []) erase_row))
        (\<lambda>affected. bindp (chain_entry h (tombstone tenantID subjectID actorID now affected))
           (\<lambda>_. ret affected))))"

definition prune_marker :: "string \<Rightarrow> instant \<Rightarrow> int \<Rightarrow> bytes \<Rightarrow> int \<Rightarrow> audit_entry" where
  "prune_marker tenantID now lastSeq lastHash count =
     \<lparr>ae_seq = 0, ae_tenant = tenantID, ae_time = now, ae_event = EventChainVerified,
      ae_actor_type = ActorSystem, ae_actor = [], ae_subject = [], ae_rtype = ''audit_log'',
      ae_rid = [], ae_outcome = OutcomeSuccess, ae_ip = [], ae_request = [],
      ae_detail = PruneMarkerDetail lastSeq lastHash count,
      ae_salt = [], ae_pii = [], ae_prev = [], ae_hash = []\<rparr>"

text \<open>The longest prefix of the log in which every entry is older than the cut.\<close>

definition first_kept :: "instant \<Rightarrow> tables \<Rightarrow> int" where
  "first_kept cutoff t =
     (case latest_by (\<lambda>r. - ae_seq r) (filter (\<lambda>r. ae_time r \<ge> cutoff) (tb_audit t)) of
        None \<Rightarrow> max_int64
      | Some r \<Rightarrow> ae_seq r)"

text \<open>The trim at the boundary entry \<open>b\<close>: marker, checkpoint, deletion, in this order.\<close>

definition prune_at ::
  "(bytes \<Rightarrow> bytes) \<Rightarrow> string \<Rightarrow> instant \<Rightarrow> audit_entry \<Rightarrow> (tables, int) proc" where
  "prune_at h tenantID now b =
     (let lastSeq = ae_seq b; lastHash = ae_hash b in
      bindp (query raw_error (\<lambda>t. count_where (\<lambda>r. ae_seq r \<le> lastSeq) (tb_audit t))) (\<lambda>count.
      bindp (chain_entry h (prune_marker tenantID now lastSeq lastHash count)) (\<lambda>marker.
      bindp uuid_new (\<lambda>cpID.
      bindp (exec map_error (checkpoint_insert
          \<lparr>cp_id = cpID, cp_tenant = tenantID, cp_seq = lastSeq, cp_hash = lastHash,
           cp_removed = count, cp_audit_seq = ae_seq marker, cp_created = now\<rparr>)) (\<lambda>_.
      exec map_error (audit_delete (\<lambda>r. ae_seq r \<le> lastSeq)))))))"

definition PruneAuditLog ::
  "(bytes \<Rightarrow> bytes) \<Rightarrow> string \<Rightarrow> instant \<Rightarrow> instant \<Rightarrow> (tables, int) proc" where
  "PruneAuditLog h tenantID cutoff now =
     in_tx (bindp (query raw_error (first_kept cutoff)) (\<lambda>keepFrom.
       bindp (query raw_error (\<lambda>t. latest_by ae_seq (filter (\<lambda>r. ae_seq r < keepFrom) (tb_audit t))))
         (\<lambda>boundary. case boundary of None \<Rightarrow> ret 0 | Some b \<Rightarrow> prune_at h tenantID now b)))"

end
