(* ===== verification/Audit_Invariant.thy ===== *)
theory Audit_Invariant
  imports Audit_Store
begin

text \<open>
  The invariant of the audit log, and that appending, erasing and trimming keep it: the
  sequence numbers are contiguous above the watermark, the rows chain onto the newest
  checkpoint (or the genesis hash), and the newest checkpoint is attested by its marker.
\<close>

subsection \<open>Contiguous rows\<close>

fun contiguous :: "int \<Rightarrow> audit_entry list \<Rightarrow> bool" where
  "contiguous w [] \<longleftrightarrow> True"
| "contiguous w (r # rs) \<longleftrightarrow> ae_seq r = w + 1 \<and> contiguous (w + 1) rs"

lemma contiguous_append [simp]:
  "contiguous w (us @ vs) \<longleftrightarrow> contiguous w us \<and> contiguous (w + int (length us)) vs"
  by (induction us arbitrary: w) (auto simp: algebra_simps)

lemma contiguous_bounds: "contiguous w rs \<Longrightarrow> r \<in> set rs \<Longrightarrow> w < ae_seq r \<and> ae_seq r \<le> w + int (length rs)"
  by (induction rs arbitrary: w) fastforce+

lemma contiguous_sorted: "contiguous w rs \<Longrightarrow> sorted_wrt (\<lambda>a b. ae_seq a < ae_seq b) rs"
  by (induction rs arbitrary: w) (auto dest: contiguous_bounds)

lemma contiguous_map: "(\<And>r. r \<in> set rs \<Longrightarrow> ae_seq (f r) = ae_seq r) \<Longrightarrow> contiguous w (map f rs) = contiguous w rs"
  by (induction rs arbitrary: w) auto

lemma contiguous_last: "contiguous w rs \<Longrightarrow> rs \<noteq> [] \<Longrightarrow> ae_seq (last rs) = w + int (length rs)"
  by (induction rs arbitrary: w) auto

lemma latest_contiguous:
  assumes "contiguous w rs"
  shows "latest_by ae_seq rs = (if rs = [] then None else Some (last rs))"
proof (cases rs rule: rev_cases)
  case (snoc us r)
  with contiguous_sorted [OF assms] have "\<forall>x \<in> set us. ae_seq x < ae_seq r"
    by (simp add: sorted_wrt_append)
  with snoc latest_by_snoc_max [of us ae_seq r] show ?thesis by simp
qed simp

text \<open>Deleting up to an entry leaves what follows it.\<close>

lemma contiguous_delete:
  assumes "contiguous w (us @ b # vs)"
  shows "delete_where (\<lambda>r. ae_seq r \<le> ae_seq b) (us @ b # vs) = vs"
    and "count_where (\<lambda>r. ae_seq r \<le> ae_seq b) (us @ b # vs) = int (length us) + 1"
    and "contiguous (ae_seq b) vs"
proof -
  have s: "\<forall>r \<in> set us. ae_seq r < ae_seq b" "\<forall>r \<in> set vs. ae_seq b < ae_seq r"
    using contiguous_sorted [OF assms] by (auto simp: sorted_wrt_append)
  then have "filter (\<lambda>r. \<not> ae_seq r \<le> ae_seq b) us = []" "filter (\<lambda>r. \<not> ae_seq r \<le> ae_seq b) vs = vs"
    by (force simp: filter_empty_conv intro: filter_True)+
  then show "delete_where (\<lambda>r. ae_seq r \<le> ae_seq b) (us @ b # vs) = vs"
    by (simp add: delete_where_def)
  have "filter (\<lambda>r. ae_seq r \<le> ae_seq b) us = us" "filter (\<lambda>r. ae_seq r \<le> ae_seq b) vs = []"
    using s by (force intro: filter_True simp: filter_empty_conv)+
  then show "count_where (\<lambda>r. ae_seq r \<le> ae_seq b) (us @ b # vs) = int (length us) + 1"
    by (simp add: count_where_def)
  show "contiguous (ae_seq b) vs" using assms by (simp add: algebra_simps)
qed

subsection \<open>Reading a row back\<close>

lemma scan_sel [simp]:
  "ae_seq (scanAuditEntry r) = ae_seq r" "ae_hash (scanAuditEntry r) = ae_hash r"
  "ae_prev (scanAuditEntry r) = ae_prev r" "ae_salt (scanAuditEntry r) = ae_salt r"
  "ae_subject (scanAuditEntry r) = ae_subject r" "ae_tenant (scanAuditEntry r) = ae_tenant r"
  by (simp_all add: scanAuditEntry_def)

text \<open>An entry with a salt and a detail is read back as it was written.\<close>

lemma scan_written: "ae_detail r \<noteq> [] \<Longrightarrow> ae_salt r \<noteq> [] \<Longrightarrow> scanAuditEntry r = r"
  by (auto simp: scanAuditEntry_def)

text \<open>An erased row is read back as \<^verbatim>\<open>Erase\<close> leaves the entry in memory.\<close>

lemma scan_erased: "scanAuditEntry (erase_row r) = Erase r"
  by (simp add: scanAuditEntry_def erase_row_def Erase_def)

lemma Erase_scan [simp]: "Erase (scanAuditEntry r) = Erase r"
  by (simp add: scanAuditEntry_def Erase_def)

subsection \<open>The invariant\<close>

definition start_hash :: "(bytes \<Rightarrow> bytes) \<Rightarrow> tables \<Rightarrow> bytes" where
  "start_hash h t = (case last_checkpoint t of None \<Rightarrow> Genesis h | Some c \<Rightarrow> cp_hash c)"

definition attested :: "tables \<Rightarrow> checkpoint \<Rightarrow> bool" where
  "attested t c \<longleftrightarrow> (\<exists>r \<in> set (tb_audit t). ae_seq r = cp_audit_seq c \<and> ae_subject r = []
     \<and> MarkerAttestsCheckpoint (ae_detail r) (cp_seq c) (cp_hash c))"

definition audit_inv :: "(bytes \<Rightarrow> bytes) \<Rightarrow> tables \<Rightarrow> bool" where
  "audit_inv h t \<longleftrightarrow> contiguous (watermark t) (tb_audit t)
     \<and> chain_ok h (map scanAuditEntry (tb_audit t)) (start_hash h t)
     \<and> (\<forall>r \<in> set (tb_audit t). audit_row_ok r)
     \<and> (\<forall>c \<in> set (tb_checkpoints t). 0 < cp_seq c)
     \<and> (\<forall>c. last_checkpoint t = Some c \<longrightarrow> attested t c)"

lemma audit_inv_empty: "audit_inv h empty_tables"
  by (simp add: audit_inv_def empty_tables_def last_checkpoint_def)

lemma watermark_nonneg: "audit_inv h t \<Longrightarrow> 0 \<le> watermark t"
  by (auto simp: audit_inv_def watermark_def last_checkpoint_def split: option.splits
      dest!: latest_by_Some)

lemma audit_inv_seq_pos: "audit_inv h t \<Longrightarrow> r \<in> set (tb_audit t) \<Longrightarrow> 0 < ae_seq r"
  using watermark_nonneg [of h t] contiguous_bounds [of "watermark t" "tb_audit t" r]
  by (auto simp: audit_inv_def)

definition chain_head :: "(bytes \<Rightarrow> bytes) \<Rightarrow> tables \<Rightarrow> int \<times> bytes" where
  "chain_head h t = (case last_row t of
      Some e \<Rightarrow> (ae_seq e, ae_hash e)
    | None \<Rightarrow> (watermark t, start_hash h t))"

lemma chainHeadTx_Inr:
  "chainHeadTx h s = (Inr x, s') \<Longrightarrow> x = chain_head h (os_db s) \<and> os_db s' = os_db s"
  by (auto simp: chainHeadTx_def ret_def chain_head_def watermark_def start_hash_def
      split: option.splits elim!: bindp_query_Inr)

subsection \<open>Appending\<close>

lemma Prepare_Inr:
  assumes "Prepare h e seq prev s = (r, s')"
  obtains salt where "r = Inr (seal_entry h (e\<lparr>ae_time := truncate_micro (ae_time e), ae_salt := salt\<rparr>) seq prev)"
    "os_db s' = os_db s" "if ae_salt e = [] then length salt = SaltSize else salt = ae_salt e"
proof (cases "ae_salt e = []")
  case True
  with assms show thesis
    by (intro that [of "map (os_rand s) [0..<SaltSize]"])
      (auto simp: Prepare_def bindp_def ret_def NewSalt_def rand_read_def Let_def)
next
  case False
  then have "e\<lparr>ae_salt := ae_salt e\<rparr> = e" by simp
  with False assms show thesis
    by (intro that [of "ae_salt e"]) (auto simp: Prepare_def ret_def Let_def)
qed

lemma seal_sel [simp]:
  "ae_seq (seal_entry h e seq prev) = seq" "ae_prev (seal_entry h e seq prev) = prev"
  "ae_detail (seal_entry h e seq prev) = ae_detail e" "ae_salt (seal_entry h e seq prev) = ae_salt e"
  "ae_subject (seal_entry h e seq prev) = ae_subject e" "ae_tenant (seal_entry h e seq prev) = ae_tenant e"
  "ae_ip (seal_entry h e seq prev) = ae_ip e" "ae_time (seal_entry h e seq prev) = ae_time e"
  "ae_event (seal_entry h e seq prev) = ae_event e" "ae_actor_type (seal_entry h e seq prev) = ae_actor_type e"
  "ae_actor (seal_entry h e seq prev) = ae_actor e" "ae_rtype (seal_entry h e seq prev) = ae_rtype e"
  "ae_rid (seal_entry h e seq prev) = ae_rid e" "ae_outcome (seal_entry h e seq prev) = ae_outcome e"
  "ae_request (seal_entry h e seq prev) = ae_request e"
  by (simp_all add: seal_entry_def Let_def)

lemma seal_verifies:
  assumes "\<And>m. length (h m) = HashSize" and "length prev = HashSize" and "length (ae_salt e) = SaltSize"
  shows "VerifyEntry h (seal_entry h e seq prev) prev"
proof -
  let ?x = "e\<lparr>ae_seq := seq, ae_prev := prev\<rparr>"
  have pii: "pii_message (seal_entry h e seq prev) = pii_message ?x"
    and chain: "chain_message (seal_entry h e seq prev) prev
      = chain_message (?x\<lparr>ae_pii := PIIDigest h ?x\<rparr>) prev"
    by (simp_all add: pii_message_def chain_message_def seal_entry_def Let_def)
  then show ?thesis
    using assms unfolding VerifyEntry_iff personalFieldsVerify_iff ComputeHash_def PIIDigest_def pii chain
    by (simp add: seal_entry_def Let_def ComputeHash_def PIIDigest_def)
qed

text \<open>What the statements of \<open>chain_entry\<close> leave behind when they succeed.\<close>

definition written :: "(bytes \<Rightarrow> bytes) \<Rightarrow> audit_entry \<Rightarrow> tables \<Rightarrow> audit_entry \<Rightarrow> bool" where
  "written h e t e' \<longleftrightarrow> (\<exists>salt. (if ae_salt e = [] then length salt = SaltSize else salt = ae_salt e) \<and>
     e' = seal_entry h (e\<lparr>ae_time := truncate_micro (ae_time e), ae_salt := salt\<rparr>)
            (fst (chain_head h t) + 1) (snd (chain_head h t)))"

lemma chain_entry_Inr:
  assumes "chain_entry h e s = (Inr e', s')"
  shows "written h e (os_db s) e' \<and> audit_row_ok e' \<and>
    (\<forall>r \<in> set (tb_audit (os_db s)). ae_hash r \<noteq> ae_hash e') \<and>
    os_db s' = (os_db s)\<lparr>tb_audit := tb_audit (os_db s) @ [e']\<rparr>"
proof -
  let ?hd = "chain_head h (os_db s)"
  from assms obtain y s1 where y: "chainHeadTx h s = (Inr y, s1)"
    and run: "(case y of (lastSeq, prevHash) \<Rightarrow> bindp (Prepare h e (lastSeq + 1) prevHash)
         (\<lambda>e. bindp (exec map_error (audit_insert e)) (\<lambda>_. ret e))) s1 = (Inr e', s')"
    unfolding chain_entry_def bindp_Inr by blast
  from chainHeadTx_Inr [OF y] have db1: "os_db s1 = os_db s" and "y = ?hd" by auto
  with run have rest: "bindp (Prepare h e (fst ?hd + 1) (snd ?hd))
         (\<lambda>e. bindp (exec map_error (audit_insert e)) (\<lambda>_. ret e)) s1 = (Inr e', s')"
    by (simp add: case_prod_beta)
  from rest obtain x s2 where p: "Prepare h e (fst ?hd + 1) (snd ?hd) s1 = (Inr x, s2)"
    and ins: "bindp (exec map_error (audit_insert x)) (\<lambda>_. ret x) s2 = (Inr e', s')"
    unfolding bindp_Inr by blast
  obtain salt where
    x: "x = seal_entry h (e\<lparr>ae_time := truncate_micro (ae_time e), ae_salt := salt\<rparr>) (fst ?hd + 1) (snd ?hd)"
    and db2: "os_db s2 = os_db s1" and salt: "if ae_salt e = [] then length salt = SaltSize else salt = ae_salt e"
    by (rule Prepare_Inr [OF p]) auto
  from bindp_exec_Inr [OF ins] obtain u s3 where body: "audit_insert x (os_db s2) = Inr (u, os_db s3)"
    and rt: "ret x s3 = (Inr e', s')" by metis
  from rt have e': "e' = x" "s' = s3" by (simp_all add: ret_def)
  have "written h e (os_db s) x" unfolding written_def using x salt by blast
  with body db1 db2 e' show ?thesis
    by (auto simp: audit_insert_def insert_row_Inr split: if_splits sum.splits)
qed

text \<open>The fields \<^verbatim>\<open>Append\<close> fills in before it chains the entry, and what a successful one leaves behind.\<close>

definition append_defaults :: "instant \<Rightarrow> audit_entry \<Rightarrow> audit_entry" where
  "append_defaults wall e =
     (let e = (if ae_outcome e = [] then e\<lparr>ae_outcome := OutcomeSuccess\<rparr> else e);
          e = (if is_zero_time (ae_time e) then e\<lparr>ae_time := wall\<rparr> else e) in
      if length (ae_detail e) = 0 then e\<lparr>ae_detail := bytes_of ''{}''\<rparr> else e)"

lemma append_defaults_sel [simp]:
  "ae_tenant (append_defaults w e) = ae_tenant e" "ae_event (append_defaults w e) = ae_event e"
  "ae_actor_type (append_defaults w e) = ae_actor_type e" "ae_actor (append_defaults w e) = ae_actor e"
  "ae_subject (append_defaults w e) = ae_subject e" "ae_rtype (append_defaults w e) = ae_rtype e"
  "ae_rid (append_defaults w e) = ae_rid e" "ae_ip (append_defaults w e) = ae_ip e"
  "ae_request (append_defaults w e) = ae_request e" "ae_salt (append_defaults w e) = ae_salt e"
  "ae_outcome (append_defaults w e) = (if ae_outcome e = [] then OutcomeSuccess else ae_outcome e)"
  "ae_time (append_defaults w e) = (if is_zero_time (ae_time e) then w else ae_time e)"
  "ae_detail (append_defaults w e) = (if ae_detail e = [] then bytes_of ''{}'' else ae_detail e)"
  by (simp_all add: append_defaults_def Let_def)

lemma Append_unfold:
  "Append h e s =
     (if ae_tenant e = [] then (Inl (OtherErr ''sqlite: audit entry requires a tenant''), s)
      else if ae_event e = [] then (Inl (OtherErr ''sqlite: audit entry requires an event type''), s)
      else in_tx (chain_entry h (append_defaults (os_wall s) e)) s)"
  by (simp add: Append_def failp_def bindp_def wall_clock_def append_defaults_def Let_def)

lemma Append_Inl: "Append h e s = (Inl er, s') \<Longrightarrow> os_db s' = os_db s"
  by (auto simp: Append_unfold split: if_splits dest: in_tx_Inl)

lemma Append_Inr:
  assumes "Append h e s = (Inr x, s')"
  shows "ae_tenant e \<noteq> [] \<and> ae_event e \<noteq> [] \<and> audit_row_ok x
    \<and> written h (append_defaults (os_wall s) e) (os_db s) x
    \<and> os_db s' = (os_db s)\<lparr>tb_audit := tb_audit (os_db s) @ [x]\<rparr>"
proof -
  from assms have ne: "ae_tenant e \<noteq> []" "ae_event e \<noteq> []"
    and tx: "in_tx (chain_entry h (append_defaults (os_wall s) e)) s = (Inr x, s')"
    by (auto simp: Append_unfold split: if_splits)
  from tx obtain s1 s2 where db1: "os_db s1 = os_db s" and "os_wall s1 = os_wall s" and "os_rand s1 = os_rand s"
    and ce: "chain_entry h (append_defaults (os_wall s) e) s1 = (Inr x, s2)" and db2: "os_db s' = os_db s2"
    and "os_wall s' = os_wall s2"
    by (rule in_tx_Inr)
  from chain_entry_Inr [OF ce] ne db1 db2 show ?thesis by simp
qed

lemma written_sel:
  assumes "written h e t e'"
  shows "ae_seq e' = fst (chain_head h t) + 1" "ae_prev e' = snd (chain_head h t)"
    "ae_detail e' = ae_detail e" "ae_subject e' = ae_subject e" "ae_tenant e' = ae_tenant e"
  using assms by (auto simp: written_def)

lemma written_verifies:
  assumes "written h e t e'" and "\<And>m. length (h m) = HashSize" and "length (snd (chain_head h t)) = HashSize"
    and "ae_salt e = [] \<or> length (ae_salt e) = SaltSize" and "ae_detail e \<noteq> []"
  shows "VerifyEntry h (scanAuditEntry e') (snd (chain_head h t))"
proof -
  from assms(1) obtain salt where salt: "if ae_salt e = [] then length salt = SaltSize else salt = ae_salt e"
    and e': "e' = seal_entry h (e\<lparr>ae_time := truncate_micro (ae_time e), ae_salt := salt\<rparr>)
            (fst (chain_head h t) + 1) (snd (chain_head h t))"
    by (auto simp: written_def)
  from salt assms(4) have len: "length salt = SaltSize" by (auto split: if_splits)
  then have "scanAuditEntry e' = e'"
    using assms(5) by (intro scan_written) (auto simp: e' SaltSize_def)
  moreover have "VerifyEntry h e' (snd (chain_head h t))"
    unfolding e' using assms(2,3) len by (intro seal_verifies) simp_all
  ultimately show ?thesis by simp
qed

lemma audit_field_simps [simp]:
  "last_checkpoint (t\<lparr>tb_audit := x\<rparr>) = last_checkpoint t" "watermark (t\<lparr>tb_audit := x\<rparr>) = watermark t"
  "start_hash h (t\<lparr>tb_audit := x\<rparr>) = start_hash h t"
  by (simp_all add: last_checkpoint_def watermark_def start_hash_def)

lemma start_hash_length:
  assumes "audit_inv h t" and "\<And>m. length (h m) = HashSize"
  shows "length (start_hash h t) = HashSize"
  using assms by (auto simp: start_hash_def audit_inv_def attested_def Genesis_def MarkerAttestsCheckpoint_def
      split: option.splits if_splits)

lemma chain_ok_head_length:
  "chain_ok h es prev \<Longrightarrow> length prev = HashSize \<Longrightarrow> length (head_hash prev es) = HashSize"
  by (cases es rule: rev_cases) (auto simp: VerifyEntry_iff)

lemma chain_head_inv:
  assumes "audit_inv h t"
  shows "chain_head h t = (watermark t + int (length (tb_audit t)),
           head_hash (start_hash h t) (map scanAuditEntry (tb_audit t)))"
proof -
  have c: "contiguous (watermark t) (tb_audit t)" using assms by (simp add: audit_inv_def)
  then show ?thesis
    by (auto simp: chain_head_def last_row_def latest_contiguous [OF c] contiguous_last head_hash_def last_map)
qed

text \<open>An entry that has been written extends the chain.\<close>

lemma written_inv:
  assumes inv: "audit_inv h t" and h: "\<And>m. length (h m) = HashSize"
    and w: "written h e t e'" and ok: "audit_row_ok e'"
    and salt: "ae_salt e = [] \<or> length (ae_salt e) = SaltSize" and det: "ae_detail e \<noteq> []"
  shows "audit_inv h (t\<lparr>tb_audit := tb_audit t @ [e']\<rparr>)"
proof -
  note hd = chain_head_inv [OF inv]
  have chain: "chain_ok h (map scanAuditEntry (tb_audit t)) (start_hash h t)"
    using inv by (simp add: audit_inv_def)
  have "length (snd (chain_head h t)) = HashSize"
    using chain_ok_head_length [OF chain start_hash_length [OF inv h]] by (simp add: hd)
  from written_verifies [OF w h this salt det]
  have "VerifyEntry h (scanAuditEntry e') (head_hash (start_hash h t) (map scanAuditEntry (tb_audit t)))"
    by (simp add: hd)
  moreover have "ae_seq e' = watermark t + int (length (tb_audit t)) + 1"
    using written_sel(1) [OF w] by (simp add: hd)
  moreover have "attested (t\<lparr>tb_audit := tb_audit t @ [e']\<rparr>) c" if "attested t c" for c
    using that by (auto simp: attested_def)
  ultimately show ?thesis
    using inv chain ok by (auto simp: audit_inv_def)
qed

lemma keeps_Append:
  assumes h: "\<And>m. length (h m) = HashSize" and salt: "ae_salt e = [] \<or> length (ae_salt e) = SaltSize"
  shows "keeps (audit_inv h) (Append h e)"
proof -
  have entry: "keeps (audit_inv h) (in_tx (chain_entry h x))"
    if "ae_salt x = ae_salt e" and "ae_detail x \<noteq> []" for x
  proof (rule keeps_in_tx)
    fix s y s' assume run: "chain_entry h x s = (Inr y, s')" and inv: "audit_inv h (os_db s)"
    with chain_entry_Inr [OF run] that salt show "audit_inv h (os_db s')"
      using written_inv [OF inv h, of x y] by simp
  qed
  show ?thesis
    unfolding Append_def Let_def
    by (intro keeps_if keeps_failp keeps_bindp keeps_wall_clock entry) simp_all
qed

subsection \<open>Erasing\<close>

lemma erase_row_sel [simp]:
  "ae_seq (erase_row r) = ae_seq r" "ae_hash (erase_row r) = ae_hash r" "audit_row_ok (erase_row r) = audit_row_ok r"
  by (simp_all add: erase_row_def audit_row_ok_def)

lemma update_guard_erase_row: "update_guard r (erase_row r) \<longleftrightarrow> ae_salt r \<noteq> []"
  by (simp add: update_guard_def erase_row_def)

definition erase_target :: "string \<Rightarrow> string \<Rightarrow> audit_entry \<Rightarrow> bool" where
  "erase_target tenantID subjectID r \<longleftrightarrow>
     ae_tenant r = tenantID \<and> ae_subject r = subjectID \<and> ae_salt r \<noteq> []"

lemma erase_statement:
  "audit_update (erase_target tenantID subjectID) erase_row t =
     Inr (count_where (erase_target tenantID subjectID) (tb_audit t),
          t\<lparr>tb_audit := update_where (erase_target tenantID subjectID) erase_row (tb_audit t)\<rparr>)"
  by (auto simp: audit_update_def list_ex_iff update_guard_erase_row erase_target_def)

lemma map_scan_erased:
  "map scanAuditEntry (update_where (erase_target tenantID subjectID) erase_row rows) =
   map (\<lambda>x. if erase_target tenantID subjectID x then Erase x else x) (map scanAuditEntry rows)"
  by (induction rows) (auto simp: scan_erased erase_target_def)

lemma erased_inv:
  assumes inv: "audit_inv h t" and sj: "subjectID \<noteq> []"
  shows "audit_inv h (t\<lparr>tb_audit := update_where (erase_target tenantID subjectID) erase_row (tb_audit t)\<rparr>)"
    (is "audit_inv h ?t'")
proof -
  let ?p = "erase_target tenantID subjectID"
  have "contiguous (watermark t) (update_where ?p erase_row (tb_audit t))"
    using inv contiguous_map [of "tb_audit t" "\<lambda>r. if ?p r then erase_row r else r"]
    by (simp add: audit_inv_def update_where_def)
  moreover have "chain_ok h (map scanAuditEntry (update_where ?p erase_row (tb_audit t))) (start_hash h t)"
    unfolding map_scan_erased
    by (rule chain_ok_map) (use inv in \<open>auto simp: audit_inv_def intro: VerifyEntry_Erase split: if_splits\<close>)
  moreover have "attested ?t' c" if att: "attested t c" for c
  proof -
    from att obtain r where r: "r \<in> set (tb_audit t)" "ae_seq r = cp_audit_seq c" "ae_subject r = []"
      "MarkerAttestsCheckpoint (ae_detail r) (cp_seq c) (cp_hash c)"
      by (auto simp: attested_def)
    with sj have "\<not> ?p r" by (auto simp: erase_target_def)
    with r show ?thesis by (auto simp: attested_def set_update_where)
  qed
  moreover have "\<forall>r \<in> set (tb_audit ?t'). audit_row_ok r"
    using inv by (auto simp: audit_inv_def set_update_where)
  ultimately show ?thesis
    using inv by (simp add: audit_inv_def)
qed

lemma keeps_EraseSubjectAuditEntries:
  assumes h: "\<And>m. length (h m) = HashSize"
  shows "keeps (audit_inv h) (EraseSubjectAuditEntries h tenantID subjectID actorID now)"
proof (cases "tenantID = [] \<or> subjectID = []")
  case True
  then show ?thesis by (simp add: EraseSubjectAuditEntries_def keeps_failp)
next
  case False
  let ?p = "erase_target tenantID subjectID"
  have "keeps (audit_inv h) (in_tx (bindp (exec map_error (audit_update ?p erase_row))
      (\<lambda>n. bindp (chain_entry h (tombstone tenantID subjectID actorID now n)) (\<lambda>_. ret n))))"
  proof (rule keeps_in_tx)
    fix s n s'
    assume run: "bindp (exec map_error (audit_update ?p erase_row))
      (\<lambda>n. bindp (chain_entry h (tombstone tenantID subjectID actorID now n)) (\<lambda>_. ret n)) s = (Inr n, s')"
      and inv: "audit_inv h (os_db s)"
    from run obtain k s1 where st: "audit_update ?p erase_row (os_db s) = Inr (k, os_db s1)"
      and rest: "bindp (chain_entry h (tombstone tenantID subjectID actorID now k)) (\<lambda>_. ret k) s1 = (Inr n, s')"
      by (rule bindp_exec_Inr)
    from rest obtain e where ce: "chain_entry h (tombstone tenantID subjectID actorID now k) s1 = (Inr e, s')"
      by (auto simp: bindp_Inr ret_def)
    have inv1: "audit_inv h (os_db s1)"
      using st False erased_inv [OF inv, of subjectID tenantID] by (simp add: erase_statement)
    show "audit_inv h (os_db s')"
      using chain_entry_Inr [OF ce] written_inv [OF inv1 h, of "tombstone tenantID subjectID actorID now k" e]
      by (simp add: tombstone_def)
  qed
  with False show ?thesis by (simp add: EraseSubjectAuditEntries_def erase_target_def [abs_def])
qed

subsection \<open>Trimming\<close>

text \<open>The guards of the checkpoint table accept the checkpoint of an honest trim.\<close>

lemma marker_guard_honest:
  assumes "m \<in> set rows" and "ae_seq m = cp_audit_seq c" and "ae_detail m = PruneMarkerDetail (cp_seq c) (cp_hash c) k"
    and "min_int64 \<le> cp_seq c" and "cp_seq c \<le> max_int64"
  shows "marker_guard c rows"
  using assms by (auto simp: marker_guard_def list_ex_iff json_extract_def sql_is_int_def PruneMarkerDetail_def
      parse_marker PruneAction_def parse_int64_decimal intro!: bexI [of _ m])

lemma checkpoint_insert_Inr:
  "checkpoint_insert c t = Inr (u, t') \<Longrightarrow>
     t' = t\<lparr>tb_checkpoints := tb_checkpoints t @ [c]\<rparr> \<and> 0 < cp_seq c \<and> boundary_guard c (tb_audit t)"
  by (auto simp: checkpoint_insert_def insert_row_Inr split: if_splits sum.splits)

lemma last_checkpoint_snoc:
  assumes "\<forall>c' \<in> set (tb_checkpoints t). cp_seq c' < cp_seq c"
  shows "last_checkpoint (t\<lparr>tb_checkpoints := tb_checkpoints t @ [c], tb_audit := x\<rparr>) = Some c"
  using latest_by_snoc_max [OF assms] by (simp add: last_checkpoint_def)

lemma watermark_max: "c \<in> set (tb_checkpoints t) \<Longrightarrow> cp_seq c \<le> watermark t"
  using latest_by_None [of cp_seq "tb_checkpoints t"]
  by (auto simp: watermark_def last_checkpoint_def split: option.splits dest: latest_by_Some)

text \<open>The tables after a trim at the entry \<open>b\<close>, with the marker \<open>m\<close> and the checkpoint \<open>c\<close>.\<close>

definition trimmed :: "tables \<Rightarrow> audit_entry \<Rightarrow> checkpoint \<Rightarrow> audit_entry list \<Rightarrow> tables" where
  "trimmed t m c vs = t\<lparr>tb_checkpoints := tb_checkpoints t @ [c], tb_audit := vs @ [m]\<rparr>"

lemma trimmed_inv:
  assumes inv: "audit_inv h (t\<lparr>tb_audit := us @ b # vs @ [m]\<rparr>)"
    and c: "cp_seq c = ae_seq b" "cp_hash c = ae_hash b" "cp_audit_seq c = ae_seq m"
    and m: "ae_subject m = []" "ae_detail m = PruneMarkerDetail (ae_seq b) (ae_hash b) k"
  shows "audit_inv h (trimmed t m c vs)"
proof -
  let ?t1 = "t\<lparr>tb_audit := us @ b # vs @ [m]\<rparr>"
  have cont: "contiguous (watermark t) (us @ b # vs @ [m])"
    and chain: "chain_ok h (map scanAuditEntry (us @ b # vs @ [m])) (start_hash h t)"
    and ok: "\<forall>r \<in> set (us @ b # vs @ [m]). audit_row_ok r"
    and pos: "\<forall>c \<in> set (tb_checkpoints t). 0 < cp_seq c"
    using inv by (simp_all add: audit_inv_def)
  have above: "watermark t < ae_seq b" using contiguous_bounds [OF cont, of b] by simp
  then have "\<forall>c' \<in> set (tb_checkpoints t). cp_seq c' < cp_seq c"
    using watermark_max [of _ t] c(1) by fastforce
  then have last: "last_checkpoint (trimmed t m c vs) = Some c"
    unfolding trimmed_def by (rule last_checkpoint_snoc)
  have hb: "length (ae_hash b) = HashSize"
    using chain by (simp add: VerifyEntry_iff)
  have bnd: "0 < ae_seq b" "ae_seq b \<le> max_int64"
    using audit_inv_seq_pos [OF inv, of b] ok by (auto simp: audit_row_ok_def)
  have "attested (trimmed t m c vs) c"
    unfolding attested_def trimmed_def
    using c m hb bnd by (auto simp: marker_attests min_int64_def)
  moreover have "contiguous (watermark (trimmed t m c vs)) (vs @ [m])"
    using contiguous_delete(3) [OF cont [simplified append_Cons]] last c(1)
    by (simp add: watermark_def)
  moreover have "chain_ok h (map scanAuditEntry (vs @ [m])) (start_hash h (trimmed t m c vs))"
    using chain last c(2) by (simp add: start_hash_def)
  ultimately show ?thesis
    using ok pos c(1) bnd(1) last by (auto simp: audit_inv_def trimmed_def)
qed

lemma prune_at_Inr:
  assumes run: "prune_at h tenantID now b s = (Inr n, s')" and inv: "audit_inv h (os_db s)"
    and rows: "tb_audit (os_db s) = us @ b # vs"
  shows "n = int (length us) + 1 \<and> (\<exists>m c.
      written h (prune_marker tenantID now (ae_seq b) (ae_hash b) n) (os_db s) m \<and> audit_row_ok m
      \<and> cp_seq c = ae_seq b \<and> cp_hash c = ae_hash b \<and> cp_audit_seq c = ae_seq m \<and> cp_removed c = n
      \<and> os_db s' = trimmed (os_db s) m c vs)"
proof -
  let ?t = "os_db s" and ?n = "int (length us) + 1"
  let ?mk = "prune_marker tenantID now (ae_seq b) (ae_hash b) ?n"
  have cont: "contiguous (watermark ?t) (us @ b # vs)" using inv rows by (simp add: audit_inv_def)
  have cnt: "count_where (\<lambda>r. ae_seq r \<le> ae_seq b) (tb_audit ?t) = ?n"
    unfolding rows by (rule contiguous_delete(2) [OF cont])
  from run [unfolded prune_at_def Let_def] obtain s1 where db1: "os_db s1 = ?t" and wl: "os_wall s1 = os_wall s" and rest:
    "bindp (chain_entry h (prune_marker tenantID now (ae_seq b) (ae_hash b)
        (count_where (\<lambda>r. ae_seq r \<le> ae_seq b) (tb_audit ?t)))) (\<lambda>marker. bindp uuid_new (\<lambda>cpID.
       bindp (exec map_error (checkpoint_insert
           \<lparr>cp_id = cpID, cp_tenant = tenantID, cp_seq = ae_seq b, cp_hash = ae_hash b,
            cp_removed = count_where (\<lambda>r. ae_seq r \<le> ae_seq b) (tb_audit ?t),
            cp_audit_seq = ae_seq marker, cp_created = now\<rparr>)) (\<lambda>_.
       exec map_error (audit_delete (\<lambda>r. ae_seq r \<le> ae_seq b))))) s1 = (Inr n, s')"
    by (rule bindp_query_Inr)
  from rest [unfolded cnt bindp_Inr [of "chain_entry h ?mk"]] obtain m s2 where ce: "chain_entry h ?mk s1 = (Inr m, s2)" and rest2:
    "bindp uuid_new (\<lambda>cpID.
       bindp (exec map_error (checkpoint_insert
           \<lparr>cp_id = cpID, cp_tenant = tenantID, cp_seq = ae_seq b, cp_hash = ae_hash b,
            cp_removed = ?n, cp_audit_seq = ae_seq m, cp_created = now\<rparr>)) (\<lambda>_.
       exec map_error (audit_delete (\<lambda>r. ae_seq r \<le> ae_seq b)))) s2 = (Inr n, s')"
    by blast
  from chain_entry_Inr [OF ce] db1 have w: "written h ?mk ?t m" and ok: "audit_row_ok m"
    and db2: "os_db s2 = ?t\<lparr>tb_audit := us @ b # vs @ [m]\<rparr>" by (simp_all add: rows)
  define c where "c = \<lparr>cp_id = os_uuids s2 0, cp_tenant = tenantID, cp_seq = ae_seq b, cp_hash = ae_hash b,
            cp_removed = ?n, cp_audit_seq = ae_seq m, cp_created = now\<rparr>"
  define s3 where "s3 = s2\<lparr>os_uuids := \<lambda>i. os_uuids s2 (Suc i)\<rparr>"
  have db3: "os_db s3 = os_db s2" by (simp add: s3_def)
  from rest2 have rest3: "bindp (exec map_error (checkpoint_insert c)) (\<lambda>_.
       exec map_error (audit_delete (\<lambda>r. ae_seq r \<le> ae_seq b))) s3 = (Inr n, s')"
    by (simp add: bindp_def [of uuid_new] uuid_new_def c_def s3_def)
  from rest3 obtain u s4 where ci: "checkpoint_insert c (os_db s3) = Inr (u, os_db s4)"
    and wl4: "os_wall s4 = os_wall s3"
    and del: "exec map_error (audit_delete (\<lambda>r. ae_seq r \<le> ae_seq b)) s4 = (Inr n, s')"
    by (rule bindp_exec_Inr)
  have "contiguous (watermark ?t) (us @ b # vs @ [m])"
    using cont written_sel(1) [OF w] chain_head_inv [OF inv] rows by simp
  note del_facts = contiguous_delete [OF this]
  have db4: "os_db s4 = ?t\<lparr>tb_audit := us @ b # vs @ [m], tb_checkpoints := tb_checkpoints ?t @ [c]\<rparr>"
    using checkpoint_insert_Inr [OF ci] db2 db3 by simp
  from exec_Inr [OF del] have "audit_delete (\<lambda>r. ae_seq r \<le> ae_seq b) (os_db s4) = Inr (n, os_db s')" by simp
  then have "n = ?n" and "os_db s' = trimmed ?t m c vs"
    using del_facts(1,2) unfolding db4 audit_delete_def trimmed_def by (auto split: if_splits)
  moreover have "cp_seq c = ae_seq b" "cp_hash c = ae_hash b" "cp_audit_seq c = ae_seq m" "cp_removed c = ?n"
    by (simp_all add: c_def)
  ultimately show ?thesis using w ok by blast
qed

text \<open>Under the invariant the trim removes exactly the longest old prefix.\<close>

lemma latest_neg_sorted:
  "sorted_wrt (\<lambda>a b. ae_seq a < ae_seq b) rs \<Longrightarrow>
     latest_by (\<lambda>r. - ae_seq r) rs = (case rs of [] \<Rightarrow> None | r # _ \<Rightarrow> Some r)"
  by (induction rs) (auto split: list.splits)

lemma sorted_prefix:
  assumes "sorted_wrt (\<lambda>a b. ae_seq a < ae_seq b) rs"
  shows "case filter Q rs of [] \<Rightarrow> takeWhile (\<lambda>r. \<not> Q r) rs = rs
    | k # _ \<Rightarrow> filter (\<lambda>r. ae_seq r < ae_seq k) rs = takeWhile (\<lambda>r. \<not> Q r) rs"
  using assms
proof (induction rs)
  case (Cons r rs)
  show ?case
  proof (cases "Q r")
    case True
    have "filter (\<lambda>x. ae_seq x < ae_seq r) rs = []"
      using Cons.prems by (force simp: filter_empty_conv)
    with True show ?thesis by simp
  next
    case False
    show ?thesis
    proof (cases "filter Q rs")
      case Nil
      with False Cons show ?thesis by simp
    next
      case (Cons k ks)
      then have "k \<in> set rs" using filter_eq_ConsD by (metis in_set_conv_decomp)
      with False Cons Cons.IH Cons.prems show ?thesis by auto
    qed
  qed
qed simp

lemma prefix_below_first_kept:
  assumes cont: "contiguous w (tb_audit t)" and big: "\<forall>r \<in> set (tb_audit t). ae_seq r < max_int64"
  shows "filter (\<lambda>r. ae_seq r < first_kept cutoff t) (tb_audit t) = takeWhile (\<lambda>r. ae_time r < cutoff) (tb_audit t)"
proof -
  note s = contiguous_sorted [OF cont]
  let ?f = "filter (\<lambda>r. ae_time r \<ge> cutoff) (tb_audit t)"
  have sf: "sorted_wrt (\<lambda>a b. ae_seq a < ae_seq b) ?f" using s by (rule sorted_wrt_filter)
  have tw: "takeWhile (\<lambda>r. \<not> ae_time r \<ge> cutoff) (tb_audit t) = takeWhile (\<lambda>r. ae_time r < cutoff) (tb_audit t)"
    by (rule takeWhile_cong) auto
  show ?thesis
    using sorted_prefix [OF s, of "\<lambda>r. ae_time r \<ge> cutoff"] latest_neg_sorted [OF sf] big
    by (auto simp: first_kept_def tw filter_id_conv split: list.splits) (metis takeWhile_eq_all_conv)
qed

lemma PruneAuditLog_Inr:
  assumes run: "PruneAuditLog h tenantID cutoff now s = (Inr n, s')" and inv: "audit_inv h (os_db s)"
  shows "case latest_by ae_seq (filter (\<lambda>r. ae_seq r < first_kept cutoff (os_db s)) (tb_audit (os_db s))) of
      None \<Rightarrow> n = 0 \<and> os_db s' = os_db s
    | Some b \<Rightarrow> (\<exists>us vs m c. tb_audit (os_db s) = us @ b # vs \<and> n = int (length us) + 1
        \<and> written h (prune_marker tenantID now (ae_seq b) (ae_hash b) n) (os_db s) m \<and> audit_row_ok m
        \<and> cp_seq c = ae_seq b \<and> cp_hash c = ae_hash b \<and> cp_audit_seq c = ae_seq m \<and> cp_removed c = n
        \<and> os_db s' = trimmed (os_db s) m c vs)"
proof -
  let ?b = "latest_by ae_seq (filter (\<lambda>r. ae_seq r < first_kept cutoff (os_db s)) (tb_audit (os_db s)))"
  from run [unfolded PruneAuditLog_def] obtain s1 s2 where db1: "os_db s1 = os_db s"
    and "os_wall s1 = os_wall s" "os_rand s1 = os_rand s"
    and body: "bindp (query raw_error (first_kept cutoff)) (\<lambda>keepFrom.
       bindp (query raw_error (\<lambda>t. latest_by ae_seq (filter (\<lambda>r. ae_seq r < keepFrom) (tb_audit t))))
         (\<lambda>boundary. case boundary of None \<Rightarrow> ret 0 | Some b \<Rightarrow> prune_at h tenantID now b)) s1 = (Inr n, s2)"
    and db': "os_db s' = os_db s2" and "os_wall s' = os_wall s2"
    by (rule in_tx_Inr)
  from body db1 obtain s3 where db3: "os_db s3 = os_db s"
    and at: "(case ?b of None \<Rightarrow> ret 0 | Some b \<Rightarrow> prune_at h tenantID now b) s3 = (Inr n, s2)"
    by (auto elim!: bindp_query_Inr)
  show ?thesis
  proof (cases ?b)
    case None
    with at db' db3 show ?thesis by (simp add: ret_def)
  next
    case (Some b)
    then obtain us vs where rows: "tb_audit (os_db s3) = us @ b # vs"
      using latest_by_Some [OF Some] db3 by (auto dest: split_list)
    with prune_at_Inr [of h tenantID now b s3 n s2 us vs] at Some inv db3 db' show ?thesis by auto
  qed
qed

lemma trimmed_by_run:
  assumes inv: "audit_inv h t" and h: "\<And>m. length (h m) = HashSize"
    and rows: "tb_audit t = us @ b # vs"
    and w: "written h (prune_marker tenantID now (ae_seq b) (ae_hash b) k) t m" "audit_row_ok m"
    and c: "cp_seq c = ae_seq b" "cp_hash c = ae_hash b" "cp_audit_seq c = ae_seq m"
  shows "audit_inv h (trimmed t m c vs)"
proof (rule trimmed_inv [OF _ c])
  have "ae_detail (prune_marker tenantID now (ae_seq b) (ae_hash b) k) \<noteq> []"
    by (simp add: prune_marker_def PruneMarkerDetail_def prune_marker_text_def)
  from written_inv [OF inv h w _ this] show "audit_inv h (t\<lparr>tb_audit := us @ b # vs @ [m]\<rparr>)"
    by (simp add: rows prune_marker_def)
  show "ae_subject m = []" "ae_detail m = PruneMarkerDetail (ae_seq b) (ae_hash b) k"
    using written_sel(3,4) [OF w(1)] by (simp_all add: prune_marker_def)
qed

lemma keeps_PruneAuditLog:
  assumes h: "\<And>m. length (h m) = HashSize"
  shows "keeps (audit_inv h) (PruneAuditLog h tenantID cutoff now)"
  unfolding keeps_def
proof (intro allI impI)
  fix s r s' assume run: "PruneAuditLog h tenantID cutoff now s = (r, s')" and inv: "audit_inv h (os_db s)"
  show "audit_inv h (os_db s')"
  proof (cases r)
    case (Inl e)
    with run inv show ?thesis by (auto simp: PruneAuditLog_def dest: in_tx_Inl)
  next
    case (Inr n)
    with run have "PruneAuditLog h tenantID cutoff now s = (Inr n, s')" by simp
    from PruneAuditLog_Inr [OF this inv] show ?thesis
      using inv trimmed_by_run [OF inv h] by (auto split: option.splits)
  qed
qed

subsection \<open>Appending when the engine answers\<close>

lemma chainHeadTx_ok: "os_faults s = [] \<Longrightarrow> chainHeadTx h s = (Inr (chain_head h (os_db s)), s)"
  by (simp add: chainHeadTx_def chain_head_def watermark_def start_hash_def bindp_def query_ok ret_def
      split: option.split)

definition sealed_with :: "(bytes \<Rightarrow> bytes) \<Rightarrow> (nat \<Rightarrow> byte) \<Rightarrow> audit_entry \<Rightarrow> tables \<Rightarrow> audit_entry" where
  "sealed_with h rnd e t = seal_entry h
     (e\<lparr>ae_time := truncate_micro (ae_time e),
        ae_salt := (if ae_salt e = [] then map rnd [0..<SaltSize] else ae_salt e)\<rparr>)
     (fst (chain_head h t) + 1) (snd (chain_head h t))"

lemma Prepare_eq:
  "Prepare h e (fst (chain_head h t) + 1) (snd (chain_head h t)) s =
     (Inr (sealed_with h (os_rand s) e t),
      if ae_salt e = [] then s\<lparr>os_rand := (\<lambda>i. os_rand s (i + SaltSize))\<rparr> else s)"
proof -
  have "ae_salt e \<noteq> [] \<Longrightarrow> e\<lparr>ae_salt := ae_salt e\<rparr> = e" by simp
  then show ?thesis
    by (auto simp: Prepare_def sealed_with_def NewSalt_def rand_read_def bindp_def ret_def Let_def)
qed

lemma chain_entry_ok:
  assumes "os_faults s = []"
  shows "chain_entry h e s =
    (let e' = sealed_with h (os_rand s) e (os_db s);
         s1 = (if ae_salt e = [] then s\<lparr>os_rand := (\<lambda>i. os_rand s (i + SaltSize))\<rparr> else s) in
     case audit_insert e' (os_db s) of
       Inl er \<Rightarrow> (Inl (map_error er), s1)
     | Inr (_, t) \<Rightarrow> (Inr e', s1\<lparr>os_db := t\<rparr>))"
  using assms
  by (auto simp: chain_entry_def bindp_def chainHeadTx_ok case_prod_beta Prepare_eq exec_ok ret_def Let_def
      split: sum.splits)

text \<open>An append succeeds unless the new hash equals one already in the log.\<close>

lemma Append_ok:
  assumes "os_faults s = []" and "ae_tenant e \<noteq> []" and "ae_event e \<noteq> []"
    and "ae_outcome e \<noteq> []" and "\<not> is_zero_time (ae_time e)" and "ae_detail e \<noteq> []" and "ae_salt e = []"
    and "audit_insert (sealed_with h (os_rand s) e (os_db s)) (os_db s) = Inr (u, t)"
  shows "Append h e s = (Inr (sealed_with h (os_rand s) e (os_db s)),
      s\<lparr>os_rand := (\<lambda>i. os_rand s (i + SaltSize)), os_db := t\<rparr>)"
  using assms by (simp add: Append_def bindp_def wall_clock_def in_tx_ok chain_entry_ok Let_def)

lemma erase_ok:
  assumes "os_faults s = []" and "tenantID \<noteq> []" and "subjectID \<noteq> []"
  shows "EraseSubjectAuditEntries h tenantID subjectID actorID now s =
    (let p = erase_target tenantID subjectID; n = count_where p (tb_audit (os_db s));
         t1 = (os_db s)\<lparr>tb_audit := update_where p erase_row (tb_audit (os_db s))\<rparr>;
         e' = sealed_with h (os_rand s) (tombstone tenantID subjectID actorID now n) t1;
         s1 = s\<lparr>os_rand := (\<lambda>i. os_rand s (i + SaltSize))\<rparr> in
     case audit_insert e' t1 of
       Inl er \<Rightarrow> (Inl (map_error er), s1)
     | Inr (_, t) \<Rightarrow> (Inr n, s1\<lparr>os_db := t\<rparr>))"
proof -
  have "audit_update (\<lambda>r. ae_tenant r = tenantID \<and> ae_subject r = subjectID \<and> ae_salt r \<noteq> []) erase_row t
      = audit_update (erase_target tenantID subjectID) erase_row t" for t
    by (simp add: erase_target_def [abs_def])
  moreover have "ae_salt (tombstone a b c d e) = []" for a b c d e by (simp add: tombstone_def)
  ultimately show ?thesis
    using assms by (auto simp: EraseSubjectAuditEntries_def bindp_def in_tx_ok exec_ok erase_statement
        chain_entry_ok ret_def rollback_def Let_def split: sum.splits)
qed

text \<open>The guards of the two tables never refuse an honest trim.\<close>

lemma prune_at_ok:
  assumes ok: "os_faults s = []" and inv: "audit_inv h (os_db s)" and rows: "tb_audit (os_db s) = us @ b # vs"
    and m: "m = sealed_with h (os_rand s) (prune_marker tenantID now (ae_seq b) (ae_hash b) (int (length us) + 1)) (os_db s)"
    and ins: "audit_insert m (os_db s) = Inr (u, t)"
    and fresh: "\<forall>c \<in> set (tb_checkpoints (os_db s)). cp_id c \<noteq> os_uuids s 0"
  shows "\<exists>s'. prune_at h tenantID now b s = (Inr (int (length us) + 1), s') \<and> os_faults s' = []"
proof -
  let ?t = "os_db s"
  let ?c = "\<lparr>cp_id = os_uuids s 0, cp_tenant = tenantID, cp_seq = ae_seq b, cp_hash = ae_hash b,
     cp_removed = int (length us) + 1, cp_audit_seq = ae_seq m, cp_created = now\<rparr>"
  have cont: "contiguous (watermark ?t) (us @ b # vs)" and rok: "audit_row_ok b"
    using inv rows by (simp_all add: audit_inv_def)
  have t: "t = ?t\<lparr>tb_audit := us @ b # vs @ [m]\<rparr>" and mok: "audit_row_ok m"
    using ins rows by (auto simp: audit_insert_def insert_row_Inr split: if_splits sum.splits)
  have mseq: "ae_seq m = fst (chain_head h ?t) + 1" and mdet:
    "ae_detail m = PruneMarkerDetail (ae_seq b) (ae_hash b) (int (length us) + 1)"
    by (simp_all add: m sealed_with_def prune_marker_def)
  have cont': "contiguous (watermark ?t) (us @ b # vs @ [m])"
    using cont mseq rows by (simp add: chain_head_inv [OF inv])
  note del = contiguous_delete [OF cont']
  have pos: "0 < ae_seq b" "ae_seq b \<le> max_int64"
    using audit_inv_seq_pos [OF inv, of b] rok rows by (simp_all add: audit_row_ok_def)
  have above: "\<forall>c \<in> set (tb_checkpoints ?t). cp_seq c < ae_seq b"
    using contiguous_bounds [OF cont, of b] watermark_max [of _ ?t] by fastforce
  have "marker_guard ?c (us @ b # vs @ [m])"
    using pos mdet by (intro marker_guard_honest [of m _ _ "int (length us) + 1"]) (simp_all add: min_int64_def)
  moreover have "boundary_guard ?c (us @ b # vs @ [m])" by (simp add: boundary_guard_def)
  ultimately have ci: "checkpoint_insert ?c t = Inr ((), t\<lparr>tb_checkpoints := tb_checkpoints ?t @ [?c]\<rparr>)"
    using pos fresh above by (auto simp: checkpoint_insert_def t insert_row_def list_ex_iff)
  let ?t2 = "t\<lparr>tb_checkpoints := tb_checkpoints ?t @ [?c]\<rparr>"
  have "watermark ?t2 = ae_seq b"
    using latest_by_snoc_max [of "tb_checkpoints ?t" cp_seq ?c] above
    by (simp add: watermark_def last_checkpoint_def)
  then have ad: "\<exists>t3. audit_delete (\<lambda>r. ae_seq r \<le> ae_seq b) ?t2 = Inr (int (length us) + 1, t3)"
    using del(2) by (auto simp: audit_delete_def t list_ex_iff)
  have cnt: "count_where (\<lambda>r. ae_seq r \<le> ae_seq b) (tb_audit ?t) = int (length us) + 1"
    unfolding rows by (rule contiguous_delete(2) [OF cont])
  have salt: "ae_salt (prune_marker tenantID now (ae_seq b) (ae_hash b) k) = []" for k
    by (simp add: prune_marker_def)
  from ad obtain t3 where ad: "audit_delete (\<lambda>r. ae_seq r \<le> ae_seq b) ?t2 = Inr (int (length us) + 1, t3)" ..
  show ?thesis
    using ok ins ci ad by (simp add: prune_at_def Let_def bindp_def query_ok cnt chain_entry_ok salt
        m [symmetric] uuid_new_def exec_ok)
qed

end
