(* ===== verification/Audit_Verify.thy ===== *)
theory Audit_Verify
  imports Audit_Invariant
begin

text \<open>
  What \<^verbatim>\<open>VerifyChain\<close> computes, on any contents of the tables, honest or tampered with: the
  paged walk is the plain walk over the whole log, and the guarantees that follow for a log
  written through the store.
\<close>

subsection \<open>The walk without pages\<close>

definition rest_of :: "int \<Rightarrow> tables \<Rightarrow> audit_entry list" where
  "rest_of cursor t = map scanAuditEntry (filter (\<lambda>r. ae_seq r > cursor) (sort_key ae_seq (tb_audit t)))"

lemma select_above:
  "select_audit (\<lambda>r. ae_seq r > cursor) n t = take (nat n) (rest_of cursor t)"
  by (simp add: select_audit_def rest_of_def filter_sort take_map)

lemma sorted_rows:
  assumes "distinct (map ae_seq rows)"
  shows "sorted_wrt (\<lambda>a b. ae_seq a < ae_seq b) (sort_key ae_seq rows)"
proof -
  have "sorted (map ae_seq (sort_key ae_seq rows))" "distinct (map ae_seq (sort_key ae_seq rows))"
    using assms by (simp_all add: distinct_map)
  then have "sorted_wrt (<) (map ae_seq (sort_key ae_seq rows))"
    by (simp add: strict_sorted_iff)
  then show ?thesis by (simp add: sorted_wrt_map)
qed

text \<open>A page and what lies above its last entry are what lies above the cursor.\<close>

lemma page_split:
  assumes "distinct (map ae_seq (tb_audit t))" and "take n (rest_of cursor t) \<noteq> []"
  shows "rest_of cursor t = take n (rest_of cursor t) @ rest_of (ae_seq (last (take n (rest_of cursor t)))) t"
proof -
  let ?S = "sort_key ae_seq (tb_audit t)"
  let ?F = "filter (\<lambda>r. ae_seq r > cursor) ?S"
  have sF: "sorted_wrt (\<lambda>a b. ae_seq a < ae_seq b) ?F"
    using sorted_rows [OF assms(1)] by (rule sorted_wrt_filter)
  obtain us x where u: "take n ?F = us @ [x]"
    using assms(2) by (cases "take n ?F" rule: rev_cases) (auto simp: rest_of_def take_map)
  have F: "?F = us @ x # drop n ?F"
    using append_take_drop_id [of n ?F] u by simp
  have "x \<in> set ?F" using F by (metis in_set_conv_decomp)
  then have x: "cursor < ae_seq x" by simp
  have "filter (\<lambda>r. ae_seq r > ae_seq x) ?S = filter (\<lambda>r. ae_seq r > ae_seq x) ?F"
    using x by (auto simp: intro!: filter_cong)
  also have "\<dots> = filter (\<lambda>r. ae_seq r > ae_seq x) (us @ x # drop n ?F)"
    using F by simp
  also have "\<dots> = drop n ?F"
  proof -
    have "sorted_wrt (\<lambda>a b. ae_seq a < ae_seq b) (us @ x # drop n ?F)" using sF F by simp
    then have "\<forall>r \<in> set us. ae_seq r < ae_seq x" "\<forall>r \<in> set (drop n ?F). ae_seq x < ae_seq r"
      by (auto simp: sorted_wrt_append)
    then have "filter (\<lambda>r. ae_seq r > ae_seq x) us = []" "filter (\<lambda>r. ae_seq r > ae_seq x) (drop n ?F) = drop n ?F"
      by (force simp: filter_empty_conv filter_id_conv)+
    then show ?thesis by simp
  qed
  finally have "rest_of (ae_seq x) t = drop n (rest_of cursor t)"
    by (simp add: rest_of_def drop_map)
  moreover have "ae_seq (last (take n (rest_of cursor t))) = ae_seq x"
    by (simp add: rest_of_def take_map u)
  ultimately show ?thesis by simp
qed

lemma verify_pages_Inr:
  assumes "verify_pages h cursor prev checked s = (Inr (n, b), s')"
    and "distinct (map ae_seq (tb_audit (os_db s)))" and "0 \<le> cursor"
  shows "b = VerifySequence h (rest_of cursor (os_db s)) prev
    \<and> (b = 0 \<longrightarrow> n = checked + int (length (rest_of cursor (os_db s)))) \<and> os_db s' = os_db s"
  using assms
proof (induction h cursor prev checked s rule: verify_pages.induct)
  case (1 h cursor prev checked s)
  let ?rest = "rest_of cursor (os_db s)"
  let ?page = "take (nat verify_page) ?rest"
  obtain r s1 where q: "query raw_error (select_audit (\<lambda>r. ae_seq r > cursor) verify_page) s = (r, s1)"
    by (cases "query raw_error (select_audit (\<lambda>r. ae_seq r > cursor) verify_page) s") auto
  with 1(2) obtain batch where r: "r = Inr batch"
    by (cases r) (auto simp: verify_pages.simps [of h cursor])
  have batch: "batch = ?page" and db1: "os_db s1 = os_db s"
    using query_run [OF q [unfolded r]] by (simp_all add: select_above)
  note run = 1(2) [unfolded verify_pages.simps [of h cursor] q r, simplified]
  show ?case
  proof (cases "batch = []")
    case True
    then have "?rest = []" using batch by (auto simp: verify_page_def)
    with True run db1 show ?thesis by simp
  next
    case nonempty: False
    have nz: "\<forall>e \<in> set ?page. ae_seq e \<noteq> 0"
      using 1(4) by (auto simp: rest_of_def dest!: in_set_takeD)
    have split: "?rest = batch @ rest_of (ae_seq (last batch)) (os_db s)"
      using page_split [of "os_db s" "nat verify_page" cursor] 1(3) nonempty batch by simp
    have seqs: "VerifySequence h ?rest prev = (if VerifySequence h batch prev \<noteq> 0 then VerifySequence h batch prev
        else VerifySequence h (rest_of (ae_seq (last batch)) (os_db s)) (head_hash prev batch))"
      by (subst split) (use nz batch in \<open>simp add: VerifySequence_append\<close>)
    show ?thesis
    proof (cases "VerifySequence h batch prev = 0")
      case False
      with run nonempty seqs db1 show ?thesis by auto
    next
      case zero: True
      obtain e s2 where c: "ctx_err s1 = (e, s2)" by (cases "ctx_err s1") auto
      with run nonempty zero obtain u where e: "e = Inr u" by (cases e) auto
      have db2: "os_db s2 = os_db s"
        using query_run [OF c [unfolded e ctx_err_def]] db1 by simp
      from run nonempty zero c e have rec:
        "verify_pages h (ae_seq (last batch)) (ae_hash (last batch)) (checked + int (length batch)) s2 = (Inr (n, b), s')"
        by simp
      have "last batch \<in> set ?page" using nonempty batch by (metis last_in_set)
      then have "0 \<le> ae_seq (last batch)"
        using 1(4) by (auto simp: rest_of_def dest!: in_set_takeD)
      then
      have IH: "b = VerifySequence h (rest_of (ae_seq (last batch)) (os_db s)) (ae_hash (last batch))
        \<and> (b = 0 \<longrightarrow> n = checked + int (length batch) + int (length (rest_of (ae_seq (last batch)) (os_db s))))
        \<and> os_db s' = os_db s"
        using 1(1) [OF q [unfolded r, symmetric] refl nonempty _ c [unfolded e, symmetric] refl rec] zero 1(3) db2
        by simp
      have "int (length ?rest) = int (length batch) + int (length (rest_of (ae_seq (last batch)) (os_db s)))"
        by (subst split) simp
      with IH seqs zero nonempty show ?thesis by (simp add: head_hash_def)
    qed
  qed
qed

lemma verify_pages_total:
  assumes "os_faults s = []"
  shows "\<exists>n b. verify_pages h cursor prev checked s = (Inr (n, b), s)"
  using assms
proof (induction h cursor prev checked s rule: verify_pages.induct)
  case (1 h cursor prev checked s)
  then show ?case
    by (subst verify_pages.simps) (auto simp: query_ok ctx_err_def)
qed

subsection \<open>The reference\<close>

definition unattested :: "tables \<Rightarrow> int" where
  "unattested t = (case last_checkpoint t of
      None \<Rightarrow> 0
    | Some c \<Rightarrow> (case find_row (\<lambda>r. ae_seq r = cp_audit_seq c) (tb_audit t) of
        None \<Rightarrow> cp_seq c
      | Some r \<Rightarrow> if MarkerAttestsCheckpoint (ae_detail r) (cp_seq c) (cp_hash c) then 0 else cp_seq c))"

definition walk_start :: "(bytes \<Rightarrow> bytes) \<Rightarrow> int \<Rightarrow> tables \<Rightarrow> bytes" where
  "walk_start h fromSeq t =
     (if fromSeq \<le> 1 then start_hash h t
      else case latest_by ae_seq (filter (\<lambda>r. ae_seq r < fromSeq) (tb_audit t)) of
        None \<Rightarrow> Genesis h
      | Some e \<Rightarrow> ae_hash e)"

text \<open>The entries from \<open>fromSeq\<close> on, in order, and the first break of their single walk.\<close>

definition verify_chain_spec :: "(bytes \<Rightarrow> bytes) \<Rightarrow> int \<Rightarrow> tables \<Rightarrow> int" where
  "verify_chain_spec h fromSeq t =
     (if fromSeq \<le> 1 \<and> unattested t \<noteq> 0 then unattested t
      else VerifySequence h (rest_of (max 0 (fromSeq - 1)) t) (walk_start h fromSeq t))"

lemma unattestedCheckpoint_Inr:
  "unattestedCheckpoint s = (Inr x, s') \<Longrightarrow> x = unattested (os_db s) \<and> os_db s' = os_db s"
  by (auto simp: unattestedCheckpoint_def unattested_def ret_def split: option.splits if_splits
      elim!: bindp_query_Inr)

lemma unattestedCheckpoint_ok:
  "os_faults s = [] \<Longrightarrow> unattestedCheckpoint s = (Inr (unattested (os_db s)), s)"
  by (simp add: unattestedCheckpoint_def unattested_def bindp_def query_ok ret_def split: option.split)

lemma hashBefore_Inr:
  "hashBefore h fromSeq s = (Inr x, s') \<Longrightarrow> x = walk_start h fromSeq (os_db s) \<and> os_db s' = os_db s"
  by (auto simp: hashBefore_def walk_start_def start_hash_def ret_def split: option.splits if_splits
      elim!: bindp_query_Inr)

lemma hashBefore_ok:
  "os_faults s = [] \<Longrightarrow> hashBefore h fromSeq s = (Inr (walk_start h fromSeq (os_db s)), s)"
  by (simp add: hashBefore_def walk_start_def start_hash_def bindp_def query_ok ret_def split: option.split)

lemma VerifyChain_Inr:
  assumes run: "VerifyChain h fromSeq s = (Inr (n, b), s')"
    and dist: "distinct (map ae_seq (tb_audit (os_db s)))"
    and range: "min_int64 < fromSeq" "fromSeq \<le> max_int64"
  shows "b = verify_chain_spec h fromSeq (os_db s) \<and> os_db s' = os_db s
    \<and> (b = 0 \<longrightarrow> n = int (length (rest_of (max 0 (fromSeq - 1)) (os_db s))))"
proof -
  have cursor: "(if wrap64 (fromSeq - 1) < 0 then 0 else wrap64 (fromSeq - 1)) = max 0 (fromSeq - 1)"
    using range by (simp add: wrap64_id)
  have "VerifyChain h fromSeq = bindp (if fromSeq \<le> 1 then unattestedCheckpoint else ret 0)
      (\<lambda>u. if u \<noteq> 0 then ret (0, u) else bindp (hashBefore h fromSeq)
        (\<lambda>prevHash. verify_pages h (max 0 (fromSeq - 1)) prevHash 0))"
    by (simp only: VerifyChain_def Let_def cursor)
  from run [unfolded this bindp_Inr [of "if fromSeq \<le> 1 then unattestedCheckpoint else ret 0"]]
  obtain u s1 where un: "(if fromSeq \<le> 1 then unattestedCheckpoint else ret 0) s = (Inr u, s1)"
    and rest: "(if u \<noteq> 0 then ret (0, u) else bindp (hashBefore h fromSeq)
        (\<lambda>prevHash. verify_pages h (max 0 (fromSeq - 1)) prevHash 0)) s1 = (Inr (n, b), s')"
    by blast
  from un have u: "u = (if fromSeq \<le> 1 then unattested (os_db s) else 0)" and db1: "os_db s1 = os_db s"
    by (auto simp: ret_def dest: unattestedCheckpoint_Inr split: if_splits)
  show ?thesis
  proof (cases "u = 0")
    case False
    with rest u db1 show ?thesis by (auto simp: ret_def verify_chain_spec_def split: if_splits)
  next
    case True
    with rest obtain p s2 where hb: "hashBefore h fromSeq s1 = (Inr p, s2)"
      and vp: "verify_pages h (max 0 (fromSeq - 1)) p 0 s2 = (Inr (n, b), s')"
      by (auto simp: bindp_Inr)
    from hashBefore_Inr [OF hb] have p: "p = walk_start h fromSeq (os_db s)" and db2: "os_db s2 = os_db s"
      using db1 by auto
    from verify_pages_Inr [OF vp] dist db2 p True u show ?thesis
      by (auto simp: verify_chain_spec_def split: if_splits)
  qed
qed

lemma VerifyChain_total: "os_faults s = [] \<Longrightarrow> is_ok (fst (VerifyChain h fromSeq s))"
proof -
  assume ok: "os_faults s = []"
  obtain u where u: "(if fromSeq \<le> 1 then unattestedCheckpoint else ret 0) s = (Inr u, s)"
    using ok that by (cases "fromSeq \<le> 1") (simp_all add: unattestedCheckpoint_ok ret_def)
  obtain p where p: "hashBefore h fromSeq s = (Inr p, s)"
    using ok that by (simp add: hashBefore_ok)
  have "is_ok (fst (verify_pages h c p 0 s))" for c
    using verify_pages_total [OF ok, of h c p 0] by auto
  with u p show ?thesis
    by (auto simp: VerifyChain_def bindp_def ret_def Let_def)
qed

subsection \<open>Logs written through the store\<close>

lemma sort_rows:
  assumes "contiguous w rows"
  shows "sort_key ae_seq rows = rows"
proof (rule sort_key_id_if_sorted)
  have "sorted_wrt (\<lambda>a b. ae_seq a \<le> ae_seq b) rows"
    using contiguous_sorted [OF assms] by (rule sorted_wrt_mono_rel [rotated]) simp
  then show "sorted (map ae_seq rows)" by (simp add: sorted_wrt_map)
qed

lemma contiguous_distinct: "contiguous w rows \<Longrightarrow> distinct (map ae_seq rows)"
  by (induction rows arbitrary: w) (force dest: contiguous_bounds)+

lemma inv_rest:
  assumes "audit_inv h t"
  shows "rest_of 0 t = map scanAuditEntry (tb_audit t)"
proof -
  have "contiguous (watermark t) (tb_audit t)" using assms by (simp add: audit_inv_def)
  then have "filter (\<lambda>r. ae_seq r > 0) (sort_key ae_seq (tb_audit t)) = tb_audit t"
    using audit_inv_seq_pos [OF assms] by (simp add: sort_rows filter_id_conv)
  then show ?thesis by (simp add: rest_of_def)
qed

lemma inv_attested: "audit_inv h t \<Longrightarrow> unattested t = 0"
proof -
  assume inv: "audit_inv h t"
  show ?thesis
  proof (cases "last_checkpoint t")
    case (Some c)
    with inv obtain r where r: "r \<in> set (tb_audit t)" "ae_seq r = cp_audit_seq c"
      "MarkerAttestsCheckpoint (ae_detail r) (cp_seq c) (cp_hash c)"
      by (auto simp: audit_inv_def attested_def)
    have "find_row (\<lambda>r. ae_seq r = cp_audit_seq c) (tb_audit t) = Some r"
      using inv r by (intro find_row_unique [of ae_seq _ _ "cp_audit_seq c"])
        (auto simp: audit_inv_def intro: contiguous_distinct)
    with Some r show ?thesis by (simp add: unattested_def)
  qed (simp add: unattested_def)
qed

text \<open>Any sequence of the operations, failed ones included, and of others that leave the log alone.\<close>

inductive audit_run :: "(bytes \<Rightarrow> bytes) \<Rightarrow> db \<Rightarrow> bool" for h where
  audit_start: "os_db s = empty_tables \<Longrightarrow> audit_run h s"
| audit_append: "audit_run h s \<Longrightarrow> Append h e s = (r, s') \<Longrightarrow> ae_salt e = [] \<Longrightarrow> audit_run h s'"
| audit_erase: "audit_run h s \<Longrightarrow> EraseSubjectAuditEntries h tid sj actor now s = (n, s') \<Longrightarrow> audit_run h s'"
| audit_prune: "audit_run h s \<Longrightarrow> PruneAuditLog h tid cutoff now s = (n, s') \<Longrightarrow> audit_run h s'"
| audit_other: "audit_run h s \<Longrightarrow> tb_audit (os_db s') = tb_audit (os_db s)
    \<Longrightarrow> tb_checkpoints (os_db s') = tb_checkpoints (os_db s) \<Longrightarrow> audit_run h s'"

lemma audit_inv_cong:
  "tb_audit t' = tb_audit t \<Longrightarrow> tb_checkpoints t' = tb_checkpoints t \<Longrightarrow> audit_inv h t' = audit_inv h t"
  by (simp add: audit_inv_def watermark_def start_hash_def last_checkpoint_def attested_def)

lemma audit_run_inv:
  assumes "audit_run h s" and h: "\<And>m. length (h m) = HashSize"
  shows "audit_inv h (os_db s)"
  using assms(1)
proof induction
  case (audit_start s)
  then show ?case by (simp add: audit_inv_empty)
next
  case (audit_append s e r s')
  then show ?case using keepsD [OF keeps_Append [where h = h, OF h]] by blast
next
  case (audit_erase s tid sj actor now n s')
  then show ?case using keepsD [OF keeps_EraseSubjectAuditEntries [where h = h, OF h]] by blast
next
  case (audit_prune s tid cutoff now n s')
  then show ?case using keepsD [OF keeps_PruneAuditLog [where h = h, OF h]] by blast
next
  case (audit_other s s')
  then show ?case by (metis audit_inv_cong)
qed

end
