(* ===== verification/Audit_Properties.thy ===== *)
theory Audit_Properties
  imports Audit_Verify
begin

text \<open>
  The properties of the audit log that span its chain, its store and its verification, each
  with a witness on a small log under a toy hash.
\<close>

subsection \<open>Walks over an honest log\<close>

lemma split_below:
  assumes "sorted_wrt (\<lambda>a b. ae_seq a < ae_seq b) rows"
  shows "rows = filter (\<lambda>r. ae_seq r < f) rows @ filter (\<lambda>r. \<not> ae_seq r < f) rows"
  using assms
proof (induction rows)
  case (Cons r rs)
  show ?case
  proof (cases "ae_seq r < f")
    case False
    with Cons.prems have "filter (\<lambda>r. ae_seq r < f) rs = []" "filter (\<lambda>r. \<not> ae_seq r < f) rs = rs"
      by (force simp: filter_empty_conv filter_id_conv)+
    with False show ?thesis by simp
  qed (use Cons in simp)
qed simp

lemma inv_walk:
  assumes inv: "audit_inv h t" and start: "fromSeq \<le> 1 \<or> (\<exists>r \<in> set (tb_audit t). ae_seq r < fromSeq)"
  shows "verify_chain_spec h fromSeq t = 0"
    and "rest_of (max 0 (fromSeq - 1)) t = map scanAuditEntry (filter (\<lambda>r. ae_seq r \<ge> fromSeq) (tb_audit t))"
proof -
  let ?rows = "tb_audit t"
  let ?lo = "filter (\<lambda>r. ae_seq r < fromSeq) ?rows" and ?hi = "filter (\<lambda>r. ae_seq r \<ge> fromSeq) ?rows"
  have cont: "contiguous (watermark t) ?rows" using inv by (simp add: audit_inv_def)
  note sorted = contiguous_sorted [OF cont]
  have pos: "\<forall>r \<in> set ?rows. 0 < ae_seq r" using audit_inv_seq_pos [OF inv] by blast
  show rest: "rest_of (max 0 (fromSeq - 1)) t = map scanAuditEntry ?hi"
    using pos unfolding rest_of_def sort_rows [OF cont]
    by (intro arg_cong [where f = "map scanAuditEntry"] filter_cong) auto
  have chain: "chain_ok h (map scanAuditEntry ?rows) (start_hash h t)"
    using inv by (simp add: audit_inv_def)
  have split: "?rows = ?lo @ ?hi" using split_below [OF sorted, of fromSeq] by (simp add: not_less)
  have nz: "\<forall>e \<in> set (map scanAuditEntry ?hi). ae_seq e \<noteq> 0" using pos by auto
  have hi: "chain_ok h (map scanAuditEntry ?hi) (head_hash (start_hash h t) (map scanAuditEntry ?lo))"
    using chain by (subst (asm) split) simp
  have "walk_start h fromSeq t = head_hash (start_hash h t) (map scanAuditEntry ?lo)"
  proof (cases "fromSeq \<le> 1")
    case True
    with pos have "?lo = []" by (fastforce simp: filter_empty_conv)
    with True show ?thesis by (simp add: walk_start_def)
  next
    case False
    with start have ne: "?lo \<noteq> []" by (auto simp: filter_empty_conv)
    have "contiguous (watermark t) ?lo" using cont by (subst (asm) split) simp
    from latest_contiguous [OF this] ne False show ?thesis
      by (simp add: walk_start_def head_hash_def last_map)
  qed
  with hi nz show "verify_chain_spec h fromSeq t = 0"
    by (simp add: verify_chain_spec_def inv_attested [OF inv] rest VerifySequence_zero)
qed

subsection \<open>A toy hash and a small log\<close>

definition demo_hash :: "bytes \<Rightarrow> bytes" where
  "demo_hash m = replicate 32 (of_nat (length m))"

lemma demo_hash_length [simp]: "length (demo_hash m) = HashSize"
  by (simp add: demo_hash_def HashSize_def)

definition demo_entry :: "string \<Rightarrow> string \<Rightarrow> audit_entry" where
  "demo_entry subj evt =
     \<lparr>ae_seq = 0, ae_tenant = ''t'', ae_time = 7000, ae_event = evt,
      ae_actor_type = ActorSystem, ae_actor = [], ae_subject = subj, ae_rtype = [], ae_rid = [],
      ae_outcome = OutcomeSuccess, ae_ip = [], ae_request = [], ae_detail = bytes_of ''{}'',
      ae_salt = [], ae_pii = [], ae_prev = [], ae_hash = []\<rparr>"

definition demo_start :: db where
  "demo_start = fresh_os 0 empty_tables"

definition demo_log :: db where
  "demo_log = snd (Append demo_hash (demo_entry ''sue'' ''x'')
     (snd (Append demo_hash (demo_entry ''s'' ''totp.verified'') demo_start)))"

lemma demo_log_run: "audit_run demo_hash demo_log"
  unfolding demo_log_def
  by (intro audit_append [OF _ prod.collapse [symmetric]] audit_start)
    (simp_all add: demo_entry_def demo_start_def)

text \<open>The two rows, by the equations of a successful append.\<close>

lemma seal_hash: "ae_hash (seal_entry h e q p) = h (chain_message (seal_entry h e q p) p)"
  by (simp add: seal_entry_def ComputeHash_def chain_message_def Let_def)

lemma length_chain_message:
  "length (chain_message e p) = 130 + length p + length (ae_tenant e) + length (ae_event e)
     + length (ae_actor_type e) + length (ae_actor e) + length (ae_rtype e) + length (ae_rid e)
     + length (ae_outcome e) + length (ae_request e) + length (ae_pii e)"
  by (simp add: chain_message_def writeField_def writeUint64_def chainDomain_def)

lemma sealed_with_sel [simp]:
  "ae_event (sealed_with h rnd e t) = ae_event e" "ae_tenant (sealed_with h rnd e t) = ae_tenant e"
  "ae_subject (sealed_with h rnd e t) = ae_subject e" "ae_outcome (sealed_with h rnd e t) = ae_outcome e"
  "ae_actor_type (sealed_with h rnd e t) = ae_actor_type e" "ae_time (sealed_with h rnd e t) = truncate_micro (ae_time e)"
  "ae_seq (sealed_with h rnd e t) = fst (chain_head h t) + 1" "ae_prev (sealed_with h rnd e t) = snd (chain_head h t)"
  "ae_detail (sealed_with h rnd e t) = ae_detail e"
  by (simp_all add: sealed_with_def)

definition demo_row1 :: audit_entry where
  "demo_row1 = sealed_with demo_hash (os_rand demo_start) (demo_entry ''s'' ''totp.verified'') empty_tables"

definition demo_rand :: "nat \<Rightarrow> byte" where
  "demo_rand = (\<lambda>i. os_rand demo_start (i + SaltSize))"

definition demo_row2 :: audit_entry where
  "demo_row2 = sealed_with demo_hash demo_rand (demo_entry ''sue'' ''x'') (empty_tables\<lparr>tb_audit := [demo_row1]\<rparr>)"

lemma demo_heads:
  "chain_head demo_hash empty_tables = (0, Genesis demo_hash)"
  "chain_head demo_hash (empty_tables\<lparr>tb_audit := [r]\<rparr>) = (ae_seq r, ae_hash r)"
  by (simp_all add: chain_head_def last_row_def empty_tables_def watermark_def start_hash_def
      last_checkpoint_def)

lemma demo_rows_fields:
  "ae_seq demo_row1 = 1" "ae_seq demo_row2 = 2" "audit_row_ok demo_row1" "audit_row_ok demo_row2"
  "ae_subject demo_row1 = ''s''" "ae_subject demo_row2 = ''sue''" "ae_tenant demo_row1 = ''t''"
  "ae_tenant demo_row2 = ''t''" "ae_time demo_row1 = 7000" "ae_time demo_row2 = 7000"
  by (simp_all add: demo_row1_def demo_row2_def demo_heads demo_entry_def audit_row_ok_def max_int64_def
      truncate_micro_def)

lemma demo_rows_hash: "ae_hash demo_row1 \<noteq> ae_hash demo_row2"
proof -
  have "length (ae_pii (seal_entry demo_hash e q p)) = 32" for e q p
    by (simp add: seal_entry_def PIIDigest_def demo_hash_def Let_def)
  then show ?thesis
    by (simp add: demo_row1_def demo_row2_def sealed_with_def seal_hash demo_heads demo_hash_def
        length_chain_message Genesis_def demo_entry_def ActorSystem_def OutcomeSuccess_def)
qed

lemma demo_entry_ok:
  "ae_tenant (demo_entry u v) \<noteq> []" "ae_outcome (demo_entry u v) \<noteq> []"
  "\<not> is_zero_time (ae_time (demo_entry u v))" "ae_detail (demo_entry u v) \<noteq> []"
  "ae_salt (demo_entry u v) = []" "ae_event (demo_entry u v) = v"
  by (simp_all add: demo_entry_def OutcomeSuccess_def is_zero_time_def zero_time_def)

lemma demo_start_ok [simp]: "os_faults demo_start = []" "os_db demo_start = empty_tables"
  by (simp_all add: demo_start_def)

lemma demo_append1:
  "Append demo_hash (demo_entry ''s'' ''totp.verified'') demo_start = (Inr demo_row1,
     demo_start\<lparr>os_rand := demo_rand, os_db := empty_tables\<lparr>tb_audit := [demo_row1]\<rparr>\<rparr>)"
proof -
  have "audit_insert demo_row1 empty_tables = Inr ((), empty_tables\<lparr>tb_audit := [demo_row1]\<rparr>)"
    by (simp add: audit_insert_def insert_row_def demo_rows_fields empty_tables_def)
  then show ?thesis
    by (subst Append_ok [where t = "empty_tables\<lparr>tb_audit := [demo_row1]\<rparr>"])
      (simp_all add: demo_entry_ok demo_row1_def [symmetric] demo_rand_def)
qed

lemma demo_log_eq:
  "os_db demo_log = empty_tables\<lparr>tb_audit := [demo_row1, demo_row2]\<rparr>" "os_faults demo_log = []"
proof -
  have i2: "audit_insert demo_row2 (empty_tables\<lparr>tb_audit := [demo_row1]\<rparr>)
      = Inr ((), empty_tables\<lparr>tb_audit := [demo_row1, demo_row2]\<rparr>)"
    by (simp add: audit_insert_def insert_row_def demo_rows_fields demo_rows_hash)
  have eq: "demo_log = demo_start\<lparr>os_rand := (\<lambda>i. demo_rand (i + SaltSize)),
      os_db := empty_tables\<lparr>tb_audit := [demo_row1, demo_row2]\<rparr>\<rparr>"
    unfolding demo_log_def demo_append1 snd_conv
    by (subst Append_ok [where t = "empty_tables\<lparr>tb_audit := [demo_row1, demo_row2]\<rparr>"])
      (use i2 in \<open>simp_all add: demo_entry_ok demo_row2_def [symmetric]\<close>)
  show "os_db demo_log = empty_tables\<lparr>tb_audit := [demo_row1, demo_row2]\<rparr>" "os_faults demo_log = []"
    by (simp_all add: eq)
qed

lemma demo_log_inv: "audit_inv demo_hash (os_db demo_log)"
  by (rule audit_run_inv [OF demo_log_run]) simp

lemma demo_log_rows: "tb_audit (os_db demo_log) = [demo_row1, demo_row2]" "tb_checkpoints (os_db demo_log) = []"
  by (simp_all add: demo_log_eq empty_tables_def)

lemma demo_log_distinct: "distinct (map ae_seq (tb_audit (os_db demo_log)))"
  by (simp add: demo_log_rows demo_rows_fields)

lemma demo_verify:
  obtains n b where "VerifyChain demo_hash k demo_log = (Inr (n, b), snd (VerifyChain demo_hash k demo_log))"
  using VerifyChain_total [OF demo_log_eq(2), of demo_hash k] by (metis is_ok_iff prod.collapse)

subsection \<open>Verification\<close>

text \<open>
  C6: what the paged walk computes. On any contents of the two tables, honest or not, \<^verbatim>\<open>VerifyChain\<close>
  changes nothing, always ends, and when no request to the engine fails or is cancelled it
  reports; whenever it reports, the break is the one the plain reference finds: the boundary
  of the newest checkpoint when a walk from the start finds it unattested, otherwise the first
  entry at or above \<open>fromSeq\<close>, in order of sequence, that does not verify against its
  predecessor, across all pages; and an intact walk has counted every such entry.
\<close>

theorem verify_chain_reference:
  assumes "distinct (map ae_seq (tb_audit (os_db s)))"
    and "min_int64 < fromSeq" and "fromSeq \<le> max_int64"
  shows "(os_faults s = [] \<longrightarrow> is_ok (fst (VerifyChain h fromSeq s)))
    \<and> (\<forall>n b s'. VerifyChain h fromSeq s = (Inr (n, b), s') \<longrightarrow>
         b = verify_chain_spec h fromSeq (os_db s) \<and> os_db s' = os_db s
         \<and> (b = 0 \<longrightarrow> n = int (length (filter (\<lambda>r. ae_seq r > max 0 (fromSeq - 1)) (tb_audit (os_db s))))))"
  using VerifyChain_total [of s h fromSeq] VerifyChain_Inr [OF _ assms]
  by (auto simp: rest_of_def filter_sort)

theorem verify_chain_reference_witness:
  "is_ok (fst (VerifyChain demo_hash 2 demo_log))
   \<and> fst (VerifyChain demo_hash 1 demo_log) = Inr (2, 0)"
proof -
  note ref = verify_chain_reference [OF demo_log_distinct, of _ demo_hash]
  obtain n b where v: "VerifyChain demo_hash 1 demo_log = (Inr (n, b), snd (VerifyChain demo_hash 1 demo_log))"
    by (rule demo_verify)
  have "b = verify_chain_spec demo_hash 1 (os_db demo_log)" "b = 0 \<longrightarrow> n = 2"
    using ref [of 1] v by (auto simp: min_int64_def max_int64_def demo_log_rows demo_rows_fields)
  moreover have "verify_chain_spec demo_hash 1 (os_db demo_log) = 0"
    by (rule inv_walk(1) [OF demo_log_inv]) simp
  moreover have "is_ok (fst (VerifyChain demo_hash 2 demo_log))"
    using ref [of 2] by (simp add: min_int64_def max_int64_def demo_log_eq)
  ultimately show ?thesis using v by (metis fst_conv)
qed

text \<open>
  C2: a log written through the store verifies. After any sequence of appends, erasures and
  retention trims, failed ones included, from an empty database, a verification from the start
  or from any entry that still has a predecessor in the log reports no break and counts every
  entry from there on; and the sequence numbers have no gap above the newest checkpoint.
\<close>

theorem audit_log_verifies:
  assumes run: "audit_run h s" and h: "\<And>m. length (h m) = HashSize"
    and verify: "VerifyChain h fromSeq s = (Inr (n, b), s')"
    and range: "min_int64 < fromSeq" "fromSeq \<le> max_int64"
    and start: "fromSeq \<le> 1 \<or> (\<exists>r \<in> set (tb_audit (os_db s)). ae_seq r < fromSeq)"
  shows "b = 0 \<and> n = count_where (\<lambda>r. ae_seq r \<ge> fromSeq) (tb_audit (os_db s))
    \<and> contiguous (watermark (os_db s)) (tb_audit (os_db s))"
proof -
  have inv: "audit_inv h (os_db s)" by (rule audit_run_inv [OF run h])
  then have cont: "contiguous (watermark (os_db s)) (tb_audit (os_db s))" by (simp add: audit_inv_def)
  from VerifyChain_Inr [OF verify contiguous_distinct [OF cont] range] inv_walk [OF inv start] cont
  show ?thesis by (simp add: count_where_def)
qed

theorem audit_log_verifies_witness:
  "fst (VerifyChain demo_hash 2 demo_log) = Inr (1, 0)"
proof -
  obtain n b where v: "VerifyChain demo_hash 2 demo_log = (Inr (n, b), snd (VerifyChain demo_hash 2 demo_log))"
    by (rule demo_verify)
  from audit_log_verifies [OF demo_log_run demo_hash_length v] have "b = 0 \<and> n = 1"
    by (simp add: min_int64_def max_int64_def demo_log_rows demo_rows_fields)
  with v show ?thesis by (metis fst_conv)
qed

text \<open>
  A marker attests its own trim and nothing else. The document \<^verbatim>\<open>PruneMarkerDetail\<close> renders is
  read back by \<^verbatim>\<open>MarkerAttestsCheckpoint\<close> as the marker of exactly the boundary sequence number
  and the boundary hash it was given, for every 64-bit sequence number and every count; a
  hash of another length than a digest is attested by nothing.
\<close>

theorem prune_marker_attests:
  assumes "min_int64 \<le> throughSeq" and "throughSeq \<le> max_int64"
  shows "MarkerAttestsCheckpoint (PruneMarkerDetail throughSeq throughHash entries) n hs
           \<longleftrightarrow> length hs = HashSize \<and> n = throughSeq \<and> hs = throughHash"
  by (rule marker_attests [OF assms])

theorem prune_marker_attests_witness:
  "MarkerAttestsCheckpoint (PruneMarkerDetail 41 (demo_hash [1, 2]) 41) 41 (demo_hash [1, 2])
   \<and> \<not> MarkerAttestsCheckpoint (PruneMarkerDetail 41 (demo_hash [1, 2]) 41) 42 (demo_hash [1, 2])"
  using prune_marker_attests [of 41 "demo_hash [1, 2]" 41] by (simp add: min_int64_def max_int64_def)

subsection \<open>Tampering\<close>

lemma latest_last_sorted:
  assumes "distinct (map ae_seq rows)" and "rows \<noteq> []"
  shows "latest_by ae_seq rows = Some (last (sort_key ae_seq rows))"
proof -
  obtain m where m: "latest_by ae_seq rows = Some m" using latest_by_Some_ex [OF assms(2)] by blast
  obtain us x where u: "sort_key ae_seq rows = us @ [x]"
    using assms(2) by (metis rev_exhaust set_empty set_sort)
  have "x \<in> set rows" using u by (metis in_set_conv_decomp set_sort)
  moreover have "\<forall>r \<in> set rows. ae_seq r \<le> ae_seq x"
  proof
    fix r assume "r \<in> set rows"
    then have "r \<in> set (us @ [x])" by (metis set_sort u)
    with sorted_rows [OF assms(1)] u show "ae_seq r \<le> ae_seq x" by (auto simp: sorted_wrt_append)
  qed
  ultimately have "ae_seq m = ae_seq x" "m \<in> set rows" "x \<in> set rows"
    using latest_by_Some [OF m] by force+
  with assms(1) have "m = x" by (auto simp: distinct_map dest: inj_onD)
  with m u show ?thesis by simp
qed

text \<open>
  C1: tampering is evident. Take an honest log that was never trimmed, and any other contents of
  the tables, also without a checkpoint, with the same hash at the head (the hash an external
  witness holds), distinct positive sequence numbers, and verification reporting no break; no
  text reaches \<open>2 ^ 64\<close> bytes and no sequence number leaves 64 bits, as nothing Go holds does.
  Then either two different messages hashed for the two logs have the same hash, or the two logs
  hold the same entries in the same order: every committed field is the same, and the personal ones
  are too wherever neither entry has been erased, except that an instant is the same modulo
  \<open>2 ^ 64\<close> nanoseconds only, because the chain commits to a count of nanoseconds that wraps; where
  both instants are in the range of that count, from 1677 to 2262, they are equal.
\<close>

theorem audit_tamper_evident:
  assumes honest: "audit_inv h t" "tb_checkpoints t = []"
    and suspect: "tb_checkpoints (os_db s) = []" "distinct (map ae_seq (tb_audit (os_db s)))"
      "\<forall>r \<in> set (tb_audit (os_db s)). 0 < ae_seq r"
    and verified: "VerifyChain h 1 s = (Inr (n, 0), s')"
    and fits: "\<forall>r \<in> set (tb_audit t) \<union> set (tb_audit (os_db s)). entry_fits (scanAuditEntry r)"
    and head: "snd (chain_head h (os_db s)) = snd (chain_head h t)"
    and no_collision: "\<not> collision h (log_messages (map scanAuditEntry (tb_audit t @ tb_audit (os_db s))))"
  shows "list_all2 (\<lambda>r r'. same_but_time (Erase r) (Erase r')
      \<and> (\<not> Erased r \<and> \<not> Erased r' \<longrightarrow> same_but_time (scanAuditEntry r) (scanAuditEntry r'))
      \<and> (min_int64 \<le> ae_time r \<and> ae_time r \<le> max_int64 \<and> min_int64 \<le> ae_time r' \<and> ae_time r' \<le> max_int64 \<longrightarrow>
           Erase r = Erase r' \<and> (\<not> Erased r \<and> \<not> Erased r' \<longrightarrow> scanAuditEntry r = scanAuditEntry r')))
    (tb_audit t) (sort_key ae_seq (tb_audit (os_db s)))"
proof -
  let ?rows = "tb_audit (os_db s)"
  let ?es = "map scanAuditEntry (tb_audit t)" and ?es' = "map scanAuditEntry (sort_key ae_seq ?rows)"
  have start: "start_hash h t = Genesis h" "start_hash h (os_db s) = Genesis h"
    using honest suspect by (simp_all add: start_hash_def last_checkpoint_def)
  have rest: "rest_of 0 (os_db s) = ?es'"
    using suspect(3) by (simp add: rest_of_def filter_id_conv)
  have "verify_chain_spec h 1 (os_db s) = 0"
    using VerifyChain_Inr [OF verified suspect(2)] by (simp add: min_int64_def max_int64_def)
  then have "VerifySequence h ?es' (Genesis h) = 0"
    using rest start by (auto simp: verify_chain_spec_def walk_start_def split: if_splits)
  moreover have "\<forall>e \<in> set ?es'. ae_seq e \<noteq> 0" using suspect(3) by auto
  ultimately have ok': "chain_ok h ?es' (Genesis h)" by (simp add: VerifySequence_zero)
  have ok: "chain_ok h ?es (Genesis h)" using honest start by (simp add: audit_inv_def)
  have "snd (chain_head h (os_db s)) = head_hash (Genesis h) ?es'"
  proof (cases "?rows = []")
    case True
    then show ?thesis by (simp add: chain_head_def last_row_def start)
  next
    case False
    then have "sort_key ae_seq ?rows \<noteq> []" by (metis set_empty set_sort)
    with latest_last_sorted [OF suspect(2) False] show ?thesis
      by (simp add: chain_head_def last_row_def head_hash_def last_map)
  qed
  with head chain_head_inv [OF honest(1)] start have hd: "head_hash (Genesis h) ?es = head_hash (Genesis h) ?es'"
    by simp
  have "log_messages ?es \<union> log_messages ?es' \<subseteq> log_messages (map scanAuditEntry (tb_audit t @ ?rows))"
    by (auto simp: log_messages_def)
  from head_commits [OF ok ok' _ hd no_collision this] fits
  have "list_all2 (\<lambda>e e'. same_but_time (Erase e) (Erase e') \<and> (\<not> Erased e \<and> \<not> Erased e' \<longrightarrow> same_but_time e e')) ?es ?es'"
    by auto
  then have "list_all2 (\<lambda>r r'. same_but_time (Erase r) (Erase r')
      \<and> (\<not> Erased r \<and> \<not> Erased r' \<longrightarrow> same_but_time (scanAuditEntry r) (scanAuditEntry r'))) (tb_audit t) (sort_key ae_seq ?rows)"
    by (simp add: list_all2_map1 list_all2_map2 Erased_def)
  then show ?thesis
  proof (rule list_all2_mono)
    fix r r'
    have "ae_time (scanAuditEntry x) = ae_time x" for x by (simp add: scanAuditEntry_def)
    then show "same_but_time (Erase r) (Erase r')
        \<and> (\<not> Erased r \<and> \<not> Erased r' \<longrightarrow> same_but_time (scanAuditEntry r) (scanAuditEntry r')) \<Longrightarrow>
      same_but_time (Erase r) (Erase r')
        \<and> (\<not> Erased r \<and> \<not> Erased r' \<longrightarrow> same_but_time (scanAuditEntry r) (scanAuditEntry r'))
        \<and> (min_int64 \<le> ae_time r \<and> ae_time r \<le> max_int64 \<and> min_int64 \<le> ae_time r' \<and> ae_time r' \<le> max_int64 \<longrightarrow>
             Erase r = Erase r' \<and> (\<not> Erased r \<and> \<not> Erased r' \<longrightarrow> scanAuditEntry r = scanAuditEntry r'))"
      using same_but_time_exact [of "Erase r" "Erase r'"]
        same_but_time_exact [of "scanAuditEntry r" "scanAuditEntry r'"] by simp
  qed
qed

text \<open>The messages of the small log have different lengths, so the toy hash tells them apart.\<close>

lemma demo_rows_salted:
  "length (ae_salt demo_row1) = 16" "length (ae_salt demo_row2) = 16" "length (ae_prev demo_row1) = 32"
  "length (ae_prev demo_row2) = 32" "length (ae_pii demo_row1) = 32" "length (ae_pii demo_row2) = 32"
  "ae_detail demo_row1 = bytes_of ''{}''" "ae_detail demo_row2 = bytes_of ''{}''"
  "ae_event demo_row1 = ''totp.verified''" "ae_event demo_row2 = ''x''" "ae_ip demo_row1 = []" "ae_ip demo_row2 = []"
  by (simp_all add: demo_row1_def demo_row2_def sealed_with_def seal_entry_def demo_entry_def SaltSize_def
      demo_heads Genesis_def demo_hash_def PIIDigest_def ComputeHash_def Let_def)

lemma demo_rows_scan: "scanAuditEntry demo_row1 = demo_row1" "scanAuditEntry demo_row2 = demo_row2"
proof -
  have "ae_salt demo_row1 \<noteq> []" "ae_salt demo_row2 \<noteq> []" using demo_rows_salted(1,2) by auto
  then show "scanAuditEntry demo_row1 = demo_row1" "scanAuditEntry demo_row2 = demo_row2"
    by (simp_all add: scan_written demo_rows_salted(7,8))
qed

lemma demo_rows_rest:
  "ae_actor demo_row1 = []" "ae_actor demo_row2 = []" "ae_rtype demo_row1 = []" "ae_rtype demo_row2 = []"
  "ae_rid demo_row1 = []" "ae_rid demo_row2 = []" "ae_request demo_row1 = []" "ae_request demo_row2 = []"
  "ae_outcome demo_row1 = ''success''" "ae_outcome demo_row2 = ''success''"
  "ae_actor_type demo_row1 = ''system''" "ae_actor_type demo_row2 = ''system''"
  by (simp_all add: demo_row1_def demo_row2_def sealed_with_def seal_entry_def demo_entry_def Let_def
      OutcomeSuccess_def ActorSystem_def)

lemma demo_lengths:
  "length genesis_message = 34" "length (pii_message demo_row1) = 83" "length (pii_message demo_row2) = 85"
  "length (chain_message demo_row1 (ae_prev demo_row1)) = 221"
  "length (chain_message demo_row2 (ae_prev demo_row2)) = 209"
  by (simp_all add: genesis_message_def chainDomain_def pii_message_def writeField_def piiDomain_def
      length_chain_message demo_rows_fields demo_rows_salted demo_rows_rest)

lemma demo_rows_verify:
  "ae_hash demo_row1 = demo_hash (chain_message demo_row1 (ae_prev demo_row1))"
  "ae_hash demo_row2 = demo_hash (chain_message demo_row2 (ae_prev demo_row2))"
  by (simp_all add: demo_row1_def demo_row2_def sealed_with_def seal_hash)

lemma demo_no_collision:
  "\<not> collision demo_hash (log_messages [demo_row1, demo_row2, demo_row1, demo_row2])"
proof -
  have "demo_hash m = demo_hash m' \<longleftrightarrow> (of_nat (length m) :: byte) = of_nat (length m')" for m m'
    by (simp add: demo_hash_def)
  then show ?thesis by (auto simp: collision_def log_messages_def demo_lengths)
qed

lemma demo_rows_fit: "entry_fits demo_row1" "entry_fits demo_row2"
  by (simp_all add: entry_fits_def demo_rows_fields demo_rows_salted demo_rows_rest framable_def
      min_int64_def max_int64_def)

theorem audit_tamper_evident_witness:
  "list_all2 (\<lambda>r r'. Erase r = Erase r' \<and> (\<not> Erased r \<and> \<not> Erased r' \<longrightarrow> scanAuditEntry r = scanAuditEntry r'))
     [demo_row1, demo_row2] (sort_key ae_seq (tb_audit (os_db demo_log)))"
proof -
  obtain n b where v: "VerifyChain demo_hash 1 demo_log = (Inr (n, b), snd (VerifyChain demo_hash 1 demo_log))"
    by (rule demo_verify)
  have "verify_chain_spec demo_hash 1 (os_db demo_log) = 0"
    by (rule inv_walk(1) [OF demo_log_inv]) simp
  with VerifyChain_Inr [OF v demo_log_distinct] have "b = 0" by (simp add: min_int64_def max_int64_def)
  with v have v0: "VerifyChain demo_hash 1 demo_log = (Inr (n, 0), snd (VerifyChain demo_hash 1 demo_log))" by simp
  from audit_tamper_evident [OF demo_log_inv demo_log_rows(2) demo_log_rows(2) demo_log_distinct _ v0 _ refl]
  show ?thesis
    by (simp add: demo_log_rows demo_rows_scan demo_rows_fit demo_no_collision demo_rows_fields
        min_int64_def max_int64_def)
qed

subsection \<open>Appending, erasing, trimming\<close>

lemma in_tx_frame_Inl: "in_tx m s = (r, s') \<Longrightarrow> \<not> is_ok r \<Longrightarrow> os_db s' = os_db s"
  by (cases r) (auto dest: in_tx_Inl)

text \<open>The salt of a new row is the next bytes of the random source.\<close>

lemma chain_entry_salt:
  assumes "chain_entry h e s = (Inr e', s')" and "ae_salt e = []"
  shows "ae_salt e' = map (os_rand s) [0..<SaltSize]"
proof -
  have frame: "query w f u = (r, u') \<Longrightarrow> os_rand u' = os_rand u" for w f r and u u' :: db
    by (auto simp: query_def exec_def pop_fault_def split: prod.splits option.splits sum.splits list.splits)
  from assms(1) obtain y s1 where y: "chainHeadTx h s = (Inr y, s1)"
    and run: "(case y of (lastSeq, prevHash) \<Rightarrow> bindp (Prepare h e (lastSeq + 1) prevHash)
         (\<lambda>e. bindp (exec map_error (audit_insert e)) (\<lambda>_. ret e))) s1 = (Inr e', s')"
    unfolding chain_entry_def bindp_Inr by blast
  have r1: "os_rand s1 = os_rand s"
    using y by (auto simp: chainHeadTx_def bindp_def ret_def split: prod.splits sum.splits option.splits dest!: frame)
  obtain q p where "y = (q, p)" by (cases y)
  with run obtain x s2 where x: "Prepare h e (q + 1) p s1 = (Inr x, s2)"
    and "bindp (exec map_error (audit_insert x)) (\<lambda>_. ret x) s2 = (Inr e', s')"
    by (auto simp: bindp_Inr)
  then have "e' = x" by (auto simp: bindp_Inr ret_def)
  then show ?thesis
    using x assms(2) r1 by (auto simp: Prepare_def NewSalt_def rand_read_def bindp_def ret_def Let_def)
qed

lemma Append_salt: "Append h e s = (Inr x, s') \<Longrightarrow> ae_salt e = [] \<Longrightarrow> ae_salt x = map (os_rand s) [0..<SaltSize]"
  by (auto simp: Append_unfold split: if_splits elim!: in_tx_Inr dest!: chain_entry_salt)

text \<open>
  C7: an append chains onto the head. A successful \<^verbatim>\<open>Append\<close> adds exactly one row at the end and
  touches nothing else; the row has the next sequence number after the head (the newest entry,
  or what the newest checkpoint recorded), the head's hash as its predecessor, every field it was
  given (an unset instant is the current one, cut to whole microseconds; an unset outcome is a
  success; an unset detail is the empty document), a fresh salt, and verifies against the head;
  an append that fails leaves every table as it was.
\<close>

theorem audit_append_chains:
  assumes inv: "audit_inv h (os_db s)" and h: "\<And>m. length (h m) = HashSize" and salt: "ae_salt e = []"
    and run: "Append h e s = (r, s')"
  shows "case r of
      Inl _ \<Rightarrow> os_db s' = os_db s
    | Inr x \<Rightarrow> os_db s' = (os_db s)\<lparr>tb_audit := tb_audit (os_db s) @ [x]\<rparr>
        \<and> (ae_seq x, ae_prev x) = (fst (chain_head h (os_db s)) + 1, snd (chain_head h (os_db s)))
        \<and> VerifyEntry h (scanAuditEntry x) (snd (chain_head h (os_db s)))
        \<and> ae_event x = ae_event e \<and> ae_tenant x = ae_tenant e \<and> ae_subject x = ae_subject e
        \<and> ae_actor_type x = ae_actor_type e \<and> ae_actor x = ae_actor e \<and> ae_rtype x = ae_rtype e \<and> ae_rid x = ae_rid e
        \<and> ae_ip x = ae_ip e \<and> ae_request x = ae_request e
        \<and> ae_detail x = (if ae_detail e = [] then bytes_of ''{}'' else ae_detail e)
        \<and> ae_salt x = map (os_rand s) [0..<SaltSize]
        \<and> ae_time x = truncate_micro (if is_zero_time (ae_time e) then os_wall s else ae_time e)
        \<and> ae_outcome x = (if ae_outcome e = [] then OutcomeSuccess else ae_outcome e)"
proof (cases r)
  case (Inl er)
  with run show ?thesis by (auto dest: Append_Inl)
next
  case (Inr x)
  with run have "Append h e s = (Inr x, s')" by simp
  from Append_Inr [OF this] have w: "written h (append_defaults (os_wall s) e) (os_db s) x"
    and db: "os_db s' = (os_db s)\<lparr>tb_audit := tb_audit (os_db s) @ [x]\<rparr>" by simp_all
  have chain: "chain_ok h (map scanAuditEntry (tb_audit (os_db s))) (start_hash h (os_db s))"
    using inv by (simp add: audit_inv_def)
  have "length (snd (chain_head h (os_db s))) = HashSize"
    using chain_ok_head_length [OF chain start_hash_length [OF inv h]] by (simp add: chain_head_inv [OF inv])
  from written_verifies [OF w h this] salt
  have "VerifyEntry h (scanAuditEntry x) (snd (chain_head h (os_db s)))" by (simp add: bytes_of_def)
  with w db Inr Append_salt [OF \<open>Append h e s = (Inr x, s')\<close> salt] show ?thesis by (auto simp: written_def)
qed

theorem audit_append_chains_witness:
  "\<exists>s'. Append demo_hash (demo_entry ''s'' ''totp.verified'') demo_start = (Inr demo_row1, s')
     \<and> os_db s' = empty_tables\<lparr>tb_audit := [demo_row1]\<rparr>
     \<and> VerifyEntry demo_hash (scanAuditEntry demo_row1) (Genesis demo_hash)"
proof -
  have "audit_inv demo_hash (os_db demo_start)" by (simp add: audit_inv_empty)
  from audit_append_chains [OF this demo_hash_length _ demo_append1] show ?thesis
    by (simp add: demo_append1 demo_entry_ok demo_heads)
qed

lemma chain_ok_personal: "chain_ok h es p \<Longrightarrow> e \<in> set es \<Longrightarrow> personalFieldsVerify h e"
  by (induction es arbitrary: p) (auto simp: VerifyEntry_iff)

lemma inv_salted:
  assumes "audit_inv h t" and "r \<in> set (tb_audit t)" and "ae_subject r \<noteq> []"
  shows "ae_salt r \<noteq> []"
proof -
  have "personalFieldsVerify h (scanAuditEntry r)"
    using assms(1,2) by (intro chain_ok_personal [of h "map scanAuditEntry (tb_audit t)" "start_hash h t"])
      (auto simp: audit_inv_def)
  with assms(3) show ?thesis by (auto simp: personalFieldsVerify_iff SaltSize_def)
qed

lemma erasure_run:
  assumes inv: "audit_inv h (os_db s)"
    and run: "EraseSubjectAuditEntries h tenantID subjectID actorID now s = (Inr n, s')"
  shows "n = count_where (\<lambda>x. ae_tenant x = tenantID \<and> ae_subject x = subjectID) (tb_audit (os_db s))
    \<and> (\<exists>x. tb_audit (os_db s') = map (\<lambda>x. if ae_tenant x = tenantID \<and> ae_subject x = subjectID
            then erase_row x else x) (tb_audit (os_db s)) @ [x]
         \<and> ae_event x = EventSubjectRedacted \<and> ae_rid x = subjectID \<and> ae_actor x = actorID \<and> ae_subject x = [])
    \<and> map Erase (butlast (tb_audit (os_db s'))) = map Erase (tb_audit (os_db s))
    \<and> (\<forall>x \<in> set (tb_audit (os_db s')). \<not> (ae_tenant x = tenantID \<and> ae_subject x = subjectID))
    \<and> (\<exists>rows. os_db s' = (os_db s)\<lparr>tb_audit := rows\<rparr>)"
proof -
  let ?p = "\<lambda>r. ae_tenant r = tenantID \<and> ae_subject r = subjectID \<and> ae_salt r \<noteq> []"
  let ?rows = "tb_audit (os_db s)"
  have ne: "tenantID \<noteq> [] \<and> subjectID \<noteq> []"
    using run by (auto simp: EraseSubjectAuditEntries_def failp_def split: if_splits)
  have salted: "ae_tenant x = tenantID \<and> ae_subject x = subjectID \<longleftrightarrow> ?p x" if "x \<in> set ?rows" for x
    using inv_salted [OF inv that] ne by auto
  have "in_tx (bindp (exec map_error (audit_update ?p erase_row))
      (\<lambda>n. bindp (chain_entry h (tombstone tenantID subjectID actorID now n)) (\<lambda>_. ret n))) s = (Inr n, s')"
    using run ne by (simp add: EraseSubjectAuditEntries_def)
  then obtain k s3 s2 where st: "audit_update ?p erase_row (os_db s) = Inr (k, os_db s3)"
    and rest: "bindp (chain_entry h (tombstone tenantID subjectID actorID now k)) (\<lambda>_. ret k) s3 = (Inr n, s2)"
    and db: "os_db s' = os_db s2" by (rule in_tx_exec_Inr)
  have st': "k = count_where ?p ?rows" "os_db s3 = (os_db s)\<lparr>tb_audit := update_where ?p erase_row ?rows\<rparr>"
    using st erase_statement [of tenantID subjectID "os_db s"] by (simp_all add: erase_target_def [abs_def])
  from rest obtain x s4 where ce': "chain_entry h (tombstone tenantID subjectID actorID now k) s3 = (Inr x, s4)"
    and rt: "ret k s4 = (Inr n, s2)" unfolding bindp_Inr by blast
  from rt have n: "n = k" and "s4 = s2" by (simp_all add: ret_def)
  with ce' have ce: "chain_entry h (tombstone tenantID subjectID actorID now k) s3 = (Inr x, s2)" by simp
  from chain_entry_Inr [OF ce] have w: "written h (tombstone tenantID subjectID actorID now k) (os_db s3) x"
    and whole: "os_db s' = (os_db s)\<lparr>tb_audit := update_where ?p erase_row ?rows @ [x]\<rparr>" by (simp_all add: st' db)
  then have rows: "tb_audit (os_db s') = update_where ?p erase_row ?rows @ [x]" by simp
  have upd: "update_where ?p erase_row ?rows = map (\<lambda>x. if ae_tenant x = tenantID \<and> ae_subject x = subjectID
                then erase_row x else x) ?rows"
    unfolding update_where_def by (rule map_cong [OF refl]) (use salted in auto)
  have "filter ?p ?rows = filter (\<lambda>x. ae_tenant x = tenantID \<and> ae_subject x = subjectID) ?rows"
    by (rule filter_cong [OF refl]) (use salted in blast)
  then have n': "n = count_where (\<lambda>x. ae_tenant x = tenantID \<and> ae_subject x = subjectID) ?rows"
    using n st'(1) by (simp add: count_where_def)
  have x: "ae_event x = EventSubjectRedacted" "ae_rid x = subjectID" "ae_actor x = actorID" "ae_subject x = []"
    using w by (auto simp: written_def tombstone_def)
  let ?f = "\<lambda>x. if ae_tenant x = tenantID \<and> ae_subject x = subjectID then erase_row x else x"
  have rows': "tb_audit (os_db s') = map ?f ?rows @ [x]" using rows upd by simp
  have er: "Erase (erase_row y) = Erase y" "ae_subject (erase_row y) = []" for y
    by (simp_all add: erase_row_def Erase_def)
  then have same: "map Erase (butlast (tb_audit (os_db s'))) = map Erase ?rows" by (simp add: rows')
  have gone: "\<forall>y \<in> set (tb_audit (os_db s')). \<not> (ae_tenant y = tenantID \<and> ae_subject y = subjectID)"
    unfolding rows' using ne er(2) x(4) by (auto split: if_splits)
  show ?thesis using n' rows' x same gone whole by blast
qed

text \<open>
  C8: an erasure removes the personal fields and nothing else. When \<^verbatim>\<open>EraseSubjectAuditEntries\<close>
  succeeds, every entry of the tenant that names the subject has lost the subject, the
  address, the detail and the salt, and it reports their number; every other entry, and every
  committed field and hash of the erased ones, is as it was; one tombstone naming the
  subject as a resource has been appended; no entry of the tenant names the subject any more.
  When it fails nothing has changed.
\<close>

theorem audit_erasure:
  assumes inv: "audit_inv h (os_db s)"
    and run: "EraseSubjectAuditEntries h tenantID subjectID actorID now s = (r, s')"
  shows "case r of
      Inl _ \<Rightarrow> os_db s' = os_db s
    | Inr n \<Rightarrow> n = count_where (\<lambda>x. ae_tenant x = tenantID \<and> ae_subject x = subjectID) (tb_audit (os_db s))
        \<and> (\<exists>x. tb_audit (os_db s') = map (\<lambda>x. if ae_tenant x = tenantID \<and> ae_subject x = subjectID
                then erase_row x else x) (tb_audit (os_db s)) @ [x]
             \<and> ae_event x = EventSubjectRedacted \<and> ae_rid x = subjectID \<and> ae_actor x = actorID)
        \<and> map Erase (butlast (tb_audit (os_db s'))) = map Erase (tb_audit (os_db s))
        \<and> (\<forall>x \<in> set (tb_audit (os_db s')). \<not> (ae_tenant x = tenantID \<and> ae_subject x = subjectID))"
proof (cases r)
  case (Inl e)
  with run show ?thesis
    by (auto simp: EraseSubjectAuditEntries_def failp_def split: if_splits dest: in_tx_Inl)
next
  case (Inr n)
  from erasure_run [OF inv run [unfolded Inr]] show ?thesis unfolding Inr sum.case by blast
qed

theorem audit_erasure_witness:
  "\<exists>s'. EraseSubjectAuditEntries demo_hash ''t'' ''s'' ''a'' 9000 demo_log = (Inr 1, s')
     \<and> length (tb_audit (os_db s')) = 3
     \<and> (\<forall>x \<in> set (tb_audit (os_db s')). \<not> (ae_tenant x = ''t'' \<and> ae_subject x = ''s''))"
proof -
  let ?p = "erase_target ''t'' ''s''"
  have tgt: "?p demo_row1" "\<not> ?p demo_row2"
    using demo_rows_salted(1) by (auto simp: erase_target_def demo_rows_fields)
  let ?t1 = "empty_tables\<lparr>tb_audit := [erase_row demo_row1, demo_row2]\<rparr>"
  let ?x = "sealed_with demo_hash (os_rand demo_log) (tombstone ''t'' ''s'' ''a'' 9000 1) ?t1"
  have hd: "chain_head demo_hash ?t1 = (2, ae_hash demo_row2)"
    by (simp add: chain_head_def last_row_def demo_rows_fields)
  have "length (ae_pii ?x) = 32" "length (ae_hash demo_row2) = 32"
    by (simp_all add: sealed_with_def seal_entry_def PIIDigest_def demo_row2_def ComputeHash_def demo_hash_def Let_def)
  then have "ae_hash ?x = replicate 32 240"
    by (simp add: sealed_with_def seal_hash demo_hash_def length_chain_message hd tombstone_def
        EventSubjectRedacted_def ActorAdmin_def OutcomeSuccess_def)
  moreover have "ae_hash demo_row1 = replicate 32 221" "ae_hash demo_row2 = replicate 32 209"
    using demo_lengths(4,5) demo_rows_verify by (simp_all add: demo_hash_def)
  ultimately have ins: "audit_insert ?x ?t1 = Inr ((), ?t1\<lparr>tb_audit := [erase_row demo_row1, demo_row2, ?x]\<rparr>)"
    by (simp add: audit_insert_def insert_row_def audit_row_ok_def hd demo_rows_fields tombstone_def max_int64_def)
  have run: "EraseSubjectAuditEntries demo_hash ''t'' ''s'' ''a'' 9000 demo_log
      = (Inr 1, demo_log\<lparr>os_rand := (\<lambda>i. os_rand demo_log (i + SaltSize)),
           os_db := ?t1\<lparr>tb_audit := [erase_row demo_row1, demo_row2, ?x]\<rparr>\<rparr>)"
    using ins by (subst erase_ok) (simp_all add: demo_log_eq tgt Let_def)
  from audit_erasure [OF demo_log_inv run] run show ?thesis by auto
qed

lemma distinct_split:
  assumes "distinct (map f rows)" and "rows = us @ x # vs" and "rows = us' @ x # vs'"
  shows "us = us' \<and> vs = vs'"
proof -
  have "x \<notin> set us" "x \<notin> set vs" using assms(1) unfolding assms(2) by auto
  with assms(2,3) show ?thesis by (metis append_Cons_eq_iff)
qed

lemma demo_trim_runs: "\<exists>s'. PruneAuditLog demo_hash ''t'' 8000 9000 demo_log = (Inr 2, s')"
proof -
  let ?t = "os_db demo_log"
  let ?m = "sealed_with demo_hash (os_rand demo_log) (prune_marker ''t'' 9000 (ae_seq demo_row2) (ae_hash demo_row2) 2) ?t"
  have hd: "chain_head demo_hash ?t = (2, ae_hash demo_row2)"
    by (simp add: chain_head_def last_row_def demo_log_rows demo_rows_fields)
  have "length (ae_pii ?m) = 32" "length (ae_hash demo_row2) = 32"
    by (simp_all add: sealed_with_def seal_entry_def PIIDigest_def demo_rows_verify demo_hash_def Let_def)
  then have "ae_hash ?m = replicate 32 237"
    by (simp add: sealed_with_def seal_hash demo_hash_def length_chain_message hd prune_marker_def
        EventChainVerified_def ActorSystem_def OutcomeSuccess_def)
  moreover have "ae_hash demo_row1 = replicate 32 221" "ae_hash demo_row2 = replicate 32 209"
    using demo_lengths(4,5) demo_rows_verify by (simp_all add: demo_hash_def)
  ultimately have ins: "audit_insert ?m ?t = Inr ((), ?t\<lparr>tb_audit := [demo_row1, demo_row2, ?m]\<rparr>)"
    by (simp add: audit_insert_def insert_row_def audit_row_ok_def hd demo_rows_fields prune_marker_def
        max_int64_def demo_log_rows)
  have rows: "tb_audit ?t = [demo_row1] @ demo_row2 # []" by (simp add: demo_log_rows)
  obtain s1 where at: "prune_at demo_hash ''t'' 9000 demo_row2 demo_log = (Inr 2, s1)" and ok: "os_faults s1 = []"
    using prune_at_ok [OF demo_log_eq(2) demo_log_inv rows _ ins] by (auto simp: demo_log_rows)
  have "first_kept 8000 ?t = max_int64"
    by (simp add: first_kept_def demo_log_rows demo_rows_fields)
  then have "PruneAuditLog demo_hash ''t'' 8000 9000 demo_log = (Inr 2, s1)"
    using at ok by (simp add: PruneAuditLog_def in_tx_ok demo_log_eq(2) bindp_def query_ok demo_log_rows
        demo_rows_fields max_int64_def)
  then show ?thesis by blast
qed

lemma demo_trim:
  "\<exists>s'. PruneAuditLog demo_hash ''t'' 8000 9000 demo_log = (Inr 2, s') \<and> length (tb_audit (os_db s')) = 1
     \<and> watermark (os_db s') = 2 \<and> start_hash demo_hash (os_db s') = ae_hash demo_row2"
proof -
  obtain s' where run: "PruneAuditLog demo_hash ''t'' 8000 9000 demo_log = (Inr 2, s')" using demo_trim_runs by blast
  have "first_kept 8000 (os_db demo_log) = max_int64"
    by (simp add: first_kept_def demo_log_rows demo_rows_fields)
  then have "latest_by ae_seq (filter (\<lambda>r. ae_seq r < first_kept 8000 (os_db demo_log)) (tb_audit (os_db demo_log)))
      = Some demo_row2" by (simp add: demo_log_rows demo_rows_fields max_int64_def)
  with PruneAuditLog_Inr [OF run demo_log_inv] obtain us vs m c where
    rows: "tb_audit (os_db demo_log) = us @ demo_row2 # vs" and len: "(2 :: int) = int (length us) + 1"
    and c: "cp_seq c = ae_seq demo_row2" "cp_hash c = ae_hash demo_row2"
    and db: "os_db s' = trimmed (os_db demo_log) m c vs" by auto
  have "vs = []" using rows len by (cases us) (auto simp: demo_log_rows)
  with run c db show ?thesis
    by (auto simp: trimmed_def watermark_def start_hash_def last_checkpoint_def demo_log_rows demo_rows_fields)
qed

text \<open>
  C9: a retention trim removes exactly the longest prefix that is old. When \<^verbatim>\<open>PruneAuditLog\<close>
  succeeds it has removed the entries before the first one dated at or after the cut, and no
  other, whatever the dates after it; if there are any, one marker has been appended that attests
  the boundary (the number and the hash of the last entry removed), and the newest
  checkpoint is that boundary. When it fails nothing has changed.
\<close>

theorem audit_trim:
  assumes inv: "audit_inv h (os_db s)" and h: "\<And>m. length (h m) = HashSize"
    and big: "\<forall>x \<in> set (tb_audit (os_db s)). ae_seq x < max_int64"
    and run: "PruneAuditLog h tenantID cutoff now s = (r, s')"
    and old: "old = takeWhile (\<lambda>x. ae_time x < cutoff) (tb_audit (os_db s))"
  shows "case r of
      Inl _ \<Rightarrow> os_db s' = os_db s
    | Inr n \<Rightarrow> n = int (length old) \<and>
        (if old = [] then os_db s' = os_db s
         else (\<exists>m. tb_audit (os_db s') = drop (length old) (tb_audit (os_db s)) @ [m]
            \<and> MarkerAttestsCheckpoint (ae_detail m) (ae_seq (last old)) (ae_hash (last old)))
          \<and> watermark (os_db s') = ae_seq (last old) \<and> start_hash h (os_db s') = ae_hash (last old))"
proof (cases r)
  case (Inl e)
  with run show ?thesis by (auto simp: PruneAuditLog_def dest: in_tx_Inl)
next
  case (Inr n)
  let ?rows = "tb_audit (os_db s)"
  have cont: "contiguous (watermark (os_db s)) ?rows" using inv by (simp add: audit_inv_def)
  have sel: "filter (\<lambda>x. ae_seq x < first_kept cutoff (os_db s)) ?rows = old"
    unfolding old by (rule prefix_below_first_kept [OF cont big])
  have pre: "?rows = old @ drop (length old) ?rows"
    unfolding old by (metis takeWhile_dropWhile_id dropWhile_eq_drop)
  note run' = PruneAuditLog_Inr [OF run [unfolded Inr] inv, unfolded sel]
  show ?thesis
  proof (cases "old = []")
    case True
    with run' Inr show ?thesis by simp
  next
    case False
    have "contiguous (watermark (os_db s)) old" using cont pre by (metis contiguous_append)
    with False have "latest_by ae_seq old = Some (last old)" by (simp add: latest_contiguous)
    with run' obtain us vs m c where rows: "?rows = us @ last old # vs" and n: "n = int (length us) + 1"
      and w: "written h (prune_marker tenantID now (ae_seq (last old)) (ae_hash (last old)) n) (os_db s) m"
      and mok: "audit_row_ok m" and c: "cp_seq c = ae_seq (last old)" "cp_hash c = ae_hash (last old)" "cp_audit_seq c = ae_seq m"
      and db: "os_db s' = trimmed (os_db s) m c vs" by auto
    have "?rows = butlast old @ last old # drop (length old) ?rows"
      using pre False by (metis append_butlast_last_id append_Cons append_Nil append_assoc)
    with rows contiguous_distinct [OF cont] have split: "us = butlast old" "vs = drop (length old) ?rows"
      using distinct_split [of ae_seq ?rows us "last old" vs "butlast old"] by blast+
    from trimmed_by_run [OF inv h rows w mok c] have inv': "audit_inv h (os_db s')" by (simp add: db)
    have "last_checkpoint (os_db s') = Some c"
    proof -
      have "\<forall>c' \<in> set (tb_checkpoints (os_db s)). cp_seq c' < cp_seq c"
        using contiguous_bounds [OF cont, of "last old"] watermark_max [of _ "os_db s"] rows c(1) by fastforce
      then show ?thesis unfolding db trimmed_def by (rule last_checkpoint_snoc)
    qed
    moreover have "MarkerAttestsCheckpoint (ae_detail m) (ae_seq (last old)) (ae_hash (last old))"
    proof -
      have "last old \<in> set ?rows" using rows by simp
      then have "0 < ae_seq (last old)" "ae_seq (last old) < max_int64"
        using audit_inv_seq_pos [OF inv] big by blast+
      moreover have "length (ae_hash (last old)) = HashSize"
      proof -
        have "chain_ok h (map scanAuditEntry (us @ last old # vs)) (start_hash h (os_db s))"
          using inv rows by (simp add: audit_inv_def)
        then show ?thesis by (simp add: VerifyEntry_iff)
      qed
      ultimately show ?thesis
        using written_sel(3) [OF w] by (simp add: prune_marker_def marker_attests min_int64_def)
    qed
    moreover have "int (length us) + 1 = int (length old)"
      using False split(1) by (cases old rule: rev_cases) simp_all
    ultimately show ?thesis
      using Inr False n split(2) c db by (simp add: watermark_def start_hash_def trimmed_def)
  qed
qed

theorem audit_trim_witness:
  "\<exists>s'. PruneAuditLog demo_hash ''t'' 8000 9000 demo_log = (Inr 2, s')
     \<and> length (tb_audit (os_db s')) = 1 \<and> watermark (os_db s') = 2"
proof -
  obtain s' where "PruneAuditLog demo_hash ''t'' 8000 9000 demo_log = (Inr 2, s')" using demo_trim_runs by blast
  from audit_trim [OF demo_log_inv demo_hash_length _ this refl] this show ?thesis
    by (auto simp: demo_log_rows demo_rows_fields max_int64_def)
qed

subsection \<open>What verification does not look at\<close>

text \<open>
  C15: a walk that starts inside a trimmed log, at or below the first retained entry, is told the
  wrong hash to resume from. On an intact trimmed log, for every \<open>fromSeq\<close> above 1 and at most
  the first retained sequence number, \<^verbatim>\<open>hashBefore\<close> finds no earlier entry and answers the genesis
  hash, not the checkpoint's, so \<^verbatim>\<open>VerifyChain\<close> reports the first retained entry as broken, while
  a walk of the same log from 1 reports no break.
\<close>

theorem audit_walk_below_first_retained:
  assumes inv: "audit_inv h (os_db s)" and c: "last_checkpoint (os_db s) = Some c" and trim: "cp_hash c \<noteq> Genesis h"
    and rows: "tb_audit (os_db s) \<noteq> []" and range: "1 < fromSeq" "fromSeq \<le> watermark (os_db s) + 1"
      "fromSeq \<le> max_int64"
    and run: "VerifyChain h fromSeq s = (Inr (n, b), s')" and run1: "VerifyChain h 1 s = (Inr (n1, b1), s1)"
  shows "b = watermark (os_db s) + 1 \<and> b1 = 0"
proof -
  let ?t = "os_db s"
  obtain r rs where rr: "tb_audit ?t = r # rs" using rows by (cases "tb_audit ?t") auto
  have cont: "contiguous (watermark ?t) (r # rs)"
    and chain: "chain_ok h (map scanAuditEntry (r # rs)) (cp_hash c)"
    using inv rr c by (simp_all add: audit_inv_def start_hash_def)
  have lo: "\<forall>x \<in> set (r # rs). fromSeq \<le> ae_seq x"
    using contiguous_bounds [OF cont] range(2) by fastforce
  have "filter (\<lambda>x. ae_seq x < fromSeq) (tb_audit ?t) = []"
    unfolding rr filter_empty_conv using lo by force
  then have "walk_start h fromSeq ?t = Genesis h"
    using range(1) by (simp add: walk_start_def)
  moreover have "rest_of (max 0 (fromSeq - 1)) ?t = map scanAuditEntry (r # rs)"
  proof -
    have "filter (\<lambda>x. max 0 (fromSeq - 1) < ae_seq x) (r # rs) = r # rs"
      using lo range(1) by (intro filter_True) force
    then show ?thesis unfolding rest_of_def rr sort_rows [OF cont] by simp
  qed
  moreover have "\<not> VerifyEntry h (scanAuditEntry r) (Genesis h)"
    using chain trim by (auto simp: VerifyEntry_iff)
  moreover have "ae_seq r = watermark ?t + 1" using cont by simp
  ultimately have "verify_chain_spec h fromSeq ?t = watermark ?t + 1"
    using range(1) by (simp add: verify_chain_spec_def)
  moreover have dist: "distinct (map ae_seq (tb_audit ?t))"
    using contiguous_distinct [OF cont] rr by simp
  moreover have "verify_chain_spec h 1 ?t = 0" by (rule inv_walk(1) [OF inv]) simp
  ultimately show ?thesis
    using VerifyChain_Inr [OF run dist] VerifyChain_Inr [OF run1 dist] range
    by (simp add: min_int64_def max_int64_def)
qed

theorem audit_walk_below_first_retained_witness:
  "\<exists>s n m. fst (VerifyChain demo_hash 3 s) = Inr (n, 3) \<and> fst (VerifyChain demo_hash 1 s) = Inr (m, 0)"
proof -
  obtain s0 where run: "PruneAuditLog demo_hash ''t'' 8000 9000 demo_log = (Inr 2, s0)"
    and len: "length (tb_audit (os_db s0)) = 1" and wm: "watermark (os_db s0) = 2"
    and start: "start_hash demo_hash (os_db s0) = ae_hash demo_row2"
    using demo_trim by blast
  define s where "s = s0\<lparr>os_faults := []\<rparr>"
  have inv: "audit_inv demo_hash (os_db s)"
    using keepsD [OF keeps_PruneAuditLog [where h = demo_hash] run demo_log_inv] by (simp add: s_def)
  obtain c where c: "last_checkpoint (os_db s) = Some c" using wm by (auto simp: s_def watermark_def split: option.splits)
  have "cp_hash c = replicate 32 209"
    using start c demo_lengths(5) demo_rows_verify by (simp add: s_def start_hash_def demo_hash_def)
  moreover have "Genesis demo_hash = replicate 32 34" by (simp add: Genesis_def demo_hash_def demo_lengths)
  ultimately have ne: "cp_hash c \<noteq> Genesis demo_hash" by simp
  have ok: "os_faults s = []" by (simp add: s_def)
  obtain n b where v: "VerifyChain demo_hash 3 s = (Inr (n, b), snd (VerifyChain demo_hash 3 s))"
    using VerifyChain_total [OF ok, of demo_hash 3] by (metis is_ok_iff prod.collapse)
  obtain n1 b1 where v1: "VerifyChain demo_hash 1 s = (Inr (n1, b1), snd (VerifyChain demo_hash 1 s))"
    using VerifyChain_total [OF ok, of demo_hash 1] by (metis is_ok_iff prod.collapse)
  have "tb_audit (os_db s) \<noteq> []" using len by (auto simp: s_def)
  from audit_walk_below_first_retained [OF inv c ne this _ _ _ v v1] wm
  have "b = 3 \<and> b1 = 0" by (simp add: s_def max_int64_def)
  with v v1 show ?thesis by (metis fst_conv)
qed

text \<open>
  C16: rows with a sequence number below 1 are invisible to verification and visible to readers.
  Adding any entry whose number is not positive, with any hashes, leaves the verdict of a
  verification from the start as it was (unless a checkpoint names that number as its marker),
  although \<^verbatim>\<open>QueryAudit\<close> returns the entry to every reader whose filter it meets, in front of the
  honest ones.
\<close>

theorem audit_nonpositive_unverified:
  assumes low: "ae_seq x \<le> 0" and from1: "fromSeq \<le> 1" "min_int64 < fromSeq"
    and dist: "distinct (map ae_seq (x # tb_audit (os_db s)))"
    and cp: "\<forall>c \<in> set (tb_checkpoints (os_db s)). cp_audit_seq c \<noteq> ae_seq x"
    and forged: "os_db u = (os_db s)\<lparr>tb_audit := x # tb_audit (os_db s)\<rparr>"
    and run: "VerifyChain h fromSeq s = (Inr (n, b), s')" and run': "VerifyChain h fromSeq u = (Inr (m, c), u')"
    and read: "audit_matches tenantID f x" "QueryAudit tenantID f u = (Inr es, u'')"
    and first: "\<forall>r \<in> set (tb_audit (os_db s)). ae_seq x < ae_seq r"
  shows "c = b \<and> scanAuditEntry x = hd es"
proof -
  have rest: "rest_of 0 (os_db u) = rest_of 0 (os_db s)"
  proof -
    have "filter (\<lambda>r. ae_seq r > 0) (tb_audit (os_db u)) = filter (\<lambda>r. ae_seq r > 0) (tb_audit (os_db s))"
      using low by (simp add: forged)
    then show ?thesis by (simp add: rest_of_def filter_sort)
  qed
  have lc: "last_checkpoint (os_db u) = last_checkpoint (os_db s)" by (simp add: forged)
  have "unattested (os_db u) = unattested (os_db s)"
  proof (cases "last_checkpoint (os_db s)")
    case (Some c)
    then have "cp_audit_seq c \<noteq> ae_seq x"
      using cp latest_by_Some [of cp_seq "tb_checkpoints (os_db s)" c] by (auto simp: last_checkpoint_def)
    with Some lc show ?thesis by (simp add: unattested_def forged)
  qed (simp add: unattested_def lc)
  moreover have "max 0 (fromSeq - 1) = 0" using from1 by simp
  moreover have "start_hash h (os_db u) = start_hash h (os_db s)" by (simp add: start_hash_def lc)
  ultimately have "verify_chain_spec h fromSeq (os_db u) = verify_chain_spec h fromSeq (os_db s)"
    using from1 rest by (simp add: verify_chain_spec_def walk_start_def)
  moreover have "fromSeq \<le> max_int64" using from1 by (simp add: max_int64_def)
  ultimately have "c = b"
    using VerifyChain_Inr [OF run _ from1(2)] VerifyChain_Inr [OF run' _ from1(2)] dist by (simp add: forged)
  moreover have "scanAuditEntry x = hd es"
  proof -
    let ?lim = "nat (clampLimit (af_limit f) 100 10000)"
    have es: "es = map scanAuditEntry (take ?lim (insort_key ae_seq x
        (sort_key ae_seq (filter (audit_matches tenantID f) (tb_audit (os_db s))))))"
      using query_run [OF read(2) [unfolded QueryAudit_def]] read(1) by (simp add: select_audit_def forged)
    have "insort_key ae_seq x ys = x # ys" if "\<forall>r \<in> set ys. ae_seq x < ae_seq r" for ys
      using that by (cases ys) auto
    moreover have "0 < ?lim" using clampLimit_bounds [of 100 10000 "af_limit f"] by simp
    ultimately show ?thesis
      using es first by (cases ?lim) auto
  qed
  ultimately show ?thesis ..
qed

definition forged_row :: audit_entry where
  "forged_row = (demo_entry ''s'' ''credential.revoked'')\<lparr>ae_seq := - 5\<rparr>"

definition forged_log :: db where
  "forged_log = demo_log\<lparr>os_db := (os_db demo_log)\<lparr>tb_audit := forged_row # tb_audit (os_db demo_log)\<rparr>\<rparr>"

definition demo_filter :: audit_filter where
  "demo_filter = \<lparr>af_event = [], af_subject = ''s'', af_actor = [], af_outcome = [], af_since = zero_time,
     af_until = zero_time, af_after = 0, af_limit = 0\<rparr>"

theorem audit_nonpositive_unverified_witness:
  "\<exists>n es. fst (VerifyChain demo_hash 1 forged_log) = Inr (n, 0)
     \<and> fst (QueryAudit ''t'' demo_filter forged_log) = Inr es \<and> ae_event (hd es) = ''credential.revoked''"
proof -
  have ok: "os_faults forged_log = []" by (simp add: forged_log_def demo_log_eq)
  obtain n b where v: "VerifyChain demo_hash 1 demo_log = (Inr (n, b), snd (VerifyChain demo_hash 1 demo_log))"
    by (rule demo_verify)
  obtain m c where v': "VerifyChain demo_hash 1 forged_log = (Inr (m, c), snd (VerifyChain demo_hash 1 forged_log))"
    using VerifyChain_total [OF ok, of demo_hash 1] by (metis is_ok_iff prod.collapse)
  obtain es where q: "QueryAudit ''t'' demo_filter forged_log = (Inr es, forged_log)"
    using ok by (simp add: QueryAudit_def query_ok)
  have match: "audit_matches ''t'' demo_filter forged_row"
    by (simp add: audit_matches_def demo_filter_def forged_row_def demo_entry_def is_zero_time_def)
  have seq: "ae_seq forged_row = - 5" by (simp add: forged_row_def)
  have forged_event: "ae_event (scanAuditEntry forged_row) = ''credential.revoked''"
    by (simp add: scanAuditEntry_def forged_row_def demo_entry_def)
  have "verify_chain_spec demo_hash 1 (os_db demo_log) = 0"
    by (rule inv_walk(1) [OF demo_log_inv]) simp
  with VerifyChain_Inr [OF v demo_log_distinct] have "b = 0" by (simp add: min_int64_def max_int64_def)
  moreover have "c = b \<and> scanAuditEntry forged_row = hd es"
    by (rule audit_nonpositive_unverified [where x = forged_row and s = demo_log and u = forged_log,
          OF _ _ _ _ _ _ v v' match q])
      (simp_all add: seq demo_log_rows demo_rows_fields forged_log_def min_int64_def)
  moreover from this have "ae_event (hd es) = ''credential.revoked''"
    using forged_event by metis
  ultimately show ?thesis using v' q by (metis fst_conv)
qed

subsection \<open>Filtering by a family of events\<close>

lemma special_chars [simp]:
  "char_of (92 :: nat) \<noteq> CHR ''%''" "char_of (92 :: nat) \<noteq> CHR ''_''"
  by (simp_all add: char_of_eq_iff)

lemmas special_chars_sym [simp] = special_chars [symmetric]

lemma escapeLike_Cons:
  "escapeLike (c # p) = (if c \<in> {char_of (92 :: nat), CHR ''%'', CHR ''_''} then [char_of (92 :: nat), c] else [c])
     @ escapeLike p"
  by (auto simp: escapeLike_def Let_def)

lemma like_any: "esc \<noteq> CHR ''%'' \<Longrightarrow> sql_like esc ''%'' s"
  by (induction s) auto

text \<open>
  A caller cannot widen the family filter. Whatever characters the prefix holds, wildcards and
  the escape character included, the pattern \<^verbatim>\<open>QueryAudit\<close> builds for an event type that ends in
  a dot matches exactly the event types that begin with the prefix, up to the case of ASCII
  letters.
\<close>

theorem audit_family_filter:
  "sql_like (char_of (92 :: nat)) (escapeLike p @ ''%'') s =
     (length p \<le> length s \<and> map ascii_lower (take (length p) s) = map ascii_lower p)"
proof (induction p arbitrary: s)
  case Nil
  have "escapeLike [] = []" by (simp add: escapeLike_def)
  moreover have "sql_like (char_of (92 :: nat)) ''%'' s" by (rule like_any) simp
  ultimately show ?case by (simp del: sql_like.simps)
next
  case (Cons c p)
  show ?case
  proof (cases s)
    case Nil
    then show ?thesis by (auto simp: escapeLike_Cons)
  next
    case (Cons d s')
    with Cons.IH [of s'] show ?thesis by (auto simp: escapeLike_Cons)
  qed
qed

end
