(* ===== verification/Credential_Store.thy ===== *)
theory Credential_Store
  imports Totp_Store
begin

text \<open>
  \<^verbatim>\<open>internal/store/sqlite/credential.go\<close>: the WebAuthn credentials of a subject, their
  signature counters and their revocation. Transports travel through a JSON column and back
  unchanged; the row carries the list.
\<close>

subsection \<open>Operations\<close>

definition maxCredentialsListed :: int where "maxCredentialsListed = 500"
definition max_uint32 :: int where "max_uint32 = 4294967295"

text \<open>The primary key and the index on tenant, relying party and credential identifier.\<close>

definition credential_clash :: "credential \<Rightarrow> credential \<Rightarrow> bool" where
  "credential_clash old new \<longleftrightarrow> cr_id old = cr_id new
     \<or> cr_tenant old = cr_tenant new \<and> cr_rpid old = cr_rpid new \<and> cr_credential old = cr_credential new"

definition credential_row_ok :: "credential \<Rightarrow> bool" where
  "credential_row_ok r \<longleftrightarrow>
     cr_attestation r \<in> {''none'', ''self'', ''basic'', ''attca'', ''anonca'', ''indirect''} \<and> 0 \<le> cr_sign_count r"

definition credential_insert :: "credential \<Rightarrow> tables \<Rightarrow> sql_error + unit \<times> tables" where
  "credential_insert r t =
     foreign_key (subject_exists (cr_subject r) t)
       (check (credential_row_ok r) (rows_insert tb_credentials tb_credentials_update credential_clash r)) t"

definition CreateCredential :: "credential \<Rightarrow> (tables, unit) proc" where
  "CreateCredential c =
     (if cr_id c = [] \<or> cr_tenant c = [] \<or> cr_subject c = []
      then failp (OtherErr ''sqlite: credential requires id, tenant and subject'')
      else if length (cr_credential c) = 0 \<or> length (cr_public_key c) = 0
      then failp (OtherErr ''sqlite: credential requires a credential id and a public key'')
      else if cr_rpid c = [] then failp (OtherErr ''sqlite: credential requires a relying party id'')
      else bindp wall_clock (\<lambda>wall.
        let c = (if cr_attestation c = [] then c\<lparr>cr_attestation := ''none''\<rparr> else c);
            c = (if is_zero_time (cr_created c) then c\<lparr>cr_created := wall\<rparr> else c) in
        exec map_error (credential_insert c)))"

text \<open>A counter the WebAuthn type cannot hold makes the row unreadable.\<close>

definition scanCredential :: "credential \<Rightarrow> (tables, credential) proc" where
  "scanCredential r =
     (if cr_sign_count r < 0 \<or> cr_sign_count r > max_uint32 then failp ErrCorruptRow else ret r)"

definition GetCredential :: "string \<Rightarrow> string \<Rightarrow> (tables, credential) proc" where
  "GetCredential tenantID i =
     bindp (query_row map_error (\<lambda>t. find_row (\<lambda>r. cr_tenant r = tenantID \<and> cr_id r = i) (tb_credentials t)))
       scanCredential"

definition GetCredentialByID :: "string \<Rightarrow> string \<Rightarrow> bytes \<Rightarrow> (tables, credential) proc" where
  "GetCredentialByID tenantID rpID credentialID =
     (if length credentialID = 0 then failp (OtherErr ''sqlite: credential lookup requires a credential id'')
      else bindp (query_row map_error (\<lambda>t. find_row
             (\<lambda>r. cr_tenant r = tenantID \<and> cr_rpid r = rpID \<and> cr_credential r = credentialID) (tb_credentials t)))
        scanCredential)"

fun scan_credentials :: "credential list \<Rightarrow> (tables, credential list) proc" where
  "scan_credentials [] = ret []"
| "scan_credentials (r # rs) =
     bindp (scanCredential r) (\<lambda>c. bindp (scan_credentials rs) (\<lambda>cs. ret (c # cs)))"

definition ListCredentials :: "string \<Rightarrow> string \<Rightarrow> bool \<Rightarrow> (tables, credential list) proc" where
  "ListCredentials tenantID subjectID includeRevoked =
     bindp (query raw_error (\<lambda>t. select_page (\<lambda>r. (cr_created r, cr_id r))
         (\<lambda>r. cr_tenant r = tenantID \<and> cr_subject r = subjectID \<and> (includeRevoked \<or> cr_revoked r = None))
         (clampLimit 0 maxCredentialsListed maxCredentialsListed) (tb_credentials t)))
       scan_credentials"

definition AdvanceSignCount ::
  "string \<Rightarrow> string \<Rightarrow> 32 word \<Rightarrow> 32 word \<Rightarrow> instant \<Rightarrow> (tables, unit) proc" where
  "AdvanceSignCount tenantID i expectedPrev next_count usedAt =
     (if next_count \<le> expectedPrev then failp ErrStaleWrite
      else guarded
        (rows_update tb_credentials tb_credentials_update
           (\<lambda>r. cr_tenant r = tenantID \<and> cr_id r = i \<and> cr_sign_count r = uint expectedPrev
              \<and> uint next_count > cr_sign_count r \<and> cr_revoked r = None)
           (\<lambda>r. r\<lparr>cr_sign_count := uint next_count, cr_last_used := Some usedAt\<rparr>))
        (\<lambda>t. list_ex (\<lambda>r. cr_tenant r = tenantID \<and> cr_id r = i) (tb_credentials t)))"

definition TouchCredential :: "string \<Rightarrow> string \<Rightarrow> instant \<Rightarrow> (tables, unit) proc" where
  "TouchCredential tenantID i usedAt =
     bindp (exec map_error (rows_update tb_credentials tb_credentials_update
         (\<lambda>r. cr_tenant r = tenantID \<and> cr_id r = i \<and> cr_revoked r = None)
         (\<lambda>r. r\<lparr>cr_last_used := Some usedAt\<rparr>)))
       (\<lambda>n. if n = 0 then failp ErrNotFound else ret ())"

definition MarkCloneWarning :: "string \<Rightarrow> string \<Rightarrow> (tables, unit) proc" where
  "MarkCloneWarning tenantID i =
     required (rows_update tb_credentials tb_credentials_update
       (\<lambda>r. cr_tenant r = tenantID \<and> cr_id r = i) (\<lambda>r. r\<lparr>cr_clone_warning := True\<rparr>))"

definition RevokeCredential :: "string \<Rightarrow> string \<Rightarrow> string \<Rightarrow> instant \<Rightarrow> (tables, unit) proc" where
  "RevokeCredential tenantID i why at =
     required (rows_update tb_credentials tb_credentials_update
       (\<lambda>r. cr_tenant r = tenantID \<and> cr_id r = i \<and> cr_revoked r = None)
       (\<lambda>r. r\<lparr>cr_revoked := Some at, cr_revoked_reason := why\<rparr>))"

definition RevokeAllCredentials :: "string \<Rightarrow> string \<Rightarrow> string \<Rightarrow> instant \<Rightarrow> (tables, int \<times> int) proc" where
  "RevokeAllCredentials tenantID subjectID why at =
     (if tenantID = [] \<or> subjectID = []
      then failp (OtherErr ''sqlite: revoking all credentials requires a tenant and a subject'')
      else in_tx (bindp
        (exec map_error (rows_update tb_credentials tb_credentials_update
           (\<lambda>r. cr_tenant r = tenantID \<and> cr_subject r = subjectID \<and> cr_revoked r = None)
           (\<lambda>r. r\<lparr>cr_revoked := Some at, cr_revoked_reason := why\<rparr>)))
        (\<lambda>n. bindp
          (exec map_error (totp_update
             (\<lambda>r. ts_tenant r = tenantID \<and> ts_subject r = subjectID \<and> ts_revoked r = None)
             (\<lambda>r. r\<lparr>ts_revoked := Some at\<rparr>)))
          (\<lambda>m. ret (n, m)))))"

definition CountActiveCredentials :: "string \<Rightarrow> string \<Rightarrow> (tables, int) proc" where
  "CountActiveCredentials tenantID subjectID =
     query raw_error (\<lambda>t. count_where
       (\<lambda>r. cr_tenant r = tenantID \<and> cr_subject r = subjectID \<and> cr_revoked r = None) (tb_credentials t))"

subsection \<open>Invariant and replay\<close>

definition credential_inv :: "tables \<Rightarrow> bool" where
  "credential_inv t \<longleftrightarrow> distinct (map cr_id (tb_credentials t)) \<and> (\<forall>r \<in> set (tb_credentials t). credential_row_ok r)"

text \<open>
  The counter value \<open>n\<close> can no longer be accepted for a credential: no live row under the
  identifier has a counter below it.
\<close>

definition count_spent :: "string \<Rightarrow> string \<Rightarrow> 32 word \<Rightarrow> tables \<Rightarrow> bool" where
  "count_spent tid i n t \<longleftrightarrow>
     (\<forall>r \<in> set (tb_credentials t). cr_tenant r = tid \<and> cr_id r = i \<and> cr_revoked r = None \<longrightarrow> uint n \<le> cr_sign_count r)"

definition count_attempt :: "string \<Rightarrow> string \<Rightarrow> 32 word \<Rightarrow> db \<Rightarrow> bool \<Rightarrow> db \<Rightarrow> bool" where
  "count_attempt tid i n s b s' \<longleftrightarrow> (\<exists>prev at r. AdvanceSignCount tid i prev n at s = (r, s') \<and> b = is_ok r)"

inductive credential_other :: "string \<Rightarrow> string \<Rightarrow> db \<Rightarrow> db \<Rightarrow> bool" for tid i where
  create: "CreateCredential c s = (r, s') \<Longrightarrow> cr_id c \<noteq> i \<Longrightarrow> credential_other tid i s s'"
| advance: "AdvanceSignCount tid' j prev n at s = (r, s') \<Longrightarrow> credential_other tid i s s'"
| touch: "TouchCredential tid' j at s = (r, s') \<Longrightarrow> credential_other tid i s s'"
| mark: "MarkCloneWarning tid' j s = (r, s') \<Longrightarrow> credential_other tid i s s'"
| revoke: "RevokeCredential tid' j why at s = (r, s') \<Longrightarrow> credential_other tid i s s'"
| revoke_all: "RevokeAllCredentials tid' sid why at s = (q, s') \<Longrightarrow> credential_other tid i s s'"
| frame: "credential_inv (os_db s') \<Longrightarrow>
     (\<And>r. r \<in> set (tb_credentials (os_db s')) \<Longrightarrow> cr_id r = i \<Longrightarrow> r \<in> set (tb_credentials (os_db s)))
     \<Longrightarrow> credential_other tid i s s'"

lemma credential_inv_update:
  assumes "credential_inv t" and "\<And>r. cr_id (f r) = cr_id r"
    and "\<And>r. p r \<Longrightarrow> credential_row_ok r \<Longrightarrow> credential_row_ok (f r)"
  shows "credential_inv (tb_credentials_update (update_where p f) t)"
  using assms by (simp add: credential_inv_def map_update_where ball_update_where)

lemma credential_row_ok_fields [simp]:
  "credential_row_ok (r\<lparr>cr_last_used := x\<rparr>) = credential_row_ok r"
  "credential_row_ok (r\<lparr>cr_clone_warning := y\<rparr>) = credential_row_ok r"
  "credential_row_ok (r\<lparr>cr_revoked := x, cr_revoked_reason := z\<rparr>) = credential_row_ok r"
  by (simp_all add: credential_row_ok_def)

lemma credential_inv_insert: "credential_inv t \<Longrightarrow> credential_insert r t = Inr (u, t') \<Longrightarrow> credential_inv t'"
  by (auto simp: credential_inv_def credential_insert_def rows_insert_Inr credential_clash_def image_iff)

lemma credential_inv_totp [simp]: "credential_inv (tb_totp_update f t) = credential_inv t"
  by (simp add: credential_inv_def)

lemma count_spent_totp [simp]: "count_spent tid i n (tb_totp_update f t) = count_spent tid i n t"
  by (simp add: count_spent_def)

lemma totp_update_Inr: "totp_update p f t = Inr (n, t') \<Longrightarrow> t' = tb_totp_update (update_where p f) t"
  by (cases t) (auto simp: totp_update_def)

lemma keeps_credential_update:
  assumes "\<And>t p f. P t \<Longrightarrow> Q p f \<Longrightarrow> P (tb_credentials_update (update_where p f) t)"
    and "\<And>t f. P (tb_totp_update f t) = P t"
    and "\<And>p at. Q p (\<lambda>r. r\<lparr>cr_last_used := Some at\<rparr>)" and "\<And>p. Q p (\<lambda>r. r\<lparr>cr_clone_warning := True\<rparr>)"
    and "\<And>p why at. Q p (\<lambda>r. r\<lparr>cr_revoked := Some at, cr_revoked_reason := why\<rparr>)"
    and "\<And>tid' j (n :: 32 word) (prev :: 32 word) at. Q (\<lambda>r. cr_tenant r = tid' \<and> cr_id r = j \<and> cr_sign_count r = uint prev
              \<and> uint n > cr_sign_count r \<and> cr_revoked r = None)
           (\<lambda>r. r\<lparr>cr_sign_count := uint n, cr_last_used := Some at\<rparr>)"
  shows "keeps P (AdvanceSignCount tid' j prev n at)" "keeps P (TouchCredential tid' j at)"
    "keeps P (MarkCloneWarning tid' j)" "keeps P (RevokeCredential tid' j why at)"
    "keeps P (RevokeAllCredentials tid' sid why at)"
proof -
  show "keeps P (AdvanceSignCount tid' j prev n at)"
    unfolding AdvanceSignCount_def by (auto intro!: keeps_guarded assms(1,6))
  show "keeps P (TouchCredential tid' j at)"
    unfolding TouchCredential_def by (auto intro!: keeps_bindp keeps_exec assms(1,3))
  show "keeps P (MarkCloneWarning tid' j)"
    unfolding MarkCloneWarning_def by (auto intro!: keeps_required assms(1,4))
  show "keeps P (RevokeCredential tid' j why at)"
    unfolding RevokeCredential_def by (auto intro!: keeps_required assms(1,5))
  show "keeps P (RevokeAllCredentials tid' sid why at)"
    unfolding RevokeAllCredentials_def
    by (intro keeps_if keeps_failp keeps_in_tx_of keeps_bindp keeps_exec keeps_ret)
      (auto intro!: assms(1,5) dest!: totp_update_Inr simp: assms(2))
qed

lemmas keeps_credential_inv = keeps_credential_update [where P = credential_inv
    and Q = "\<lambda>p f. (\<forall>r. cr_id (f r) = cr_id r) \<and> (\<forall>r. p r \<longrightarrow> credential_row_ok r \<longrightarrow> credential_row_ok (f r))"]

lemma credential_ops_inv:
  "keeps credential_inv (AdvanceSignCount tid' j prev n at)" "keeps credential_inv (TouchCredential tid' j at)"
  "keeps credential_inv (MarkCloneWarning tid' j)" "keeps credential_inv (RevokeCredential tid' j why at)"
  "keeps credential_inv (RevokeAllCredentials tid' sid why at)" "keeps credential_inv (CreateCredential c)"
proof -
  show "keeps credential_inv (CreateCredential c)"
    unfolding CreateCredential_def Let_def
    by (intro keeps_if keeps_failp keeps_bindp keeps_wall_clock keeps_exec) (erule (1) credential_inv_insert)
qed (rule keeps_credential_inv; auto intro!: credential_inv_update simp: credential_row_ok_def)+

lemma credential_ops_spent:
  "keeps (count_spent tid i m) (AdvanceSignCount tid' j prev n at)" "keeps (count_spent tid i m) (TouchCredential tid' j at)"
  "keeps (count_spent tid i m) (MarkCloneWarning tid' j)" "keeps (count_spent tid i m) (RevokeCredential tid' j why at)"
  "keeps (count_spent tid i m) (RevokeAllCredentials tid' sid why at)"
  by (rule keeps_credential_update [where Q = "\<lambda>p f. \<forall>r. p r \<longrightarrow> cr_id (f r) = cr_id r \<and> cr_tenant (f r) = cr_tenant r
        \<and> cr_sign_count r \<le> cr_sign_count (f r) \<and> (cr_revoked (f r) = None \<longrightarrow> cr_revoked r = None)"];
      force simp: count_spent_def ball_update_where)+

lemma count_spent_create:
  assumes "cr_id c \<noteq> i" shows "keeps (count_spent tid i m) (CreateCredential c)"
  unfolding CreateCredential_def Let_def
  by (intro keeps_if keeps_failp keeps_bindp keeps_wall_clock keeps_exec)
    (use assms in \<open>auto simp: count_spent_def credential_insert_def rows_insert_Inr split: if_splits\<close>)

lemma credential_other_keeps:
  assumes "credential_other tid i s s'" and "credential_inv (os_db s)"
  shows "credential_inv (os_db s') \<and> (count_spent tid i m (os_db s) \<longrightarrow> count_spent tid i m (os_db s'))"
  using assms(1)
proof (cases rule: credential_other.cases)
  case (create c r)
  with assms(2) show ?thesis
    using keepsD [OF credential_ops_inv(6) create(1)] keepsD [OF count_spent_create [OF create(2)] create(1)] by blast
next
  case (advance tid' j prev n at r)
  with assms(2) show ?thesis
    using keepsD [OF credential_ops_inv(1) advance] keepsD [OF credential_ops_spent(1) advance] by blast
next
  case (touch tid' j at r)
  with assms(2) show ?thesis
    using keepsD [OF credential_ops_inv(2) touch] keepsD [OF credential_ops_spent(2) touch] by blast
next
  case (mark tid' j r)
  with assms(2) show ?thesis
    using keepsD [OF credential_ops_inv(3) mark] keepsD [OF credential_ops_spent(3) mark] by blast
next
  case (revoke tid' j why at r)
  with assms(2) show ?thesis
    using keepsD [OF credential_ops_inv(4) revoke] keepsD [OF credential_ops_spent(4) revoke] by blast
next
  case (revoke_all tid' sid why at q)
  with assms(2) show ?thesis
    using keepsD [OF credential_ops_inv(5) revoke_all] keepsD [OF credential_ops_spent(5) revoke_all] by blast
next
  case frame
  then show ?thesis by (fastforce simp: count_spent_def)
qed

lemma AdvanceSignCount_Inr:
  assumes run: "AdvanceSignCount tid i prev n at s = (Inr u, s')" and inv: "credential_inv (os_db s)"
  shows "prev < n \<and> \<not> count_spent tid i n (os_db s) \<and> count_spent tid i n (os_db s')"
proof -
  let ?p = "\<lambda>r. cr_tenant r = tid \<and> cr_id r = i \<and> cr_sign_count r = uint prev
              \<and> uint n > cr_sign_count r \<and> cr_revoked r = None"
  let ?f = "\<lambda>r. r\<lparr>cr_sign_count := uint n, cr_last_used := Some at\<rparr>"
  have lt: "\<not> n \<le> prev" using run by (auto simp: AdvanceSignCount_def failp_def)
  have g: "guarded (rows_update tb_credentials tb_credentials_update ?p ?f)
        (\<lambda>t. list_ex (\<lambda>r. cr_tenant r = tid \<and> cr_id r = i) (tb_credentials t)) s = (Inr u, s')"
    using run unfolding AdvanceSignCount_def if_not_P [OF lt] .
  from guarded_Inr [OF g] have c: "count_where ?p (tb_credentials (os_db s)) = 1"
    and db: "os_db s' = tb_credentials_update (update_where ?p ?f) (os_db s)" by simp_all
  from c obtain r where r: "r \<in> set (tb_credentials (os_db s))" "?p r"
    using count_where_pos [of ?p "tb_credentials (os_db s)"] by auto
  have only: "y = r" if "y \<in> set (tb_credentials (os_db s))" "cr_id y = i" for y
    using that r inv by (auto simp: credential_inv_def distinct_map dest: inj_onD)
  have "\<not> count_spent tid i n (os_db s)" using r by (force simp: count_spent_def)
  moreover have "count_spent tid i n (os_db s')"
    unfolding count_spent_def db
  proof
    fix x assume "x \<in> set (tb_credentials (tb_credentials_update (update_where ?p ?f) (os_db s)))"
    then have "x \<in> set (update_where ?p ?f (tb_credentials (os_db s)))" by simp
    then obtain y where y: "y \<in> set (tb_credentials (os_db s))" "x = (if ?p y then ?f y else y)"
      by (rule in_update_where)
    with only [of y] r(2) show "cr_tenant x = tid \<and> cr_id x = i \<and> cr_revoked x = None \<longrightarrow> uint n \<le> cr_sign_count x"
      by (cases "y = r") auto
  qed
  ultimately show ?thesis using lt by (simp add: not_le)
qed

interpretation counter_cas: single_use "count_attempt tid i n" "credential_other tid i"
    "\<lambda>s. count_spent tid i n (os_db s)" "\<lambda>s. credential_inv (os_db s)" for tid i n
proof unfold_locales
  fix s s' :: db and b
  assume inv: "credential_inv (os_db s)"
  show "count_attempt tid i n s True s' \<Longrightarrow> \<not> count_spent tid i n (os_db s) \<and> count_spent tid i n (os_db s')"
    unfolding count_attempt_def is_ok_iff using AdvanceSignCount_Inr [OF _ inv] by blast
  show "count_attempt tid i n s b s' \<Longrightarrow>
      credential_inv (os_db s') \<and> (count_spent tid i n (os_db s) \<longrightarrow> count_spent tid i n (os_db s'))"
    using inv by (auto simp: count_attempt_def dest: credential_other.advance credential_other_keeps)
  show "credential_other tid i s s' \<Longrightarrow>
      credential_inv (os_db s') \<and> (count_spent tid i n (os_db s) \<longrightarrow> count_spent tid i n (os_db s'))"
    using inv by (simp add: credential_other_keeps)
qed

subsection \<open>Properties\<close>

text \<open>
  A captured assertion is not accepted twice. An assertion carries a signature counter;
  in any order of attempts to advance one credential to that counter (from any previously
  read value) with the other steps of the system, under any engine failures, at most one
  attempt succeeds, and none when no live row of the credential has a counter below it:
  the counter had reached it, or the credential was revoked or removed.
\<close>

theorem sign_count_replay:
  assumes "spend_run (count_attempt tid i n) (credential_other tid i) s k u" and "credential_inv (os_db s)"
  shows "k \<le> 1 \<and> (count_spent tid i n (os_db s) \<longrightarrow> k = 0)"
  using counter_cas.at_most_once [OF assms] counter_cas.never_again [OF assms] by blast

definition demo_credential :: credential where
  "demo_credential = \<lparr>cr_id = ''c1'', cr_tenant = ''t'', cr_subject = ''u'', cr_credential = [1], cr_public_key = [2],
     cr_aaguid = [], cr_attestation = ''none'', cr_transports = [], cr_sign_count = 4, cr_clone_warning = False,
     cr_backup_eligible = False, cr_backup_state = False, cr_user_verified = True, cr_binding_hash = [],
     cr_label = [], cr_rpid = ''rp'', cr_created = 10, cr_last_used = None, cr_revoked = None, cr_revoked_reason = []\<rparr>"

definition demo_credential_db :: db where
  "demo_credential_db = fresh_os 20 (empty_tables\<lparr>tb_credentials := [demo_credential]\<rparr>)"

lemma demo_credential_inv: "credential_inv (os_db demo_credential_db)"
  by (simp add: demo_credential_db_def credential_inv_def credential_row_ok_def demo_credential_def)

lemma demo_credential_advance:
  "AdvanceSignCount ''t'' ''c1'' 4 9 30 demo_credential_db =
     (Inr (), demo_credential_db\<lparr>os_db := empty_tables\<lparr>tb_credentials :=
        [demo_credential\<lparr>cr_sign_count := 9, cr_last_used := Some 30\<rparr>]\<rparr>\<rparr>)"
  by (simp add: AdvanceSignCount_def demo_credential_db_def demo_credential_def tx_simps rows_update_def)

theorem sign_count_replay_witness:
  "\<exists>k u. spend_run (count_attempt ''t'' ''c1'' 9) (credential_other ''t'' ''c1'') demo_credential_db k u \<and> k = 1 \<and> k \<le> 1"
proof -
  have "spend_run (count_attempt ''t'' ''c1'' 9) (credential_other ''t'' ''c1'') demo_credential_db (Suc 0)
      (demo_credential_db\<lparr>os_db := empty_tables\<lparr>tb_credentials :=
        [demo_credential\<lparr>cr_sign_count := 9, cr_last_used := Some 30\<rparr>]\<rparr>\<rparr>)"
    by (rule run_accept [OF run_start], unfold count_attempt_def) (use demo_credential_advance in fastforce)
  with sign_count_replay [OF this demo_credential_inv] show ?thesis by auto
qed

end
