(* ===== verification/Recovery_Store.thy ===== *)
theory Recovery_Store
  imports Sqlite_Base Single_Use
begin

text \<open>
  \<^verbatim>\<open>internal/store/sqlite/recovery.go\<close>: the recovery codes of a subject, issued in batches
  and spent one by one. Of the pointer slice the batch arrives in, a nil element is
  \<open>None\<close>; the index the messages carry is left out.
\<close>

subsection \<open>Operations\<close>

text \<open>The primary key and the unique index on tenant and selector.\<close>

definition recovery_clash :: "recovery_code \<Rightarrow> recovery_code \<Rightarrow> bool" where
  "recovery_clash old new \<longleftrightarrow> rc_id old = rc_id new
     \<or> rc_tenant old = rc_tenant new \<and> rc_selector old = rc_selector new"

definition recovery_insert :: "recovery_code \<Rightarrow> tables \<Rightarrow> sql_error + unit \<times> tables" where
  "recovery_insert r t =
     foreign_key (subject_exists (rc_subject r) t) (rows_insert tb_recovery tb_recovery_update recovery_clash r) t"

fun batch_error :: "recovery_code option list \<Rightarrow> err option" where
  "batch_error [] = None"
| "batch_error (None # _) = Some (OtherErr ''sqlite: recovery code is nil'')"
| "batch_error (Some c # cs) =
     (if rc_id c = [] \<or> rc_selector c = [] \<or> rc_hash c = []
      then Some (OtherErr ''sqlite: recovery code requires an id, a selector and a verifier hash'')
      else batch_error cs)"

text \<open>What the loop makes of an element of the batch before it is inserted.\<close>

definition filed :: "string \<Rightarrow> string \<Rightarrow> string \<Rightarrow> instant \<Rightarrow> recovery_code \<Rightarrow> recovery_code" where
  "filed tenantID subjectID batchID now c =
     c\<lparr>rc_tenant := tenantID, rc_subject := subjectID, rc_batch := batchID,
       rc_created := (if is_zero_time (rc_created c) then now else rc_created c)\<rparr>"

lemma filed_sel [simp]:
  "rc_id (filed tid sid bid w c) = rc_id c" "rc_tenant (filed tid sid bid w c) = tid"
  "rc_subject (filed tid sid bid w c) = sid" "rc_batch (filed tid sid bid w c) = bid"
  "rc_consumed (filed tid sid bid w c) = rc_consumed c"
  by (simp_all add: filed_def)

fun insert_codes :: "recovery_code list \<Rightarrow> (tables, unit) proc" where
  "insert_codes [] = ret ()"
| "insert_codes (c # cs) = bindp (exec map_error (recovery_insert c)) (\<lambda>_. insert_codes cs)"

definition ReplaceRecoveryCodes ::
  "string \<Rightarrow> string \<Rightarrow> string \<Rightarrow> recovery_code option list \<Rightarrow> (tables, unit) proc" where
  "ReplaceRecoveryCodes tenantID subjectID batchID codes =
     (if tenantID = [] \<or> subjectID = [] \<or> batchID = []
      then failp (OtherErr ''sqlite: recovery batch requires a tenant, a subject and a batch id'')
      else if length codes = 0 then failp (OtherErr ''sqlite: recovery batch requires at least one code'')
      else case batch_error codes of
        Some e \<Rightarrow> failp e
      | None \<Rightarrow> bindp wall_clock (\<lambda>now.
          in_tx (bindp
            (exec map_error (rows_delete tb_recovery tb_recovery_update
               (\<lambda>r. rc_tenant r = tenantID \<and> rc_subject r = subjectID \<and> rc_consumed r = None
                  \<and> rc_batch r \<noteq> batchID)))
            (\<lambda>_. insert_codes (map (filed tenantID subjectID batchID now) (List.map_filter id codes))))))"

definition GetRecoveryCodeBySelector :: "string \<Rightarrow> string \<Rightarrow> (tables, recovery_code) proc" where
  "GetRecoveryCodeBySelector tenantID selector =
     (if selector = [] then failp (OtherErr ''sqlite: recovery code lookup requires a selector'')
      else query_row map_error
        (\<lambda>t. find_row (\<lambda>r. rc_tenant r = tenantID \<and> rc_selector r = selector) (tb_recovery t)))"

definition ConsumeRecoveryCode :: "string \<Rightarrow> string \<Rightarrow> instant \<Rightarrow> (tables, unit) proc" where
  "ConsumeRecoveryCode tenantID i at =
     guarded
       (rows_update tb_recovery tb_recovery_update
          (\<lambda>r. rc_tenant r = tenantID \<and> rc_id r = i \<and> rc_consumed r = None)
          (\<lambda>r. r\<lparr>rc_consumed := Some at\<rparr>))
       (\<lambda>t. list_ex (\<lambda>r. rc_tenant r = tenantID \<and> rc_id r = i) (tb_recovery t))"

definition DeleteConsumedRecoveryCodes :: "instant \<Rightarrow> (tables, int) proc" where
  "DeleteConsumedRecoveryCodes cutoff =
     exec map_error (rows_delete tb_recovery tb_recovery_update
       (\<lambda>r. case rc_consumed r of None \<Rightarrow> False | Some at \<Rightarrow> at < cutoff))"

definition CountUnusedRecoveryCodes :: "string \<Rightarrow> string \<Rightarrow> (tables, int) proc" where
  "CountUnusedRecoveryCodes tenantID subjectID =
     query raw_error (\<lambda>t. count_where
       (\<lambda>r. rc_tenant r = tenantID \<and> rc_subject r = subjectID \<and> rc_consumed r = None) (tb_recovery t))"

subsection \<open>Invariant\<close>

definition recovery_inv :: "tables \<Rightarrow> bool" where
  "recovery_inv t \<longleftrightarrow> distinct (map rc_id (tb_recovery t))
     \<and> distinct (map (\<lambda>r. (rc_tenant r, rc_selector r)) (tb_recovery t))"

lemma recovery_inv_delete: "recovery_inv t \<Longrightarrow> recovery_inv (tb_recovery_update (delete_where p) t)"
  by (simp add: recovery_inv_def delete_where_def distinct_map_filter)

lemma recovery_inv_insert: "recovery_inv t \<Longrightarrow> recovery_insert r t = Inr (u, t') \<Longrightarrow> recovery_inv t'"
  by (auto simp: recovery_inv_def recovery_insert_def rows_insert_Inr recovery_clash_def)

lemma recovery_inv_update:
  "(\<And>r. rc_id (f r) = rc_id r \<and> rc_tenant (f r) = rc_tenant r \<and> rc_selector (f r) = rc_selector r)
     \<Longrightarrow> recovery_inv t \<Longrightarrow> recovery_inv (tb_recovery_update (update_where p f) t)"
  by (simp add: recovery_inv_def map_update_where)

lemma keeps_insert_codes:
  "(\<And>c t u t'. c \<in> set cs \<Longrightarrow> P t \<Longrightarrow> recovery_insert c t = Inr (u, t') \<Longrightarrow> P t') \<Longrightarrow> keeps P (insert_codes cs)"
proof (induction cs)
  case Nil
  show ?case by auto
next
  case (Cons c cs)
  have "keeps P (exec map_error (recovery_insert c))"
    by (rule keeps_exec) (use Cons.prems in force)
  then show ?case
    using Cons by (auto intro!: keeps_bindp)
qed

lemma keeps_ReplaceRecoveryCodes:
  assumes "\<And>t. P t \<Longrightarrow> P (tb_recovery_update (delete_where
      (\<lambda>r. rc_tenant r = tid \<and> rc_subject r = sid \<and> rc_consumed r = None \<and> rc_batch r \<noteq> bid)) t)"
    and "\<And>c w t u t'. Some c \<in> set codes \<Longrightarrow> P t \<Longrightarrow> recovery_insert (filed tid sid bid w c) t = Inr (u, t') \<Longrightarrow> P t'"
  shows "keeps P (ReplaceRecoveryCodes tid sid bid codes)"
  unfolding ReplaceRecoveryCodes_def
  by (intro keeps_if keeps_failp)
    (auto split: option.split intro!: keeps_bindp keeps_in_tx_of keeps_exec keeps_insert_codes
      simp: List.map_filter_def assms)

lemma keeps_recovery_inv [intro]:
  "keeps recovery_inv (ReplaceRecoveryCodes tid sid bid codes)"
  "keeps recovery_inv (ConsumeRecoveryCode tid i at)"
  "keeps recovery_inv (DeleteConsumedRecoveryCodes cutoff)"
  unfolding ConsumeRecoveryCode_def DeleteConsumedRecoveryCodes_def
  by (auto intro!: keeps_ReplaceRecoveryCodes keeps_guarded keeps_exec recovery_inv_delete recovery_inv_update
      dest: recovery_inv_insert)

subsection \<open>Single use\<close>

text \<open>
  A code cannot be spent when no row with its identifier is unused: it was spent, or its
  batch was replaced, or the sweep removed it.
\<close>

definition recovery_spent :: "string \<Rightarrow> string \<Rightarrow> tables \<Rightarrow> bool" where
  "recovery_spent tid i t \<longleftrightarrow>
     (\<forall>r \<in> set (tb_recovery t). rc_tenant r = tid \<and> rc_id r = i \<longrightarrow> rc_consumed r \<noteq> None)"

definition recovery_attempt :: "string \<Rightarrow> string \<Rightarrow> db \<Rightarrow> bool \<Rightarrow> db \<Rightarrow> bool" where
  "recovery_attempt tid i s b s' \<longleftrightarrow> (\<exists>at r. ConsumeRecoveryCode tid i at s = (r, s') \<and> b = is_ok r)"

text \<open>
  Every other step of the system: batches of fresh identifiers, the spending of other
  codes, the sweep, and any step that adds no unused row under the identifier (which
  covers the removal of a subject, and everything that leaves the table alone).
\<close>

inductive recovery_other :: "string \<Rightarrow> string \<Rightarrow> db \<Rightarrow> db \<Rightarrow> bool" for tid i where
  replace: "ReplaceRecoveryCodes tid' sid bid codes s = (r, s') \<Longrightarrow>
     (\<And>c. Some c \<in> set codes \<Longrightarrow> rc_id c \<noteq> i) \<Longrightarrow> recovery_other tid i s s'"
| consume: "ConsumeRecoveryCode tid' j at s = (r, s') \<Longrightarrow> recovery_other tid i s s'"
| sweep: "DeleteConsumedRecoveryCodes cutoff s = (q, s') \<Longrightarrow> recovery_other tid i s s'"
| frame: "distinct (map rc_id (tb_recovery (os_db s'))) \<Longrightarrow>
     distinct (map (\<lambda>r. (rc_tenant r, rc_selector r)) (tb_recovery (os_db s'))) \<Longrightarrow>
     (\<And>r. r \<in> set (tb_recovery (os_db s')) \<Longrightarrow> rc_id r = i \<Longrightarrow> rc_consumed r = None
        \<Longrightarrow> r \<in> set (tb_recovery (os_db s))) \<Longrightarrow> recovery_other tid i s s'"

lemma spent_delete: "recovery_spent tid i t \<Longrightarrow> recovery_spent tid i (tb_recovery_update (delete_where p) t)"
  by (simp add: recovery_spent_def)

lemma spent_insert:
  "recovery_spent tid i t \<Longrightarrow> recovery_insert c t = Inr (u, t') \<Longrightarrow> rc_id c \<noteq> i \<Longrightarrow> recovery_spent tid i t'"
  by (auto simp: recovery_spent_def recovery_insert_def rows_insert_Inr)

lemma spent_consume:
  "recovery_spent tid i t \<Longrightarrow> recovery_spent tid i (tb_recovery_update (update_where p (\<lambda>r. r\<lparr>rc_consumed := Some at\<rparr>)) t)"
  by (auto simp: recovery_spent_def row_simps)

lemma keeps_spent_consume [intro]: "keeps (recovery_spent tid i) (ConsumeRecoveryCode tid' j at)"
  unfolding ConsumeRecoveryCode_def by (auto intro!: keeps_guarded spent_consume)

lemma keeps_spent_sweep [intro]: "keeps (recovery_spent tid i) (DeleteConsumedRecoveryCodes cutoff)"
  unfolding DeleteConsumedRecoveryCodes_def by (auto intro!: keeps_exec spent_delete)

lemma keeps_spent_replace:
  assumes "\<And>c. Some c \<in> set codes \<Longrightarrow> rc_id c \<noteq> i"
  shows "keeps (recovery_spent tid i) (ReplaceRecoveryCodes tid' sid bid codes)"
proof (rule keeps_ReplaceRecoveryCodes)
  fix c w t u t'
  assume c: "Some c \<in> set codes" and "recovery_spent tid i t"
    and "recovery_insert (filed tid' sid bid w c) t = Inr (u, t')"
  then show "recovery_spent tid i t'" using assms [OF c] by (metis spent_insert filed_sel(1))
qed (rule spent_delete)

lemma recovery_other_keeps:
  assumes "recovery_other tid i s s'" and "recovery_inv (os_db s)"
  shows "recovery_inv (os_db s') \<and> (recovery_spent tid i (os_db s) \<longrightarrow> recovery_spent tid i (os_db s'))"
  using assms
proof (cases rule: recovery_other.cases)
  case (frame)
  with assms(2) show ?thesis by (fastforce simp: recovery_inv_def recovery_spent_def)
next
  case (replace tid' sid bid codes r)
  with assms(2) show ?thesis
    using keepsD [OF keeps_recovery_inv(1) replace(1)] keepsD [OF keeps_spent_replace [OF replace(2)] replace(1)]
    by blast
next
  case (consume tid' j at r)
  with assms(2) show ?thesis
    using keepsD [OF keeps_recovery_inv(2) consume] keepsD [OF keeps_spent_consume consume] by blast
next
  case (sweep cutoff q)
  with assms(2) show ?thesis
    using keepsD [OF keeps_recovery_inv(3) sweep] keepsD [OF keeps_spent_sweep sweep] by blast
qed

lemma ConsumeRecoveryCode_Inr:
  assumes "ConsumeRecoveryCode tid i at s = (Inr u, s')"
  shows "\<not> recovery_spent tid i (os_db s) \<and> recovery_spent tid i (os_db s')
    \<and> os_db s' = tb_recovery_update (update_where
         (\<lambda>r. rc_tenant r = tid \<and> rc_id r = i \<and> rc_consumed r = None) (\<lambda>r. r\<lparr>rc_consumed := Some at\<rparr>)) (os_db s)"
proof -
  let ?p = "\<lambda>r. rc_tenant r = tid \<and> rc_id r = i \<and> rc_consumed r = None"
  from guarded_Inr [OF assms [unfolded ConsumeRecoveryCode_def]]
  have n: "count_where ?p (tb_recovery (os_db s)) = 1"
    and db: "os_db s' = tb_recovery_update (update_where ?p (\<lambda>r. r\<lparr>rc_consumed := Some at\<rparr>)) (os_db s)"
    by simp_all
  from n have "\<exists>r \<in> set (tb_recovery (os_db s)). ?p r"
    using count_where_pos [of ?p "tb_recovery (os_db s)"] by simp
  then have "\<not> recovery_spent tid i (os_db s)" by (auto simp: recovery_spent_def)
  moreover have "recovery_spent tid i (os_db s')"
    by (simp add: db recovery_spent_def ball_update_where)
  ultimately show ?thesis using db by simp
qed

interpretation recovery_cas: single_use "recovery_attempt tid i" "recovery_other tid i"
    "\<lambda>s. recovery_spent tid i (os_db s)" "\<lambda>s. recovery_inv (os_db s)" for tid i
proof unfold_locales
  fix s s' :: db and b
  assume inv: "recovery_inv (os_db s)"
  show "recovery_attempt tid i s True s' \<Longrightarrow>
      \<not> recovery_spent tid i (os_db s) \<and> recovery_spent tid i (os_db s')"
    by (auto simp: recovery_attempt_def is_ok_iff dest: ConsumeRecoveryCode_Inr)
  show "recovery_attempt tid i s b s' \<Longrightarrow>
      recovery_inv (os_db s') \<and> (recovery_spent tid i (os_db s) \<longrightarrow> recovery_spent tid i (os_db s'))"
    using inv by (auto simp: recovery_attempt_def dest: recovery_other.consume recovery_other_keeps)
  show "recovery_other tid i s s' \<Longrightarrow>
      recovery_inv (os_db s') \<and> (recovery_spent tid i (os_db s) \<longrightarrow> recovery_spent tid i (os_db s'))"
    using inv by (simp add: recovery_other_keeps)
qed

subsection \<open>Replacing a batch\<close>

lemma insert_codes_Inr:
  "insert_codes cs s = (Inr u, s') \<Longrightarrow> tb_recovery (os_db s') = tb_recovery (os_db s) @ cs"
  by (induction cs arbitrary: s)
    (auto simp: ret_def rows_insert_Inr recovery_insert_def elim!: bindp_exec_Inr)

lemma ReplaceRecoveryCodes_Inr:
  assumes "ReplaceRecoveryCodes tid sid bid codes s = (Inr u, s')"
  shows "None \<notin> set codes \<and> codes \<noteq> [] \<and> tb_recovery (os_db s') =
    delete_where (\<lambda>r. rc_tenant r = tid \<and> rc_subject r = sid \<and> rc_consumed r = None \<and> rc_batch r \<noteq> bid)
      (tb_recovery (os_db s)) @ map (filed tid sid bid (os_wall s)) (List.map_filter id codes)"
proof -
  from assms have ok: "batch_error codes = None" "codes \<noteq> []"
    by (auto simp: ReplaceRecoveryCodes_def failp_def split: if_splits option.splits)
  have "None \<notin> set codes" if "batch_error cs = None" "set codes = set cs" for cs
    using that by (induction cs arbitrary: codes rule: batch_error.induct) (auto split: if_splits)
  with ok have nn: "None \<notin> set codes" by simp
  from assms ok have "in_tx (bindp (exec map_error (rows_delete tb_recovery tb_recovery_update
        (\<lambda>r. rc_tenant r = tid \<and> rc_subject r = sid \<and> rc_consumed r = None \<and> rc_batch r \<noteq> bid)))
      (\<lambda>_. insert_codes (map (filed tid sid bid (os_wall s)) (List.map_filter id codes)))) s = (Inr u, s')"
    by (auto simp: ReplaceRecoveryCodes_def failp_def bindp_def wall_clock_def split: if_splits)
  then show ?thesis
    by (rule in_tx_exec_Inr) (use nn ok in \<open>auto dest!: insert_codes_Inr\<close>)
qed

subsection \<open>Properties\<close>

text \<open>
  C23: a recovery code is spent at most once. In any order of spending attempts on one
  code with the other steps of the system (batches of fresh identifiers, other codes, the
  sweep, removals), under any engine failures, at most one attempt succeeds; and none once
  no unused row carries the identifier, so neither a spent code, nor one of a batch that
  was replaced, nor one that was swept away ever authenticates again.
\<close>

theorem recovery_single_use:
  assumes "spend_run (recovery_attempt tid i) (recovery_other tid i) s n u" and "recovery_inv (os_db s)"
  shows "n \<le> 1 \<and> (recovery_spent tid i (os_db s) \<longrightarrow> n = 0)"
  using recovery_cas.at_most_once [OF assms] recovery_cas.never_again [OF assms] by blast

definition demo_code :: recovery_code where
  "demo_code = \<lparr>rc_id = ''c1'', rc_tenant = ''t'', rc_subject = ''u'', rc_batch = ''b1'', rc_selector = ''MC4TKB'',
     rc_hash = ''h'', rc_created = 10, rc_consumed = None\<rparr>"

definition demo_recovery_db :: db where
  "demo_recovery_db = fresh_os 100 (empty_tables\<lparr>tb_recovery := [demo_code]\<rparr>)"

lemma demo_recovery_inv: "recovery_inv (os_db demo_recovery_db)"
  by (simp add: demo_recovery_db_def recovery_inv_def)

lemma demo_recovery_consume:
  "ConsumeRecoveryCode ''t'' ''c1'' 20 demo_recovery_db =
     (Inr (), demo_recovery_db\<lparr>os_db := empty_tables\<lparr>tb_recovery := [demo_code\<lparr>rc_consumed := Some 20\<rparr>]\<rparr>\<rparr>)"
  by (simp add: ConsumeRecoveryCode_def demo_recovery_db_def demo_code_def tx_simps rows_update_def)

theorem recovery_single_use_witness:
  "\<exists>n u. spend_run (recovery_attempt ''t'' ''c1'') (recovery_other ''t'' ''c1'') demo_recovery_db n u \<and> n = 1 \<and> n \<le> 1"
proof -
  have "spend_run (recovery_attempt ''t'' ''c1'') (recovery_other ''t'' ''c1'') demo_recovery_db (Suc 0)
      (demo_recovery_db\<lparr>os_db := empty_tables\<lparr>tb_recovery := [demo_code\<lparr>rc_consumed := Some 20\<rparr>]\<rparr>\<rparr>)"
    by (rule run_accept [OF run_start], unfold recovery_attempt_def) (use demo_recovery_consume in fastforce)
  with recovery_single_use [OF this demo_recovery_inv] show ?thesis by auto
qed

end
