(* ===== verification/Ticket_Store.thy ===== *)
theory Ticket_Store
  imports Sqlite_Base Single_Use
begin

text \<open>
  \<^verbatim>\<open>internal/store/sqlite/ticket.go\<close>: enrolment tickets. A subject has at most one live
  ticket; a ticket is redeemed once, inside its lifetime, and records the credential the
  redemption produced. The pointer the ticket arrives in may be nil (\<open>None\<close>).
\<close>

subsection \<open>Operations\<close>

definition ticket_live :: "enrolment_ticket \<Rightarrow> bool" where
  "ticket_live r \<longleftrightarrow> et_consumed r = None \<and> et_revoked r = None"

text \<open>The primary key, the index on tenant and selector, and the index on live tickets.\<close>

definition ticket_clash :: "enrolment_ticket \<Rightarrow> enrolment_ticket \<Rightarrow> bool" where
  "ticket_clash old new \<longleftrightarrow> et_id old = et_id new
     \<or> et_tenant old = et_tenant new \<and> et_selector old = et_selector new
     \<or> ticket_live old \<and> ticket_live new \<and> et_tenant old = et_tenant new \<and> et_subject old = et_subject new"

text \<open>The CHECK \<^verbatim>\<open>et_consumed_ck\<close>.\<close>

definition ticket_row_ok :: "enrolment_ticket \<Rightarrow> bool" where
  "ticket_row_ok r \<longleftrightarrow> (et_consumed r = None) = (et_credential r = [])"

definition ticket_insert :: "enrolment_ticket \<Rightarrow> tables \<Rightarrow> sql_error + unit \<times> tables" where
  "ticket_insert r t =
     foreign_key (subject_exists (et_subject r) t)
       (check (ticket_row_ok r) (rows_insert tb_tickets tb_tickets_update ticket_clash r)) t"

definition ReplaceEnrolmentTicket :: "string \<Rightarrow> string \<Rightarrow> enrolment_ticket option \<Rightarrow> (tables, unit) proc" where
  "ReplaceEnrolmentTicket tenantID subjectID ticket =
     (if tenantID = [] \<or> subjectID = []
      then failp (OtherErr ''sqlite: enrolment ticket requires a tenant and a subject'')
      else case ticket of
        None \<Rightarrow> failp (OtherErr ''sqlite: enrolment ticket is nil'')
      | Some t \<Rightarrow>
          if et_id t = [] \<or> et_selector t = [] \<or> et_hash t = []
          then failp (OtherErr ''sqlite: enrolment ticket requires an id, a selector and a verifier hash'')
          else if et_issued_by t = []
          then failp (OtherErr ''sqlite: enrolment ticket requires the identifier of the credential that issued it'')
          else if is_zero_time (et_expires t)
          then failp (OtherErr ''sqlite: enrolment ticket requires an expiry'')
          else bindp wall_clock (\<lambda>wall.
            let t = t\<lparr>et_tenant := tenantID, et_subject := subjectID,
                      et_created := (if is_zero_time (et_created t) then wall else et_created t)\<rparr> in
            in_tx (bindp
              (exec map_error (rows_update tb_tickets tb_tickets_update
                 (\<lambda>r. et_tenant r = tenantID \<and> et_subject r = subjectID
                    \<and> et_consumed r = None \<and> et_revoked r = None)
                 (\<lambda>r. r\<lparr>et_revoked := Some (et_created t)\<rparr>)))
              (\<lambda>_. exec map_error (ticket_insert t)))))"

definition GetEnrolmentTicketBySelector :: "string \<Rightarrow> string \<Rightarrow> (tables, enrolment_ticket) proc" where
  "GetEnrolmentTicketBySelector tenantID selector =
     (if selector = [] then failp (OtherErr ''sqlite: enrolment ticket lookup requires a selector'')
      else query_row map_error
        (\<lambda>t. find_row (\<lambda>r. et_tenant r = tenantID \<and> et_selector r = selector) (tb_tickets t)))"

text \<open>The statement that reads back whether a ticket exists.\<close>

definition ticket_present :: "string \<Rightarrow> string \<Rightarrow> tables \<Rightarrow> bool" where
  "ticket_present tenantID i t \<longleftrightarrow> list_ex (\<lambda>r. et_tenant r = tenantID \<and> et_id r = i) (tb_tickets t)"

definition ConsumeEnrolmentTicket :: "string \<Rightarrow> string \<Rightarrow> string \<Rightarrow> instant \<Rightarrow> (tables, unit) proc" where
  "ConsumeEnrolmentTicket tenantID i credentialID at =
     (if credentialID = []
      then failp (OtherErr ''sqlite: consuming an enrolment ticket requires the credential it produced'')
      else guarded
        (rows_update tb_tickets tb_tickets_update
           (\<lambda>r. et_tenant r = tenantID \<and> et_id r = i
              \<and> et_consumed r = None \<and> et_revoked r = None \<and> et_expires r > at)
           (\<lambda>r. r\<lparr>et_consumed := Some at, et_credential := credentialID\<rparr>))
        (ticket_present tenantID i))"

definition RevokeEnrolmentTicket :: "string \<Rightarrow> string \<Rightarrow> instant \<Rightarrow> (tables, unit) proc" where
  "RevokeEnrolmentTicket tenantID i at =
     guarded
       (rows_update tb_tickets tb_tickets_update
          (\<lambda>r. et_tenant r = tenantID \<and> et_id r = i \<and> et_consumed r = None \<and> et_revoked r = None)
          (\<lambda>r. r\<lparr>et_revoked := Some at\<rparr>))
       (ticket_present tenantID i)"

definition DeleteExpiredEnrolmentTickets :: "instant \<Rightarrow> (tables, int) proc" where
  "DeleteExpiredEnrolmentTickets cutoff =
     exec map_error (rows_delete tb_tickets tb_tickets_update (\<lambda>r. et_expires r < cutoff))"

subsection \<open>Invariant\<close>

definition ticket_inv :: "tables \<Rightarrow> bool" where
  "ticket_inv t \<longleftrightarrow>
     distinct (map et_id (tb_tickets t))
     \<and> distinct (map (\<lambda>r. (et_tenant r, et_selector r)) (tb_tickets t))
     \<and> distinct (map (\<lambda>r. (et_tenant r, et_subject r)) (filter ticket_live (tb_tickets t)))
     \<and> (\<forall>r \<in> set (tb_tickets t). ticket_row_ok r)"

lemma distinct_live_update:
  assumes "distinct (map key (filter live rows))"
    and "\<And>r. p r \<Longrightarrow> live (f r) \<Longrightarrow> live r" and "\<And>r. p r \<Longrightarrow> key (f r) = key r"
  shows "distinct (map key (filter live (update_where p f rows)))"
  using assms(1)
proof (induction rows)
  case Nil
  show ?case by simp
next
  case (Cons r rows)
  have sub: "key ` {x \<in> set (update_where p f rows). live x} \<subseteq> key ` {x \<in> set rows. live x}"
    using assms(2,3) by (force simp: set_update_where)
  show ?case
    using Cons sub assms(2,3) by (auto split: if_splits)
qed

lemma ticket_inv_update:
  assumes "ticket_inv t"
    and "\<And>r. et_id (f r) = et_id r \<and> et_tenant (f r) = et_tenant r \<and> et_selector (f r) = et_selector r
           \<and> et_subject (f r) = et_subject r"
    and "\<And>r. p r \<Longrightarrow> ticket_row_ok r \<Longrightarrow> ticket_row_ok (f r)" and "\<And>r. ticket_live (f r) \<Longrightarrow> ticket_live r"
  shows "ticket_inv (tb_tickets_update (update_where p f) t)"
  using assms(1) unfolding ticket_inv_def
  by (auto simp: map_update_where assms(2) ball_update_where assms(3) intro!: distinct_live_update assms(4))

lemma distinct_live_delete:
  "distinct (map key (filter live rows)) \<Longrightarrow> distinct (map key (filter live (delete_where p rows)))"
  by (induction rows) (auto simp: delete_where_def)

lemma ticket_inv_delete: "ticket_inv t \<Longrightarrow> ticket_inv (tb_tickets_update (delete_where p) t)"
  unfolding ticket_inv_def
  by (simp add: distinct_live_delete) (simp add: delete_where_def distinct_map_filter)

lemma ticket_inv_insert: "ticket_inv t \<Longrightarrow> ticket_insert r t = Inr (u, t') \<Longrightarrow> ticket_inv t'"
  by (auto simp: ticket_inv_def ticket_insert_def rows_insert_Inr ticket_clash_def)

lemma keeps_ReplaceEnrolmentTicket:
  assumes "\<And>t at. P t \<Longrightarrow> P (tb_tickets_update (update_where
      (\<lambda>r. et_tenant r = tid \<and> et_subject r = sid \<and> et_consumed r = None \<and> et_revoked r = None)
      (\<lambda>r. r\<lparr>et_revoked := Some at\<rparr>)) t)"
    and "\<And>k w t u t'. tk = Some k \<Longrightarrow> P t \<Longrightarrow>
      ticket_insert (k\<lparr>et_tenant := tid, et_subject := sid,
        et_created := (if is_zero_time (et_created k) then w else et_created k)\<rparr>) t = Inr (u, t') \<Longrightarrow> P t'"
  shows "keeps P (ReplaceEnrolmentTicket tid sid tk)"
proof (cases tk)
  case None
  then show ?thesis by (auto simp: ReplaceEnrolmentTicket_def)
next
  case (Some k)
  show ?thesis
    unfolding ReplaceEnrolmentTicket_def Let_def Some option.case
    by (intro keeps_if keeps_failp keeps_bindp keeps_wall_clock keeps_in_tx_of keeps_exec)
      (use assms Some in \<open>force+\<close>)
qed

lemma keeps_ticket_inv [intro]:
  "keeps ticket_inv (ReplaceEnrolmentTicket tid sid tk)"
  "keeps ticket_inv (ConsumeEnrolmentTicket tid i c at)"
  "keeps ticket_inv (RevokeEnrolmentTicket tid i at)"
  "keeps ticket_inv (DeleteExpiredEnrolmentTickets cutoff)"
proof -
  show "keeps ticket_inv (ReplaceEnrolmentTicket tid sid tk)"
    by (rule keeps_ReplaceEnrolmentTicket)
      (auto intro!: ticket_inv_update dest: ticket_inv_insert simp: ticket_row_ok_def ticket_live_def)
  show "keeps ticket_inv (ConsumeEnrolmentTicket tid i c at)"
    unfolding ConsumeEnrolmentTicket_def
    by (auto intro!: keeps_guarded ticket_inv_update simp: ticket_row_ok_def ticket_live_def)
  show "keeps ticket_inv (RevokeEnrolmentTicket tid i at)"
    unfolding RevokeEnrolmentTicket_def
    by (auto intro!: keeps_guarded ticket_inv_update simp: ticket_row_ok_def ticket_live_def)
  show "keeps ticket_inv (DeleteExpiredEnrolmentTickets cutoff)"
    unfolding DeleteExpiredEnrolmentTickets_def by (auto intro!: keeps_exec ticket_inv_delete)
qed

subsection \<open>Single use\<close>

text \<open>A ticket cannot be redeemed when no live row carries its identifier.\<close>

definition ticket_spent :: "string \<Rightarrow> string \<Rightarrow> tables \<Rightarrow> bool" where
  "ticket_spent tid i t \<longleftrightarrow>
     (\<forall>r \<in> set (tb_tickets t). et_tenant r = tid \<and> et_id r = i \<longrightarrow> \<not> ticket_live r)"

definition ticket_attempt :: "string \<Rightarrow> string \<Rightarrow> db \<Rightarrow> bool \<Rightarrow> db \<Rightarrow> bool" where
  "ticket_attempt tid i s b s' \<longleftrightarrow> (\<exists>c at r. ConsumeEnrolmentTicket tid i c at s = (r, s') \<and> b = is_ok r)"

text \<open>
  Every other step of the system: tickets of fresh identifiers, the redemption and the
  revocation of any ticket, the sweep, and any step that adds no live row under the
  identifier.
\<close>

inductive ticket_other :: "string \<Rightarrow> string \<Rightarrow> db \<Rightarrow> db \<Rightarrow> bool" for tid i where
  replace: "ReplaceEnrolmentTicket tid' sid (Some k) s = (r, s') \<Longrightarrow> et_id k \<noteq> i \<Longrightarrow> ticket_other tid i s s'"
| consume: "ConsumeEnrolmentTicket tid' j c at s = (r, s') \<Longrightarrow> ticket_other tid i s s'"
| revoke: "RevokeEnrolmentTicket tid' j at s = (r, s') \<Longrightarrow> ticket_other tid i s s'"
| sweep: "DeleteExpiredEnrolmentTickets cutoff s = (q, s') \<Longrightarrow> ticket_other tid i s s'"
| frame: "ticket_inv (os_db s') \<Longrightarrow>
     (\<And>r. r \<in> set (tb_tickets (os_db s')) \<Longrightarrow> et_id r = i \<Longrightarrow> ticket_live r
        \<Longrightarrow> r \<in> set (tb_tickets (os_db s))) \<Longrightarrow> ticket_other tid i s s'"

lemma ticket_spent_delete: "ticket_spent tid i t \<Longrightarrow> ticket_spent tid i (tb_tickets_update (delete_where p) t)"
  by (simp add: ticket_spent_def)

lemma ticket_spent_update:
  "(\<And>r. et_id (f r) = et_id r \<and> et_tenant (f r) = et_tenant r) \<Longrightarrow> (\<And>r. \<not> ticket_live (f r))
     \<Longrightarrow> ticket_spent tid i t \<Longrightarrow> ticket_spent tid i (tb_tickets_update (update_where p f) t)"
  by (simp add: ticket_spent_def ball_update_where)

lemma ticket_spent_insert:
  "ticket_insert k t = Inr (u, t') \<Longrightarrow> et_id k \<noteq> i \<Longrightarrow> ticket_spent tid i t \<Longrightarrow> ticket_spent tid i t'"
  by (auto simp: ticket_spent_def ticket_insert_def rows_insert_Inr)

lemma keeps_ticket_spent:
  "keeps (ticket_spent tid i) (ConsumeEnrolmentTicket tid' j c at)"
  "keeps (ticket_spent tid i) (RevokeEnrolmentTicket tid' j at)"
  "keeps (ticket_spent tid i) (DeleteExpiredEnrolmentTickets cutoff)"
  unfolding ConsumeEnrolmentTicket_def RevokeEnrolmentTicket_def DeleteExpiredEnrolmentTickets_def
  by (auto intro!: keeps_guarded keeps_exec ticket_spent_update ticket_spent_delete simp: ticket_live_def)

lemma keeps_ticket_spent_replace:
  assumes "et_id k \<noteq> i"
  shows "keeps (ticket_spent tid i) (ReplaceEnrolmentTicket tid' sid (Some k))"
proof (rule keeps_ReplaceEnrolmentTicket)
  fix k' w t u t'
  assume k: "Some k = Some k'" and ins: "ticket_insert (k'\<lparr>et_tenant := tid', et_subject := sid,
        et_created := (if is_zero_time (et_created k') then w else et_created k')\<rparr>) t = Inr (u, t')"
    and old: "ticket_spent tid i t"
  show "ticket_spent tid i t'"
    by (rule ticket_spent_insert [OF ins _ old]) (use k assms in simp)
qed (auto intro!: ticket_spent_update simp: ticket_live_def)

lemma ticket_other_keeps:
  assumes "ticket_other tid i s s'" and "ticket_inv (os_db s)"
  shows "ticket_inv (os_db s') \<and> (ticket_spent tid i (os_db s) \<longrightarrow> ticket_spent tid i (os_db s'))"
  using assms(1)
proof (cases rule: ticket_other.cases)
  case (replace tid' sid k r)
  with assms(2) show ?thesis
    using keepsD [OF keeps_ticket_inv(1) replace(1)] keepsD [OF keeps_ticket_spent_replace [OF replace(2)] replace(1)]
    by blast
next
  case (consume tid' j c at r)
  with assms(2) show ?thesis
    using keepsD [OF keeps_ticket_inv(2) consume] keepsD [OF keeps_ticket_spent(1) consume] by blast
next
  case (revoke tid' j at r)
  with assms(2) show ?thesis
    using keepsD [OF keeps_ticket_inv(3) revoke] keepsD [OF keeps_ticket_spent(2) revoke] by blast
next
  case (sweep cutoff q)
  with assms(2) show ?thesis
    using keepsD [OF keeps_ticket_inv(4) sweep] keepsD [OF keeps_ticket_spent(3) sweep] by blast
next
  case frame
  then show ?thesis by (fastforce simp: ticket_spent_def)
qed

lemma ConsumeEnrolmentTicket_Inr:
  assumes run: "ConsumeEnrolmentTicket tid i c at s = (Inr u, s')" and inv: "ticket_inv (os_db s)"
  shows "\<exists>row \<in> set (tb_tickets (os_db s)). et_tenant row = tid \<and> et_id row = i \<and> redeemable row at
    \<and> \<not> ticket_spent tid i (os_db s) \<and> ticket_spent tid i (os_db s')
    \<and> os_db s' = tb_tickets_update (update_where (\<lambda>r. r = row)
         (\<lambda>r. r\<lparr>et_consumed := Some at, et_credential := c\<rparr>)) (os_db s)"
proof -
  let ?p = "\<lambda>r. et_tenant r = tid \<and> et_id r = i \<and> et_consumed r = None \<and> et_revoked r = None \<and> et_expires r > at"
  let ?f = "\<lambda>r. r\<lparr>et_consumed := Some at, et_credential := c\<rparr>"
  from run have "guarded (rows_update tb_tickets tb_tickets_update ?p ?f) (ticket_present tid i) s = (Inr u, s')"
    by (simp add: ConsumeEnrolmentTicket_def failp_def split: if_splits)
  from guarded_Inr [OF this] have n: "count_where ?p (tb_tickets (os_db s)) = 1"
    and db: "os_db s' = tb_tickets_update (update_where ?p ?f) (os_db s)"
    by simp_all
  from n obtain row where row: "row \<in> set (tb_tickets (os_db s))" "?p row"
    using count_where_pos [of ?p "tb_tickets (os_db s)"] by auto
  have only: "x = row" if "x \<in> set (tb_tickets (os_db s))" "et_id x = i" for x
    using that row inv by (auto simp: ticket_inv_def distinct_map dest: inj_onD)
  have "?p x = (x = row)" if "x \<in> set (tb_tickets (os_db s))" for x
    using only [OF that] row(2) by (cases "x = row") auto
  then have "update_where ?p ?f (tb_tickets (os_db s)) = update_where (\<lambda>r. r = row) ?f (tb_tickets (os_db s))"
    by (simp add: update_where_def)
  moreover have "ticket_spent tid i (os_db s')"
    unfolding db ticket_spent_def by (simp add: ball_update_where ticket_live_def) (use only row(2) in blast)
  moreover have "\<not> ticket_spent tid i (os_db s)"
    unfolding ticket_spent_def using row by (auto simp: ticket_live_def)
  ultimately show ?thesis
    using row db by (intro bexI [of _ row]) (simp_all add: redeemable_def)
qed

interpretation ticket_cas: single_use "ticket_attempt tid i" "ticket_other tid i"
    "\<lambda>s. ticket_spent tid i (os_db s)" "\<lambda>s. ticket_inv (os_db s)" for tid i
proof unfold_locales
  fix s s' :: db and b
  assume inv: "ticket_inv (os_db s)"
  show "ticket_attempt tid i s True s' \<Longrightarrow>
      \<not> ticket_spent tid i (os_db s) \<and> ticket_spent tid i (os_db s')"
    unfolding ticket_attempt_def is_ok_iff using ConsumeEnrolmentTicket_Inr [OF _ inv] by blast
  show "ticket_attempt tid i s b s' \<Longrightarrow>
      ticket_inv (os_db s') \<and> (ticket_spent tid i (os_db s) \<longrightarrow> ticket_spent tid i (os_db s'))"
    using inv by (auto simp: ticket_attempt_def dest: ticket_other.consume ticket_other_keeps)
  show "ticket_other tid i s s' \<Longrightarrow>
      ticket_inv (os_db s') \<and> (ticket_spent tid i (os_db s) \<longrightarrow> ticket_spent tid i (os_db s'))"
    using inv by (simp add: ticket_other_keeps)
qed

subsection \<open>Properties\<close>

text \<open>
  An enrolment ticket is redeemed at most once, and never after it was revoked,
  replaced or swept away. In any order of redemption attempts on one ticket (naming any
  credential, at any instant) with the other steps of the system, under any engine failures,
  at most one attempt succeeds, and none once no live row carries the identifier.
\<close>

theorem ticket_single_use:
  assumes "spend_run (ticket_attempt tid i) (ticket_other tid i) s n u" and "ticket_inv (os_db s)"
  shows "n \<le> 1 \<and> (ticket_spent tid i (os_db s) \<longrightarrow> n = 0)"
  using ticket_cas.at_most_once [OF assms] ticket_cas.never_again [OF assms] by blast

definition demo_ticket :: enrolment_ticket where
  "demo_ticket = \<lparr>et_id = ''e1'', et_tenant = ''t'', et_subject = ''u'', et_selector = ''0ABCDE'', et_hash = ''h'',
     et_issued_by = ''adm'', et_reason = [], et_created = 10, et_expires = 50, et_consumed = None,
     et_credential = [], et_revoked = None\<rparr>"

definition demo_ticket_db :: db where
  "demo_ticket_db = fresh_os 20 (empty_tables\<lparr>tb_tickets := [demo_ticket]\<rparr>)"

lemma demo_ticket_inv: "ticket_inv (os_db demo_ticket_db)"
  by (simp add: demo_ticket_db_def ticket_inv_def ticket_row_ok_def demo_ticket_def)

lemma demo_ticket_consume:
  "ConsumeEnrolmentTicket ''t'' ''e1'' ''k'' 20 demo_ticket_db =
     (Inr (), demo_ticket_db\<lparr>os_db := empty_tables\<lparr>tb_tickets :=
        [demo_ticket\<lparr>et_consumed := Some 20, et_credential := ''k''\<rparr>]\<rparr>\<rparr>)"
  by (simp add: ConsumeEnrolmentTicket_def demo_ticket_db_def demo_ticket_def tx_simps rows_update_def)

theorem ticket_single_use_witness:
  "\<exists>n u. spend_run (ticket_attempt ''t'' ''e1'') (ticket_other ''t'' ''e1'') demo_ticket_db n u \<and> n = 1 \<and> n \<le> 1"
proof -
  have "spend_run (ticket_attempt ''t'' ''e1'') (ticket_other ''t'' ''e1'') demo_ticket_db (Suc 0)
      (demo_ticket_db\<lparr>os_db := empty_tables\<lparr>tb_tickets :=
        [demo_ticket\<lparr>et_consumed := Some 20, et_credential := ''k''\<rparr>]\<rparr>\<rparr>)"
    by (rule run_accept [OF run_start], unfold ticket_attempt_def) (use demo_ticket_consume in fastforce)
  with ticket_single_use [OF this demo_ticket_inv] show ?thesis by auto
qed

text \<open>
  Whatever the engine answers, every ticket operation keeps the invariant of the table:
  one row per identifier and per selector of a tenant, at most one live ticket per subject,
  and a consumption recorded exactly with the credential it produced.
\<close>

theorem ticket_one_live:
  "keeps ticket_inv (ReplaceEnrolmentTicket tid sid tk) \<and> keeps ticket_inv (ConsumeEnrolmentTicket tid i c at)
   \<and> keeps ticket_inv (RevokeEnrolmentTicket tid i at) \<and> keeps ticket_inv (DeleteExpiredEnrolmentTickets cutoff)
   \<and> ticket_inv empty_tables"
  using keeps_ticket_inv by (simp add: ticket_inv_def empty_tables_def)

end
