(* ===== verification/Challenge_Store.thy ===== *)
theory Challenge_Store
  imports Sqlite_Base Single_Use
begin

text \<open>
  \<^verbatim>\<open>internal/store/sqlite/challenge.go\<close>: the server-side state of a WebAuthn ceremony between
  its two round trips. A challenge is handed out once, before it expires.
\<close>

subsection \<open>Operations\<close>

definition challenge_clash :: "challenge \<Rightarrow> challenge \<Rightarrow> bool" where
  "challenge_clash old new \<longleftrightarrow> ch_id old = ch_id new
     \<or> ch_tenant old = ch_tenant new \<and> ch_challenge old = ch_challenge new"

definition CreateChallenge :: "challenge \<Rightarrow> (tables, unit) proc" where
  "CreateChallenge c =
     (if ch_id c = [] \<or> ch_tenant c = [] \<or> length (ch_challenge c) = 0
      then failp (OtherErr ''sqlite: challenge requires id, tenant and challenge bytes'')
      else if is_zero_time (ch_expires c) then failp (OtherErr ''sqlite: challenge requires an expiry'')
      else bindp wall_clock (\<lambda>wall.
        let c = (if is_zero_time (ch_created c) then c\<lparr>ch_created := wall\<rparr> else c) in
        exec map_error (rows_insert tb_challenges tb_challenges_update challenge_clash c)))"

definition ConsumeChallenge :: "string \<Rightarrow> string \<Rightarrow> instant \<Rightarrow> (tables, challenge) proc" where
  "ConsumeChallenge tenantID i now =
     in_tx (bindp
       (exec map_error (rows_update tb_challenges tb_challenges_update
          (\<lambda>r. ch_tenant r = tenantID \<and> ch_id r = i \<and> ch_consumed r = None \<and> ch_expires r > now)
          (\<lambda>r. r\<lparr>ch_consumed := Some now\<rparr>)))
       (\<lambda>n. if n \<noteq> 1 then failp ErrNotFound
            else query_row map_error
              (\<lambda>t. find_row (\<lambda>r. ch_tenant r = tenantID \<and> ch_id r = i) (tb_challenges t))))"

definition DeleteExpiredChallenges :: "instant \<Rightarrow> (tables, int) proc" where
  "DeleteExpiredChallenges cutoff =
     in_tx (bindp
       (exec map_error (rows_delete tb_challenges tb_challenges_update (\<lambda>r. ch_expires r < cutoff)))
       (\<lambda>n. bindp
         (exec map_error (rows_delete tb_admin_challenges tb_admin_challenges_update
            (\<lambda>r. ac_expires r < cutoff)))
         (\<lambda>m. ret (n + m))))"

subsection \<open>Single use\<close>

definition challenge_inv :: "tables \<Rightarrow> bool" where
  "challenge_inv t \<longleftrightarrow> distinct (map ch_id (tb_challenges t))"

text \<open>No unconsumed challenge carries the identifier.\<close>

definition challenge_spent :: "string \<Rightarrow> string \<Rightarrow> tables \<Rightarrow> bool" where
  "challenge_spent tid i t \<longleftrightarrow>
     (\<forall>r \<in> set (tb_challenges t). ch_tenant r = tid \<and> ch_id r = i \<longrightarrow> ch_consumed r \<noteq> None)"

definition challenge_attempt :: "string \<Rightarrow> string \<Rightarrow> db \<Rightarrow> bool \<Rightarrow> db \<Rightarrow> bool" where
  "challenge_attempt tid i s b s' \<longleftrightarrow> (\<exists>now r. ConsumeChallenge tid i now s = (r, s') \<and> b = is_ok r)"

inductive challenge_other :: "string \<Rightarrow> string \<Rightarrow> db \<Rightarrow> db \<Rightarrow> bool" for tid i where
  create: "CreateChallenge c s = (r, s') \<Longrightarrow> ch_id c \<noteq> i \<Longrightarrow> challenge_other tid i s s'"
| consume: "ConsumeChallenge tid' j now s = (q, s') \<Longrightarrow> challenge_other tid i s s'"
| sweep: "DeleteExpiredChallenges cutoff s = (n, s') \<Longrightarrow> challenge_other tid i s s'"
| frame: "challenge_inv (os_db s') \<Longrightarrow>
     (\<And>r. r \<in> set (tb_challenges (os_db s')) \<Longrightarrow> ch_id r = i \<Longrightarrow> ch_consumed r = None
        \<Longrightarrow> r \<in> set (tb_challenges (os_db s))) \<Longrightarrow> challenge_other tid i s s'"

lemma challenge_inv_insert:
  "challenge_inv t \<Longrightarrow> rows_insert tb_challenges tb_challenges_update challenge_clash c t = Inr (u, t') \<Longrightarrow> challenge_inv t'"
  by (auto simp: challenge_inv_def rows_insert_Inr challenge_clash_def image_iff)

lemma keeps_challenge_inv:
  "keeps challenge_inv (CreateChallenge c)" "keeps challenge_inv (ConsumeChallenge tid i now)"
  "keeps challenge_inv (DeleteExpiredChallenges cutoff)"
proof -
  show "keeps challenge_inv (CreateChallenge c)"
    unfolding CreateChallenge_def Let_def
    by (intro keeps_if keeps_failp keeps_bindp keeps_wall_clock keeps_exec) (erule (1) challenge_inv_insert)
  show "keeps challenge_inv (ConsumeChallenge tid i now)"
    unfolding ConsumeChallenge_def
    by (auto intro!: keeps_bindp keeps_exec keeps_in_tx_of simp: challenge_inv_def map_update_where)
  show "keeps challenge_inv (DeleteExpiredChallenges cutoff)"
    unfolding DeleteExpiredChallenges_def
    by (auto intro!: keeps_bindp keeps_exec keeps_in_tx_of
        simp: challenge_inv_def delete_where_def distinct_map_filter)
qed

lemma keeps_challenge_spent:
  "keeps (challenge_spent tid i) (ConsumeChallenge tid' j now)"
  "keeps (challenge_spent tid i) (DeleteExpiredChallenges cutoff)"
  unfolding ConsumeChallenge_def DeleteExpiredChallenges_def
  by (auto intro!: keeps_bindp keeps_exec keeps_in_tx_of simp: challenge_spent_def ball_update_where)

lemma keeps_challenge_spent_create: "ch_id c \<noteq> i \<Longrightarrow> keeps (challenge_spent tid i) (CreateChallenge c)"
  unfolding CreateChallenge_def Let_def
  by (auto intro!: keeps_bindp keeps_exec simp: challenge_spent_def rows_insert_Inr split: if_splits)

lemma challenge_other_keeps:
  assumes "challenge_other tid i s s'" and "challenge_inv (os_db s)"
  shows "challenge_inv (os_db s') \<and> (challenge_spent tid i (os_db s) \<longrightarrow> challenge_spent tid i (os_db s'))"
  using assms(1)
proof (cases rule: challenge_other.cases)
  case (create c r)
  with assms(2) show ?thesis
    using keepsD [OF keeps_challenge_inv(1) create(1)]
      keepsD [OF keeps_challenge_spent_create [OF create(2)] create(1)] by blast
next
  case (consume tid' j now q)
  with assms(2) show ?thesis
    using keepsD [OF keeps_challenge_inv(2) consume] keepsD [OF keeps_challenge_spent(1) consume] by blast
next
  case (sweep cutoff n)
  with assms(2) show ?thesis
    using keepsD [OF keeps_challenge_inv(3) sweep] keepsD [OF keeps_challenge_spent(2) sweep] by blast
next
  case frame
  then show ?thesis by (fastforce simp: challenge_spent_def)
qed

text \<open>What a successful completion consumed, and what it returns.\<close>

lemma ConsumeChallenge_Inr:
  assumes run: "ConsumeChallenge tid i now s = (Inr c, s')" and inv: "challenge_inv (os_db s)"
  shows "\<not> challenge_spent tid i (os_db s) \<and> challenge_spent tid i (os_db s')
    \<and> (\<exists>c0 \<in> set (tb_challenges (os_db s)). ch_tenant c0 = tid \<and> ch_id c0 = i \<and> ch_consumed c0 = None
         \<and> now < ch_expires c0 \<and> c = c0\<lparr>ch_consumed := Some now\<rparr>)"
proof -
  let ?p = "\<lambda>r. ch_tenant r = tid \<and> ch_id r = i \<and> ch_consumed r = None \<and> ch_expires r > now"
  let ?f = "\<lambda>r. r\<lparr>ch_consumed := Some now\<rparr>"
  obtain n s3 s2 where upd: "n = count_where ?p (tb_challenges (os_db s))"
      "os_db s3 = tb_challenges_update (update_where ?p ?f) (os_db s)"
    and rest: "(if n \<noteq> 1 then failp ErrNotFound
            else query_row map_error
              (\<lambda>t. find_row (\<lambda>r. ch_tenant r = tid \<and> ch_id r = i) (tb_challenges t))) s3 = (Inr c, s2)"
    and db: "os_db s' = os_db s2"
    by (rule in_tx_exec_Inr [OF run [unfolded ConsumeChallenge_def]]) auto
  from rest have n: "n = 1" by (auto simp: failp_def split: if_splits)
  with rest have q: "query_row map_error
      (\<lambda>t. find_row (\<lambda>r. ch_tenant r = tid \<and> ch_id r = i) (tb_challenges t)) s3 = (Inr c, s2)" by simp
  from n upd(1) obtain c0 where c0: "c0 \<in> set (tb_challenges (os_db s))" "?p c0"
    using count_where_pos [of ?p "tb_challenges (os_db s)"] by auto
  have only: "x = c0" if "x \<in> set (tb_challenges (os_db s))" "ch_id x = i" for x
    using that c0 inv by (auto simp: challenge_inv_def distinct_map dest: inj_onD)
  have db': "os_db s' = tb_challenges_update (update_where ?p ?f) (os_db s)"
    using query_row_frame [OF q] upd(2) db by simp
  from find_row_Some [OF query_row_Inr [OF q]]
  have c: "c \<in> set (update_where ?p ?f (tb_challenges (os_db s)))" "ch_id c = i" by (simp_all add: upd(2))
  then obtain x where "x \<in> set (tb_challenges (os_db s))" "c = (if ?p x then ?f x else x)"
    by (blast elim: in_update_where)
  moreover from this c(2) have "ch_id x = i" by (simp split: if_splits)
  ultimately have "c = ?f c0" using only [of x] c0(2) by simp
  have "challenge_spent tid i (os_db s')"
    unfolding db' challenge_spent_def by (simp add: ball_update_where) (use only c0(2) in blast)
  moreover have "\<not> challenge_spent tid i (os_db s)"
    unfolding challenge_spent_def using c0 by blast
  ultimately show ?thesis using c0 \<open>c = ?f c0\<close> by blast
qed

interpretation challenge_cas: single_use "challenge_attempt tid i" "challenge_other tid i"
    "\<lambda>s. challenge_spent tid i (os_db s)" "\<lambda>s. challenge_inv (os_db s)" for tid i
proof unfold_locales
  fix s s' :: db and b
  assume inv: "challenge_inv (os_db s)"
  show "challenge_attempt tid i s True s' \<Longrightarrow>
      \<not> challenge_spent tid i (os_db s) \<and> challenge_spent tid i (os_db s')"
    unfolding challenge_attempt_def is_ok_iff using ConsumeChallenge_Inr [OF _ inv] by blast
  show "challenge_attempt tid i s b s' \<Longrightarrow>
      challenge_inv (os_db s') \<and> (challenge_spent tid i (os_db s) \<longrightarrow> challenge_spent tid i (os_db s'))"
    using inv by (auto simp: challenge_attempt_def dest: challenge_other.consume challenge_other_keeps)
  show "challenge_other tid i s s' \<Longrightarrow>
      challenge_inv (os_db s') \<and> (challenge_spent tid i (os_db s) \<longrightarrow> challenge_spent tid i (os_db s'))"
    using inv by (simp add: challenge_other_keeps)
qed

subsection \<open>Properties\<close>

text \<open>
  A WebAuthn challenge completes at most one ceremony. In any order of completions of
  one challenge with the other steps of the system, under any engine failures, at most one
  completion is given the challenge; and none once no unconsumed row carries the identifier.
\<close>

theorem challenge_single_use:
  assumes "spend_run (challenge_attempt tid i) (challenge_other tid i) s n u" and "challenge_inv (os_db s)"
  shows "n \<le> 1 \<and> (challenge_spent tid i (os_db s) \<longrightarrow> n = 0)"
  using challenge_cas.at_most_once [OF assms] challenge_cas.never_again [OF assms] by blast

definition demo_challenge :: challenge where
  "demo_challenge = \<lparr>ch_id = ''w1'', ch_tenant = ''t'', ch_subject = ''u'', ch_ceremony = CeremonyAssertion,
     ch_challenge = [1, 2], ch_rpid = ''rp'', ch_session = [3], ch_created = 10, ch_expires = 50, ch_consumed = None\<rparr>"

definition demo_challenge_db :: db where
  "demo_challenge_db = fresh_os 20 (empty_tables\<lparr>tb_challenges := [demo_challenge]\<rparr>)"

lemma demo_challenge_inv: "challenge_inv (os_db demo_challenge_db)"
  by (simp add: demo_challenge_db_def challenge_inv_def)

lemma demo_challenge_consume:
  "ConsumeChallenge ''t'' ''w1'' 20 demo_challenge_db =
     (Inr (demo_challenge\<lparr>ch_consumed := Some 20\<rparr>), demo_challenge_db\<lparr>os_db := empty_tables\<lparr>tb_challenges :=
        [demo_challenge\<lparr>ch_consumed := Some 20\<rparr>]\<rparr>\<rparr>)"
  by (simp add: ConsumeChallenge_def demo_challenge_db_def demo_challenge_def tx_simps rows_update_def)

theorem challenge_single_use_witness:
  "\<exists>n u. spend_run (challenge_attempt ''t'' ''w1'') (challenge_other ''t'' ''w1'') demo_challenge_db n u
     \<and> n = 1 \<and> n \<le> 1"
proof -
  have "spend_run (challenge_attempt ''t'' ''w1'') (challenge_other ''t'' ''w1'') demo_challenge_db (Suc 0)
      (demo_challenge_db\<lparr>os_db := empty_tables\<lparr>tb_challenges := [demo_challenge\<lparr>ch_consumed := Some 20\<rparr>]\<rparr>\<rparr>)"
    by (rule run_accept [OF run_start], unfold challenge_attempt_def) (use demo_challenge_consume in fastforce)
  with challenge_single_use [OF this demo_challenge_inv] show ?thesis by auto
qed

end
