(* ===== verification/Tenant_Store.thy ===== *)
theory Tenant_Store
  imports Sqlite_Base Go_Json
begin

text \<open>
  \<^verbatim>\<open>internal/store/sqlite/tenant.go\<close>: tenants, and the helpers for JSON columns that live in
  the same file.
\<close>

definition maxTenantsListed :: int where "maxTenantsListed = 1000"

text \<open>The CHECK on the status, and the primary key.\<close>

definition tenant_insert :: "tenant \<Rightarrow> tables \<Rightarrow> sql_error + unit \<times> tables" where
  "tenant_insert r =
     check (tn_status r \<in> {''active'', ''suspended''})
       (rows_insert tb_tenants tb_tenants_update (\<lambda>old new. tn_id old = tn_id new) r)"

definition CreateTenant :: "tenant \<Rightarrow> (tables, unit) proc" where
  "CreateTenant r =
     (if tn_id r = [] \<or> tn_name r = [] then failp (OtherErr ''sqlite: tenant requires an id and a name'')
      else bindp wall_clock (\<lambda>wall.
        let r = (if tn_status r = [] then r\<lparr>tn_status := ''active''\<rparr> else r);
            r = (if is_zero_time (tn_created r) then r\<lparr>tn_created := wall\<rparr> else r);
            r = (if is_zero_time (tn_updated r) then r\<lparr>tn_updated := tn_created r\<rparr> else r) in
        exec map_error (tenant_insert r)))"

definition GetTenant :: "string \<Rightarrow> (tables, tenant) proc" where
  "GetTenant i = query_row map_error (\<lambda>t. find_row (\<lambda>r. tn_id r = i) (tb_tenants t))"

definition ListTenants :: "(tables, tenant list) proc" where
  "ListTenants =
     query raw_error (\<lambda>t. select_page tn_id (\<lambda>_. True)
       (clampLimit 0 maxTenantsListed maxTenantsListed) (tb_tenants t))"

subsection \<open>JSON columns\<close>

text \<open>
  A document column is checked on the way in, and read back without the white space
  around it.
\<close>

definition encodeJSONObject :: "string \<Rightarrow> string res" where
  "encodeJSONObject raw =
     (if length raw = 0 then Inr ''{}''
      else case parse_json raw of
        None \<Rightarrow> Inl (OtherErr ''sqlite: value is not valid json'')
      | Some _ \<Rightarrow> Inr raw)"

definition trim_json :: "string \<Rightarrow> string" where
  "trim_json s = rev (dropWhile json_space (rev (dropWhile json_space s)))"

definition decodeJSONObject :: "string \<Rightarrow> string res" where
  "decodeJSONObject raw =
     (if raw = [] \<or> raw = ''null'' then Inr ''{}''
      else case parse_json raw of
        None \<Rightarrow> Inl (OtherErr ''sqlite: decode json document'')
      | Some _ \<Rightarrow> Inr (trim_json raw))"

lemma encodeJSONObject_decodes: "encodeJSONObject raw = Inr doc \<Longrightarrow> is_ok (decodeJSONObject doc)"
proof -
  assume "encodeJSONObject raw = Inr doc"
  moreover have "parse_json ''{}'' \<noteq> None" by code_simp
  ultimately show ?thesis
    by (auto simp: encodeJSONObject_def decodeJSONObject_def split: if_splits option.splits)
qed

end
