(* ===== verification/Alert_Store.thy ===== *)
theory Alert_Store
  imports Tenant_Store
begin

text \<open>
  \<^verbatim>\<open>internal/store/sqlite/alerts.go\<close>: the alerts of a deployment. Repeats of an open condition
  collapse onto one row by fingerprint; an acknowledged alert no longer takes part.
\<close>

subsection \<open>Operations\<close>

definition severity_ok :: "severity \<Rightarrow> bool" where
  "severity_ok s \<longleftrightarrow> s \<in> {SeverityInfo, SeverityWarning, SeverityCritical}"

definition scanAlert :: "alert \<Rightarrow> (tables, alert) proc" where
  "scanAlert r = (case decodeJSONObject (al_detail r) of
     Inl e \<Rightarrow> failp e | Inr doc \<Rightarrow> ret (r\<lparr>al_detail := doc\<rparr>))"

text \<open>
  INSERT ... ON CONFLICT (tenant, fingerprint) WHERE acknowledged_at IS NULL DO UPDATE ...
  RETURNING: an open row of the same fingerprint counts one more occurrence; the CHECK and
  the primary key stand (a row that would meet both is taken for the conflict it names).
\<close>

definition open_alert :: "string \<Rightarrow> string \<Rightarrow> alert \<Rightarrow> bool" where
  "open_alert tenantID fp r \<longleftrightarrow> al_tenant r = tenantID \<and> al_fingerprint r = fp \<and> al_acked r = None"

definition upsert_alert :: "alert \<Rightarrow> tables \<Rightarrow> sql_error + alert \<times> tables" where
  "upsert_alert a t =
     (let mine = open_alert (al_tenant a) (al_fingerprint a);
          bump = (\<lambda>r. r\<lparr>al_occurrences := al_occurrences r + 1, al_last_seen := al_last_seen a\<rparr>);
          a = a\<lparr>al_acked := None, al_acked_by := []\<rparr> in
      if \<not> severity_ok (al_severity a) then Inl (SqlMsg ''CHECK constraint failed'')
      else case find_row mine (tb_alerts t) of
        Some r \<Rightarrow> Inr (bump r, t\<lparr>tb_alerts := update_where mine bump (tb_alerts t)\<rparr>)
      | None \<Rightarrow>
          if list_ex (\<lambda>r. al_id r = al_id a) (tb_alerts t) then Inl unique_violation
          else Inr (a, t\<lparr>tb_alerts := tb_alerts t @ [a]\<rparr>))"

definition RaiseAlert :: "alert \<Rightarrow> (tables, alert) proc" where
  "RaiseAlert a =
     (if al_id a = [] \<or> al_tenant a = [] then failp (OtherErr ''sqlite: alert requires an id and a tenant'')
      else if al_type a = [] \<or> al_fingerprint a = []
      then failp (OtherErr ''sqlite: alert requires a type and a fingerprint'')
      else if al_severity a \<noteq> [] \<and> \<not> severity_ok (al_severity a)
      then failp (OtherErr ''sqlite: alert severity is not one of the three levels'')
      else bindp wall_clock (\<lambda>wall.
        let a = (if al_severity a = [] then a\<lparr>al_severity := SeverityWarning\<rparr> else a);
            a = (if is_zero_time (al_first_seen a) then a\<lparr>al_first_seen := wall\<rparr> else a);
            a = (if is_zero_time (al_last_seen a) then a\<lparr>al_last_seen := al_first_seen a\<rparr> else a);
            a = (if al_occurrences a < 1 then a\<lparr>al_occurrences := 1\<rparr> else a) in
        case encodeJSONObject (al_detail a) of
          Inl e \<Rightarrow> failp e
        | Inr detail \<Rightarrow> in_tx (bindp (exec map_error (upsert_alert (a\<lparr>al_detail := detail\<rparr>))) scanAlert)))"

record alert_filter =
  alf_severity :: severity
  alf_type :: string
  alf_subject :: string
  alf_include_acked :: bool
  alf_after :: string
  alf_limit :: int

text \<open>
  Newest first. The page starts below the row \<^verbatim>\<open>AfterID\<close> names; when it names none, the
  comparison is with NULL and selects nothing.
\<close>

definition alert_matches :: "string \<Rightarrow> alert_filter \<Rightarrow> tables \<Rightarrow> alert \<Rightarrow> bool" where
  "alert_matches tenantID f t r \<longleftrightarrow>
     al_tenant r = tenantID
     \<and> (alf_include_acked f \<or> al_acked r = None)
     \<and> (alf_severity f = [] \<or> al_severity r = alf_severity f)
     \<and> (alf_type f = [] \<or> al_type r = alf_type f)
     \<and> (alf_subject f = [] \<or> al_subject r = alf_subject f)
     \<and> (alf_after f = [] \<or>
          (case find_row (\<lambda>x. al_tenant x = tenantID \<and> al_id x = alf_after f) (tb_alerts t) of
             None \<Rightarrow> False
           | Some x \<Rightarrow> (al_last_seen r, al_id r) < (al_last_seen x, al_id x)))"

fun scan_alerts :: "alert list \<Rightarrow> (tables, alert list) proc" where
  "scan_alerts [] = ret []"
| "scan_alerts (r # rs) = bindp (scanAlert r) (\<lambda>a. bindp (scan_alerts rs) (\<lambda>as. ret (a # as)))"

definition ListAlerts :: "string \<Rightarrow> alert_filter \<Rightarrow> (tables, alert list) proc" where
  "ListAlerts tenantID f =
     bindp (query raw_error (\<lambda>t. take (nat (clampLimit (alf_limit f) 50 500))
         (rev (sort_key (\<lambda>r. (al_last_seen r, al_id r)) (filter (alert_matches tenantID f t) (tb_alerts t))))))
       scan_alerts"

definition AcknowledgeAlert :: "string \<Rightarrow> string \<Rightarrow> string \<Rightarrow> instant \<Rightarrow> (tables, unit) proc" where
  "AcknowledgeAlert tenantID i operator at =
     (if operator = [] then failp (OtherErr ''sqlite: acknowledging an alert requires an operator'')
      else required (rows_update tb_alerts tb_alerts_update
        (\<lambda>r. al_tenant r = tenantID \<and> al_id r = i \<and> al_acked r = None)
        (\<lambda>r. r\<lparr>al_acked := Some at, al_acked_by := operator\<rparr>)))"

text \<open>The map of counts, one entry per severity; the CHECK leaves no other.\<close>

definition CountOpenAlerts :: "string \<Rightarrow> (tables, (severity \<times> int) list) proc" where
  "CountOpenAlerts tenantID =
     query raw_error (\<lambda>t. map (\<lambda>sev. (sev, count_where
       (\<lambda>r. al_tenant r = tenantID \<and> al_acked r = None \<and> al_severity r = sev) (tb_alerts t)))
       [SeverityInfo, SeverityWarning, SeverityCritical])"

subsection \<open>Invariant\<close>

text \<open>One row per identifier, one open row per fingerprint of a tenant, counts of at least one.\<close>

definition alert_inv :: "tables \<Rightarrow> bool" where
  "alert_inv t \<longleftrightarrow> distinct (map al_id (tb_alerts t))
     \<and> distinct (map (\<lambda>r. (al_tenant r, al_fingerprint r)) (filter (\<lambda>r. al_acked r = None) (tb_alerts t)))
     \<and> (\<forall>r \<in> set (tb_alerts t). severity_ok (al_severity r) \<and> 1 \<le> al_occurrences r)"

end
