(* ===== verification/Erasure_Store.thy ===== *)
theory Erasure_Store
  imports Sqlite_Base
begin

text \<open>
  \<^verbatim>\<open>internal/store/sqlite/erasure.go\<close>: the requests to erase a subject. The empty status a
  request may be created with is \<open>None\<close>.
\<close>

subsection \<open>Operations\<close>

text \<open>The primary key and the index on pending requests.\<close>

definition erasure_clash :: "erasure_request \<Rightarrow> erasure_request \<Rightarrow> bool" where
  "erasure_clash old new \<longleftrightarrow> er_id old = er_id new
     \<or> er_status old = ErasurePending \<and> er_status new = ErasurePending
       \<and> er_tenant old = er_tenant new \<and> er_subject old = er_subject new"

definition CreateErasure :: "erasure_request \<Rightarrow> erasure_status option \<Rightarrow> (tables, unit) proc" where
  "CreateErasure r status =
     (if er_id r = [] \<or> er_tenant r = [] \<or> er_subject r = []
      then failp (OtherErr ''sqlite: erasure request requires an id, a tenant and a subject'')
      else if er_requested_by r = [] then failp (OtherErr ''sqlite: erasure request requires a requester'')
      else bindp wall_clock (\<lambda>wall.
        let r = r\<lparr>er_status := (case status of None \<Rightarrow> ErasurePending | Some st \<Rightarrow> st)\<rparr>;
            r = (if is_zero_time (er_requested_at r) then r\<lparr>er_requested_at := wall\<rparr> else r) in
        if is_zero_time (er_purge_after r)
        then failp (OtherErr ''sqlite: erasure request requires a purge deadline'')
        else exec map_error (rows_insert tb_erasures tb_erasures_update erasure_clash r)))"

text \<open>A pending request first, then the most recent.\<close>

definition GetErasureBySubject :: "string \<Rightarrow> string \<Rightarrow> (tables, erasure_request) proc" where
  "GetErasureBySubject tenantID subjectID =
     query_row map_error (\<lambda>t.
       let mine = filter (\<lambda>r. er_tenant r = tenantID \<and> er_subject r = subjectID) (tb_erasures t) in
       case latest_by er_requested_at (filter (\<lambda>r. er_status r = ErasurePending) mine) of
         Some r \<Rightarrow> Some r
       | None \<Rightarrow> latest_by er_requested_at mine)"

definition erasure_present :: "string \<Rightarrow> string \<Rightarrow> tables \<Rightarrow> bool" where
  "erasure_present tenantID i t \<longleftrightarrow> list_ex (\<lambda>r. er_tenant r = tenantID \<and> er_id r = i) (tb_erasures t)"

definition CancelErasure :: "string \<Rightarrow> string \<Rightarrow> string \<Rightarrow> instant \<Rightarrow> (tables, unit) proc" where
  "CancelErasure tenantID i actor at =
     (if actor = [] then failp (OtherErr ''sqlite: cancelling an erasure requires an actor'')
      else guarded
        (rows_update tb_erasures tb_erasures_update
           (\<lambda>r. er_tenant r = tenantID \<and> er_id r = i \<and> er_status r = ErasurePending)
           (\<lambda>r. r\<lparr>er_status := ErasureCancelled, er_cancelled_by := actor, er_cancelled_at := Some at\<rparr>))
        (erasure_present tenantID i))"

definition ListDueErasures :: "instant \<Rightarrow> int \<Rightarrow> (tables, erasure_request list) proc" where
  "ListDueErasures due limit =
     query raw_error (\<lambda>t. select_page (\<lambda>r. (er_purge_after r, er_id r))
       (\<lambda>r. er_status r = ErasurePending \<and> er_purge_after r \<le> due) (clampLimit limit 100 1000) (tb_erasures t))"

definition MarkErasurePurged :: "string \<Rightarrow> string \<Rightarrow> instant \<Rightarrow> (tables, unit) proc" where
  "MarkErasurePurged tenantID i at =
     guarded
       (rows_update tb_erasures tb_erasures_update
          (\<lambda>r. er_tenant r = tenantID \<and> er_id r = i \<and> er_status r = ErasurePending)
          (\<lambda>r. r\<lparr>er_status := ErasurePurged, er_purged_at := Some at\<rparr>))
       (erasure_present tenantID i)"

subsection \<open>Invariant\<close>

definition erasure_inv :: "tables \<Rightarrow> bool" where
  "erasure_inv t \<longleftrightarrow> distinct (map er_id (tb_erasures t))
     \<and> distinct (map (\<lambda>r. (er_tenant r, er_subject r)) (filter (\<lambda>r. er_status r = ErasurePending) (tb_erasures t)))"

end
