(* ===== verification/Subject_Store.thy ===== *)
theory Subject_Store
  imports Credential_Store Recovery_Store Ticket_Store Challenge_Store Alert_Store Erasure_Store
begin

text \<open>
  \<^verbatim>\<open>internal/store/sqlite/subject.go\<close>: the subjects, and the purge that removes one with
  everything that hangs off it.
\<close>

subsection \<open>Operations\<close>

definition subject_status_ok :: "subject_status \<Rightarrow> bool" where
  "subject_status_ok s \<longleftrightarrow> s \<in> {SubjectActive, SubjectLocked, SubjectPendingDeletion}"

text \<open>
  INSERT ... ON CONFLICT (tenant_id, ref_hmac) DO UPDATE ... RETURNING. The reference and the
  display name are refreshed by values that are not empty; the status and the deletion mark
  of an existing row stay.
\<close>

definition same_ref :: "subject \<Rightarrow> subject \<Rightarrow> bool" where
  "same_ref a b \<longleftrightarrow> sb_tenant a = sb_tenant b \<and> sb_ref_hmac a = sb_ref_hmac b"

definition refresh_subject :: "subject \<Rightarrow> subject \<Rightarrow> subject" where
  "refresh_subject new old =
     old\<lparr>sb_ref_sealed := (if length (sb_ref_sealed new) > 0 then sb_ref_sealed new else sb_ref_sealed old),
         sb_display := (if sb_display new = [] then sb_display old else sb_display new),
         sb_updated := sb_updated new\<rparr>"

definition upsert_subject :: "subject \<Rightarrow> tables \<Rightarrow> sql_error + subject \<times> tables" where
  "upsert_subject sub t =
     (let sub = sub\<lparr>sb_deleted := None\<rparr> in
      if \<not> tenant_exists (sb_tenant sub) t then Inl (SqlMsg ''FOREIGN KEY constraint failed'')
      else if \<not> subject_status_ok (sb_status sub) then Inl (SqlMsg ''CHECK constraint failed'')
      else case find_row (same_ref sub) (tb_subjects t) of
        Some old \<Rightarrow> Inr (refresh_subject sub old,
          t\<lparr>tb_subjects := update_where (same_ref sub) (refresh_subject sub) (tb_subjects t)\<rparr>)
      | None \<Rightarrow>
          if list_ex (\<lambda>r. sb_id r = sb_id sub) (tb_subjects t) then Inl unique_violation
          else Inr (sub, t\<lparr>tb_subjects := tb_subjects t @ [sub]\<rparr>))"

definition UpsertSubject :: "subject \<Rightarrow> (tables, subject) proc" where
  "UpsertSubject sub =
     (if sb_id sub = [] \<or> sb_tenant sub = [] then failp (OtherErr ''sqlite: subject requires an id and a tenant'')
      else if length (sb_ref_hmac sub) = 0 then failp (OtherErr ''sqlite: subject requires a reference hmac'')
      else bindp wall_clock (\<lambda>now.
        let sub = (if sb_status sub = [] then sub\<lparr>sb_status := SubjectActive\<rparr> else sub);
            sub = (if is_zero_time (sb_created sub) then sub\<lparr>sb_created := now\<rparr> else sub);
            sub = sub\<lparr>sb_updated := now\<rparr> in
        in_tx (exec map_error (upsert_subject sub))))"

definition GetSubject :: "string \<Rightarrow> string \<Rightarrow> (tables, subject) proc" where
  "GetSubject tenantID i =
     query_row map_error (\<lambda>t. find_row
       (\<lambda>r. sb_tenant r = tenantID \<and> sb_id r = i \<and> sb_deleted r = None) (tb_subjects t))"

definition GetSubjectByRef :: "string \<Rightarrow> bytes \<Rightarrow> (tables, subject) proc" where
  "GetSubjectByRef tenantID refHMAC =
     (if length refHMAC = 0 then failp (OtherErr ''sqlite: subject lookup requires a reference hmac'')
      else query_row map_error (\<lambda>t. find_row
        (\<lambda>r. sb_tenant r = tenantID \<and> sb_ref_hmac r = refHMAC \<and> sb_deleted r = None) (tb_subjects t)))"

record subject_filter =
  sf_status :: subject_status
  sf_ref_hmac :: bytes
  sf_after :: string
  sf_limit :: int

definition ListSubjects :: "string \<Rightarrow> subject_filter \<Rightarrow> (tables, subject list) proc" where
  "ListSubjects tenantID f =
     query raw_error (\<lambda>t. select_page sb_id
       (\<lambda>r. sb_tenant r = tenantID \<and> sb_deleted r = None
          \<and> (sf_status f = [] \<or> sb_status r = sf_status f)
          \<and> (length (sf_ref_hmac f) = 0 \<or> sb_ref_hmac r = sf_ref_hmac f)
          \<and> (sf_after f = [] \<or> sb_id r > sf_after f))
       (clampLimit (sf_limit f) 50 500) (tb_subjects t))"

text \<open>The CHECK on the status fires on a row that is updated.\<close>

definition SetSubjectStatus :: "string \<Rightarrow> string \<Rightarrow> subject_status \<Rightarrow> (tables, unit) proc" where
  "SetSubjectStatus tenantID i status =
     (if status = [] then failp (OtherErr ''sqlite: subject status is required'')
      else bindp wall_clock (\<lambda>now.
        let mine = (\<lambda>r. sb_tenant r = tenantID \<and> sb_id r = i \<and> sb_deleted r = None) in
        required (\<lambda>t. check (subject_status_ok status \<or> count_where mine (tb_subjects t) = 0)
          (rows_update tb_subjects tb_subjects_update mine
             (\<lambda>r. r\<lparr>sb_status := status, sb_updated := now\<rparr>)) t)))"

definition SoftDeleteSubject :: "string \<Rightarrow> string \<Rightarrow> instant \<Rightarrow> (tables, unit) proc" where
  "SoftDeleteSubject tenantID i at =
     in_tx (bindp
       (exec map_error (rows_update tb_subjects tb_subjects_update
          (\<lambda>r. sb_tenant r = tenantID \<and> sb_id r = i \<and> sb_deleted r = None)
          (\<lambda>r. r\<lparr>sb_status := SubjectPendingDeletion, sb_deleted := Some at, sb_updated := at\<rparr>)))
       (\<lambda>n. if n = 1 then ret ()
            else bindp (query raw_error
              (\<lambda>t. find_row (\<lambda>r. sb_tenant r = tenantID \<and> sb_id r = i) (tb_subjects t)))
              (\<lambda>found. if found = None then failp ErrNotFound else ret ())))"

definition RestoreSubject :: "string \<Rightarrow> string \<Rightarrow> instant \<Rightarrow> (tables, unit) proc" where
  "RestoreSubject tenantID i at =
     required (rows_update tb_subjects tb_subjects_update
       (\<lambda>r. sb_tenant r = tenantID \<and> sb_id r = i \<and> sb_deleted r \<noteq> None \<and> sb_status r = SubjectPendingDeletion)
       (\<lambda>r. r\<lparr>sb_status := SubjectActive, sb_deleted := None, sb_updated := at\<rparr>))"

text \<open>
  Deleting a subject's row takes with it, by ON DELETE CASCADE, the rows of the four tables
  whose foreign key names it.
\<close>

definition delete_subjects :: "(subject \<Rightarrow> bool) \<Rightarrow> tables \<Rightarrow> sql_error + int \<times> tables" where
  "delete_subjects p t =
     (let gone = map sb_id (filter p (tb_subjects t)) in
      Inr (count_where p (tb_subjects t),
        t\<lparr>tb_subjects := delete_where p (tb_subjects t),
          tb_credentials := delete_where (\<lambda>r. cr_subject r \<in> set gone) (tb_credentials t),
          tb_totp := delete_where (\<lambda>r. ts_subject r \<in> set gone) (tb_totp t),
          tb_recovery := delete_where (\<lambda>r. rc_subject r \<in> set gone) (tb_recovery t),
          tb_tickets := delete_where (\<lambda>r. et_subject r \<in> set gone) (tb_tickets t)\<rparr>))"

definition PurgeSubject :: "string \<Rightarrow> string \<Rightarrow> (tables, unit) proc" where
  "PurgeSubject tenantID i =
     (if tenantID = [] \<or> i = [] then failp (OtherErr ''sqlite: purge requires a tenant and a subject'')
      else in_tx (bindp
        (query raw_error (\<lambda>t. find_row (\<lambda>r. sb_tenant r = tenantID \<and> sb_id r = i) (tb_subjects t)))
        (\<lambda>found. case found of
           None \<Rightarrow> failp ErrNotFound
         | Some sub \<Rightarrow>
             if sb_deleted sub = None then failp ErrStaleWrite
             else bindp (exec map_error (rows_delete tb_challenges tb_challenges_update
                 (\<lambda>r. ch_tenant r = tenantID \<and> ch_subject r = i))) (\<lambda>_.
               bindp (exec map_error (rows_delete tb_throttle tb_throttle_update
                 (\<lambda>r. th_tenant r = tenantID \<and> th_subject r = i))) (\<lambda>_.
               bindp (exec map_error (rows_delete tb_alerts tb_alerts_update
                 (\<lambda>r. al_tenant r = tenantID \<and> al_subject r = i))) (\<lambda>_.
               bindp (exec map_error (rows_update tb_erasures tb_erasures_update
                 (\<lambda>r. er_tenant r = tenantID \<and> er_subject r = i \<and> er_reason r \<noteq> [])
                 (\<lambda>r. r\<lparr>er_reason := []\<rparr>))) (\<lambda>_.
               bindp (exec map_error (delete_subjects (\<lambda>r. sb_tenant r = tenantID \<and> sb_id r = i)))
                 (\<lambda>_. ret ()))))))))"

subsection \<open>What a purge removes\<close>

text \<open>The tables after a purge of subject \<open>i\<close>.\<close>

definition purged :: "string \<Rightarrow> string \<Rightarrow> tables \<Rightarrow> tables" where
  "purged tid i t =
     t\<lparr>tb_subjects := delete_where (\<lambda>r. sb_tenant r = tid \<and> sb_id r = i) (tb_subjects t),
       tb_credentials := delete_where (\<lambda>r. cr_subject r = i) (tb_credentials t),
       tb_totp := delete_where (\<lambda>r. ts_subject r = i) (tb_totp t),
       tb_recovery := delete_where (\<lambda>r. rc_subject r = i) (tb_recovery t),
       tb_tickets := delete_where (\<lambda>r. et_subject r = i) (tb_tickets t),
       tb_challenges := delete_where (\<lambda>r. ch_tenant r = tid \<and> ch_subject r = i) (tb_challenges t),
       tb_throttle := delete_where (\<lambda>r. th_tenant r = tid \<and> th_subject r = i) (tb_throttle t),
       tb_alerts := delete_where (\<lambda>r. al_tenant r = tid \<and> al_subject r = i) (tb_alerts t),
       tb_erasures := update_where (\<lambda>r. er_tenant r = tid \<and> er_subject r = i \<and> er_reason r \<noteq> [])
         (\<lambda>r. r\<lparr>er_reason := []\<rparr>) (tb_erasures t)\<rparr>"

lemma delete_subjects_one:
  assumes "\<exists>r \<in> set (tb_subjects t). sb_tenant r = tid \<and> sb_id r = i"
  shows "delete_subjects (\<lambda>r. sb_tenant r = tid \<and> sb_id r = i) t = Inr (n, t') \<Longrightarrow>
    t' = t\<lparr>tb_subjects := delete_where (\<lambda>r. sb_tenant r = tid \<and> sb_id r = i) (tb_subjects t),
       tb_credentials := delete_where (\<lambda>r. cr_subject r = i) (tb_credentials t),
       tb_totp := delete_where (\<lambda>r. ts_subject r = i) (tb_totp t),
       tb_recovery := delete_where (\<lambda>r. rc_subject r = i) (tb_recovery t),
       tb_tickets := delete_where (\<lambda>r. et_subject r = i) (tb_tickets t)\<rparr>"
proof -
  have "set (map sb_id (filter (\<lambda>r. sb_tenant r = tid \<and> sb_id r = i) (tb_subjects t))) = {i}"
    using assms by auto
  then show "delete_subjects (\<lambda>r. sb_tenant r = tid \<and> sb_id r = i) t = Inr (n, t') \<Longrightarrow> ?thesis"
    unfolding delete_subjects_def Let_def by (simp only: singleton_iff Inr_inject prod.inject) simp
qed

lemma PurgeSubject_Inr:
  assumes "PurgeSubject tid i s = (Inr u, s')"
  shows "\<exists>sub \<in> set (tb_subjects (os_db s)). sb_tenant sub = tid \<and> sb_id sub = i \<and> sb_deleted sub \<noteq> None
    \<and> os_db s' = purged tid i (os_db s)"
proof -
  let ?mine = "\<lambda>r. sb_tenant r = tid \<and> sb_id r = i"
  let ?del = "bindp (exec map_error (rows_delete tb_challenges tb_challenges_update
                 (\<lambda>r. ch_tenant r = tid \<and> ch_subject r = i))) (\<lambda>_.
               bindp (exec map_error (rows_delete tb_throttle tb_throttle_update
                 (\<lambda>r. th_tenant r = tid \<and> th_subject r = i))) (\<lambda>_.
               bindp (exec map_error (rows_delete tb_alerts tb_alerts_update
                 (\<lambda>r. al_tenant r = tid \<and> al_subject r = i))) (\<lambda>_.
               bindp (exec map_error (rows_update tb_erasures tb_erasures_update
                 (\<lambda>r. er_tenant r = tid \<and> er_subject r = i \<and> er_reason r \<noteq> [])
                 (\<lambda>r. r\<lparr>er_reason := []\<rparr>))) (\<lambda>_.
               bindp (exec map_error (delete_subjects ?mine)) (\<lambda>_. ret ())))))"
  let ?body = "\<lambda>found. case found of None \<Rightarrow> failp ErrNotFound
         | Some sub \<Rightarrow> if sb_deleted sub = None then failp ErrStaleWrite else ?del"
  have tx: "in_tx (bindp (query raw_error (\<lambda>t. find_row ?mine (tb_subjects t))) ?body) s = (Inr u, s')"
    using assms by (simp add: PurgeSubject_def failp_def split: if_splits)
  obtain s1 s2 where s1: "os_db s1 = os_db s"
    and run: "bindp (query raw_error (\<lambda>t. find_row ?mine (tb_subjects t))) ?body s1 = (Inr u, s2)"
    and db: "os_db s' = os_db s2"
    by (rule in_tx_Inr [OF tx]) (rule that; assumption)
  obtain s3 where s3: "os_db s3 = os_db s"
    and body: "?body (find_row ?mine (tb_subjects (os_db s))) s3 = (Inr u, s2)"
    using run by (rule bindp_query_Inr) (simp add: s1)
  then obtain sub where sub: "find_row ?mine (tb_subjects (os_db s)) = Some sub" "sb_deleted sub \<noteq> None"
    and del: "?del s3 = (Inr u, s2)"
    by (auto simp: failp_def split: option.splits if_splits)
  from find_row_Some [OF sub(1)] have sub': "sub \<in> set (tb_subjects (os_db s))" "?mine sub" by simp_all
  define t1 where "t1 =
    tb_erasures_update (update_where (\<lambda>r. er_tenant r = tid \<and> er_subject r = i \<and> er_reason r \<noteq> [])
       (\<lambda>r. r\<lparr>er_reason := []\<rparr>))
    (tb_alerts_update (delete_where (\<lambda>r. al_tenant r = tid \<and> al_subject r = i))
    (tb_throttle_update (delete_where (\<lambda>r. th_tenant r = tid \<and> th_subject r = i))
    (tb_challenges_update (delete_where (\<lambda>r. ch_tenant r = tid \<and> ch_subject r = i)) (os_db s))))"
  have del': "\<exists>n. delete_subjects ?mine t1 = Inr (n, os_db s2)"
    using del by (elim bindp_exec_Inr) (auto simp: s3 t1_def ret_def)
  have "\<exists>r \<in> set (tb_subjects t1). ?mine r" using sub' by (auto simp: t1_def)
  with del' delete_subjects_one [of t1 tid i] obtain t2 where "os_db s2 = t2" and
    t2: "t2 = t1\<lparr>tb_subjects := delete_where (\<lambda>r. sb_tenant r = tid \<and> sb_id r = i) (tb_subjects t1),
       tb_credentials := delete_where (\<lambda>r. cr_subject r = i) (tb_credentials t1),
       tb_totp := delete_where (\<lambda>r. ts_subject r = i) (tb_totp t1),
       tb_recovery := delete_where (\<lambda>r. rc_subject r = i) (tb_recovery t1),
       tb_tickets := delete_where (\<lambda>r. et_subject r = i) (tb_tickets t1)\<rparr>" by blast
  moreover have "t2 = purged tid i (os_db s)"
    unfolding t2 t1_def purged_def by (rule tables.equality) simp_all
  ultimately have "os_db s2 = purged tid i (os_db s)" by simp
  with sub' sub(2) db show ?thesis by auto
qed

subsection \<open>Properties\<close>

lemma PurgeSubject_Inl: "PurgeSubject tid i s = (Inl e, s') \<Longrightarrow> os_db s' = os_db s"
  by (auto simp: PurgeSubject_def failp_def split: if_splits dest: in_tx_Inl)

text \<open>
  C32: A purge is all or nothing. If it fails, whatever the reason, no table changed. If it
  succeeds, the subject existed in that tenant and was pending deletion; its row, its
  credentials, TOTP secrets, recovery codes, tickets, challenges, throttle buckets and alerts
  are gone and those of everybody else are as they were; its erasure requests survive with
  the reason removed; the audit log is untouched.
\<close>

theorem purge_subject:
  assumes "PurgeSubject tid i s = (r, s')"
  shows "case r of Inl e \<Rightarrow> os_db s' = os_db s
    | Inr u \<Rightarrow>
        (\<exists>sub \<in> set (tb_subjects (os_db s)). sb_tenant sub = tid \<and> sb_id sub = i \<and> sb_deleted sub \<noteq> None)
      \<and> tb_subjects (os_db s') = filter (\<lambda>r. (sb_tenant r, sb_id r) \<noteq> (tid, i)) (tb_subjects (os_db s))
      \<and> tb_credentials (os_db s') = filter (\<lambda>r. cr_subject r \<noteq> i) (tb_credentials (os_db s))
      \<and> tb_totp (os_db s') = filter (\<lambda>r. ts_subject r \<noteq> i) (tb_totp (os_db s))
      \<and> tb_recovery (os_db s') = filter (\<lambda>r. rc_subject r \<noteq> i) (tb_recovery (os_db s))
      \<and> tb_tickets (os_db s') = filter (\<lambda>r. et_subject r \<noteq> i) (tb_tickets (os_db s))
      \<and> tb_challenges (os_db s') = filter (\<lambda>r. (ch_tenant r, ch_subject r) \<noteq> (tid, i)) (tb_challenges (os_db s))
      \<and> tb_throttle (os_db s') = filter (\<lambda>r. (th_tenant r, th_subject r) \<noteq> (tid, i)) (tb_throttle (os_db s))
      \<and> tb_alerts (os_db s') = filter (\<lambda>r. (al_tenant r, al_subject r) \<noteq> (tid, i)) (tb_alerts (os_db s))
      \<and> tb_erasures (os_db s') = map (\<lambda>r. if (er_tenant r, er_subject r) = (tid, i) then r\<lparr>er_reason := []\<rparr> else r)
           (tb_erasures (os_db s))
      \<and> tb_audit (os_db s') = tb_audit (os_db s)
      \<and> tb_checkpoints (os_db s') = tb_checkpoints (os_db s)"
proof (cases r)
  case (Inl e)
  with assms show ?thesis by (simp add: PurgeSubject_Inl)
next
  case (Inr u)
  have same: "r\<lparr>er_reason := []\<rparr> = r" if "er_reason r = []" for r :: erasure_request
    by (rule erasure_request.equality) (simp_all add: that)
  from PurgeSubject_Inr [of tid i s u s'] assms Inr have
    sub: "\<exists>sub \<in> set (tb_subjects (os_db s)). sb_tenant sub = tid \<and> sb_id sub = i \<and> sb_deleted sub \<noteq> None"
    and db: "os_db s' = purged tid i (os_db s)" by auto
  from sub show ?thesis
    by (auto simp: Inr db purged_def delete_where_def update_where_def same)
qed

definition demo_subject_row :: "string \<Rightarrow> subject" where
  "demo_subject_row i = \<lparr>sb_id = i, sb_tenant = ''t1'', sb_ref_hmac = [1], sb_ref_sealed = [], sb_display = [],
     sb_status = SubjectPendingDeletion, sb_created = 1, sb_updated = 2, sb_deleted = Some 2\<rparr>"

definition purge_demo :: db where
  "purge_demo = fresh_os 9 (empty_tables\<lparr>tb_subjects := [demo_subject_row ''a'', demo_subject_row ''b'']\<rparr>)"

lemma purge_demo_run:
  "\<exists>s'. PurgeSubject ''t1'' ''a'' purge_demo = (Inr (), s')"
  by (simp add: PurgeSubject_def purge_demo_def demo_subject_row_def tx_simps rows_update_def rows_delete_def
      delete_subjects_def Let_def empty_tables_def)

lemma purge_subject_witness:
  "\<exists>s'. PurgeSubject ''t1'' ''a'' purge_demo = (Inr (), s')
     \<and> tb_subjects (os_db s') = [demo_subject_row ''b'']"
proof -
  obtain s' where run: "PurgeSubject ''t1'' ''a'' purge_demo = (Inr (), s')"
    using purge_demo_run by blast
  show ?thesis
    using purge_subject [OF run] run
    by (auto simp: purge_demo_def demo_subject_row_def)
qed

end
