(* ===== verification/Authn_Store.thy ===== *)
theory Authn_Store
  imports Sqlite_Base
begin

text \<open>
  \<^verbatim>\<open>internal/store/sqlite/authn.go\<close> and \<^verbatim>\<open>rotate.go\<close>: the API keys and administrative
  tokens that authenticate callers, their revocation and their rotation. The scopes of a
  key travel through a JSON column; \<^verbatim>\<open>encodeJSONArray\<close> and \<^verbatim>\<open>decodeJSONArray\<close> are inverse
  on text, so the row carries the list. The statements name the columns they write, and
  \<^verbatim>\<open>principal_id\<close> is not one of them: an inserted token has none.
\<close>

subsection \<open>API keys\<close>

definition maxAuthnListed :: int where "maxAuthnListed = 500"

definition api_key_clash :: "api_key \<Rightarrow> api_key \<Rightarrow> bool" where
  "api_key_clash old new \<longleftrightarrow> ak_id old = ak_id new \<or> ak_selector old = ak_selector new"

definition api_key_insert :: "api_key \<Rightarrow> tables \<Rightarrow> sql_error + unit \<times> tables" where
  "api_key_insert r t =
     foreign_key (tenant_exists (ak_tenant r) t) (rows_insert tb_api_keys tb_api_keys_update api_key_clash r) t"

definition CreateAPIKey :: "api_key \<Rightarrow> (tables, unit) proc" where
  "CreateAPIKey k =
     (if ak_id k = [] \<or> ak_tenant k = [] \<or> ak_name k = []
      then failp (OtherErr ''sqlite: api key requires an id, a tenant and a name'')
      else if ak_selector k = [] \<or> ak_hash k = []
      then failp (OtherErr ''sqlite: api key requires a selector and a verifier hash'')
      else bindp wall_clock (\<lambda>wall.
        let k = (if is_zero_time (ak_created k) then k\<lparr>ak_created := wall\<rparr> else k) in
        exec map_error (api_key_insert k)))"

definition GetAPIKeyBySelector :: "string \<Rightarrow> (tables, api_key) proc" where
  "GetAPIKeyBySelector selector =
     (if selector = [] then failp (OtherErr ''sqlite: api key lookup requires a selector'')
      else query_row map_error (\<lambda>t. find_row (\<lambda>r. ak_selector r = selector) (tb_api_keys t)))"

definition ListAPIKeys :: "string \<Rightarrow> (tables, api_key list) proc" where
  "ListAPIKeys tenantID =
     query raw_error (\<lambda>t. select_page (\<lambda>r. (ak_created r, ak_id r)) (\<lambda>r. ak_tenant r = tenantID)
       (clampLimit 0 maxAuthnListed maxAuthnListed) (tb_api_keys t))"

subsection \<open>Administrative tokens\<close>

definition admin_token_clash :: "admin_token \<Rightarrow> admin_token \<Rightarrow> bool" where
  "admin_token_clash old new \<longleftrightarrow> at_id old = at_id new \<or> at_selector old = at_selector new"

definition admin_token_insert :: "admin_token \<Rightarrow> tables \<Rightarrow> sql_error + unit \<times> tables" where
  "admin_token_insert r t =
     foreign_key (tenant_exists (at_tenant r) t)
       (check (role_valid (at_role r))
         (rows_insert tb_admin_tokens tb_admin_tokens_update admin_token_clash (r\<lparr>at_principal := None\<rparr>))) t"

definition CreateAdminToken :: "admin_token \<Rightarrow> (tables, unit) proc" where
  "CreateAdminToken k =
     (if at_id k = [] \<or> at_tenant k = [] \<or> at_name k = []
      then failp (OtherErr ''sqlite: admin token requires an id, a tenant and a name'')
      else if at_selector k = [] \<or> at_hash k = []
      then failp (OtherErr ''sqlite: admin token requires a selector and a verifier hash'')
      else if \<not> role_valid (at_role k)
      then failp (OtherErr ''sqlite: admin token role is not one of the three roles'')
      else bindp wall_clock (\<lambda>wall.
        let k = (if is_zero_time (at_created k) then k\<lparr>at_created := wall\<rparr> else k) in
        exec map_error (admin_token_insert k)))"

definition GetAdminTokenBySelector :: "string \<Rightarrow> (tables, admin_token) proc" where
  "GetAdminTokenBySelector selector =
     (if selector = [] then failp (OtherErr ''sqlite: admin token lookup requires a selector'')
      else query_row map_error (\<lambda>t. find_row (\<lambda>r. at_selector r = selector) (tb_admin_tokens t)))"

definition GetAdminTokenByID :: "string \<Rightarrow> string \<Rightarrow> (tables, admin_token) proc" where
  "GetAdminTokenByID tenantID i =
     (if tenantID = [] \<or> i = [] then failp (OtherErr ''sqlite: admin token lookup requires a tenant and an id'')
      else query_row map_error (\<lambda>t. find_row (\<lambda>r. at_tenant r = tenantID \<and> at_id r = i) (tb_admin_tokens t)))"

definition ListAdminTokens :: "string \<Rightarrow> (tables, admin_token list) proc" where
  "ListAdminTokens tenantID =
     query raw_error (\<lambda>t. select_page (\<lambda>r. (at_created r, at_id r)) (\<lambda>r. at_tenant r = tenantID)
       (clampLimit 0 maxAuthnListed maxAuthnListed) (tb_admin_tokens t))"

definition CountAdminTokensByRole :: "string \<Rightarrow> role \<Rightarrow> instant \<Rightarrow> (tables, int) proc" where
  "CountAdminTokensByRole tenantID role usableAt =
     query raw_error (\<lambda>t. count_where
       (\<lambda>r. at_tenant r = tenantID \<and> at_role r = role \<and> at_revoked r = None
          \<and> (case at_expires r of None \<Rightarrow> True | Some e \<Rightarrow> e > usableAt)) (tb_admin_tokens t))"

subsection \<open>Revocation and last use\<close>

text \<open>The statements the two tables share, over either.\<close>

definition revokeAuthnRow ::
  "('t \<Rightarrow> 'r list) \<Rightarrow> (('r list \<Rightarrow> 'r list) \<Rightarrow> 't \<Rightarrow> 't) \<Rightarrow> ('r \<Rightarrow> bool) \<Rightarrow> ('r \<Rightarrow> instant option)
     \<Rightarrow> (instant \<Rightarrow> 'r \<Rightarrow> 'r) \<Rightarrow> instant \<Rightarrow> ('t, unit) proc" where
  "revokeAuthnRow get upd mine revoked revoke at =
     required (rows_update get upd (\<lambda>r. mine r \<and> revoked r = None) (revoke at))"

definition RevokeAPIKey :: "string \<Rightarrow> string \<Rightarrow> instant \<Rightarrow> (tables, unit) proc" where
  "RevokeAPIKey tenantID i at =
     revokeAuthnRow tb_api_keys tb_api_keys_update (\<lambda>r. ak_tenant r = tenantID \<and> ak_id r = i) ak_revoked
       (\<lambda>at r. r\<lparr>ak_revoked := Some at\<rparr>) at"

definition RevokeAdminToken :: "string \<Rightarrow> string \<Rightarrow> instant \<Rightarrow> (tables, unit) proc" where
  "RevokeAdminToken tenantID i at =
     revokeAuthnRow tb_admin_tokens tb_admin_tokens_update (\<lambda>r. at_tenant r = tenantID \<and> at_id r = i) at_revoked
       (\<lambda>at r. r\<lparr>at_revoked := Some at\<rparr>) at"

definition touchAuthnRow ::
  "('t \<Rightarrow> 'r list) \<Rightarrow> (('r list \<Rightarrow> 'r list) \<Rightarrow> 't \<Rightarrow> 't) \<Rightarrow> ('r \<Rightarrow> string) \<Rightarrow> ('r \<Rightarrow> 'r)
     \<Rightarrow> string \<Rightarrow> ('t, unit) proc" where
  "touchAuthnRow get upd key touch i =
     (if i = [] then failp (OtherErr ''sqlite: touch requires an id'')
      else bindp (exec map_error (rows_update get upd (\<lambda>r. key r = i) touch)) (\<lambda>_. ret ()))"

definition TouchAPIKey :: "string \<Rightarrow> instant \<Rightarrow> (tables, unit) proc" where
  "TouchAPIKey i at =
     touchAuthnRow tb_api_keys tb_api_keys_update ak_id (\<lambda>r. r\<lparr>ak_last_used := Some at\<rparr>) i"

definition TouchAdminToken :: "string \<Rightarrow> instant \<Rightarrow> (tables, unit) proc" where
  "TouchAdminToken i at =
     touchAuthnRow tb_admin_tokens tb_admin_tokens_update at_id (\<lambda>r. r\<lparr>at_last_used := Some at\<rparr>) i"

subsection \<open>Rotation\<close>

definition rotateAuthnRow ::
  "('t \<Rightarrow> 'r list) \<Rightarrow> (('r list \<Rightarrow> 'r list) \<Rightarrow> 't \<Rightarrow> 't) \<Rightarrow> ('r \<Rightarrow> string \<times> string)
     \<Rightarrow> ('r \<Rightarrow> instant option) \<Rightarrow> ('r \<Rightarrow> instant option) \<Rightarrow> (instant \<Rightarrow> 'r \<Rightarrow> 'r)
     \<Rightarrow> string \<Rightarrow> string \<Rightarrow> instant \<Rightarrow> ('t, unit) proc \<Rightarrow> ('t, unit) proc" where
  "rotateAuthnRow get upd key revoked expires expire tenantID predecessorID at insert_new =
     (if tenantID = [] \<or> predecessorID = []
      then failp (OtherErr ''rotation requires a tenant and a predecessor id'')
      else if is_zero_time at then failp (OtherErr ''rotation requires the instant the predecessor stops'')
      else in_tx (bindp
        (exec map_error (rows_update get upd
           (\<lambda>r. key r = (tenantID, predecessorID) \<and> revoked r = None
              \<and> (case expires r of None \<Rightarrow> True | Some e \<Rightarrow> e > at))
           (expire at)))
        (\<lambda>n. if n = 0
             then bindp
               (query map_error (\<lambda>t. count_where
                  (\<lambda>r. key r = (tenantID, predecessorID) \<and> revoked r = None) (get t)))
               (\<lambda>live. if live = 0 then failp ErrNotFound else insert_new)
             else insert_new)))"

definition RotateAPIKey :: "string \<Rightarrow> string \<Rightarrow> api_key option \<Rightarrow> instant \<Rightarrow> (tables, unit) proc" where
  "RotateAPIKey tenantID predecessorID successor at =
     (case successor of
        None \<Rightarrow> failp (OtherErr ''sqlite: rotate api key requires a successor'')
      | Some k \<Rightarrow>
          if ak_id k = [] \<or> ak_tenant k = [] \<or> ak_name k = []
          then failp (OtherErr ''sqlite: api key requires an id, a tenant and a name'')
          else if ak_selector k = [] \<or> ak_hash k = []
          then failp (OtherErr ''sqlite: api key requires a selector and a verifier hash'')
          else if ak_tenant k \<noteq> tenantID
          then failp (OtherErr ''sqlite: rotate api key: the successor belongs to a different tenant'')
          else bindp wall_clock (\<lambda>wall.
            let k = (if is_zero_time (ak_created k) then k\<lparr>ak_created := wall\<rparr> else k) in
            rotateAuthnRow tb_api_keys tb_api_keys_update (\<lambda>r. (ak_tenant r, ak_id r)) ak_revoked ak_expires
              (\<lambda>at r. r\<lparr>ak_expires := Some at\<rparr>) tenantID predecessorID at
              (exec map_error (api_key_insert k))))"

text \<open>\<^verbatim>\<open>COALESCE(principal_id, id)\<close> of a token.\<close>

definition token_principal :: "admin_token \<Rightarrow> string" where
  "token_principal r = (case at_principal r of None \<Rightarrow> at_id r | Some p \<Rightarrow> p)"

lemma token_principal_fields [simp]:
  "token_principal (r\<lparr>at_expires := x\<rparr>) = token_principal r"
  "token_principal (r\<lparr>at_revoked := x\<rparr>) = token_principal r"
  "token_principal (r\<lparr>at_last_used := x\<rparr>) = token_principal r"
  "token_principal (r\<lparr>at_principal := Some q\<rparr>) = q"
  by (simp_all add: token_principal_def split: option.split)

definition inherit_principal :: "string \<Rightarrow> string \<Rightarrow> string \<Rightarrow> tables \<Rightarrow> sql_error + int \<times> tables" where
  "inherit_principal tenantID predecessorID successorID t =
     rows_update tb_admin_tokens tb_admin_tokens_update
       (\<lambda>r. at_tenant r = tenantID \<and> at_id r = successorID)
       (\<lambda>r. r\<lparr>at_principal := map_option token_principal
          (find_row (\<lambda>p. at_tenant p = tenantID \<and> at_id p = predecessorID) (tb_admin_tokens t))\<rparr>) t"

definition RotateAdminToken :: "string \<Rightarrow> string \<Rightarrow> admin_token option \<Rightarrow> instant \<Rightarrow> (tables, unit) proc" where
  "RotateAdminToken tenantID predecessorID successor at =
     (case successor of
        None \<Rightarrow> failp (OtherErr ''sqlite: rotate admin token requires a successor'')
      | Some k \<Rightarrow>
          if at_id k = [] \<or> at_tenant k = [] \<or> at_name k = []
          then failp (OtherErr ''sqlite: admin token requires an id, a tenant and a name'')
          else if at_selector k = [] \<or> at_hash k = []
          then failp (OtherErr ''sqlite: admin token requires a selector and a verifier hash'')
          else if \<not> role_valid (at_role k)
          then failp (OtherErr ''sqlite: admin token role is not one of the three roles'')
          else if at_tenant k \<noteq> tenantID
          then failp (OtherErr ''sqlite: rotate admin token: the successor belongs to a different tenant'')
          else bindp wall_clock (\<lambda>wall.
            let k = (if is_zero_time (at_created k) then k\<lparr>at_created := wall\<rparr> else k) in
            rotateAuthnRow tb_admin_tokens tb_admin_tokens_update (\<lambda>r. (at_tenant r, at_id r)) at_revoked at_expires
              (\<lambda>at r. r\<lparr>at_expires := Some at\<rparr>) tenantID predecessorID at
              (bindp (exec map_error (admin_token_insert k))
                 (\<lambda>_. bindp (exec map_error (inherit_principal tenantID predecessorID (at_id k))) (\<lambda>_. ret ())))))"

subsection \<open>Invariant\<close>

text \<open>The primary keys, the unique selectors, and the CHECK on the role.\<close>

definition authn_inv :: "tables \<Rightarrow> bool" where
  "authn_inv t \<longleftrightarrow>
     distinct (map ak_id (tb_api_keys t)) \<and> distinct (map ak_selector (tb_api_keys t))
     \<and> distinct (map at_id (tb_admin_tokens t)) \<and> distinct (map at_selector (tb_admin_tokens t))
     \<and> (\<forall>r \<in> set (tb_admin_tokens t). role_valid (at_role r))"

lemma authn_inv_tokens:
  assumes "authn_inv t" and "\<And>r. at_id (f r) = at_id r \<and> at_selector (f r) = at_selector r \<and> at_role (f r) = at_role r"
  shows "authn_inv (tb_admin_tokens_update (update_where p f) t)"
  using assms by (simp add: authn_inv_def map_update_where ball_update_where)

lemma authn_inv_keys:
  assumes "authn_inv t" and "\<And>r. ak_id (f r) = ak_id r \<and> ak_selector (f r) = ak_selector r"
  shows "authn_inv (tb_api_keys_update (update_where p f) t)"
  using assms by (simp add: authn_inv_def map_update_where)

lemma authn_inv_insert_token: "authn_inv t \<Longrightarrow> admin_token_insert r t = Inr (u, t') \<Longrightarrow> authn_inv t'"
  by (auto simp: authn_inv_def admin_token_insert_def rows_insert_Inr admin_token_clash_def image_iff)

lemma authn_inv_insert_key: "authn_inv t \<Longrightarrow> api_key_insert r t = Inr (u, t') \<Longrightarrow> authn_inv t'"
  by (auto simp: authn_inv_def api_key_insert_def rows_insert_Inr api_key_clash_def image_iff)

lemma keeps_rotateAuthnRow:
  assumes "\<And>t p. P t \<Longrightarrow> P (upd (update_where p (expire at)) t)" and "keeps P ins"
  shows "keeps P (rotateAuthnRow get upd key revoked expires expire tid pid at ins)"
  unfolding rotateAuthnRow_def
  by (intro keeps_if keeps_failp keeps_in_tx_of keeps_bindp keeps_exec keeps_query assms(2))
    (auto intro: assms(1))

lemma keeps_authn_inv:
  "keeps authn_inv (CreateAPIKey k)" "keeps authn_inv (CreateAdminToken a)"
  "keeps authn_inv (RevokeAPIKey tid i at)" "keeps authn_inv (RevokeAdminToken tid i at)"
  "keeps authn_inv (TouchAPIKey i at)" "keeps authn_inv (TouchAdminToken i at)"
proof -
  show "keeps authn_inv (CreateAPIKey k)" "keeps authn_inv (CreateAdminToken a)"
    unfolding CreateAPIKey_def CreateAdminToken_def Let_def
    by (intro keeps_if keeps_failp keeps_bindp keeps_wall_clock keeps_exec,
        (erule (1) authn_inv_insert_key | erule (1) authn_inv_insert_token))+
  show "keeps authn_inv (RevokeAPIKey tid i at)" "keeps authn_inv (RevokeAdminToken tid i at)"
    unfolding RevokeAPIKey_def RevokeAdminToken_def revokeAuthnRow_def
    by (auto intro!: keeps_required authn_inv_keys authn_inv_tokens)
  show "keeps authn_inv (TouchAPIKey i at)" "keeps authn_inv (TouchAdminToken i at)"
    unfolding TouchAPIKey_def TouchAdminToken_def touchAuthnRow_def
    by (auto intro!: keeps_bindp keeps_exec authn_inv_keys authn_inv_tokens)
qed

lemma keeps_RotateAPIKey: "keeps authn_inv (RotateAPIKey tid pid k at)"
proof (cases k)
  case None
  then show ?thesis by (auto simp: RotateAPIKey_def)
next
  case (Some r)
  show ?thesis
    unfolding RotateAPIKey_def Let_def Some option.case
    by (intro keeps_if keeps_failp keeps_bindp keeps_wall_clock keeps_rotateAuthnRow keeps_exec)
      (auto intro: authn_inv_keys elim: authn_inv_insert_key)
qed

lemma keeps_RotateAdminToken:
  assumes "\<And>t p. P t \<Longrightarrow> P (tb_admin_tokens_update (update_where p (\<lambda>r. r\<lparr>at_expires := Some at\<rparr>)) t)"
    and "\<And>r w. k = Some r \<Longrightarrow> keeps P (bindp
        (exec map_error (admin_token_insert (if is_zero_time (at_created r) then r\<lparr>at_created := w\<rparr> else r)))
        (\<lambda>_. bindp (exec map_error (inherit_principal tid pid (at_id r))) (\<lambda>_. ret ())))"
  shows "keeps P (RotateAdminToken tid pid k at)"
proof (cases k)
  case None
  then show ?thesis by (auto simp: RotateAdminToken_def)
next
  case (Some r)
  have eq: "at_id (if is_zero_time (at_created r) then r\<lparr>at_created := w\<rparr> else r) = at_id r" for w by simp
  show ?thesis
    unfolding RotateAdminToken_def Let_def Some option.case
    by (intro keeps_if keeps_failp keeps_bindp [OF keeps_wall_clock] keeps_rotateAuthnRow)
      (use assms Some in \<open>simp_all only: eq\<close>)
qed

lemma keeps_authn_inv_rotate: "keeps authn_inv (RotateAdminToken tid pid k at)"
proof (rule keeps_RotateAdminToken)
  fix r :: admin_token and w
  show "keeps authn_inv (bindp
        (exec map_error (admin_token_insert (if is_zero_time (at_created r) then r\<lparr>at_created := w\<rparr> else r)))
        (\<lambda>_. bindp (exec map_error (inherit_principal tid pid (at_id r))) (\<lambda>_. ret ())))"
    unfolding inherit_principal_def
    by (intro keeps_bindp keeps_exec keeps_ret) (auto intro: authn_inv_tokens elim: authn_inv_insert_token)
qed (auto intro: authn_inv_tokens)

subsection \<open>What a rotation does\<close>

text \<open>The instant a rotated row expires: the requested one, unless it already expired sooner.\<close>

definition earlier :: "instant option \<Rightarrow> instant \<Rightarrow> instant" where
  "earlier e at = (case e of None \<Rightarrow> at | Some x \<Rightarrow> min x at)"

lemma rotateAuthnRow_Inr:
  assumes "rotateAuthnRow get upd key revoked expires expire tid pid at ins s = (Inr u, s')"
    and get: "\<And>f t. get (upd f t) = f (get t)"
    and expire: "\<And>r. key (expire at r) = key r \<and> revoked (expire at r) = revoked r"
  obtains p s3 s2 where "p \<in> set (get (os_db s))" "key p = (tid, pid)" "revoked p = None"
    "os_db s3 = upd (update_where (\<lambda>r. key r = (tid, pid) \<and> revoked r = None
        \<and> (case expires r of None \<Rightarrow> True | Some e \<Rightarrow> e > at)) (expire at)) (os_db s)"
    "ins s3 = (Inr u, s2)" "os_db s' = os_db s2"
proof -
  let ?p = "\<lambda>r. key r = (tid, pid) \<and> revoked r = None \<and> (case expires r of None \<Rightarrow> True | Some e \<Rightarrow> e > at)"
  let ?q = "\<lambda>r. key r = (tid, pid) \<and> revoked r = None"
  from assms(1) have "in_tx (bindp (exec map_error (rows_update get upd ?p (expire at)))
      (\<lambda>n. if n = 0 then bindp (query map_error (\<lambda>t. count_where ?q (get t)))
               (\<lambda>live. if live = 0 then failp ErrNotFound else ins) else ins)) s = (Inr u, s')"
    by (simp add: rotateAuthnRow_def failp_def split: if_splits)
  then obtain n s3 s2 where upd: "n = count_where ?p (get (os_db s))" "os_db s3 = upd (update_where ?p (expire at)) (os_db s)"
    and rest: "(if n = 0 then bindp (query map_error (\<lambda>t. count_where ?q (get t)))
               (\<lambda>live. if live = 0 then failp ErrNotFound else ins) else ins) s3 = (Inr u, s2)"
    and db: "os_db s' = os_db s2"
    by (rule in_tx_exec_Inr) auto
  show thesis
  proof (cases "n = 0")
    case True
    with rest have "bindp (query map_error (\<lambda>t. count_where ?q (get t)))
               (\<lambda>live. if live = 0 then failp ErrNotFound else ins) s3 = (Inr u, s2)" by simp
    then obtain s4 where s4: "os_db s4 = os_db s3"
      and c: "(if count_where ?q (get (os_db s3)) = 0 then failp ErrNotFound else ins) s4 = (Inr u, s2)"
      by (rule bindp_query_Inr)
    from c have live: "count_where ?q (get (os_db s3)) \<noteq> 0" and ins: "ins s4 = (Inr u, s2)"
      by (auto simp: failp_def split: if_splits)
    have "\<forall>r \<in> set (get (os_db s)). \<not> ?p r" using True upd(1) by (simp only: count_where_zero)
    then have "get (os_db s3) = get (os_db s)" by (simp add: upd(2) get update_where_none)
    with live obtain p where p: "p \<in> set (get (os_db s))" "?q p"
      by (auto simp: count_where_zero)
    show thesis by (rule that [of p s4 s2]) (use p ins s4 upd(2) db in auto)
  next
    case False
    with upd(1) obtain p where p: "p \<in> set (get (os_db s))" "?p p"
      by (auto simp: count_where_zero)
    show thesis by (rule that [of p s3 s2]) (use p rest False upd(2) db in auto)
  qed
qed

lemma RotateAdminToken_Inr:
  assumes run: "RotateAdminToken tid pid (Some k) at s = (Inr u, s')" and inv: "authn_inv (os_db s)"
  obtains p k' where "p \<in> set (tb_admin_tokens (os_db s))" "at_tenant p = tid" "at_id p = pid" "at_revoked p = None"
    "at_id k \<noteq> pid" "at_tenant k = tid" "role_valid (at_role k)"
    "k' = k\<lparr>at_created := (if is_zero_time (at_created k) then os_wall s else at_created k),
       at_principal := Some (token_principal p)\<rparr>"
    "os_db s' = (os_db s)\<lparr>tb_admin_tokens :=
       map (\<lambda>r. if r = p then r\<lparr>at_expires := Some (earlier (at_expires p) at)\<rparr> else r)
         (tb_admin_tokens (os_db s)) @ [k']\<rparr>"
proof -
  define k1 where "k1 = (if is_zero_time (at_created k) then k\<lparr>at_created := os_wall s\<rparr> else k)"
  have k1: "at_id k1 = at_id k" "at_tenant k1 = at_tenant k" "at_role k1 = at_role k"
    "k1 = k\<lparr>at_created := (if is_zero_time (at_created k) then os_wall s else at_created k)\<rparr>" by (simp_all add: k1_def)
  let ?ins = "bindp (exec map_error (admin_token_insert k1))
      (\<lambda>_. bindp (exec map_error (inherit_principal tid pid (at_id k1))) (\<lambda>_. ret ()))"
  from run have ok: "at_tenant k = tid" "role_valid (at_role k)" and rot: "rotateAuthnRow tb_admin_tokens
        tb_admin_tokens_update (\<lambda>r. (at_tenant r, at_id r)) at_revoked at_expires
        (\<lambda>at r. r\<lparr>at_expires := Some at\<rparr>) tid pid at ?ins s = (Inr u, s')"
    by (auto simp: RotateAdminToken_def failp_def bindp_def wall_clock_def Let_def k1_def split: if_splits)
  from rot obtain p s3 s2 where p: "p \<in> set (tb_admin_tokens (os_db s))" "(at_tenant p, at_id p) = (tid, pid)"
      "at_revoked p = None"
    and s3: "os_db s3 = tb_admin_tokens_update (update_where (\<lambda>r. (at_tenant r, at_id r) = (tid, pid) \<and> at_revoked r = None
        \<and> (case at_expires r of None \<Rightarrow> True | Some e \<Rightarrow> e > at)) (\<lambda>r. r\<lparr>at_expires := Some at\<rparr>)) (os_db s)"
    and ins: "?ins s3 = (Inr u, s2)" and db: "os_db s' = os_db s2"
    by (rule rotateAuthnRow_Inr) auto
  let ?g = "\<lambda>r. r\<lparr>at_expires := Some (earlier (at_expires p) at)\<rparr>"
  let ?old = "tb_admin_tokens (os_db s)"
  define rows where "rows = map (\<lambda>r. if r = p then ?g r else r) ?old"
  have dist: "distinct (map at_id ?old)" using inv by (simp add: authn_inv_def)
  have new: "tb_admin_tokens (os_db s3) = rows"
  proof -
    have only: "r = p" if "r \<in> set ?old" "at_id r = pid" for r
      using that p dist by (auto simp: distinct_map dest: inj_onD)
    let ?P = "\<lambda>r. (at_tenant r, at_id r) = (tid, pid) \<and> at_revoked r = None
        \<and> (case at_expires r of None \<Rightarrow> True | Some e \<Rightarrow> e > at)"
    have "(if ?P r then r\<lparr>at_expires := Some at\<rparr> else r) = (if r = p then ?g r else r)" if "r \<in> set ?old" for r
    proof (cases "r = p")
      case True
      with p(2,3) show ?thesis by (cases "at_expires p") (simp_all add: earlier_def)
    next
      case False
      with only [OF that] show ?thesis by auto
    qed
    then show ?thesis by (simp add: s3 update_where_def rows_def)
  qed
  obtain s4 where i4: "admin_token_insert k1 (os_db s3) = Inr ((), os_db s4)"
    and r4: "bindp (exec map_error (inherit_principal tid pid (at_id k1))) (\<lambda>_. ret ()) s4 = (Inr u, s2)"
    using ins by (rule bindp_exec_Inr) simp
  from i4 have fresh: "\<forall>old \<in> set rows. at_id old \<noteq> at_id k1"
    and t4: "os_db s4 = (os_db s)\<lparr>tb_admin_tokens := rows @ [k1\<lparr>at_principal := None\<rparr>]\<rparr>"
    by (auto simp: admin_token_insert_def rows_insert_Inr admin_token_clash_def new) (simp add: s3)
  from r4 have t2: "os_db s2 = tb_admin_tokens_update (update_where (\<lambda>r. at_tenant r = tid \<and> at_id r = at_id k1)
       (\<lambda>r. r\<lparr>at_principal := map_option token_principal
          (find_row (\<lambda>p. at_tenant p = tid \<and> at_id p = pid) (tb_admin_tokens (os_db s4)))\<rparr>)) (os_db s4)"
    by (auto elim!: bindp_exec_Inr simp: inherit_principal_def ret_def)
  have gp: "?g p \<in> set rows" using p(1) by (force simp: rows_def)
  have ne: "at_id k1 \<noteq> pid" using fresh gp p(2) by fastforce
  have ids: "map at_id rows = map at_id ?old" by (simp add: rows_def)
  have dist': "distinct (map at_id rows)" unfolding ids by (rule dist)
  have "find_row (\<lambda>r. at_tenant r = tid \<and> at_id r = pid) rows = Some (?g p)"
    by (rule find_row_unique [OF dist' _ gp, where k = pid]) (use p(2) in simp_all)
  then have "find_row (\<lambda>r. at_tenant r = tid \<and> at_id r = pid) (tb_admin_tokens (os_db s4)) = Some (?g p)"
    by (simp add: t4 find_row_append)
  then have "os_db s2 = (os_db s)\<lparr>tb_admin_tokens := rows @ [k1\<lparr>at_principal := Some (token_principal p)\<rparr>]\<rparr>"
    using fresh by (simp add: t2 t4 update_where_none k1(2) ok(1) o_def)
  then show thesis
    using p ok ne k1 db by (intro that [of p "k1\<lparr>at_principal := Some (token_principal p)\<rparr>"]) (auto simp: rows_def)
qed

lemma rotateAuthnRow_Inl: "rotateAuthnRow get upd key revoked expires expire tid pid at ins s = (Inl e, s') \<Longrightarrow> os_db s' = os_db s"
  by (auto simp: rotateAuthnRow_def failp_def split: if_splits dest: in_tx_Inl)

lemma RotateAdminToken_Inl: "RotateAdminToken tid pid k at s = (Inl e, s') \<Longrightarrow> os_db s' = os_db s"
  by (auto simp: RotateAdminToken_def failp_def bindp_def wall_clock_def Let_def
      split: if_splits option.splits dest: rotateAuthnRow_Inl)

subsection \<open>Properties\<close>

text \<open>
  C31: a rotation of an administrative token never extends the life of the token it replaces
  and never changes who the credential belongs to. A rotation that fails leaves every table as it was; one that
  succeeds was of an unrevoked token of the tenant, moves that token's expiry to the earlier of
  the requested instant and its own, and changes no other row of any table. The one row it adds is
  the successor exactly as it was given (its selector and hash, its role, its expiry and every
  other column), under another identifier, in the same tenant and with a known role, except that
  an unset creation time is the current one and its principal is the predecessor's.
\<close>

theorem rotate_admin_token:
  assumes "RotateAdminToken tid pid (Some k) at s = (r, s')" and "authn_inv (os_db s)"
  shows "if is_ok r
    then \<exists>p. p \<in> set (tb_admin_tokens (os_db s)) \<and> at_tenant p = tid \<and> at_id p = pid \<and> at_revoked p = None
      \<and> at_id k \<noteq> pid \<and> at_tenant k = tid \<and> role_valid (at_role k)
      \<and> os_db s' = (os_db s)\<lparr>tb_admin_tokens :=
           map (\<lambda>x. if x = p then x\<lparr>at_expires := Some (earlier (at_expires p) at)\<rparr> else x) (tb_admin_tokens (os_db s))
           @ [k\<lparr>at_created := (if is_zero_time (at_created k) then os_wall s else at_created k),
                at_principal := Some (token_principal p)\<rparr>]\<rparr>
    else os_db s' = os_db s"
proof (cases r)
  case (Inl e)
  with assms(1) show ?thesis by (simp add: RotateAdminToken_Inl)
next
  case (Inr u)
  show ?thesis
    by (rule RotateAdminToken_Inr [OF assms(1) [unfolded Inr] assms(2)]) (auto simp: Inr)
qed

definition demo_tenant :: tenant where
  "demo_tenant = \<lparr>tn_id = ''t'', tn_name = ''main'', tn_status = ''active'', tn_created = 1, tn_updated = 1\<rparr>"

definition demo_token :: admin_token where
  "demo_token = \<lparr>at_id = ''a1'', at_tenant = ''t'', at_name = ''ann'', at_selector = ''s1'', at_hash = ''h'',
     at_role = RoleFull, at_created = 1, at_created_by = [], at_last_used = None, at_expires = None,
     at_revoked = None, at_principal = None\<rparr>"

definition demo_successor :: admin_token where
  "demo_successor = demo_token\<lparr>at_id := ''a2'', at_selector := ''s2'', at_created := 30\<rparr>"

definition demo_authn_db :: db where
  "demo_authn_db = fresh_os 20 (empty_tables\<lparr>tb_tenants := [demo_tenant], tb_admin_tokens := [demo_token]\<rparr>)"

lemma demo_authn_inv: "authn_inv (os_db demo_authn_db)"
  by (simp add: demo_authn_db_def authn_inv_def demo_token_def empty_tables_def)

lemma demo_rotate:
  "RotateAdminToken ''t'' ''a1'' (Some demo_successor) 100 demo_authn_db =
     (Inr (), demo_authn_db\<lparr>os_db := empty_tables\<lparr>tb_tenants := [demo_tenant],
        tb_admin_tokens := [demo_token\<lparr>at_expires := Some 100\<rparr>, demo_successor\<lparr>at_principal := Some ''a1''\<rparr>]\<rparr>\<rparr>)"
  by (simp add: RotateAdminToken_def Let_def rotateAuthnRow_def demo_authn_db_def demo_token_def demo_successor_def
      demo_tenant_def tx_simps rows_update_def wall_clock_def admin_token_insert_def rows_insert_def insert_row_def
      foreign_key_def check_def tenant_exists_def admin_token_clash_def inherit_principal_def is_zero_time_def
      zero_time_def token_principal_def)

theorem rotate_admin_token_witness:
  "\<exists>p s'. RotateAdminToken ''t'' ''a1'' (Some demo_successor) 100 demo_authn_db = (Inr (), s')
     \<and> p \<in> set (tb_admin_tokens (os_db demo_authn_db))
     \<and> demo_successor\<lparr>at_principal := Some (token_principal p)\<rparr> \<in> set (tb_admin_tokens (os_db s'))"
proof -
  obtain s' where run: "RotateAdminToken ''t'' ''a1'' (Some demo_successor) 100 demo_authn_db = (Inr (), s')"
    using demo_rotate by blast
  from rotate_admin_token [OF run demo_authn_inv] obtain p where
    p: "p \<in> set (tb_admin_tokens (os_db demo_authn_db))"
    and db: "os_db s' = (os_db demo_authn_db)\<lparr>tb_admin_tokens :=
       map (\<lambda>x. if x = p then x\<lparr>at_expires := Some (earlier (at_expires p) 100)\<rparr> else x)
         (tb_admin_tokens (os_db demo_authn_db)) @ [demo_successor\<lparr>at_created := 30, at_principal := Some (token_principal p)\<rparr>]\<rparr>"
    by (auto simp: demo_successor_def is_zero_time_def zero_time_def)
  have "demo_successor\<lparr>at_created := 30, at_principal := Some (token_principal p)\<rparr>
      = demo_successor\<lparr>at_principal := Some (token_principal p)\<rparr>" by (simp add: demo_successor_def)
  with db have "demo_successor\<lparr>at_principal := Some (token_principal p)\<rparr> \<in> set (tb_admin_tokens (os_db s'))" by simp
  with run p show ?thesis by blast
qed

end
