(* ===== verification/Approval_Store.thy ===== *)
theory Approval_Store
  imports Tenant_Store Authn_Store Single_Use
begin

text \<open>
  \<^verbatim>\<open>internal/store/sqlite/approval.go\<close>: the dual-approval queue. A request is decided by an
  administrator who is not the one who made it, executed once, and expired by the clock.

  \<^verbatim>\<open>strings.EqualFold\<close> compares texts up to Unicode simple case folding, an equivalence; the
  model takes a function \<open>fc\<close> that picks the representative of a text's class, and nothing
  is assumed of it. The empty status a request may be created with is \<open>None\<close>.
\<close>

subsection \<open>Operations\<close>

definition sameAdministrator :: "(string \<Rightarrow> string) \<Rightarrow> string \<Rightarrow> string \<Rightarrow> bool" where
  "sameAdministrator fc a b \<longleftrightarrow> fc (TrimSpace a) = fc (TrimSpace b)"

text \<open>The row's document is decoded whenever a row is read.\<close>

definition scanApproval :: "approval_request \<Rightarrow> approval_request res" where
  "scanApproval r = (case decodeJSONObject (ap_payload r) of
     Inl e \<Rightarrow> Inl e | Inr doc \<Rightarrow> Inr (r\<lparr>ap_payload := doc\<rparr>))"

definition CreateApproval :: "approval_request \<Rightarrow> approval_status option \<Rightarrow> (tables, unit) proc" where
  "CreateApproval r status =
     (if ap_id r = [] \<or> ap_tenant r = [] then failp (OtherErr ''sqlite: approval request requires an id and a tenant'')
      else if ap_operation r = [] then failp (OtherErr ''sqlite: approval request requires an operation'')
      else if TrimSpace (ap_requested_by r) = []
      then failp (OtherErr ''sqlite: approval request requires a requester'')
      else bindp wall_clock (\<lambda>wall.
        let r = r\<lparr>ap_status := (case status of None \<Rightarrow> ApprovalPending | Some st \<Rightarrow> st)\<rparr>;
            r = (if is_zero_time (ap_requested_at r) then r\<lparr>ap_requested_at := wall\<rparr> else r) in
        if is_zero_time (ap_expires r) then failp (OtherErr ''sqlite: approval request requires an expiry'')
        else case encodeJSONObject (ap_payload r) of
          Inl e \<Rightarrow> failp e
        | Inr payload \<Rightarrow>
            exec map_error (rows_insert tb_approvals tb_approvals_update (\<lambda>old new. ap_id old = ap_id new)
              (r\<lparr>ap_payload := payload\<rparr>))))"

definition of_res :: "'a res \<Rightarrow> ('s, 'a) call" where
  "of_res r = (case r of Inl e \<Rightarrow> failp e | Inr x \<Rightarrow> ret x)"

definition GetApproval :: "string \<Rightarrow> string \<Rightarrow> (tables, approval_request) proc" where
  "GetApproval tenantID i =
     bindp (query_row map_error (\<lambda>t. find_row (\<lambda>r. ap_tenant r = tenantID \<and> ap_id r = i) (tb_approvals t)))
       (\<lambda>r. of_res (scanApproval r))"

fun scan_rows :: "('r \<Rightarrow> 'r res) \<Rightarrow> 'r list \<Rightarrow> 'r list res" where
  "scan_rows sc [] = Inr []"
| "scan_rows sc (r # rs) =
     (case sc r of Inl e \<Rightarrow> Inl e
      | Inr x \<Rightarrow> (case scan_rows sc rs of Inl e \<Rightarrow> Inl e | Inr xs \<Rightarrow> Inr (x # xs)))"

definition ListApprovals ::
  "string \<Rightarrow> approval_status option \<Rightarrow> int \<Rightarrow> (tables, approval_request list) proc" where
  "ListApprovals tenantID status limit =
     bindp (query raw_error (\<lambda>t. select_page (\<lambda>r. (ap_requested_at r, ap_id r))
         (\<lambda>r. ap_tenant r = tenantID \<and> (case status of None \<Rightarrow> True | Some st \<Rightarrow> ap_status r = st))
         (clampLimit limit 50 500) (tb_approvals t)))
       (\<lambda>rows. of_res (scan_rows scanApproval rows))"

text \<open>The principal an identifier resolves to; one that names no token stands for itself.\<close>

definition principal_of :: "string \<Rightarrow> string \<Rightarrow> tables \<Rightarrow> string" where
  "principal_of tenantID tokenID t =
     (case find_row (\<lambda>r. at_tenant r = tenantID \<and> at_id r = TrimSpace tokenID) (tb_admin_tokens t) of
        None \<Rightarrow> tokenID
      | Some r \<Rightarrow> token_principal r)"

definition adminPrincipal :: "string \<Rightarrow> string \<Rightarrow> (tables, string) proc" where
  "adminPrincipal tenantID tokenID = query map_error (principal_of tenantID tokenID)"

text \<open>What the UPDATE of a decision makes of the row.\<close>

definition decided_row :: "bool \<Rightarrow> string \<Rightarrow> string \<Rightarrow> instant \<Rightarrow> approval_request \<Rightarrow> approval_request" where
  "decided_row approve by note at r =
     r\<lparr>ap_status := (if approve then ApprovalApproved else ApprovalRejected), ap_decided_by := by,
       ap_decided_at := Some at, ap_note := note\<rparr>"

definition DecideApproval ::
  "(string \<Rightarrow> string) \<Rightarrow> string \<Rightarrow> string \<Rightarrow> string \<Rightarrow> bool \<Rightarrow> string \<Rightarrow> instant
     \<Rightarrow> (tables, approval_request) proc" where
  "DecideApproval fc tenantID i decidedBy approve note at =
     (if TrimSpace decidedBy = []
      then failp (OtherErr ''sqlite: deciding an approval requires an administrator'')
      else in_tx (bindp (GetApproval tenantID i) (\<lambda>current.
        if ap_status current \<noteq> ApprovalPending then failp ErrStaleWrite
        else if \<not> at < ap_expires current then failp ErrStaleWrite
        else bindp (adminPrincipal tenantID (ap_requested_by current)) (\<lambda>requester.
          bindp (adminPrincipal tenantID decidedBy) (\<lambda>decider.
            if sameAdministrator fc requester decider then failp ErrSelfApproval
            else bindp
              (exec map_error (rows_update tb_approvals tb_approvals_update
                 (\<lambda>r. ap_tenant r = tenantID \<and> ap_id r = i \<and> ap_status r = ApprovalPending)
                 (decided_row approve decidedBy note at)))
              (\<lambda>n. if n = 0 then failp ErrStaleWrite else GetApproval tenantID i))))))"

text \<open>\<open>execErr\<close> is the error of the executor, if any, with its message.\<close>

definition MarkApprovalExecuted :: "string \<Rightarrow> string \<Rightarrow> string option \<Rightarrow> instant \<Rightarrow> (tables, unit) proc" where
  "MarkApprovalExecuted tenantID i execErr at =
     (let status = (if execErr = None then ApprovalExecuted else ApprovalFailed);
          message = (case execErr of None \<Rightarrow> [] | Some m \<Rightarrow> m) in
      guarded
        (rows_update tb_approvals tb_approvals_update
           (\<lambda>r. ap_tenant r = tenantID \<and> ap_id r = i \<and> ap_status r = ApprovalApproved)
           (\<lambda>r. r\<lparr>ap_status := status, ap_executed_at := Some at, ap_error := message\<rparr>))
        (\<lambda>t. list_ex (\<lambda>r. ap_tenant r = tenantID \<and> ap_id r = i) (tb_approvals t)))"

definition ExpireApprovals :: "instant \<Rightarrow> (tables, int) proc" where
  "ExpireApprovals cutoff =
     exec map_error (rows_update tb_approvals tb_approvals_update
       (\<lambda>r. ap_status r = ApprovalPending \<and> ap_expires r < cutoff)
       (\<lambda>r. r\<lparr>ap_status := ApprovalExpired\<rparr>))"

subsection \<open>Outcomes\<close>

lemma of_res_Inr [simp]: "of_res r s = (Inr x, s') \<longleftrightarrow> r = Inr x \<and> s' = s"
  by (auto simp: of_res_def failp_def ret_def split: sum.splits)

lemma keeps_of_res [intro]: "keeps P (of_res r)"
  by (cases r) (auto simp: of_res_def)

lemma scanApproval_fields:
  "scanApproval r = Inr x \<Longrightarrow> \<exists>doc. x = r\<lparr>ap_payload := doc\<rparr>"
  by (auto simp: scanApproval_def split: sum.splits)

lemma GetApproval_Inr:
  assumes "GetApproval tid i s = (Inr a, s')"
  obtains r doc where "r \<in> set (tb_approvals (os_db s))" "ap_tenant r = tid" "ap_id r = i"
    "a = r\<lparr>ap_payload := doc\<rparr>" "os_db s' = os_db s"
proof -
  from assms obtain r s1 where q: "query_row map_error
        (\<lambda>t. find_row (\<lambda>r. ap_tenant r = tid \<and> ap_id r = i) (tb_approvals t)) s = (Inr r, s1)"
    and sc: "scanApproval r = Inr a" and s1: "s' = s1"
    by (auto simp: GetApproval_def bindp_Inr)
  from scanApproval_fields [OF sc] obtain doc where "a = r\<lparr>ap_payload := doc\<rparr>" ..
  then show thesis
    using find_row_Some [OF query_row_Inr [OF q]] query_row_frame [OF q] s1 by (intro that [of r doc]) simp_all
qed

lemma keeps_GetApproval [intro]: "keeps P (GetApproval tid i)"
  unfolding GetApproval_def by auto

text \<open>A decision that is taken: the request was pending and alive, and the two administrators differ.\<close>

lemma decided_row_sel [simp]:
  "ap_id (decided_row a b n at r) = ap_id r" "ap_tenant (decided_row a b n at r) = ap_tenant r"
  "ap_operation (decided_row a b n at r) = ap_operation r" "ap_payload (decided_row a b n at r) = ap_payload r"
  "ap_requested_by (decided_row a b n at r) = ap_requested_by r" "ap_decided_by (decided_row a b n at r) = b"
  "ap_requested_at (decided_row a b n at r) = ap_requested_at r" "ap_expires (decided_row a b n at r) = ap_expires r"
  "ap_status (decided_row a b n at r) = (if a then ApprovalApproved else ApprovalRejected)"
  by (simp_all add: decided_row_def)

lemma DecideApproval_Inr:
  assumes "DecideApproval fc tid i by approve note at s = (Inr a, s')"
  obtains r where "r \<in> set (tb_approvals (os_db s))" "ap_tenant r = tid" "ap_id r = i"
    "ap_status r = ApprovalPending" "at < ap_expires r" "TrimSpace by \<noteq> []"
    "\<not> sameAdministrator fc (principal_of tid (ap_requested_by r) (os_db s)) (principal_of tid by (os_db s))"
    "os_db s' = tb_approvals_update (update_where
       (\<lambda>r. ap_tenant r = tid \<and> ap_id r = i \<and> ap_status r = ApprovalPending) (decided_row approve by note at)) (os_db s)"
proof -
  let ?p = "\<lambda>r. ap_tenant r = tid \<and> ap_id r = i \<and> ap_status r = ApprovalPending"
  let ?f = "decided_row approve by note at"
  let ?upd = "exec map_error (rows_update tb_approvals tb_approvals_update ?p ?f)"
  let ?last = "\<lambda>n. if n = 0 then failp ErrStaleWrite else GetApproval tid i"
  let ?body = "\<lambda>current. if ap_status current \<noteq> ApprovalPending then failp ErrStaleWrite
        else if \<not> at < ap_expires current then failp ErrStaleWrite
        else bindp (adminPrincipal tid (ap_requested_by current)) (\<lambda>requester.
          bindp (adminPrincipal tid by) (\<lambda>decider.
            if sameAdministrator fc requester decider then failp ErrSelfApproval else bindp ?upd ?last))"
  have ne: "TrimSpace by \<noteq> []" using assms by (auto simp: DecideApproval_def failp_def)
  have tx: "in_tx (bindp (GetApproval tid i) ?body) s = (Inr a, s')"
    using assms unfolding DecideApproval_def if_not_P [OF ne] .
  obtain s1 s2 where s1: "os_db s1 = os_db s" and run: "bindp (GetApproval tid i) ?body s1 = (Inr a, s2)"
    and db: "os_db s' = os_db s2"
    by (rule in_tx_Inr [OF tx]) (rule that; assumption)
  obtain c s3 where get: "GetApproval tid i s1 = (Inr c, s3)" and body: "?body c s3 = (Inr a, s2)"
    using run by (auto simp: bindp_Inr)
  obtain r doc where r: "r \<in> set (tb_approvals (os_db s))" "ap_tenant r = tid" "ap_id r = i"
    and c: "c = r\<lparr>ap_payload := doc\<rparr>" and s3: "os_db s3 = os_db s"
    using get by (rule GetApproval_Inr) (use s1 in auto)
  from body have st: "ap_status r = ApprovalPending" "at < ap_expires r" and
    run2: "bindp (adminPrincipal tid (ap_requested_by r)) (\<lambda>requester. bindp (adminPrincipal tid by) (\<lambda>decider.
            if sameAdministrator fc requester decider then failp ErrSelfApproval else bindp ?upd ?last)) s3 = (Inr a, s2)"
    by (auto simp: c failp_def split: if_splits)
  obtain s4 where s4: "os_db s4 = os_db s" and
    run3: "bindp (adminPrincipal tid by) (\<lambda>decider.
            if sameAdministrator fc (principal_of tid (ap_requested_by r) (os_db s)) decider then failp ErrSelfApproval
            else bindp ?upd ?last) s4 = (Inr a, s2)"
    using run2 unfolding adminPrincipal_def by (rule bindp_query_Inr) (simp add: s3)
  obtain s5 where s5: "os_db s5 = os_db s" and
    run4: "(if sameAdministrator fc (principal_of tid (ap_requested_by r) (os_db s)) (principal_of tid by (os_db s))
            then failp ErrSelfApproval else bindp ?upd ?last) s5 = (Inr a, s2)"
    using run3 unfolding adminPrincipal_def by (rule bindp_query_Inr) (simp add: s4)
  from run4 have differ: "\<not> sameAdministrator fc (principal_of tid (ap_requested_by r) (os_db s)) (principal_of tid by (os_db s))"
    and run5: "bindp ?upd ?last s5 = (Inr a, s2)"
    by (auto simp: failp_def split: if_splits)
  from run5 obtain s6 n where s6': "rows_update tb_approvals tb_approvals_update ?p ?f (os_db s5) = Inr (n, os_db s6)"
    and run6: "?last n s6 = (Inr a, s2)"
    by (rule bindp_exec_Inr) (rule that; assumption)
  from s6' have s6: "os_db s6 = tb_approvals_update (update_where ?p ?f) (os_db s)" by (simp add: s5)
  have "os_db s2 = os_db s6"
    using run6 by (auto simp: failp_def split: if_splits elim: GetApproval_Inr)
  with r st ne differ s6 db show thesis by (intro that) auto
qed

lemma DecideApproval_Inl: "DecideApproval fc tid i by approve note at s = (Inl e, s') \<Longrightarrow> os_db s' = os_db s"
  by (auto simp: DecideApproval_def failp_def Let_def split: if_splits dest: in_tx_Inl)

subsection \<open>The queue as a state machine\<close>

text \<open>
  The invariant: a request that was ever decided was decided by an administrator, and the
  requester and the decider resolve to different principals.
\<close>

definition decided :: "approval_status \<Rightarrow> bool" where
  "decided st \<longleftrightarrow> st \<in> {ApprovalApproved, ApprovalRejected, ApprovalExecuted, ApprovalFailed}"

definition two_persons :: "(string \<Rightarrow> string) \<Rightarrow> tables \<Rightarrow> approval_request \<Rightarrow> bool" where
  "two_persons fc t r \<longleftrightarrow> TrimSpace (ap_decided_by r) \<noteq> []
     \<and> \<not> sameAdministrator fc (principal_of (ap_tenant r) (ap_requested_by r) t)
         (principal_of (ap_tenant r) (ap_decided_by r) t)"

definition approval_inv :: "(string \<Rightarrow> string) \<Rightarrow> tables \<Rightarrow> bool" where
  "approval_inv fc t \<longleftrightarrow> distinct (map ap_id (tb_approvals t))
     \<and> (\<forall>r \<in> set (tb_approvals t). decided (ap_status r) \<longrightarrow> two_persons fc t r)"

text \<open>An identifier no request names: what a fresh UUID is.\<close>

definition unnamed :: "string \<Rightarrow> tables \<Rightarrow> bool" where
  "unnamed i t \<longleftrightarrow>
     (\<forall>r \<in> set (tb_approvals t). TrimSpace (ap_requested_by r) \<noteq> i \<and> TrimSpace (ap_decided_by r) \<noteq> i)"

inductive approval_step :: "(string \<Rightarrow> string) \<Rightarrow> db \<Rightarrow> db \<Rightarrow> bool" for fc where
  create: "CreateApproval r st s = (q, s') \<Longrightarrow> st \<in> {None, Some ApprovalPending} \<Longrightarrow> approval_step fc s s'"
| decide: "DecideApproval fc tid i by approve note at s = (a, s') \<Longrightarrow> approval_step fc s s'"
| mark: "MarkApprovalExecuted tid i e at s = (q, s') \<Longrightarrow> approval_step fc s s'"
| expire: "ExpireApprovals cutoff s = (n, s') \<Longrightarrow> approval_step fc s s'"
| issue: "CreateAdminToken k s = (q, s') \<Longrightarrow> unnamed (at_id k) (os_db s) \<Longrightarrow> approval_step fc s s'"
| rotate: "RotateAdminToken tid pid (Some k) at s = (q, s') \<Longrightarrow> unnamed (at_id k) (os_db s) \<Longrightarrow> approval_step fc s s'"
| revoke: "RevokeAdminToken tid i at s = (q, s') \<Longrightarrow> approval_step fc s s'"
| touch: "TouchAdminToken i at s = (q, s') \<Longrightarrow> approval_step fc s s'"
| frame: "authn_inv (os_db s') \<Longrightarrow> tb_approvals (os_db s') = tb_approvals (os_db s) \<Longrightarrow>
     tb_admin_tokens (os_db s') = tb_admin_tokens (os_db s) \<Longrightarrow> approval_step fc s s'"

text \<open>Principals are stable: the tokens keep their identity, and a new one takes no name in use.\<close>

lemma find_row_map:
  "(\<And>r. p (f r) = p r) \<Longrightarrow> find_row p (map f rows) = map_option f (find_row p rows)"
  by (induction rows) auto

lemma principal_of_frame:
  assumes tok: "tb_admin_tokens t' = map f (tb_admin_tokens t) @ new"
    and f: "\<And>r. at_tenant (f r) = at_tenant r \<and> at_id (f r) = at_id r \<and> token_principal (f r) = token_principal r"
    and new: "\<And>k. k \<in> set new \<Longrightarrow> at_id k \<noteq> TrimSpace tok"
  shows "principal_of tid tok t' = principal_of tid tok t"
proof -
  have "find_row (\<lambda>r. at_tenant r = tid \<and> at_id r = TrimSpace tok) new = None"
    using new by (auto simp: find_row_None)
  then show ?thesis
    by (simp add: principal_of_def tok find_row_append find_row_map f split: option.split)
qed

lemma approval_inv_tokens:
  assumes "approval_inv fc t" and "tb_approvals t' = tb_approvals t"
    and "tb_admin_tokens t' = map f (tb_admin_tokens t) @ new"
    and "\<And>r. at_tenant (f r) = at_tenant r \<and> at_id (f r) = at_id r \<and> token_principal (f r) = token_principal r"
    and "\<And>k. k \<in> set new \<Longrightarrow> unnamed (at_id k) t"
  shows "approval_inv fc t'"
  unfolding approval_inv_def assms(2)
proof (intro conjI ballI impI)
  show "distinct (map ap_id (tb_approvals t))" using assms(1) by (simp add: approval_inv_def)
  fix r assume r: "r \<in> set (tb_approvals t)" and "decided (ap_status r)"
  with assms(1) have "two_persons fc t r" by (simp add: approval_inv_def)
  moreover have "principal_of (ap_tenant r) x t' = principal_of (ap_tenant r) x t"
    if "x \<in> {ap_requested_by r, ap_decided_by r}" for x
  proof (rule principal_of_frame [OF assms(3,4)])
    fix k assume "k \<in> set new"
    from assms(5) [OF this] that r show "at_id k \<noteq> TrimSpace x" by (auto simp: unnamed_def)
  qed
  ultimately show "two_persons fc t' r" by (simp add: two_persons_def)
qed

lemma approval_inv_update_tokens:
  assumes "approval_inv fc t"
    and "\<And>r. at_tenant (f r) = at_tenant r \<and> at_id (f r) = at_id r \<and> token_principal (f r) = token_principal r"
  shows "approval_inv fc (tb_admin_tokens_update (update_where p f) t)"
  by (rule approval_inv_tokens [OF assms(1), where f = "\<lambda>r. if p r then f r else r" and new = "[]"])
    (use assms(2) in \<open>auto simp: update_where_def\<close>)

lemma keeps_approval_inv_tokens:
  "keeps (approval_inv fc) (RevokeAdminToken tid i at)" "keeps (approval_inv fc) (TouchAdminToken i at)"
  unfolding RevokeAdminToken_def TouchAdminToken_def revokeAuthnRow_def touchAuthnRow_def
  by (auto intro!: keeps_required keeps_bindp keeps_exec approval_inv_update_tokens)

lemma approval_inv_rows:
  assumes "approval_inv fc t"
    and "\<And>r. ap_id (f r) = ap_id r \<and> ap_tenant (f r) = ap_tenant r \<and> ap_requested_by (f r) = ap_requested_by r"
    and "\<And>r. r \<in> set (tb_approvals t) \<Longrightarrow> p r \<Longrightarrow> decided (ap_status (f r)) \<Longrightarrow> two_persons fc t (f r)"
  shows "approval_inv fc (tb_approvals_update (update_where p f) t)"
proof -
  have "principal_of tid x (tb_approvals_update (update_where p f) t) = principal_of tid x t" for tid x
    by (simp add: principal_of_def)
  then show ?thesis
    using assms by (simp add: approval_inv_def map_update_where ball_update_where two_persons_def)
qed

lemma keeps_approval_inv_rows:
  "keeps (approval_inv fc) (MarkApprovalExecuted tid i e at)" "keeps (approval_inv fc) (ExpireApprovals cutoff)"
proof -
  have *: "approval_inv fc (tb_approvals_update (update_where p (\<lambda>r. r\<lparr>ap_status := st, ap_executed_at := Some at,
      ap_error := m\<rparr>)) t)" if "approval_inv fc t" "\<And>r. p r \<Longrightarrow> ap_status r = ApprovalApproved" for p st m t
  proof (rule approval_inv_rows [OF that(1)])
    fix r assume "r \<in> set (tb_approvals t)" "p r"
    with that have "two_persons fc t r" by (simp add: approval_inv_def decided_def)
    then show "two_persons fc t (r\<lparr>ap_status := st, ap_executed_at := Some at, ap_error := m\<rparr>)"
      by (simp add: two_persons_def)
  qed simp
  show "keeps (approval_inv fc) (MarkApprovalExecuted tid i e at)"
    unfolding MarkApprovalExecuted_def Let_def
    by (rule keeps_guarded) (auto intro!: *)
  show "keeps (approval_inv fc) (ExpireApprovals cutoff)"
    unfolding ExpireApprovals_def
    by (rule keeps_exec) (auto intro!: approval_inv_rows simp: decided_def)
qed

lemma keeps_approval_inv_create:
  assumes "st \<in> {None, Some ApprovalPending}"
  shows "keeps (approval_inv fc) (CreateApproval r st)"
proof -
  have ins: "approval_inv fc t'" if inv: "approval_inv fc t" and st: "ap_status r = ApprovalPending"
    and i: "rows_insert tb_approvals tb_approvals_update (\<lambda>old new. ap_id old = ap_id new) r t = Inr (u, t')" for r t u t'
  proof -
    from i have t': "t' = tb_approvals_update (\<lambda>_. tb_approvals t @ [r]) t"
      and new: "\<forall>old \<in> set (tb_approvals t). ap_id old \<noteq> ap_id r"
      by (auto simp: rows_insert_Inr)
    have "principal_of tid x t' = principal_of tid x t" for tid x by (simp add: principal_of_def t')
    with inv st new show ?thesis by (auto simp: t' approval_inv_def decided_def two_persons_def image_iff)
  qed
  show ?thesis
    unfolding CreateApproval_def Let_def
    by (intro keeps_if keeps_failp keeps_bindp keeps_wall_clock)
      (use assms in \<open>auto split: sum.split intro!: keeps_exec elim!: ins\<close>)
qed

lemma approval_inv_decide:
  assumes "DecideApproval fc tid i by approve note at s = (a, s')" and inv: "approval_inv fc (os_db s)"
  shows "approval_inv fc (os_db s')"
proof (cases a)
  case (Inl e)
  with assms show ?thesis by (simp add: DecideApproval_Inl)
next
  case (Inr x)
  obtain r where r: "r \<in> set (tb_approvals (os_db s))" "ap_tenant r = tid" "ap_id r = i"
      "TrimSpace by \<noteq> []"
      "\<not> sameAdministrator fc (principal_of tid (ap_requested_by r) (os_db s)) (principal_of tid by (os_db s))"
    and db: "os_db s' = tb_approvals_update (update_where
       (\<lambda>r. ap_tenant r = tid \<and> ap_id r = i \<and> ap_status r = ApprovalPending) (decided_row approve by note at)) (os_db s)"
    by (rule DecideApproval_Inr [OF assms(1) [unfolded Inr]]) (rule that; assumption)
  have only: "y = r" if "y \<in> set (tb_approvals (os_db s))" "ap_id y = i" for y
    using that r(1,3) inv by (auto simp: approval_inv_def distinct_map dest: inj_onD)
  show ?thesis
    unfolding db
  proof (rule approval_inv_rows [OF inv])
    fix y assume "y \<in> set (tb_approvals (os_db s))"
      and "ap_tenant y = tid \<and> ap_id y = i \<and> ap_status y = ApprovalPending"
    then have "y = r" using only by simp
    then show "two_persons fc (os_db s) (decided_row approve by note at y)"
      using r by (simp add: two_persons_def)
  qed simp
qed

lemma CreateAdminToken_Inr:
  assumes "CreateAdminToken k s = (Inr u, s')"
  shows "\<exists>k'. at_id k' = at_id k \<and> tb_approvals (os_db s') = tb_approvals (os_db s)
    \<and> tb_admin_tokens (os_db s') = tb_admin_tokens (os_db s) @ [k']"
  using assms
  by (auto simp: CreateAdminToken_def failp_def bindp_def wall_clock_def Let_def admin_token_insert_def
      rows_insert_Inr split: if_splits dest!: exec_Inr)

lemma approval_inv_issue:
  assumes "CreateAdminToken k s = (q, s')" and inv: "approval_inv fc (os_db s)" and "unnamed (at_id k) (os_db s)"
  shows "approval_inv fc (os_db s')"
proof (cases q)
  case (Inl e)
  with assms(1) have "os_db s' = os_db s"
    by (auto simp: CreateAdminToken_def failp_def bindp_def wall_clock_def Let_def split: if_splits dest!: exec_Inl)
  with inv show ?thesis by simp
next
  case (Inr u)
  from CreateAdminToken_Inr [OF assms(1) [unfolded Inr]] obtain k' where
    "at_id k' = at_id k" "tb_approvals (os_db s') = tb_approvals (os_db s)"
    "tb_admin_tokens (os_db s') = tb_admin_tokens (os_db s) @ [k']" by blast
  with assms(3) show ?thesis
    by (intro approval_inv_tokens [OF inv, where f = id and new = "[k']"]) auto
qed

lemma approval_inv_rotate:
  assumes run: "RotateAdminToken tid pid (Some k) at s = (q, s')" and inv: "approval_inv fc (os_db s)"
    and tok: "authn_inv (os_db s)" and new: "unnamed (at_id k) (os_db s)"
  shows "approval_inv fc (os_db s')"
proof (cases q)
  case (Inl e)
  with assms show ?thesis by (simp add: RotateAdminToken_Inl)
next
  case (Inr u)
  obtain p k' c where k': "k' = k\<lparr>at_created := c, at_principal := Some (token_principal p)\<rparr>"
    and db: "os_db s' = (os_db s)\<lparr>tb_admin_tokens :=
       map (\<lambda>r. if r = p then r\<lparr>at_expires := Some (earlier (at_expires p) at)\<rparr> else r)
         (tb_admin_tokens (os_db s)) @ [k']\<rparr>"
    by (rule RotateAdminToken_Inr [OF run [unfolded Inr] tok]) (rule that; assumption)
  have "at_id k' = at_id k" by (subst k') simp
  with new show ?thesis
    by (intro approval_inv_tokens [OF inv, where new = "[k']"
          and f = "\<lambda>r. if r = p then r\<lparr>at_expires := Some (earlier (at_expires p) at)\<rparr> else r"])
      (auto simp: db)
qed

text \<open>The approval operations leave the tokens alone, and so their invariant.\<close>

lemma authn_inv_approvals [simp]: "authn_inv (tb_approvals_update f t) = authn_inv t"
  by (simp add: authn_inv_def)

lemma keeps_authn_inv_approvals:
  "keeps authn_inv (CreateApproval r st)" "keeps authn_inv (MarkApprovalExecuted tid i e at)"
  "keeps authn_inv (ExpireApprovals cutoff)" "keeps authn_inv (DecideApproval fc tid i by approve note at)"
proof -
  show "keeps authn_inv (CreateApproval r st)"
    unfolding CreateApproval_def Let_def
    by (intro keeps_if keeps_failp keeps_bindp keeps_wall_clock)
      (auto split: sum.split intro!: keeps_exec simp: rows_insert_Inr)
  show "keeps authn_inv (MarkApprovalExecuted tid i e at)"
    unfolding MarkApprovalExecuted_def Let_def by (auto intro!: keeps_guarded)
  show "keeps authn_inv (ExpireApprovals cutoff)"
    unfolding ExpireApprovals_def by (auto intro!: keeps_exec)
  show "keeps authn_inv (DecideApproval fc tid i by approve note at)"
    unfolding DecideApproval_def adminPrincipal_def
    by (intro keeps_if keeps_failp keeps_in_tx_of keeps_bindp keeps_GetApproval keeps_query keeps_exec) simp
qed

lemma approval_step_inv:
  assumes "approval_step fc s s'" and "approval_inv fc (os_db s)" and "authn_inv (os_db s)"
  shows "approval_inv fc (os_db s') \<and> authn_inv (os_db s')"
  using assms(1)
proof (cases rule: approval_step.cases)
  case (create r st q)
  with assms show ?thesis
    using keepsD [OF keeps_approval_inv_create create(1)] keepsD [OF keeps_authn_inv_approvals(1) create(1)] by blast
next
  case (decide tid i admin ok n at a)
  with assms show ?thesis
    using approval_inv_decide [OF decide] keepsD [OF keeps_authn_inv_approvals(4) decide] by blast
next
  case (mark tid i e at q)
  with assms show ?thesis
    using keepsD [OF keeps_approval_inv_rows(1) mark] keepsD [OF keeps_authn_inv_approvals(2) mark] by blast
next
  case (expire cutoff n)
  with assms show ?thesis
    using keepsD [OF keeps_approval_inv_rows(2) expire] keepsD [OF keeps_authn_inv_approvals(3) expire] by blast
next
  case (issue k q)
  with assms show ?thesis
    using approval_inv_issue [OF issue(1) _ issue(2)] keepsD [OF keeps_authn_inv(2) issue(1)] by blast
next
  case (rotate tid pid k at q)
  with assms show ?thesis
    using approval_inv_rotate [OF rotate(1) _ _ rotate(2)] keepsD [OF keeps_authn_inv_rotate rotate(1)] by blast
next
  case (revoke tid i at q)
  with assms show ?thesis
    using keepsD [OF keeps_approval_inv_tokens(1) revoke] keepsD [OF keeps_authn_inv(4) revoke] by blast
next
  case (touch i at q)
  with assms show ?thesis
    using keepsD [OF keeps_approval_inv_tokens(2) touch] keepsD [OF keeps_authn_inv(6) touch] by blast
next
  case frame
  then show ?thesis
    using approval_inv_tokens [OF assms(2), where f = id and new = "[]"] by auto
qed

lemma approval_run_inv:
  "(approval_step fc)\<^sup>*\<^sup>* s s' \<Longrightarrow> approval_inv fc (os_db s) \<Longrightarrow> authn_inv (os_db s)
     \<Longrightarrow> approval_inv fc (os_db s') \<and> authn_inv (os_db s')"
  by (induction rule: rtranclp_induct) (auto dest: approval_step_inv)

subsection \<open>An approval is spent once\<close>

text \<open>A request whose status admits no execution any more; its row stays, so its identifier stays taken.\<close>

definition closed_status :: "approval_status \<Rightarrow> bool" where
  "closed_status st \<longleftrightarrow> st \<in> {ApprovalRejected, ApprovalExpired, ApprovalExecuted, ApprovalFailed}"

definition approval_spent :: "string \<Rightarrow> tables \<Rightarrow> bool" where
  "approval_spent i t \<longleftrightarrow> (\<exists>r \<in> set (tb_approvals t). ap_id r = i \<and> closed_status (ap_status r))"

definition mark_attempt :: "string \<Rightarrow> string \<Rightarrow> db \<Rightarrow> bool \<Rightarrow> db \<Rightarrow> bool" where
  "mark_attempt tid i s b s' \<longleftrightarrow> (\<exists>e at r. MarkApprovalExecuted tid i e at s = (r, s') \<and> b = is_ok r)"

lemma approval_spent_append: "approval_spent i t \<Longrightarrow> tb_approvals t' = tb_approvals t @ new \<Longrightarrow> approval_spent i t'"
  by (auto simp: approval_spent_def)

lemma approval_spent_update:
  assumes "approval_spent i t" and "\<And>r. ap_id (f r) = ap_id r"
    and "\<And>r. p r \<Longrightarrow> closed_status (ap_status r) \<Longrightarrow> closed_status (ap_status (f r))"
  shows "approval_spent i (tb_approvals_update (update_where p f) t)"
proof -
  from assms(1) obtain r where r: "r \<in> set (tb_approvals t)" "ap_id r = i" "closed_status (ap_status r)"
    by (auto simp: approval_spent_def)
  then show ?thesis
    unfolding approval_spent_def using assms(2,3)
    by (intro bexI [of _ "if p r then f r else r"]) (auto simp: update_where_def)
qed

lemma keeps_approval_spent:
  "keeps (approval_spent i) (CreateApproval r st)" "keeps (approval_spent i) (MarkApprovalExecuted tid j e at)"
  "keeps (approval_spent i) (ExpireApprovals cutoff)" "keeps (approval_spent i) (DecideApproval fc tid j admin ok n at)"
proof -
  show "keeps (approval_spent i) (CreateApproval r st)"
    unfolding CreateApproval_def Let_def
    by (intro keeps_if keeps_failp keeps_bindp keeps_wall_clock)
      (auto split: sum.split intro!: keeps_exec simp: rows_insert_Inr approval_spent_def)
  show "keeps (approval_spent i) (MarkApprovalExecuted tid j e at)"
    unfolding MarkApprovalExecuted_def Let_def
    by (auto intro!: keeps_guarded approval_spent_update simp: closed_status_def)
  show "keeps (approval_spent i) (ExpireApprovals cutoff)"
    unfolding ExpireApprovals_def by (auto intro!: keeps_exec approval_spent_update simp: closed_status_def)
  show "keeps (approval_spent i) (DecideApproval fc tid j admin ok n at)"
    unfolding DecideApproval_def adminPrincipal_def
    by (intro keeps_if keeps_failp keeps_in_tx_of keeps_bindp keeps_GetApproval keeps_query keeps_exec)
      (auto intro!: approval_spent_update simp: closed_status_def)
qed

lemma tokens_leave_approvals:
  "keeps (\<lambda>t. tb_approvals t = a) (RevokeAdminToken tid i at)" "keeps (\<lambda>t. tb_approvals t = a) (TouchAdminToken i at)"
  "keeps (\<lambda>t. tb_approvals t = a) (CreateAdminToken k)"
  "keeps (\<lambda>t. tb_approvals t = a) (RotateAdminToken tid pid (Some k) at)"
proof -
  show "keeps (\<lambda>t. tb_approvals t = a) (RevokeAdminToken tid i at)" "keeps (\<lambda>t. tb_approvals t = a) (TouchAdminToken i at)"
    unfolding RevokeAdminToken_def TouchAdminToken_def revokeAuthnRow_def touchAuthnRow_def
    by (auto intro!: keeps_required keeps_bindp keeps_exec)
  show "keeps (\<lambda>t. tb_approvals t = a) (CreateAdminToken k)"
    unfolding CreateAdminToken_def Let_def
    by (intro keeps_if keeps_failp keeps_bindp keeps_wall_clock keeps_exec)
      (auto simp: admin_token_insert_def rows_insert_Inr)
  show "keeps (\<lambda>t. tb_approvals t = a) (RotateAdminToken tid pid (Some k) at)"
    by (rule keeps_RotateAdminToken)
      (auto intro!: keeps_bindp keeps_exec simp: admin_token_insert_def rows_insert_Inr inherit_principal_def)
qed

lemma approval_step_spent:
  assumes "approval_step fc s s'" and "approval_spent i (os_db s)"
  shows "approval_spent i (os_db s')"
  using assms(1)
proof (cases rule: approval_step.cases)
  case (create r st q)
  with assms(2) show ?thesis using keepsD [OF keeps_approval_spent(1) create(1)] by blast
next
  case (decide tid i admin ok n at a)
  with assms(2) show ?thesis using keepsD [OF keeps_approval_spent(4) decide] by blast
next
  case (mark tid i e at q)
  with assms(2) show ?thesis using keepsD [OF keeps_approval_spent(2) mark] by blast
next
  case (expire cutoff n)
  with assms(2) show ?thesis using keepsD [OF keeps_approval_spent(3) expire] by blast
next
  case (issue k q)
  with assms(2) show ?thesis using keepsD [OF tokens_leave_approvals(3) issue(1) refl] by (simp add: approval_spent_def)
next
  case (rotate tid pid k at q)
  with assms(2) show ?thesis using keepsD [OF tokens_leave_approvals(4) rotate(1) refl] by (simp add: approval_spent_def)
next
  case (revoke tid i at q)
  with assms(2) show ?thesis using keepsD [OF tokens_leave_approvals(1) revoke refl] by (simp add: approval_spent_def)
next
  case (touch i at q)
  with assms(2) show ?thesis using keepsD [OF tokens_leave_approvals(2) touch refl] by (simp add: approval_spent_def)
next
  case frame
  with assms(2) show ?thesis by (simp add: approval_spent_def)
qed

lemma MarkApprovalExecuted_Inr:
  assumes "MarkApprovalExecuted tid i e at s = (Inr u, s')" and inv: "approval_inv fc (os_db s)"
  shows "\<not> approval_spent i (os_db s) \<and> approval_spent i (os_db s')"
proof -
  let ?p = "\<lambda>r. ap_tenant r = tid \<and> ap_id r = i \<and> ap_status r = ApprovalApproved"
  let ?f = "\<lambda>r. r\<lparr>ap_status := (if e = None then ApprovalExecuted else ApprovalFailed), ap_executed_at := Some at,
    ap_error := (case e of None \<Rightarrow> [] | Some m \<Rightarrow> m)\<rparr>"
  from guarded_Inr [OF assms(1) [unfolded MarkApprovalExecuted_def Let_def]]
  have n: "count_where ?p (tb_approvals (os_db s)) = 1"
    and db: "os_db s' = tb_approvals_update (update_where ?p ?f) (os_db s)" by simp_all
  from n obtain r where r: "r \<in> set (tb_approvals (os_db s))" "?p r"
    using count_where_pos [of ?p "tb_approvals (os_db s)"] by auto
  have only: "y = r" if "y \<in> set (tb_approvals (os_db s))" "ap_id y = i" for y
    using that r inv by (auto simp: approval_inv_def distinct_map dest: inj_onD)
  have "\<not> approval_spent i (os_db s)"
  proof
    assume "approval_spent i (os_db s)"
    then obtain y where y: "y \<in> set (tb_approvals (os_db s))" "ap_id y = i" "closed_status (ap_status y)"
      by (auto simp: approval_spent_def)
    from only [OF y(1,2)] y(3) r(2) show False by (simp add: closed_status_def)
  qed
  moreover have "approval_spent i (os_db s')"
    unfolding approval_spent_def db
    by (rule bexI [of _ "?f r"]) (use r in \<open>auto simp: update_where_def closed_status_def\<close>)
  ultimately show ?thesis ..
qed

lemma mark_attempt_step: "mark_attempt tid i s b s' \<Longrightarrow> approval_step fc s s'"
  by (auto simp: mark_attempt_def intro: approval_step.mark)

interpretation approval_once: single_use "mark_attempt tid i" "approval_step fc"
    "\<lambda>s. approval_spent i (os_db s)" "\<lambda>s. approval_inv fc (os_db s) \<and> authn_inv (os_db s)" for tid i fc
proof unfold_locales
  fix s s' :: db and b
  assume inv: "approval_inv fc (os_db s) \<and> authn_inv (os_db s)"
  show "mark_attempt tid i s True s' \<Longrightarrow> \<not> approval_spent i (os_db s) \<and> approval_spent i (os_db s')"
    unfolding mark_attempt_def is_ok_iff using MarkApprovalExecuted_Inr inv by blast
  show "mark_attempt tid i s b s' \<Longrightarrow>
      (approval_inv fc (os_db s') \<and> authn_inv (os_db s')) \<and> (approval_spent i (os_db s) \<longrightarrow> approval_spent i (os_db s'))"
    using inv approval_step_inv [OF mark_attempt_step] approval_step_spent [OF mark_attempt_step] by blast
  show "approval_step fc s s' \<Longrightarrow>
      (approval_inv fc (os_db s') \<and> authn_inv (os_db s')) \<and> (approval_spent i (os_db s) \<longrightarrow> approval_spent i (os_db s'))"
    using inv by (simp add: approval_step_inv approval_step_spent)
qed

subsection \<open>Properties\<close>

text \<open>
  C18: dual control. In every state the queue and the administrators' tokens can reach, in any
  order of requests, decisions, executions, expiries, issued, rotated, revoked and used tokens
  and under any engine failures, a request that was approved (or executed, or failed in
  execution) was decided by a named administrator whose principal is not the requester's:
  no chain of rotations lets one administrator approve their own request.
\<close>

theorem dual_control:
  assumes "(approval_step fc)\<^sup>*\<^sup>* s s'" and "approval_inv fc (os_db s)" and "authn_inv (os_db s)"
    and "r \<in> set (tb_approvals (os_db s'))"
    and "ap_status r \<in> {ApprovalApproved, ApprovalExecuted, ApprovalFailed}"
  shows "TrimSpace (ap_decided_by r) \<noteq> []
    \<and> \<not> sameAdministrator fc (principal_of (ap_tenant r) (ap_requested_by r) (os_db s'))
         (principal_of (ap_tenant r) (ap_decided_by r) (os_db s'))"
  using approval_run_inv [OF assms(1-3)] assms(4,5)
  by (auto simp: approval_inv_def decided_def two_persons_def)

text \<open>
  An approval runs an operation at most once. In any order of claims of one approval with
  the other steps of the queue, under any engine failures, at most one claim succeeds, and
  none once the request was rejected, expired, executed or failed.
\<close>

theorem approval_single_use:
  assumes "spend_run (mark_attempt tid i) (approval_step fc) s n u"
    and "approval_inv fc (os_db s)" and "authn_inv (os_db s)"
  shows "n \<le> 1 \<and> (approval_spent i (os_db s) \<longrightarrow> n = 0)"
  using approval_once.at_most_once [OF assms(1)] approval_once.never_again [OF assms(1)] assms(2,3) by blast

definition demo_bob :: admin_token where
  "demo_bob = demo_token\<lparr>at_id := ''b1'', at_selector := ''s3''\<rparr>"

definition demo_request :: approval_request where
  "demo_request = \<lparr>ap_id = ''r1'', ap_tenant = ''t'', ap_operation = ''subject.erase'', ap_payload = ''{}'',
     ap_reason = [], ap_status = ApprovalPending, ap_requested_by = ''a1'', ap_requested_at = 5, ap_expires = 90,
     ap_decided_by = [], ap_decided_at = None, ap_note = [], ap_executed_at = None, ap_error = []\<rparr>"

definition demo_queue :: db where
  "demo_queue = fresh_os 20 (empty_tables\<lparr>tb_tenants := [demo_tenant],
     tb_admin_tokens := [demo_token, demo_bob], tb_approvals := [demo_request]\<rparr>)"

lemma demo_names [simp]: "TrimSpace ''a1'' = ''a1''" "TrimSpace ''b1'' = ''b1''" "TrimSpace ''a2'' = ''a2''"
  by (rule TrimSpace_printable, simp add: printable_def)+

lemma demo_scan [simp]: "decodeJSONObject ''{}'' = Inr ''{}''"
  by code_simp

lemma demo_queue_inv: "approval_inv id (os_db demo_queue)" "authn_inv (os_db demo_queue)"
  by (simp_all add: demo_queue_def approval_inv_def authn_inv_def demo_request_def demo_token_def demo_bob_def
      decided_def empty_tables_def)

lemma demo_decide:
  "DecideApproval id ''t'' ''r1'' ''b1'' True [] 50 demo_queue =
     (Inr (decided_row True ''b1'' [] 50 demo_request),
      demo_queue\<lparr>os_db := (os_db demo_queue)\<lparr>tb_approvals := [decided_row True ''b1'' [] 50 demo_request]\<rparr>\<rparr>)"
  by (simp add: DecideApproval_def GetApproval_def adminPrincipal_def principal_of_def scanApproval_def of_res_def
      demo_queue_def demo_request_def demo_token_def demo_bob_def tx_simps rows_update_def token_principal_def
      sameAdministrator_def decided_row_def)

theorem dual_control_witness:
  "\<exists>s r. (approval_step id)\<^sup>*\<^sup>* demo_queue s \<and> r \<in> set (tb_approvals (os_db s)) \<and> ap_status r = ApprovalApproved
     \<and> \<not> sameAdministrator id (principal_of ''t'' ''a1'' (os_db s)) (principal_of ''t'' ''b1'' (os_db s))"
proof -
  let ?s = "demo_queue\<lparr>os_db := (os_db demo_queue)\<lparr>tb_approvals := [decided_row True ''b1'' [] 50 demo_request]\<rparr>\<rparr>"
  let ?r = "decided_row True ''b1'' [] 50 demo_request"
  have run: "(approval_step id)\<^sup>*\<^sup>* demo_queue ?s"
    by (rule r_into_rtranclp) (rule approval_step.decide [OF demo_decide])
  have r: "?r \<in> set (tb_approvals (os_db ?s))" "ap_status ?r = ApprovalApproved" by simp_all
  have "\<not> sameAdministrator id (principal_of ''t'' ''a1'' (os_db ?s)) (principal_of ''t'' ''b1'' (os_db ?s))"
    using dual_control [OF run demo_queue_inv r(1)] by (simp add: demo_request_def)
  with run r show ?thesis by blast
qed

theorem approval_single_use_witness:
  "\<exists>n u. spend_run (mark_attempt ''t'' ''r1'') (approval_step id) demo_queue n u \<and> n = 1 \<and> n \<le> 1"
proof -
  let ?s = "demo_queue\<lparr>os_db := (os_db demo_queue)\<lparr>tb_approvals := [decided_row True ''b1'' [] 50 demo_request]\<rparr>\<rparr>"
  have "\<exists>v. MarkApprovalExecuted ''t'' ''r1'' None 60 ?s = (Inr (), v)"
    by (simp add: MarkApprovalExecuted_def demo_queue_def demo_request_def tx_simps rows_update_def)
  then obtain v where v: "MarkApprovalExecuted ''t'' ''r1'' None 60 ?s = (Inr (), v)" ..
  have "spend_run (mark_attempt ''t'' ''r1'') (approval_step id) demo_queue 0 ?s"
    by (rule run_other [where u = demo_queue]) (rule run_start, rule approval_step.decide [OF demo_decide])
  then have "spend_run (mark_attempt ''t'' ''r1'') (approval_step id) demo_queue (Suc 0) v"
    by (rule run_accept, unfold mark_attempt_def) (use v in fastforce)
  with approval_single_use [OF this demo_queue_inv] show ?thesis by auto
qed

end
