(* ===== verification/Recorder.thy ===== *)
theory Recorder
  imports Audit_Properties
begin

text \<open>
  \<^verbatim>\<open>internal/audit/recorder.go\<close>: the recorder in front of the audit store. The request context,
  which is detached and bounded by a timeout, ends an append the way any failed request does,
  so it is one more request of the script of failures. The log output is left out; what the
  sink is offered is the result of a call: the list of entries handed over.

  The detail of an event is a Go map. What \<^verbatim>\<open>json.Marshal\<close> makes of it is its model:
  nothing for an empty map, no document for one that cannot be serialised, a document else.
\<close>

subsection \<open>The escape of a NUL\<close>

definition backslash :: byte where "backslash = 92"

definition nul_escape :: bytes where "nul_escape = backslash # bytes_of ''u0000''"
definition replacement_escape :: bytes where "replacement_escape = backslash # bytes_of ''ufffd''"

definition bytes_contain :: "bytes \<Rightarrow> bytes \<Rightarrow> bool" where
  "bytes_contain b part \<longleftrightarrow> list_ex (prefix part) (suffixes b)"

function scrub :: "bytes \<Rightarrow> bytes" where
  "scrub [] = []"
| "scrub [a] = [a]"
| "scrub (a # b # rest) =
     (if a \<noteq> backslash then a # scrub (b # rest)
      else if prefix nul_escape (a # b # rest)
      then replacement_escape @ scrub (drop (length nul_escape) (a # b # rest))
      else a # b # scrub rest)"
  by pat_completeness auto

termination by (relation "measure length") (auto simp: nul_escape_def bytes_of_def)

definition scrubNUL :: "bytes \<Rightarrow> bytes" where
  "scrubNUL raw = (if \<not> bytes_contain raw nul_escape then raw else scrub raw)"

text \<open>
  A reference reading of a serialised text: single bytes, \<^verbatim>\<open>\uXXXX\<close> escapes with their four
  digits, and the two-byte escapes.
\<close>

datatype token = Plain byte | Unicode bytes | Escape byte

function tokens :: "bytes \<Rightarrow> token list" where
  "tokens [] = []"
| "tokens [a] = [Plain a]"
| "tokens (a # b # rest) =
     (if a \<noteq> backslash then Plain a # tokens (b # rest)
      else if b = 117 \<and> 4 \<le> length rest then Unicode (take 4 rest) # tokens (drop 4 rest)
      else Escape b # tokens rest)"
  by pat_completeness auto

termination by (relation "measure length") auto

definition without_nul :: "token \<Rightarrow> token" where
  "without_nul t = (if t = Unicode (bytes_of ''0000'') then Unicode (bytes_of ''fffd'') else t)"

text \<open>A document in which every unicode escape is complete, as a serialiser writes it.\<close>

fun serialised :: "bytes \<Rightarrow> bool" where
  "serialised (a # b # rest) \<longleftrightarrow>
     (if a \<noteq> backslash then serialised (b # rest)
      else if b = 117 then (case rest of
          c1 # c2 # c3 # c4 # rest' \<Rightarrow> list_all (\<lambda>c. c \<noteq> backslash) [c1, c2, c3, c4] \<and> serialised rest'
        | _ \<Rightarrow> False)
      else serialised rest)"
| "serialised [a] \<longleftrightarrow> a \<noteq> backslash"
| "serialised [] \<longleftrightarrow> True"

lemma nul_prefix: "prefix nul_escape (a # b # rest) \<longleftrightarrow> a = backslash \<and> b = 117 \<and> prefix (bytes_of ''0000'') rest"
  by (auto simp: nul_escape_def bytes_of_def)

lemma length_nul_escape [simp]: "length nul_escape = 6"
  by (simp add: nul_escape_def bytes_of_def)

lemma prefix_take: "prefix p xs \<longleftrightarrow> take (length p) xs = p"
  by (auto simp: prefix_def) (metis append_take_drop_id)

lemma plain_step:
  assumes "a \<noteq> backslash"
  shows "scrub (a # xs) = a # scrub xs" "tokens (a # xs) = Plain a # tokens xs" "serialised (a # xs) = serialised xs"
  using assms by (cases xs; simp)+

lemma scrub_tokens: "serialised raw \<Longrightarrow> tokens (scrub raw) = map without_nul (tokens raw) \<and> serialised (scrub raw)"
proof (induction raw rule: serialised.induct)
  case (1 a b rest)
  show ?case
  proof (cases "a = backslash")
    case False
    with 1 show ?thesis by (simp add: plain_step [OF False] without_nul_def del: scrub.simps tokens.simps)
  next
    case True
    note esc = this
    show ?thesis
    proof (cases "b = 117")
      case False
      with True 1 show ?thesis by (auto simp: nul_prefix without_nul_def)
    next
      case True
      with 1 esc obtain c1 c2 c3 c4 rest' where rest: "rest = c1 # c2 # c3 # c4 # rest'"
        and ser: "list_all (\<lambda>c. c \<noteq> backslash) [c1, c2, c3, c4]" "serialised rest'"
        by (auto split: list.splits)
      have IH: "tokens (scrub rest') = map without_nul (tokens rest')" "serialised (scrub rest')"
        using 1(2) esc True rest ser by auto
      show ?thesis
      proof (cases "[c1, c2, c3, c4] = bytes_of ''0000''")
        case True
        then have "scrub (a # b # rest) = replacement_escape @ scrub rest'"
          using esc \<open>b = 117\<close> by (simp add: rest nul_prefix bytes_of_def)
        with True IH esc \<open>b = 117\<close> show ?thesis
          by (simp add: rest replacement_escape_def bytes_of_def without_nul_def backslash_def)
      next
        case False
        from False have "scrub (a # b # rest) = a # b # c1 # c2 # c3 # c4 # scrub rest'"
          using esc \<open>b = 117\<close> ser(1) by (auto simp: rest nul_prefix bytes_of_def plain_step)
        with False IH ser(1) esc \<open>b = 117\<close> show ?thesis
          by (simp add: rest without_nul_def)
      qed
    qed
  qed
qed (auto simp: without_nul_def)

lemma contain_Cons: "bytes_contain (a # xs) p \<longleftrightarrow> prefix p (a # xs) \<or> bytes_contain xs p"
  by (auto simp: bytes_contain_def)

lemma scrub_absent: "\<not> bytes_contain raw nul_escape \<Longrightarrow> scrub raw = raw"
  by (induction raw rule: scrub.induct) (auto simp: contain_Cons)

lemma scrubNUL_eq: "scrubNUL raw = scrub raw"
  by (simp add: scrubNUL_def scrub_absent)

lemma scrub_nonempty: "raw \<noteq> [] \<Longrightarrow> scrub raw \<noteq> []"
  by (induction raw rule: scrub.induct) (auto simp: replacement_escape_def)

subsection \<open>Recording\<close>

datatype detail = NoDetail | NotSerialisable | Serialised bytes

record event =
  ev_tenant :: string
  ev_type :: string
  ev_actor_type :: actor_type
  ev_actor :: string
  ev_subject :: string
  ev_rtype :: string
  ev_rid :: string
  ev_outcome :: outcome
  ev_ip :: string
  ev_request :: string
  ev_detail :: detail

definition event_detail :: "detail \<Rightarrow> bytes" where
  "event_detail d = (case d of
       NoDetail \<Rightarrow> []
     | NotSerialisable \<Rightarrow> scrubNUL (bytes_of (''{'' @ quoted ''detail_error'' @ '':'' @ quoted ''not serialisable'' @ ''}''))
     | Serialised raw \<Rightarrow> scrubNUL raw)"

definition event_entry :: "instant \<Rightarrow> event \<Rightarrow> audit_entry" where
  "event_entry now ev =
     \<lparr>ae_seq = 0, ae_tenant = ev_tenant ev, ae_time = now, ae_event = ev_type ev,
      ae_actor_type = ev_actor_type ev, ae_actor = ev_actor ev, ae_subject = ev_subject ev,
      ae_rtype = ev_rtype ev, ae_rid = ev_rid ev, ae_outcome = ev_outcome ev, ae_ip = ev_ip ev,
      ae_request = ev_request ev, ae_detail = event_detail (ev_detail ev), ae_salt = [], ae_pii = [],
      ae_prev = [], ae_hash = []\<rparr>"

lemma event_entry_sel [simp]:
  "ae_tenant (event_entry now ev) = ev_tenant ev" "ae_event (event_entry now ev) = ev_type ev"
  "ae_actor_type (event_entry now ev) = ev_actor_type ev" "ae_actor (event_entry now ev) = ev_actor ev"
  "ae_subject (event_entry now ev) = ev_subject ev" "ae_ip (event_entry now ev) = ev_ip ev"
  "ae_outcome (event_entry now ev) = ev_outcome ev" "ae_time (event_entry now ev) = now"
  "ae_detail (event_entry now ev) = event_detail (ev_detail ev)" "ae_salt (event_entry now ev) = []"
  by (simp_all add: event_entry_def)

text \<open>\<open>sink\<close> says whether one is wired in; the result is what it was offered.\<close>

definition Record_event :: "(bytes \<Rightarrow> bytes) \<Rightarrow> bool \<Rightarrow> event \<Rightarrow> (tables, audit_entry list) proc" where
  "Record_event h sink ev =
     bindp wall_clock (\<lambda>now.
       bindp (Append h (event_entry now ev)) (\<lambda>stored. ret (if sink then [stored] else [])))"

definition Success :: "(bytes \<Rightarrow> bytes) \<Rightarrow> bool \<Rightarrow> event \<Rightarrow> (tables, audit_entry list) proc" where
  "Success h sink ev = Record_event h sink (ev\<lparr>ev_outcome := OutcomeSuccess\<rparr>)"

definition Failure :: "(bytes \<Rightarrow> bytes) \<Rightarrow> bool \<Rightarrow> event \<Rightarrow> (tables, audit_entry list) proc" where
  "Failure h sink ev = Record_event h sink (ev\<lparr>ev_outcome := OutcomeFailure\<rparr>)"

definition Denied :: "(bytes \<Rightarrow> bytes) \<Rightarrow> bool \<Rightarrow> event \<Rightarrow> (tables, audit_entry list) proc" where
  "Denied h sink ev = Record_event h sink (ev\<lparr>ev_outcome := OutcomeDenied\<rparr>)"

definition Errored :: "(bytes \<Rightarrow> bytes) \<Rightarrow> bool \<Rightarrow> event \<Rightarrow> (tables, audit_entry list) proc" where
  "Errored h sink ev = Record_event h sink (ev\<lparr>ev_outcome := OutcomeError\<rparr>)"

text \<open>The detail of a verification, its members in the order a map is serialised in.\<close>

definition number_member :: "string \<Rightarrow> int \<Rightarrow> string" where
  "number_member key n = quoted key @ CHR '':'' # decimal_int n"

definition verify_text :: "int \<Rightarrow> int \<Rightarrow> int \<Rightarrow> string" where
  "verify_text fromSeq checked brokenAt =
     ''{'' @ (if brokenAt \<noteq> 0 then number_member ''broken_at'' brokenAt @ '','' else [])
      @ number_member ''checked'' checked @ '','' @ number_member ''from_seq'' fromSeq @ ''}''"

definition verify_detail :: "int \<Rightarrow> int \<Rightarrow> int \<Rightarrow> detail" where
  "verify_detail fromSeq checked brokenAt = Serialised (bytes_of (verify_text fromSeq checked brokenAt))"

definition verify_event :: "string \<Rightarrow> int \<Rightarrow> int \<Rightarrow> int \<Rightarrow> event" where
  "verify_event tenantID fromSeq checked brokenAt =
     \<lparr>ev_tenant = tenantID, ev_type = (if brokenAt \<noteq> 0 then EventChainBroken else EventChainVerified),
      ev_actor_type = ActorSystem, ev_actor = [], ev_subject = [], ev_rtype = [], ev_rid = [],
      ev_outcome = (if brokenAt \<noteq> 0 then OutcomeError else []), ev_ip = [], ev_request = [],
      ev_detail = verify_detail fromSeq checked brokenAt\<rparr>"

definition Verify_log ::
  "(bytes \<Rightarrow> bytes) \<Rightarrow> bool \<Rightarrow> string \<Rightarrow> int \<Rightarrow> (tables, (int \<times> int) \<times> audit_entry list) proc" where
  "Verify_log h sink tenantID fromSeq =
     bindp (VerifyChain h fromSeq) (\<lambda>(checked, brokenAt).
       let ev = verify_event tenantID fromSeq checked brokenAt in
       bindp (if brokenAt \<noteq> 0 then Record_event h sink ev else Success h sink ev)
         (\<lambda>offered. ret ((checked, brokenAt), offered)))"

subsection \<open>What is recorded\<close>

lemma Record_event_Inl: "Record_event h sink ev s = (Inl e, s') \<Longrightarrow> os_db s' = os_db s"
  by (auto simp: Record_event_def bindp_def wall_clock_def ret_def split: prod.splits sum.splits dest: Append_Inl)

lemma Record_event_Inr:
  assumes "Record_event h sink ev s = (Inr offered, s')"
  obtains x where "Append h (event_entry (os_wall s) ev) s = (Inr x, s')"
    "offered = (if sink then [x] else [])"
  using assms by (auto simp: Record_event_def bindp_def wall_clock_def ret_def split: prod.splits sum.splits if_splits)

lemma keeps_Record_event:
  assumes "\<And>m. length (h m) = HashSize"
  shows "keeps (audit_inv h) (Record_event h sink ev)"
  unfolding Record_event_def
  by (intro keeps_bindp keeps_wall_clock keeps_ret keeps_Append assms) (simp add: event_entry_def)

lemma plain_keys: "\<forall>c \<in> set ''broken_at''. plain c" "\<forall>c \<in> set ''checked''. plain c"
  "\<forall>c \<in> set ''from_seq''. plain c"
  by (simp_all add: plain_def)

lemma parse_verify_text:
  "parse_json (verify_text f n b) =
     Some (JObj ((if b \<noteq> 0 then [(''broken_at'', JNum (decimal_int b))] else [])
       @ [(''checked'', JNum (decimal_int n)), (''from_seq'', JNum (decimal_int f))]))"
proof -
  let ?t = "verify_text f n b"
  have t: "?t = CHR ''{'' # (if b \<noteq> 0 then dquote # ''broken_at'' @ dquote # CHR '':'' # decimal_int b @ CHR '','' #
        dquote # ''checked'' @ dquote # CHR '':'' # decimal_int n @ CHR '','' #
        dquote # ''from_seq'' @ dquote # CHR '':'' # decimal_int f @ CHR ''}'' # []
      else dquote # ''checked'' @ dquote # CHR '':'' # decimal_int n @ CHR '','' #
        dquote # ''from_seq'' @ dquote # CHR '':'' # decimal_int f @ CHR ''}'' # [])"
    by (simp add: verify_text_def number_member_def quoted_eq)
  have "20 < length ?t" unfolding t by simp
  then obtain k where fuel: "3 * length ?t + 3 = Suc (Suc (Suc (Suc k)))" and big: "20 < k"
    by (intro that [of "3 * length ?t - 1"]) linarith+
  have l: "length ''broken_at'' < Suc (Suc k)" "length ''checked'' < Suc k" "length ''from_seq'' < k"
    "length ''checked'' < Suc (Suc k)" "length ''from_seq'' < Suc k"
    using big by simp_all
  have start: "parse_value (Suc (Suc (Suc (Suc k)))) 0 ?t = parse_members (Suc (Suc (Suc k))) (Suc 0) (tl ?t) []"
    unfolding t by (simp add: skip_ws_def max_depth_def)
  have json: "parse_json ?t = v" if "parse_value (Suc (Suc (Suc (Suc k)))) 0 ?t = Some (the v, [])" "v \<noteq> None" for v
    unfolding parse_json_def fuel that(1) using that(2) by (auto simp: skip_ws_def)
  show ?thesis
  proof (cases "b = 0")
    case True
    have "tl ?t = dquote # ''checked'' @ dquote # CHR '':'' # decimal_int n @ CHR '','' #
        dquote # ''from_seq'' @ dquote # CHR '':'' # decimal_int f @ CHR ''}'' # []"
      unfolding t by (simp only: True simp_thms if_False list.sel)
    then have "parse_members (Suc (Suc (Suc k))) (Suc 0) (tl ?t) [] =
        Some (JObj [(''checked'', JNum (decimal_int n)), (''from_seq'', JNum (decimal_int f))], [])"
      by (simp only: members_number_comma [OF plain_keys(2) l(4)] members_number_end [OF plain_keys(3) l(5)]) simp
    with True start show ?thesis by (intro json) simp_all
  next
    case False
    have "tl ?t = dquote # ''broken_at'' @ dquote # CHR '':'' # decimal_int b @ CHR '','' #
        dquote # ''checked'' @ dquote # CHR '':'' # decimal_int n @ CHR '','' #
        dquote # ''from_seq'' @ dquote # CHR '':'' # decimal_int f @ CHR ''}'' # []"
      unfolding t by (simp only: False simp_thms not_False_eq_True if_True list.sel)
    then have "parse_members (Suc (Suc (Suc k))) (Suc 0) (tl ?t) [] =
        Some (JObj [(''broken_at'', JNum (decimal_int b)), (''checked'', JNum (decimal_int n)),
          (''from_seq'', JNum (decimal_int f))], [])"
      by (simp only: members_number_comma [OF plain_keys(1) l(1)]
          members_number_comma [OF plain_keys(2) l(2)] members_number_end [OF plain_keys(3) l(3)]) simp
    with False start show ?thesis by (intro json) simp_all
  qed
qed

lemma bytes_of_plain: "backslash \<notin> set (bytes_of t) \<Longrightarrow> scrubNUL (bytes_of t) = bytes_of t"
proof -
  have "backslash \<notin> set b \<Longrightarrow> scrub b = b" for b
    by (induction b) (auto simp: plain_step)
  then show "backslash \<notin> set (bytes_of t) \<Longrightarrow> scrubNUL (bytes_of t) = bytes_of t" by (simp add: scrubNUL_eq)
qed

lemma no_backslash_decimal: "c \<in> set (decimal_int n) \<Longrightarrow> of_char c \<noteq> (92 :: nat)"
proof -
  assume c: "c \<in> set (decimal_int n)"
  have "is_digit c \<or> c = CHR ''-''"
    using c decimal_is_digit by (auto simp: decimal_int_def split: if_splits)
  moreover have "(of_char c :: nat) \<in> {48..57}" if "is_digit c"
    using that by (auto simp: is_digit_def dec_value_def Let_def split: if_splits)
  ultimately show ?thesis by auto
qed

lemma backslash_char: "(of_char c :: byte) = backslash \<longleftrightarrow> (of_char c :: nat) = 92"
proof
  assume c: "(of_char c :: byte) = backslash"
  have "c = char_of (unat (of_char c :: byte))" using text_of_bytes_of [of "[c]"] by (simp add: text_of_def bytes_of_def)
  also have "\<dots> = char_of (92 :: nat)" by (simp add: c backslash_def)
  finally show "(of_char c :: nat) = 92" by simp
next
  assume "(of_char c :: nat) = 92"
  moreover have "(of_char c :: byte) = of_nat (of_char c)" by (rule of_nat_of_char [symmetric])
  ultimately show "(of_char c :: byte) = backslash" unfolding backslash_def by (metis of_nat_numeral)
qed

lemma scrub_verify_text: "scrubNUL (bytes_of (verify_text f n b)) = bytes_of (verify_text f n b)"
proof (rule bytes_of_plain)
  have "\<forall>c \<in> set (verify_text f n b). (of_char c :: nat) \<noteq> 92"
    using no_backslash_decimal by (auto simp: verify_text_def number_member_def quoted_def)
  then show "backslash \<notin> set (bytes_of (verify_text f n b))"
    using backslash_char by (fastforce simp: bytes_of_def)
qed

subsection \<open>Properties\<close>

text \<open>
  C40: recording an event. When the append fails, no table changed and the sink was offered
  nothing. Otherwise exactly one row was added to the log, which stays a verifiable chain:
  it carries the tenant, type, actor, subject, outcome and address of the event and the
  clock's instant, and the sink, when there is one, was offered that very row and nothing
  else. A serialised detail is stored with every \<^verbatim>\<open>\u0000\<close> escape replaced by \<^verbatim>\<open>\ufffd\<close> and
  every other token as it was, an escaped backslash followed by the text \<^verbatim>\<open>u0000\<close> included.
\<close>

theorem recorder_record:
  assumes inv: "audit_inv h (os_db s)" and h: "\<And>m. length (h m) = HashSize"
    and run: "Record_event h sink ev s = (r, s')"
  shows "case r of
      Inl e \<Rightarrow> os_db s' = os_db s
    | Inr offered \<Rightarrow> (\<exists>x. os_db s' = (os_db s)\<lparr>tb_audit := tb_audit (os_db s) @ [x]\<rparr>
        \<and> offered = (if sink then [x] else []) \<and> audit_inv h (os_db s')
        \<and> (ae_tenant x, ae_event x, ae_actor_type x, ae_actor x, ae_subject x, ae_ip x)
            = (ev_tenant ev, ev_type ev, ev_actor_type ev, ev_actor ev, ev_subject ev, ev_ip ev)
        \<and> ae_outcome x = (if ev_outcome ev = [] then OutcomeSuccess else ev_outcome ev)
        \<and> ae_time x = truncate_micro (os_wall s)
        \<and> (case ev_detail ev of
             NoDetail \<Rightarrow> ae_detail x = bytes_of ''{}''
           | NotSerialisable \<Rightarrow> ae_detail x \<noteq> bytes_of ''{}''
           | Serialised raw \<Rightarrow> (if serialised raw \<and> raw \<noteq> []
               then tokens (ae_detail x) = map without_nul (tokens raw) else True)))"
proof (cases r)
  case (Inl e)
  with run show ?thesis by (auto dest: Record_event_Inl)
next
  case (Inr offered)
  with run have run: "Record_event h sink ev s = (Inr offered, s')" by simp
  have inv': "audit_inv h (os_db s')"
    using keepsD [OF keeps_Record_event [OF h] run inv] .
  from run obtain x where app: "Append h (event_entry (os_wall s) ev) s = (Inr x, s')"
    and off: "offered = (if sink then [x] else [])" by (rule Record_event_Inr)
  from Append_Inr [OF app] have w: "written h (append_defaults (os_wall s) (event_entry (os_wall s) ev)) (os_db s) x"
    and db: "os_db s' = (os_db s)\<lparr>tb_audit := tb_audit (os_db s) @ [x]\<rparr>" by simp_all
  have det: "ae_detail x = (if event_detail (ev_detail ev) = [] then bytes_of ''{}'' else event_detail (ev_detail ev))"
    using written_sel(3) [OF w] by (simp add: event_entry_def)
  have "case ev_detail ev of
             NoDetail \<Rightarrow> ae_detail x = bytes_of ''{}''
           | NotSerialisable \<Rightarrow> ae_detail x \<noteq> bytes_of ''{}''
           | Serialised raw \<Rightarrow> (if serialised raw \<and> raw \<noteq> []
               then tokens (ae_detail x) = map without_nul (tokens raw) else True)"
    by (simp add: det event_detail_def scrubNUL_eq scrub_nonempty scrub_tokens split: detail.split)
       (simp add: bytes_of_def quoted_def backslash_def plain_step)
  moreover have "(ae_tenant x, ae_event x, ae_actor_type x, ae_actor x, ae_subject x, ae_ip x)
      = (ev_tenant ev, ev_type ev, ev_actor_type ev, ev_actor ev, ev_subject ev, ev_ip ev)"
    "ae_outcome x = (if ev_outcome ev = [] then OutcomeSuccess else ev_outcome ev)"
    "ae_time x = truncate_micro (os_wall s)"
    using w by (auto simp: written_def)
  ultimately show ?thesis unfolding Inr sum.case using db inv' off by (intro exI [of _ x] conjI)
qed

text \<open>
  Verifying is itself recorded, truthfully. Whenever a verification reports, the break it
  reports is the one the plain reference finds, and exactly one entry was added to the log:
  \<^verbatim>\<open>audit.chain_broken\<close> with the outcome \<^verbatim>\<open>error\<close> when there is a break,
  \<^verbatim>\<open>audit.chain_verified\<close> with \<^verbatim>\<open>success\<close> when there is none, whose detail reads back as
  the count, the start and the break; the log that was a verifiable chain still is one, and
  from the start such a log is never reported broken.
\<close>

theorem recorder_verify:
  assumes dist: "distinct (map ae_seq (tb_audit (os_db s)))" and range: "min_int64 < fromSeq" "fromSeq \<le> max_int64"
    and h: "\<And>m. length (h m) = HashSize"
    and run: "Verify_log h sink tid fromSeq s = (Inr ((n, b), offered), s')"
  shows "b = verify_chain_spec h fromSeq (os_db s)
    \<and> (\<exists>x. os_db s' = (os_db s)\<lparr>tb_audit := tb_audit (os_db s) @ [x]\<rparr> \<and> offered = (if sink then [x] else [])
        \<and> (ae_tenant x, ae_event x) = (tid, if b \<noteq> 0 then EventChainBroken else EventChainVerified)
        \<and> ae_outcome x = (if b \<noteq> 0 then OutcomeError else OutcomeSuccess)
        \<and> parse_json (text_of (ae_detail x)) =
            Some (JObj ((if b \<noteq> 0 then [(''broken_at'', JNum (decimal_int b))] else [])
              @ [(''checked'', JNum (decimal_int n)), (''from_seq'', JNum (decimal_int fromSeq))])))
    \<and> (if audit_inv h (os_db s) then audit_inv h (os_db s') \<and> (if fromSeq \<le> 1 then b = 0 else True) else True)"
proof -
  let ?ev = "verify_event tid fromSeq n b"
  from run obtain s1 where vc: "VerifyChain h fromSeq s = (Inr (n, b), s1)"
    and rec: "(if b \<noteq> 0 then Record_event h sink ?ev else Success h sink ?ev) s1 = (Inr offered, s')"
    by (fastforce simp: Verify_log_def bindp_Inr Let_def ret_def)
  from VerifyChain_Inr [OF vc dist range] have b: "b = verify_chain_spec h fromSeq (os_db s)" and db1: "os_db s1 = os_db s"
    by simp_all
  define ev where "ev = (if b \<noteq> 0 then ?ev else ?ev\<lparr>ev_outcome := OutcomeSuccess\<rparr>)"
  have rec: "Record_event h sink ev s1 = (Inr offered, s')" using rec by (simp add: ev_def Success_def split: if_splits)
  from rec obtain x where app: "Append h (event_entry (os_wall s1) ev) s1 = (Inr x, s')"
    and off: "offered = (if sink then [x] else [])" by (rule Record_event_Inr)
  from Append_Inr [OF app] db1 have w: "written h (append_defaults (os_wall s1) (event_entry (os_wall s1) ev)) (os_db s) x"
    and db: "os_db s' = (os_db s)\<lparr>tb_audit := tb_audit (os_db s) @ [x]\<rparr>" by simp_all
  have det: "ae_detail x = bytes_of (verify_text fromSeq n b)"
  proof -
    have "ev_detail ev = Serialised (bytes_of (verify_text fromSeq n b))"
      by (simp add: ev_def verify_event_def verify_detail_def)
    then have "event_detail (ev_detail ev) = bytes_of (verify_text fromSeq n b)"
      by (simp add: event_detail_def scrub_verify_text)
    moreover have "bytes_of (verify_text fromSeq n b) \<noteq> []" by (simp add: bytes_of_def verify_text_def)
    ultimately show ?thesis using written_sel(3) [OF w] by simp
  qed
  have fields: "(ae_tenant x, ae_event x) = (tid, if b \<noteq> 0 then EventChainBroken else EventChainVerified)"
    "ae_outcome x = (if b \<noteq> 0 then OutcomeError else OutcomeSuccess)"
    using w by (auto simp: written_def ev_def verify_event_def OutcomeError_def OutcomeSuccess_def)
  have "audit_inv h (os_db s')" if "audit_inv h (os_db s)"
    using keepsD [OF keeps_Record_event [OF h] rec] that db1 by simp
  moreover have "b = 0" if "audit_inv h (os_db s)" "fromSeq \<le> 1"
    unfolding b by (rule inv_walk(1) [OF that(1)]) (use that in simp)
  ultimately show ?thesis
    using b db off fields by (auto simp: det parse_verify_text)
qed

text \<open>A run with no failures on an empty log.\<close>

lemma Append_first:
  assumes "os_faults s = []" "os_db s = empty_tables" "ae_tenant e \<noteq> []" "ae_event e \<noteq> []" "ae_salt e = []"
    "ae_actor_type e \<in> {ActorSystem, ActorAPIKey, ActorAdmin, ActorSubject}"
    "ae_outcome e \<in> {OutcomeSuccess, OutcomeFailure, OutcomeDenied, OutcomeError}"
  shows "\<exists>x s'. Append h e s = (Inr x, s')"
proof -
  let ?x = "sealed_with h (os_rand s) (append_defaults (os_wall s) e) empty_tables"
  have out: "ae_outcome e \<noteq> []"
    using assms(7) by (auto simp: OutcomeSuccess_def OutcomeFailure_def OutcomeDenied_def OutcomeError_def)
  have "chain_head h empty_tables = (0, Genesis h)"
    by (simp add: chain_head_def last_row_def empty_tables_def watermark_def start_hash_def last_checkpoint_def)
  then have "audit_insert ?x empty_tables = Inr ((), empty_tables\<lparr>tb_audit := [?x]\<rparr>)"
    using assms(6,7) out
    by (simp add: audit_insert_def insert_row_def audit_row_ok_def max_int64_def empty_tables_def)
  then show ?thesis
    using assms by (simp add: Append_unfold in_tx_ok chain_entry_ok Let_def)
qed

definition demo_event :: event where
  "demo_event = \<lparr>ev_tenant = ''t'', ev_type = ''note'', ev_actor_type = ActorAdmin, ev_actor = ''a'',
     ev_subject = ''s'', ev_rtype = [], ev_rid = [], ev_outcome = OutcomeSuccess, ev_ip = [], ev_request = [],
     ev_detail = Serialised [34, 92, 117, 48, 48, 48, 48, 92, 92, 117, 48, 48, 48, 48, 34]\<rparr>"

lemma recorder_record_witness:
  "\<exists>x s'. Record_event demo_hash True demo_event demo_start = (Inr [x], s') \<and> tb_audit (os_db s') = [x]
     \<and> tokens (ae_detail x) = [Plain 34, Unicode (bytes_of ''fffd''), Escape 92, Plain 117,
         Plain 48, Plain 48, Plain 48, Plain 48, Plain 34]"
proof -
  obtain x s' where "Append demo_hash (event_entry (os_wall demo_start) demo_event) demo_start = (Inr x, s')"
    using Append_first [of demo_start "event_entry (os_wall demo_start) demo_event" demo_hash]
    by (auto simp: demo_event_def event_entry_def)
  then have run: "Record_event demo_hash True demo_event demo_start = (Inr [x], s')"
    by (simp add: Record_event_def bindp_def wall_clock_def ret_def)
  have "audit_inv demo_hash (os_db demo_start)" by (simp add: audit_inv_empty)
  from recorder_record [OF this demo_hash_length run] run show ?thesis
    by (auto simp: demo_event_def backslash_def without_nul_def bytes_of_def empty_tables_def)
qed

lemma verify_empty: "VerifyChain demo_hash 1 demo_start = (Inr (0, 0), demo_start)"
proof -
  have "wrap64 0 = 0" by code_simp
  moreover have "unattested empty_tables = 0" by (simp add: unattested_def empty_tables_def last_checkpoint_def)
  moreover have "verify_pages demo_hash 0 p 0 demo_start = (Inr (0, 0), demo_start)" for p
    by (subst verify_pages.simps) (simp add: tx_simps ReadAuditRange_def select_audit_def empty_tables_def)
  ultimately show ?thesis
    by (simp add: VerifyChain_def unattestedCheckpoint_ok hashBefore_ok bindp_def ret_def Let_def)
qed

lemma recorder_verify_witness:
  "\<exists>x s'. Verify_log demo_hash False ''t'' 1 demo_start = (Inr ((0, 0), []), s') \<and> tb_audit (os_db s') = [x]
     \<and> ae_event x = EventChainVerified \<and> audit_inv demo_hash (os_db s')"
proof -
  let ?ev = "(verify_event ''t'' 1 0 0)\<lparr>ev_outcome := OutcomeSuccess\<rparr>"
  obtain x s' where "Append demo_hash (event_entry (os_wall demo_start) ?ev) demo_start = (Inr x, s')"
    using Append_first [of demo_start "event_entry (os_wall demo_start) ?ev" demo_hash]
    by (auto simp: verify_event_def event_entry_def EventChainVerified_def)
  then have run: "Verify_log demo_hash False ''t'' 1 demo_start = (Inr ((0, 0), []), s')"
    by (simp add: Verify_log_def bindp_def verify_empty Success_def Record_event_def wall_clock_def ret_def)
  have "distinct (map ae_seq (tb_audit (os_db demo_start)))" by (simp add: empty_tables_def)
  moreover have "tb_audit empty_tables = []" by (simp add: empty_tables_def)
  ultimately show ?thesis
    using recorder_verify [OF _ _ _ demo_hash_length run] run
    by (auto simp: min_int64_def max_int64_def audit_inv_empty)
qed

end
