(* ===== verification/Envelope.thy ===== *)
theory Envelope
  imports Sqlite_Base Go_Strings
begin

text \<open>
  \<^verbatim>\<open>internal/crypto/envelope\<close>: sealing a secret under a fresh data key wrapped by the key
  encryption key, bound to the row it is stored in. The AEAD (AES-256-GCM of the standard
  library) is a parameter; \<open>aead_laws\<close> is what its documentation says of a nonce-based AEAD:
  opening accepts exactly what sealing produces. Overwriting key material with zeros is left
  out, since every overwritten slice is a copy that is not read again.
\<close>

subsection \<open>Parameters\<close>

record aead =
  g_seal :: "bytes \<Rightarrow> bytes \<Rightarrow> bytes \<Rightarrow> bytes \<Rightarrow> bytes"
  g_open :: "bytes \<Rightarrow> bytes \<Rightarrow> bytes \<Rightarrow> bytes \<Rightarrow> bytes option"

record kek_provider =
  kp_current :: "(32 word \<times> bytes) res"
  kp_by_version :: "32 word \<Rightarrow> bytes res"

subsection \<open>The wire format\<close>

definition FormatVersion :: byte where "FormatVersion = 2"
definition FormatLegacy :: byte where "FormatLegacy = 1"
definition keySize :: nat where "keySize = 32"
definition nonceSize :: nat where "nonceSize = 12"
definition tagSize :: nat where "tagSize = 16"
definition wrapSize :: nat where "wrapSize = keySize + tagSize"
definition headerSize :: nat where "headerSize = 1 + 4 + nonceSize + wrapSize"
definition minSize :: nat where "minSize = headerSize + nonceSize + tagSize"

lemmas size_defs = keySize_def nonceSize_def tagSize_def wrapSize_def headerSize_def minSize_def

definition ErrMalformed :: err where "ErrMalformed = OtherErr ''envelope: malformed ciphertext''"
definition ErrUnsealFailed :: err where "ErrUnsealFailed = OtherErr ''envelope: unseal failed''"
definition ErrKEKUnavailable :: err where "ErrKEKUnavailable = OtherErr ''envelope: kek version unavailable''"
definition ErrContextInvalid :: err where "ErrContextInvalid = OtherErr ''envelope: binding context is incomplete''"
definition ErrKeyLength :: err where "ErrKeyLength = OtherErr ''envelope: key must be 32 bytes''"

text \<open>\<^verbatim>\<open>binary.BigEndian.PutUint32\<close> and \<^verbatim>\<open>Uint32\<close>.\<close>

definition be32 :: "32 word \<Rightarrow> bytes" where
  "be32 w = map (\<lambda>i. ucast (drop_bit (8 * i) w)) [3, 2, 1, 0]"

fun de32 :: "bytes \<Rightarrow> 32 word" where
  "de32 (a # b # c # d # _) =
     ((ucast a * 256 + ucast b) * 256 + ucast c) * 256 + ucast d"
| "de32 _ = 0"

lemma length_be32 [simp]: "length (be32 w) = 4"
  by (simp add: be32_def)

lemma be32_split: "\<exists>a b c d. be32 w = [a, b, c, d]"
  by (simp add: be32_def)

lemma bytes_of_int:
  assumes "0 \<le> x" and "x < (4294967296 :: int)"
  shows "((x div 16777216 mod 256 * 256 + x div 65536 mod 256) * 256 + x div 256 mod 256) * 256 + x mod 256 = x"
proof -
  define a b c where "a = x div 256" and "b = a div 256" and "c = b div 256"
  have "x div 65536 = b" "x div 16777216 = c"
    by (simp_all add: a_def b_def c_def div_mult2_eq [symmetric] zdiv_zmult2_eq [symmetric])
  moreover have "0 \<le> c" "c < 256" using assms by (simp_all add: a_def b_def c_def zdiv_zmult2_eq [symmetric])
  ultimately have "(x div 16777216 mod 256 * 256 + x div 65536 mod 256) = b"
    by (simp add: c_def)
  then show ?thesis by (simp add: a_def [symmetric] b_def) (simp add: a_def)
qed

lemma de32_be32 [simp]: "de32 (be32 w @ rest) = w"
proof -
  have lt: "0 \<le> uint w" "uint w < 4294967296" using unsigned_less [of w] by simp_all
  then have self: "take_bit 32 (uint w) = uint w" by (simp add: take_bit_int_eq_self)
  have byte: "uint (ucast (drop_bit n w) :: byte) = uint w div 2 ^ n mod 256" for n
  proof -
    have "uint (ucast (drop_bit n w) :: byte) = take_bit 8 (drop_bit n (uint w))"
      by (simp add: unsigned_ucast_eq unsigned_drop_bit_eq self)
    then show ?thesis by (simp add: take_bit_eq_mod drop_bit_eq_div)
  qed
  define f where "f n = (ucast (drop_bit n w) :: byte)" for n
  have wide: "(ucast b :: 32 word) = word_of_int (uint b)" for b :: byte
    by (rule ucast_eq)
  have "de32 (be32 w @ rest) = ((ucast (f 24) * 256 + ucast (f 16)) * 256 + ucast (f 8)) * 256 + ucast (f 0)"
    by (simp add: be32_def f_def)
  also have "\<dots> = word_of_int (((uint (f 24) * 256 + uint (f 16)) * 256 + uint (f 8)) * 256 + uint (f 0))"
    by (simp only: wide of_int_add of_int_mult of_int_numeral)
  also have "\<dots> = word_of_int (uint w)"
  proof -
    have "(2 :: int) ^ 24 = 16777216" "(2 :: int) ^ 16 = 65536" "(2 :: int) ^ 8 = 256" "(2 :: int) ^ 0 = 1" by simp_all
    then show ?thesis using bytes_of_int [OF lt] unfolding f_def byte by (simp only: div_by_1)
  qed
  finally show ?thesis by (simp only: word_of_int_uint)
qed

lemma be32_inject [simp]: "be32 v = be32 w \<longleftrightarrow> v = w"
  by (metis append_Nil2 de32_be32)

subsection \<open>Binding contexts\<close>

definition KindSubjectRef :: string where "KindSubjectRef = ''subject_ref''"
definition KindTOTPSecret :: string where "KindTOTPSecret = ''totp_secret''"
definition bindingDomain :: string where "bindingDomain = ''n0passtemps/envelope-binding/v1''"
definition maxBindingField :: nat where "maxBindingField = 4096"

record context_rec =
  cx_kind :: string
  cx_tenant :: string
  cx_row :: string
  cx_subject :: string

definition SubjectRef :: "string \<Rightarrow> string \<Rightarrow> context_rec" where
  "SubjectRef tenantID subjectID =
     \<lparr>cx_kind = KindSubjectRef, cx_tenant = tenantID, cx_row = subjectID, cx_subject = []\<rparr>"

definition TOTPSecret :: "string \<Rightarrow> string \<Rightarrow> string \<Rightarrow> context_rec" where
  "TOTPSecret tenantID subjectID secretID =
     \<lparr>cx_kind = KindTOTPSecret, cx_tenant = tenantID, cx_row = secretID, cx_subject = subjectID\<rparr>"

definition ctx_fields :: "context_rec \<Rightarrow> string list" where
  "ctx_fields c = [cx_kind c, cx_tenant c, cx_row c, cx_subject c]"

definition ctx_valid :: "context_rec \<Rightarrow> bool" where
  "ctx_valid c \<longleftrightarrow>
     (if cx_kind c = KindSubjectRef then cx_subject c = []
      else if cx_kind c = KindTOTPSecret then cx_subject c \<noteq> []
      else False)
     \<and> cx_tenant c \<noteq> [] \<and> cx_row c \<noteq> []
     \<and> list_all (\<lambda>f. length f \<le> maxBindingField) (ctx_fields c)"

definition ctx_bytes :: "context_rec \<Rightarrow> bytes res" where
  "ctx_bytes c =
     (if \<not> ctx_valid c then Inl ErrContextInvalid
      else Inr (bytes_of bindingDomain @ [0] @
        concat (map (\<lambda>f. be32 (of_nat (length f)) @ bytes_of f) (ctx_fields c))))"

subsection \<open>Sealing and opening\<close>

definition aad :: "bytes \<Rightarrow> bytes \<Rightarrow> bytes" where
  "aad header bound = header @ bound"

definition put_header :: "32 word \<Rightarrow> bytes" where
  "put_header version = FormatVersion # be32 version"

definition Seal :: "aead \<Rightarrow> kek_provider \<Rightarrow> bytes \<Rightarrow> context_rec \<Rightarrow> ('t, bytes) proc" where
  "Seal g kp plaintext bind =
     (case ctx_bytes bind of Inl e \<Rightarrow> failp e | Inr bound \<Rightarrow>
      (case kp_current kp of Inl e \<Rightarrow> failp e | Inr (kekVersion, kekKey) \<Rightarrow>
       bindp (rand_read keySize) (\<lambda>dek.
       bindp (rand_read nonceSize) (\<lambda>wrapNonce.
         if length kekKey \<noteq> keySize then failp ErrKeyLength
         else
           let start = put_header kekVersion;
               header = start @ wrapNonce @ g_seal g kekKey wrapNonce dek (aad start bound) in
           bindp (rand_read nonceSize) (\<lambda>payloadNonce.
             if length dek \<noteq> keySize then failp ErrKeyLength
             else ret (header @ payloadNonce @ g_seal g dek payloadNonce plaintext (aad header bound)))))))"

definition openingAAD :: "bytes \<Rightarrow> context_rec \<Rightarrow> bytes option res" where
  "openingAAD sealed bind =
     (case ctx_bytes bind of Inl e \<Rightarrow> Inl e | Inr bound \<Rightarrow>
      if length sealed < minSize then Inl ErrMalformed
      else if hd sealed = FormatVersion then Inr (Some bound)
      else if hd sealed = FormatLegacy then Inr None
      else Inl ErrMalformed)"

text \<open>A missing binding half is the empty slice where the authenticated data is joined.\<close>

definition opt_bytes :: "bytes option \<Rightarrow> bytes" where
  "opt_bytes b = (case b of None \<Rightarrow> [] | Some x \<Rightarrow> x)"

text \<open>The parts of a record at their fixed offsets.\<close>

definition rec_version :: "bytes \<Rightarrow> 32 word" where "rec_version sealed = de32 (take 4 (drop 1 sealed))"
definition rec_wrap_nonce :: "bytes \<Rightarrow> bytes" where "rec_wrap_nonce sealed = take nonceSize (drop 5 sealed)"
definition rec_wrapped :: "bytes \<Rightarrow> bytes" where
  "rec_wrapped sealed = drop (5 + nonceSize) (take headerSize sealed)"
definition rec_nonce :: "bytes \<Rightarrow> bytes" where "rec_nonce sealed = take nonceSize (drop headerSize sealed)"
definition rec_payload :: "bytes \<Rightarrow> bytes" where "rec_payload sealed = drop (headerSize + nonceSize) sealed"

text \<open>
  Opening a record, which \<^verbatim>\<open>Unseal\<close> and \<^verbatim>\<open>Rewrap\<close> both do: the data key and the plaintext.
\<close>

definition open_record :: "aead \<Rightarrow> kek_provider \<Rightarrow> bytes \<Rightarrow> bytes \<Rightarrow> (bytes \<times> bytes) res" where
  "open_record g kp sealed bound =
     (case kp_by_version kp (rec_version sealed) of Inl e \<Rightarrow> Inl ErrKEKUnavailable | Inr kekKey \<Rightarrow>
      if length kekKey \<noteq> keySize then Inl ErrKeyLength
      else case g_open g kekKey (rec_wrap_nonce sealed) (rec_wrapped sealed) (aad (take 5 sealed) bound) of
        None \<Rightarrow> Inl ErrUnsealFailed
      | Some dek \<Rightarrow>
          if length dek \<noteq> keySize then Inl ErrKeyLength
          else case g_open g dek (rec_nonce sealed) (rec_payload sealed) (aad (take headerSize sealed) bound) of
            None \<Rightarrow> Inl ErrUnsealFailed
          | Some plaintext \<Rightarrow> Inr (dek, plaintext))"

definition Unseal :: "aead \<Rightarrow> kek_provider \<Rightarrow> bytes \<Rightarrow> context_rec \<Rightarrow> bytes res" where
  "Unseal g kp sealed bind =
     (case openingAAD sealed bind of Inl e \<Rightarrow> Inl e | Inr bound \<Rightarrow>
      (case open_record g kp sealed (opt_bytes bound) of Inl e \<Rightarrow> Inl e | Inr (dek, plaintext) \<Rightarrow> Inr plaintext))"

definition KEKVersion :: "bytes \<Rightarrow> (32 word) res" where
  "KEKVersion sealed =
     (if length sealed < headerSize then Inl ErrMalformed
      else if hd sealed = FormatVersion \<or> hd sealed = FormatLegacy then Inr (rec_version sealed)
      else Inl ErrMalformed)"

definition CurrentVersion :: "kek_provider \<Rightarrow> (32 word) res" where
  "CurrentVersion kp = (case kp_current kp of Inl e \<Rightarrow> Inl e | Inr (version, key) \<Rightarrow> Inr version)"

definition Rewrap :: "aead \<Rightarrow> kek_provider \<Rightarrow> bytes \<Rightarrow> context_rec \<Rightarrow> ('t, bytes) proc" where
  "Rewrap g kp sealed bind =
     (case openingAAD sealed bind of Inl e \<Rightarrow> failp e | Inr bound \<Rightarrow>
      let legacy = (bound = None) in
      (case open_record g kp sealed (opt_bytes bound) of Inl e \<Rightarrow> failp e | Inr (dek, plaintext) \<Rightarrow>
      (case kp_current kp of Inl e \<Rightarrow> failp e | Inr (newVersion, newKey) \<Rightarrow>
        if newVersion = rec_version sealed \<and> \<not> legacy then ret sealed
        else (case (if legacy then ctx_bytes bind else Inr (opt_bytes bound)) of Inl e \<Rightarrow> failp e | Inr bound \<Rightarrow>
          bindp (rand_read nonceSize) (\<lambda>wrapNonce.
            if length newKey \<noteq> keySize then failp ErrKeyLength
            else
              let start = put_header newVersion;
                  header = start @ wrapNonce @ g_seal g newKey wrapNonce dek (aad start bound) in
              bindp (rand_read nonceSize) (\<lambda>payloadNonce.
                ret (header @ payloadNonce @ g_seal g dek payloadNonce plaintext (aad header bound))))))))"

subsection \<open>Contexts are told apart\<close>

lemma small_length_inject:
  "length a \<le> maxBindingField \<Longrightarrow> length b \<le> maxBindingField \<Longrightarrow>
     (of_nat (length a) :: 32 word) = of_nat (length b) \<longleftrightarrow> length a = length b"
  by (simp add: maxBindingField_def word_of_nat_eq_iff take_bit_eq_mod)

lemma field_inject:
  assumes "length a \<le> maxBindingField" and "length b \<le> maxBindingField"
  shows "be32 (of_nat (length a)) @ bytes_of a @ r = be32 (of_nat (length b)) @ bytes_of b @ r' \<longleftrightarrow> a = b \<and> r = r'"
proof
  assume eq: "be32 (of_nat (length a)) @ bytes_of a @ r = be32 (of_nat (length b)) @ bytes_of b @ r'"
  then have "be32 (of_nat (length a)) = be32 (of_nat (length b))" by (simp add: append_eq_append_conv)
  then have "length a = length b" using assms by (simp add: small_length_inject)
  with eq show "a = b \<and> r = r'" by (simp add: append_eq_append_conv)
qed simp

text \<open>No two contexts render to the same authenticated data.\<close>

lemma ctx_bytes_inject:
  assumes "ctx_bytes a = Inr x" and "ctx_bytes b = Inr x"
  shows "a = b"
proof -
  from assms have v: "ctx_valid a" "ctx_valid b" by (auto simp: ctx_bytes_def split: if_splits)
  then have len: "length (f a) \<le> maxBindingField" "length (f b) \<le> maxBindingField"
    if "f \<in> {cx_kind, cx_tenant, cx_row, cx_subject}" for f
    using that by (auto simp: ctx_valid_def ctx_fields_def)
  have "concat (map (\<lambda>f. be32 (of_nat (length f)) @ bytes_of f) (ctx_fields a))
      = concat (map (\<lambda>f. be32 (of_nat (length f)) @ bytes_of f) (ctx_fields b))"
    using assms v by (auto simp: ctx_bytes_def)
  then have "be32 (of_nat (length (cx_kind a))) @ bytes_of (cx_kind a) @
      be32 (of_nat (length (cx_tenant a))) @ bytes_of (cx_tenant a) @
      be32 (of_nat (length (cx_row a))) @ bytes_of (cx_row a) @
      be32 (of_nat (length (cx_subject a))) @ bytes_of (cx_subject a) @ [] =
      be32 (of_nat (length (cx_kind b))) @ bytes_of (cx_kind b) @
      be32 (of_nat (length (cx_tenant b))) @ bytes_of (cx_tenant b) @
      be32 (of_nat (length (cx_row b))) @ bytes_of (cx_row b) @
      be32 (of_nat (length (cx_subject b))) @ bytes_of (cx_subject b) @ []"
    by (simp add: ctx_fields_def)
  then have "cx_kind a = cx_kind b \<and> cx_tenant a = cx_tenant b \<and> cx_row a = cx_row b \<and> cx_subject a = cx_subject b"
    by (simp only: field_inject len insert_iff simp_thms)
  then show ?thesis by (intro context_rec.equality) simp_all
qed

lemma ctx_bytes_nonempty: "ctx_bytes c = Inr b \<Longrightarrow> b \<noteq> []"
  by (auto simp: ctx_bytes_def split: if_splits)

subsection \<open>What an AEAD promises\<close>

definition aead_laws :: "aead \<Rightarrow> bool" where
  "aead_laws g \<longleftrightarrow> (\<forall>k n. length k = keySize \<and> length n = nonceSize \<longrightarrow>
     (\<forall>a p. length (g_seal g k n p a) = length p + tagSize
        \<and> (\<forall>c. g_open g k n c a = Some p \<longleftrightarrow> c = g_seal g k n p a)))"

lemma aead_length: "aead_laws g \<Longrightarrow> length k = keySize \<Longrightarrow> length n = nonceSize \<Longrightarrow>
    length (g_seal g k n p a) = length p + tagSize"
  by (simp add: aead_laws_def)

lemma aead_open_seal: "aead_laws g \<Longrightarrow> length k = keySize \<Longrightarrow> length n = nonceSize \<Longrightarrow>
    g_open g k n (g_seal g k n p a) a = Some p"
  by (simp add: aead_laws_def)

lemma aead_open: "aead_laws g \<Longrightarrow> length k = keySize \<Longrightarrow> length n = nonceSize \<Longrightarrow>
    g_open g k n c a = Some p \<Longrightarrow> c = g_seal g k n p a"
  by (simp add: aead_laws_def)

text \<open>
  What the sealer relies on in its provider: the current key is also found by its version,
  and every key has the length of an AES-256 key.
\<close>

definition provider_ok :: "kek_provider \<Rightarrow> bool" where
  "provider_ok kp \<longleftrightarrow>
     (\<forall>v k. kp_current kp = Inr (v, k) \<longrightarrow> kp_by_version kp v = Inr k)
     \<and> (\<forall>v k. kp_by_version kp v = Inr k \<longrightarrow> length k = keySize)"

lemma provider_current: "provider_ok kp \<Longrightarrow> kp_current kp = Inr (v, k) \<Longrightarrow> kp_by_version kp v = Inr k \<and> length k = keySize"
  by (auto simp: provider_ok_def)

subsection \<open>The parts of a sealed record\<close>

definition assemble :: "aead \<Rightarrow> bytes \<Rightarrow> bytes \<Rightarrow> bytes \<Rightarrow> bytes \<Rightarrow> bytes \<Rightarrow> bytes \<Rightarrow> bytes \<Rightarrow> bytes" where
  "assemble g start key wn dek pn plaintext bound =
     (let header = start @ wn @ g_seal g key wn dek (aad start bound) in
      header @ pn @ g_seal g dek pn plaintext (aad header bound))"

lemma assemble_parts:
  assumes "aead_laws g" "length key = keySize" "length dek = keySize" "length wn = nonceSize" "length pn = nonceSize"
    and "x = assemble g (put_header v) key wn dek pn p bound"
  shows "rec_version x = v" "rec_wrap_nonce x = wn" "rec_nonce x = pn" "take 5 x = put_header v"
    "rec_wrapped x = g_seal g key wn dek (aad (put_header v) bound)"
    "rec_payload x = g_seal g dek pn p (aad (take headerSize x) bound)"
    "length x = minSize + length p" "hd x = FormatVersion"
proof -
  let ?w = "g_seal g key wn dek (aad (put_header v) bound)"
  have w: "length ?w = 48" using aead_length [OF assms(1,2,4)] assms(3) by (simp add: size_defs)
  have ph: "length (put_header v) = 5" by (simp add: put_header_def)
  have n: "length wn = 12" "length pn = 12" using assms(4,5) by (simp_all add: size_defs)
  let ?h = "put_header v @ wn @ ?w"
  have x: "x = ?h @ pn @ g_seal g dek pn p (aad ?h bound)"
    using assms(6) by (simp add: assemble_def Let_def)
  have hs: "headerSize = length ?h" using w ph n by (simp add: size_defs)
  have th: "take headerSize x = ?h" unfolding x hs by simp
  show "rec_version x = v" unfolding rec_version_def x using de32_be32 [of v "[]"] by (simp add: put_header_def)
  show "take 5 x = put_header v" unfolding x using ph by simp
  show "rec_wrap_nonce x = wn" unfolding rec_wrap_nonce_def x using ph n by (simp add: size_defs)
  show "rec_nonce x = pn" unfolding rec_nonce_def x hs using n by (simp add: size_defs)
  show "rec_wrapped x = ?w" unfolding rec_wrapped_def th using ph n by (simp add: size_defs)
  show "rec_payload x = g_seal g dek pn p (aad (take headerSize x) bound)"
    unfolding rec_payload_def th unfolding x hs using n by (simp add: size_defs)
  show "length x = minSize + length p"
    unfolding x using w ph n aead_length [OF assms(1,3,5)] by (simp add: size_defs)
  show "hd x = FormatVersion" unfolding x by (simp add: put_header_def)
qed

subsection \<open>Opening what was sealed\<close>

lemma rand_read_len: "rand_read n s = (Inr x, s') \<Longrightarrow> length x = n \<and> os_db s' = os_db s \<and> os_faults s' = os_faults s"
  by (auto simp: rand_read_def)

definition sealed_as :: "aead \<Rightarrow> 32 word \<Rightarrow> bytes \<Rightarrow> bytes \<Rightarrow> bytes \<Rightarrow> bytes \<Rightarrow> bytes \<Rightarrow> bool" where
  "sealed_as g v key dek p bound x \<longleftrightarrow> length key = keySize \<and> length dek = keySize \<and>
     (\<exists>wn pn. length wn = nonceSize \<and> length pn = nonceSize
        \<and> x = assemble g (put_header v) key wn dek pn p bound)"

lemma Seal_Inr:
  assumes "Seal g kp p bind s = (Inr x, s')"
  obtains bound v key dek where "ctx_bytes bind = Inr bound" "kp_current kp = Inr (v, key)"
    "sealed_as g v key dek p bound x"
proof -
  from assms obtain bound v key where b: "ctx_bytes bind = Inr bound" and c: "kp_current kp = Inr (v, key)"
    by (auto simp: Seal_def failp_def split: sum.splits)
  from assms b c obtain dek s1 wn s2 pn s3 where r: "rand_read keySize s = (Inr dek, s1)"
    "rand_read nonceSize s1 = (Inr wn, s2)" "rand_read nonceSize s2 = (Inr pn, s3)"
    and k: "length key = keySize" and x: "x = assemble g (put_header v) key wn dek pn p bound"
    by (auto simp: Seal_def bindp_Inr failp_def ret_def assemble_def Let_def split: if_splits)
  have "sealed_as g v key dek p bound x"
    unfolding sealed_as_def using k x r [THEN rand_read_len] by blast
  with b c show thesis by (rule that)
qed

lemma open_sealed:
  assumes "aead_laws g" and "sealed_as g v key dek p bound x" and "kp_by_version kp v = Inr key"
  shows "open_record g kp x bound = Inr (dek, p)" "hd x = FormatVersion" "length x = minSize + length p"
    "rec_version x = v" "KEKVersion x = Inr v"
proof -
  from assms(2) obtain wn pn where len: "length key = keySize" "length dek = keySize" "length wn = nonceSize"
    "length pn = nonceSize" and x: "x = assemble g (put_header v) key wn dek pn p bound"
    by (auto simp: sealed_as_def)
  note parts = assemble_parts [OF assms(1) len x]
  show "hd x = FormatVersion" "length x = minSize + length p" "rec_version x = v" by (fact parts)+
  then show "KEKVersion x = Inr v" by (simp add: KEKVersion_def size_defs)
  show "open_record g kp x bound = Inr (dek, p)"
    using len assms(3)
    by (simp add: open_record_def parts(1-6) aead_open_seal [OF assms(1)])
qed

lemma unseal_sealed:
  assumes "aead_laws g" and "sealed_as g v key dek p bound x" and "kp_by_version kp v = Inr key"
    and "ctx_bytes bind = Inr bound"
  shows "Unseal g kp x bind = Inr p"
  using open_sealed [OF assms(1-3)] assms(4)
  by (simp add: Unseal_def openingAAD_def opt_bytes_def)

text \<open>
  Rewrapping: the record itself when it is current, otherwise the same data key and the same
  plaintext sealed again under the current key.
\<close>

lemma Rewrap_Inr:
  assumes "Rewrap g kp x bind s = (Inr x', s')"
  obtains bound dek p v key where "openingAAD x bind = Inr bound" "open_record g kp x (opt_bytes bound) = Inr (dek, p)"
    "kp_current kp = Inr (v, key)"
    "if rec_version x = v \<and> bound \<noteq> None then x' = x \<and> s' = s
     else \<exists>b. ctx_bytes bind = Inr b \<and> sealed_as g v key dek p b x' \<and> os_db s' = os_db s \<and> os_faults s' = os_faults s"
proof -
  from assms obtain bound dek p v key where b: "openingAAD x bind = Inr bound"
    and o: "open_record g kp x (opt_bytes bound) = Inr (dek, p)" and c: "kp_current kp = Inr (v, key)"
    by (auto simp: Rewrap_def failp_def Let_def split: sum.splits)
  from o have dl: "length dek = keySize"
    by (auto simp: open_record_def split: sum.splits if_splits option.splits)
  from b obtain full where full: "ctx_bytes bind = Inr full" and bf: "bound = None \<or> bound = Some full"
    by (auto simp: openingAAD_def split: sum.splits if_splits)
  show thesis
  proof (rule that [OF b o c])
    show "if rec_version x = v \<and> bound \<noteq> None then x' = x \<and> s' = s
     else \<exists>b. ctx_bytes bind = Inr b \<and> sealed_as g v key dek p b x' \<and> os_db s' = os_db s \<and> os_faults s' = os_faults s"
    proof (cases "rec_version x = v \<and> bound \<noteq> None")
      case True
      with assms b o c show ?thesis by (auto simp: Rewrap_def ret_def Let_def)
    next
      case False
      then have step: "(if bound = None then ctx_bytes bind else Inr (opt_bytes bound)) = Inr full"
        using bf full by (auto simp: opt_bytes_def)
      from assms b o c False step obtain wn s1 pn s2 where r: "rand_read nonceSize s = (Inr wn, s1)"
        "rand_read nonceSize s1 = (Inr pn, s2)" and k: "length key = keySize"
        and x: "x' = assemble g (put_header v) key wn dek pn p full" and s2: "s' = s2"
        by (auto simp: Rewrap_def bindp_Inr failp_def ret_def assemble_def Let_def split: if_splits)
      have "sealed_as g v key dek p full x'"
        unfolding sealed_as_def using k x dl r [THEN rand_read_len] by blast
      then show ?thesis using False full s2 r [THEN rand_read_len] by auto
    qed
  qed
qed

lemma Rewrap_keeps:
  assumes "aead_laws g" and "provider_ok kp" and "Rewrap g kp x bind s = (Inr x', s')"
  shows "\<exists>p v. CurrentVersion kp = Inr v \<and> Unseal g kp x bind = Inr p \<and> Unseal g kp x' bind = Inr p
    \<and> KEKVersion x' = Inr v \<and> hd x' = FormatVersion \<and> os_db s' = os_db s \<and> os_faults s' = os_faults s"
  using assms(3)
proof (rule Rewrap_Inr)
  fix bound dek p v key
  assume b: "openingAAD x bind = Inr bound" and o: "open_record g kp x (opt_bytes bound) = Inr (dek, p)"
    and c: "kp_current kp = Inr (v, key)"
    and alt: "if rec_version x = v \<and> bound \<noteq> None then x' = x \<and> s' = s
     else \<exists>b. ctx_bytes bind = Inr b \<and> sealed_as g v key dek p b x' \<and> os_db s' = os_db s \<and> os_faults s' = os_faults s"
  have un: "Unseal g kp x bind = Inr p" using b o by (simp add: Unseal_def)
  have cv: "CurrentVersion kp = Inr v" using c by (simp add: CurrentVersion_def)
  show ?thesis
  proof (cases "rec_version x = v \<and> bound \<noteq> None")
    case True
    then have "hd x = FormatVersion" "\<not> length x < minSize"
      using b by (auto simp: openingAAD_def split: sum.splits if_splits)
    with True alt un cv show ?thesis by (auto simp: KEKVersion_def size_defs)
  next
    case False
    with alt obtain full where f: "ctx_bytes bind = Inr full" "sealed_as g v key dek p full x'"
      "os_db s' = os_db s" "os_faults s' = os_faults s" by auto
    from provider_current [OF assms(2) c] have k: "kp_by_version kp v = Inr key" by simp
    from unseal_sealed [OF assms(1) f(2) k f(1)] open_sealed [OF assms(1) f(2) k] un cv f(3,4)
    show ?thesis by auto
  qed
qed

lemma Rewrap_frame: "Rewrap g kp x bind s = (r, s') \<Longrightarrow> os_db s' = os_db s \<and> os_faults s' = os_faults s"
  by (auto simp: Rewrap_def bindp_def failp_def ret_def rand_read_def Let_def split: sum.splits prod.splits if_splits)

subsection \<open>Properties\<close>

text \<open>
  C29: what is sealed can be opened again, and only the key version it names is needed. With an
  AEAD that opens what it sealed and a provider that finds its current key by version, a
  successful \<^verbatim>\<open>Seal\<close> yields a record of the current version that opens, in the same
  context, to the plaintext: under this provider and under any later one that still retains
  that version, whatever its current key has become.
\<close>

theorem seal_roundtrip:
  assumes "aead_laws g" and "provider_ok kp" and "Seal g kp p bind s = (Inr x, s')"
    and "kp_by_version kp' (rec_version x) = kp_by_version kp (rec_version x)"
  shows "Unseal g kp' x bind = Inr p \<and> KEKVersion x = CurrentVersion kp
    \<and> length x = minSize + length p \<and> hd x = FormatVersion"
  using assms(3)
proof (rule Seal_Inr)
  fix bound v key dek
  assume b: "ctx_bytes bind = Inr bound" and c: "kp_current kp = Inr (v, key)"
    and x: "sealed_as g v key dek p bound x"
  from provider_current [OF assms(2) c] have k: "kp_by_version kp v = Inr key" by simp
  note o = open_sealed [OF assms(1) x k]
  with assms(4) k have k': "kp_by_version kp' v = Inr key" by simp
  from unseal_sealed [OF assms(1) x k' b] o c show ?thesis by (simp add: CurrentVersion_def)
qed

lemma seal_foreign:
  assumes "aead_laws g" and "provider_ok kp" and "Seal g kp p bind s = (Inr x, s')"
    and "Unseal g kp x other = Inr q"
  shows "if other = bind then q = p
    else (\<exists>key a a'. kp_by_version kp (rec_version x) = Inr key
       \<and> ctx_bytes bind = Inr a \<and> ctx_bytes other = Inr a' \<and> a \<noteq> a'
       \<and> g_open g key (rec_wrap_nonce x) (rec_wrapped x) (aad (take 5 x) a) \<noteq> None
       \<and> g_open g key (rec_wrap_nonce x) (rec_wrapped x) (aad (take 5 x) a') \<noteq> None)"
  using assms(3)
proof (rule Seal_Inr)
  fix bound v key dek
  assume b: "ctx_bytes bind = Inr bound" and c: "kp_current kp = Inr (v, key)"
    and x: "sealed_as g v key dek p bound x"
  from provider_current [OF assms(2) c] have k: "kp_by_version kp v = Inr key" by simp
  note o = open_sealed [OF assms(1) x k]
  from assms(4) o(2) obtain bound' where b': "ctx_bytes other = Inr bound'"
    and oth: "is_ok (open_record g kp x bound')"
    by (auto simp: Unseal_def openingAAD_def opt_bytes_def FormatVersion_def FormatLegacy_def
        split: sum.splits if_splits)
  have op: "g_open g key (rec_wrap_nonce x) (rec_wrapped x) (aad (take 5 x) y) \<noteq> None"
    if "is_ok (open_record g kp x y)" for y
    using that k o(4) by (auto simp: open_record_def split: sum.splits if_splits option.splits)
  show ?thesis
  proof (cases "other = bind")
    case True
    with assms(4) unseal_sealed [OF assms(1) x k b] show ?thesis by simp
  next
    case False
    with ctx_bytes_inject b b' have "bound \<noteq> bound'" by metis
    with False b b' k o(1,4) op oth show ?thesis by (metis is_ok.simps(2))
  qed
qed

text \<open>
  C28: a record opens only where it was sealed. A record of the current format that was sealed in one
  context and opens in another one is a forgery against the AEAD: the same key, nonce and
  wrapped key are accepted under the authenticated data of both contexts, which differ, since
  no two contexts render alike. In its own context it opens to what was sealed.
\<close>

theorem seal_binding:
  assumes "aead_laws g" and "provider_ok kp" and "Seal g kp p bind s = (Inr x, s')"
    and "Unseal g kp x other = Inr q"
  shows "if other = bind then q = p
    else (\<exists>key a a'. kp_by_version kp (rec_version x) = Inr key
       \<and> ctx_bytes bind = Inr a \<and> ctx_bytes other = Inr a' \<and> a \<noteq> a'
       \<and> g_open g key (rec_wrap_nonce x) (rec_wrapped x) (aad (take 5 x) a) \<noteq> None
       \<and> g_open g key (rec_wrap_nonce x) (rec_wrapped x) (aad (take 5 x) a') \<noteq> None)"
  by (rule seal_foreign [OF assms])

text \<open>A toy cipher that appends a checksum, a keyring of two keys, and a sealed record.\<close>

definition toy_tag :: "bytes \<Rightarrow> bytes \<Rightarrow> bytes \<Rightarrow> bytes \<Rightarrow> bytes" where
  "toy_tag k n p a = replicate tagSize (sum_list k + sum_list n + sum_list p + sum_list a)"

definition toy_aead :: aead where
  "toy_aead = \<lparr>g_seal = (\<lambda>k n p a. p @ toy_tag k n p a),
     g_open = (\<lambda>k n c a. let p = take (length c - tagSize) c in
       if c = p @ toy_tag k n p a then Some p else None)\<rparr>"

lemma toy_laws: "aead_laws toy_aead"
  by (auto simp: aead_laws_def toy_aead_def toy_tag_def Let_def)

definition demo_provider :: "32 word \<Rightarrow> kek_provider" where
  "demo_provider current =
     \<lparr>kp_current = Inr (current, replicate keySize (ucast current)),
      kp_by_version = (\<lambda>v. if v \<in> {1, 2} then Inr (replicate keySize (ucast v)) else Inl ErrNotFound)\<rparr>"

lemma demo_provider_ok: "c \<in> {1, 2} \<Longrightarrow> provider_ok (demo_provider c)"
  by (auto simp: provider_ok_def demo_provider_def split: if_splits)

definition demo_context :: context_rec where "demo_context = SubjectRef ''t1'' ''s1''"

lemma demo_context_ok: "\<exists>b. ctx_bytes demo_context = Inr b"
  by (simp add: ctx_bytes_def ctx_valid_def demo_context_def SubjectRef_def ctx_fields_def maxBindingField_def
      KindSubjectRef_def)

definition empty_os :: db where "empty_os = fresh_os 0 empty_tables"

lemma demo_seal: "\<exists>x s'. Seal toy_aead (demo_provider 1) [7, 8, 9] demo_context empty_os = (Inr x, s')"
proof -
  obtain b where "ctx_bytes demo_context = Inr b" using demo_context_ok by blast
  then show ?thesis
    by (simp add: Seal_def demo_provider_def bindp_def rand_read_def Let_def ret_def)
qed

theorem seal_roundtrip_witness:
  "\<exists>x s'. Seal toy_aead (demo_provider 1) [7, 8, 9] demo_context empty_os = (Inr x, s')
     \<and> Unseal toy_aead (demo_provider 2) x demo_context = Inr [7, 8, 9] \<and> KEKVersion x = Inr 1 \<and> length x = 96"
proof -
  obtain x s' where run: "Seal toy_aead (demo_provider 1) [7, 8, 9] demo_context empty_os = (Inr x, s')"
    using demo_seal by blast
  have "provider_ok (demo_provider 1)" by (simp add: demo_provider_ok)
  moreover have "kp_by_version (demo_provider 2) v = kp_by_version (demo_provider 1) v" for v
    by (simp add: demo_provider_def)
  ultimately show ?thesis
    using seal_roundtrip [OF toy_laws _ run, of "demo_provider 2"] run
    by (auto simp: demo_provider_def CurrentVersion_def size_defs)
qed

theorem seal_binding_witness:
  "\<exists>x s'. Seal toy_aead (demo_provider 1) [7, 8, 9] demo_context empty_os = (Inr x, s')
     \<and> (\<forall>q. Unseal toy_aead (demo_provider 1) x demo_context = Inr q \<longleftrightarrow> q = [7, 8, 9])"
proof -
  obtain x s' where run: "Seal toy_aead (demo_provider 1) [7, 8, 9] demo_context empty_os = (Inr x, s')"
    using demo_seal by blast
  have ok: "provider_ok (demo_provider 1)" by (simp add: demo_provider_ok)
  obtain q where q: "Unseal toy_aead (demo_provider 1) x demo_context = Inr q"
    using Seal_Inr [OF run] unseal_sealed [OF toy_laws] provider_current [OF ok] by metis
  from seal_binding [OF toy_laws ok run this] have "q = [7, 8, 9]" by simp
  with run q show ?thesis by auto
qed

end
