(* ===== verification/Sealed_Store.thy ===== *)
theory Sealed_Store
  imports Envelope
begin

text \<open>
  \<^verbatim>\<open>internal/store/sqlite/sealed.go\<close>: walking and rewriting the envelope-encrypted columns for
  a key rotation.
\<close>

type_synonym sealed_kind = string

definition SealedTOTP :: sealed_kind where "SealedTOTP = ''totp_secret''"
definition SealedSubjectRef :: sealed_kind where "SealedSubjectRef = ''subject_ref''"

record sealed_record =
  sr_id :: string
  sr_tenant :: string
  sr_subject :: string
  sr_sealed :: bytes

definition sealedPageDefault :: int where "sealedPageDefault = 200"
definition sealedPageMax :: int where "sealedPageMax = 1000"

text \<open>The rows the list statement of a kind selects from, before the cursor and the limit.\<close>

definition totp_record :: "totp_secret \<Rightarrow> sealed_record" where
  "totp_record r = \<lparr>sr_id = ts_id r, sr_tenant = ts_tenant r, sr_subject = ts_subject r, sr_sealed = ts_sealed r\<rparr>"

definition subject_record :: "subject \<Rightarrow> sealed_record" where
  "subject_record r = \<lparr>sr_id = sb_id r, sr_tenant = sb_tenant r, sr_subject = [], sr_sealed = sb_ref_sealed r\<rparr>"

definition sealed_rows :: "sealed_kind \<Rightarrow> tables \<Rightarrow> sealed_record list" where
  "sealed_rows kind t =
     (if kind = SealedTOTP
      then map totp_record (filter (\<lambda>r. ts_revoked r = None) (tb_totp t))
      else if kind = SealedSubjectRef
      then map subject_record (filter (\<lambda>r. length (sb_ref_sealed r) > 0) (tb_subjects t))
      else [])"

record sealed_statements =
  st_list :: "string \<Rightarrow> int \<Rightarrow> tables \<Rightarrow> sealed_record list"
  st_replace :: "bytes \<Rightarrow> string \<Rightarrow> bytes \<Rightarrow> tables \<Rightarrow> sql_error + int \<times> tables"
  st_exists :: "string \<Rightarrow> tables \<Rightarrow> bool"

definition sealedStatementsFor :: "sealed_kind \<Rightarrow> sealed_statements res" where
  "sealedStatementsFor kind =
     (if kind = SealedTOTP then Inr
        \<lparr>st_list = (\<lambda>afterID n t. select_page sr_id (\<lambda>r. sr_id r > afterID) n (sealed_rows SealedTOTP t)),
         st_replace = (\<lambda>new i old. rows_update tb_totp tb_totp_update
           (\<lambda>r. ts_id r = i \<and> ts_sealed r = old) (\<lambda>r. r\<lparr>ts_sealed := new\<rparr>)),
         st_exists = (\<lambda>i t. list_ex (\<lambda>r. ts_id r = i) (tb_totp t))\<rparr>
      else if kind = SealedSubjectRef then Inr
        \<lparr>st_list = (\<lambda>afterID n t. select_page sr_id (\<lambda>r. sr_id r > afterID) n (sealed_rows SealedSubjectRef t)),
         st_replace = (\<lambda>new i old. rows_update tb_subjects tb_subjects_update
           (\<lambda>r. sb_id r = i \<and> sb_ref_sealed r = old) (\<lambda>r. r\<lparr>sb_ref_sealed := new\<rparr>)),
         st_exists = (\<lambda>i t. list_ex (\<lambda>r. sb_id r = i) (tb_subjects t))\<rparr>
      else Inl (OtherErr ''sqlite: unknown sealed record kind''))"

definition ListSealed :: "sealed_kind \<Rightarrow> string \<Rightarrow> int \<Rightarrow> (tables, sealed_record list) proc" where
  "ListSealed kind afterID limit =
     (case sealedStatementsFor kind of Inl e \<Rightarrow> failp e | Inr stmts \<Rightarrow>
        query raw_error (st_list stmts afterID (clampLimit limit sealedPageDefault sealedPageMax)))"

definition ReplaceSealed :: "sealed_kind \<Rightarrow> string \<Rightarrow> bytes \<Rightarrow> bytes \<Rightarrow> (tables, unit) proc" where
  "ReplaceSealed kind i old replacement =
     (case sealedStatementsFor kind of Inl e \<Rightarrow> failp e | Inr stmts \<Rightarrow>
        if i = [] \<or> length old = 0 \<or> length replacement = 0
        then failp (OtherErr ''sqlite: replacing a sealed record requires an id and both values'')
        else guarded (st_replace stmts replacement i old) (st_exists stmts i))"

subsection \<open>What a replacement does\<close>

definition replaced :: "string \<Rightarrow> bytes \<Rightarrow> bytes \<Rightarrow> sealed_record \<Rightarrow> sealed_record" where
  "replaced i old new x = (if sr_id x = i \<and> sr_sealed x = old then x\<lparr>sr_sealed := new\<rparr> else x)"

lemma kinds_differ [simp]: "SealedTOTP \<noteq> SealedSubjectRef" "SealedSubjectRef \<noteq> SealedTOTP"
  by (simp_all add: SealedTOTP_def SealedSubjectRef_def)

lemma totp_rows_replaced:
  "map totp_record (filter (\<lambda>r. ts_revoked r = None)
      (update_where (\<lambda>r. ts_id r = i \<and> ts_sealed r = old) (\<lambda>r. r\<lparr>ts_sealed := new\<rparr>) rows))
    = map (replaced i old new) (map totp_record (filter (\<lambda>r. ts_revoked r = None) rows))"
  by (induction rows) (auto simp: totp_record_def replaced_def)

lemma subject_rows_replaced:
  "length old > 0 \<Longrightarrow> length new > 0 \<Longrightarrow> map subject_record (filter (\<lambda>r. length (sb_ref_sealed r) > 0)
      (update_where (\<lambda>r. sb_id r = i \<and> sb_ref_sealed r = old) (\<lambda>r. r\<lparr>sb_ref_sealed := new\<rparr>) rows))
    = map (replaced i old new) (map subject_record (filter (\<lambda>r. length (sb_ref_sealed r) > 0) rows))"
  by (induction rows) (auto simp: subject_record_def replaced_def)

lemma ReplaceSealed_Inr:
  assumes "ReplaceSealed kind i old new s = (Inr u, s')"
  shows "sealed_rows kind (os_db s') = map (replaced i old new) (sealed_rows kind (os_db s))"
    and "k \<noteq> kind \<Longrightarrow> sealed_rows k (os_db s') = sealed_rows k (os_db s)"
proof -
  from assms obtain stmts where st: "sealedStatementsFor kind = Inr stmts" and ne: "length old > 0" "length new > 0"
    and g: "guarded (st_replace stmts new i old) (st_exists stmts i) s = (Inr u, s')"
    by (auto simp: ReplaceSealed_def failp_def split: sum.splits if_splits)
  note run = guarded_Inr [OF g]
  have "kind = SealedTOTP \<or> kind = SealedSubjectRef" using st by (auto simp: sealedStatementsFor_def split: if_splits)
  then show "sealed_rows kind (os_db s') = map (replaced i old new) (sealed_rows kind (os_db s))"
    using run st totp_rows_replaced [of i old new] subject_rows_replaced [OF ne, of i]
    by (auto simp: sealedStatementsFor_def sealed_rows_def simp del: map_map)
  show "sealed_rows k (os_db s') = sealed_rows k (os_db s)" if "k \<noteq> kind"
    using run st that by (auto simp: sealedStatementsFor_def sealed_rows_def split: if_splits)
qed

lemma ReplaceSealed_Inl: "ReplaceSealed kind i old new s = (Inl e, s') \<Longrightarrow> os_db s' = os_db s"
  by (auto simp: ReplaceSealed_def failp_def split: sum.splits if_splits dest: guarded_Inl)

lemma guarded_NotFound:
  assumes "guarded stmt present s = (Inl ErrNotFound, s')"
    and "\<And>t e. stmt t \<noteq> Inl e"
  shows "\<not> present (snd (projr (stmt (os_db s))))"
  using assms
  by (auto simp: guarded_def in_tx_def bindp_def exec_def query_def ret_def failp_def
      split: prod.splits option.splits sum.splits if_splits dest!: pop_fault_frame)

lemma ReplaceSealed_NotFound:
  assumes "ReplaceSealed kind i old new s = (Inl ErrNotFound, s')"
  shows "i \<notin> set (map sr_id (sealed_rows kind (os_db s)))"
proof -
  from assms obtain stmts where st: "sealedStatementsFor kind = Inr stmts"
    and g: "guarded (st_replace stmts new i old) (st_exists stmts i) s = (Inl ErrNotFound, s')"
    by (auto simp: ReplaceSealed_def failp_def sealedStatementsFor_def split: sum.splits if_splits)
  have "\<not> st_exists stmts i (snd (projr (st_replace stmts new i old (os_db s))))"
    by (rule guarded_NotFound [OF g]) (use st in \<open>auto simp: sealedStatementsFor_def rows_update_def split: if_splits\<close>)
  then show ?thesis
    using st by (auto simp: sealedStatementsFor_def sealed_rows_def rows_update_def list_ex_iff
        totp_record_def subject_record_def ball_update_where split: if_splits)
qed

end
