(* ===== verification/Rewrap_Pass.thy ===== *)
theory Rewrap_Pass
  imports Sealed_Store Audit_Store
begin

text \<open>
  The rewrap pass of \<^verbatim>\<open>internal/api/bulk.go\<close>, the second half of a key rotation: every sealed
  record of the deployment is opened and moved onto the current key, page by page. Log lines
  are left out; the set of versions in use is a list without duplicates.
\<close>

subsection \<open>The pass\<close>

definition rewrapPageSize :: int where "rewrapPageSize = 200"

record rewrap_report =
  rp_current :: "32 word"
  rp_examined :: int
  rp_rewrapped :: int
  rp_already :: int
  rp_failed :: int
  rp_in_use :: "32 word list"

definition sortedVersions :: "32 word list \<Rightarrow> 32 word list" where
  "sortedVersions vs = sort vs"

definition bindingFor :: "sealed_kind \<Rightarrow> sealed_record \<Rightarrow> context_rec res" where
  "bindingFor kind r =
     (if kind = SealedSubjectRef then Inr (SubjectRef (sr_tenant r) (sr_id r))
      else if kind = SealedTOTP then Inr (TOTPSecret (sr_tenant r) (sr_subject r) (sr_id r))
      else Inl (OtherErr ''no binding context for sealed kind''))"

definition unreadable :: "rewrap_report \<Rightarrow> rewrap_report" where
  "unreadable rp = rp\<lparr>rp_examined := rp_examined rp + 1, rp_failed := rp_failed rp + 1\<rparr>"

definition failed_at :: "32 word \<Rightarrow> rewrap_report \<Rightarrow> rewrap_report" where
  "failed_at version rp =
     rp\<lparr>rp_examined := rp_examined rp + 1, rp_failed := rp_failed rp + 1, rp_in_use := List.insert version (rp_in_use rp)\<rparr>"

definition already_at :: "32 word \<Rightarrow> rewrap_report \<Rightarrow> rewrap_report" where
  "already_at current rp =
     rp\<lparr>rp_examined := rp_examined rp + 1, rp_already := rp_already rp + 1, rp_in_use := List.insert current (rp_in_use rp)\<rparr>"

definition rewrapped_at :: "32 word \<Rightarrow> rewrap_report \<Rightarrow> rewrap_report" where
  "rewrapped_at current rp =
     rp\<lparr>rp_examined := rp_examined rp + 1, rp_rewrapped := rp_rewrapped rp + 1, rp_in_use := List.insert current (rp_in_use rp)\<rparr>"

definition rewrapOne ::
  "aead \<Rightarrow> kek_provider \<Rightarrow> sealed_kind \<Rightarrow> 32 word \<Rightarrow> sealed_record \<Rightarrow> rewrap_report \<Rightarrow> db \<Rightarrow> rewrap_report \<times> db" where
  "rewrapOne g kp kind current r rp s =
     (case KEKVersion (sr_sealed r) of
        Inl e \<Rightarrow> (unreadable rp, s)
      | Inr version \<Rightarrow>
          (case bindingFor kind r of
             Inl e \<Rightarrow> (failed_at version rp, s)
           | Inr bind \<Rightarrow>
               (case Rewrap g kp (sr_sealed r) bind s of
                  (Inl e, s1) \<Rightarrow> (failed_at version rp, s1)
                | (Inr replacement, s1) \<Rightarrow>
                    if replacement = sr_sealed r then (already_at current rp, s1)
                    else
                      (case ReplaceSealed kind (sr_id r) (sr_sealed r) replacement s1 of
                         (Inr _, s2) \<Rightarrow> (rewrapped_at current rp, s2)
                       | (Inl e, s2) \<Rightarrow> if e = ErrNotFound then (rp, s2) else (failed_at version rp, s2)))))"

fun rewrap_page ::
  "aead \<Rightarrow> kek_provider \<Rightarrow> sealed_kind \<Rightarrow> 32 word \<Rightarrow> sealed_record list \<Rightarrow> rewrap_report \<Rightarrow> db \<Rightarrow> rewrap_report \<times> db" where
  "rewrap_page g kp kind current [] rp s = (rp, s)"
| "rewrap_page g kp kind current (r # rs) rp s =
     (case rewrapOne g kp kind current r rp s of (rp1, s1) \<Rightarrow> rewrap_page g kp kind current rs rp1 s1)"

subsection \<open>Termination: a page never changes which records there are\<close>

definition ids_above :: "sealed_kind \<Rightarrow> string \<Rightarrow> tables \<Rightarrow> string list" where
  "ids_above kind afterID t = filter (\<lambda>i. i > afterID) (map sr_id (sealed_rows kind t))"

lemma replaced_id [simp]: "sr_id (replaced i old new x) = sr_id x"
  by (simp add: replaced_def)

lemma ReplaceSealed_ids:
  "ReplaceSealed kind i old new s = (r, s') \<Longrightarrow>
     map sr_id (sealed_rows k (os_db s')) = map sr_id (sealed_rows k (os_db s))"
proof (cases r)
  case (Inl e)
  then show "ReplaceSealed kind i old new s = (r, s') \<Longrightarrow> ?thesis" by (simp add: ReplaceSealed_Inl)
next
  case (Inr u)
  assume "ReplaceSealed kind i old new s = (r, s')"
  with Inr have run: "ReplaceSealed kind i old new s = (Inr u, s')" by simp
  show ?thesis
    using ReplaceSealed_Inr(1) [OF run] ReplaceSealed_Inr(2) [OF run, of k] by (cases "k = kind") (simp_all add: comp_def)
qed

lemma rewrapOne_ids:
  "rewrapOne g kp kind current r rp s = (rp', s') \<Longrightarrow>
     map sr_id (sealed_rows k (os_db s')) = map sr_id (sealed_rows k (os_db s))"
  by (auto simp: rewrapOne_def split: sum.splits prod.splits if_splits
      dest!: Rewrap_frame ReplaceSealed_ids [where k = k])

lemma rewrap_page_ids:
  "rewrap_page g kp kind current rs rp s = (rp', s') \<Longrightarrow>
     map sr_id (sealed_rows k (os_db s')) = map sr_id (sealed_rows k (os_db s))"
  by (induction rs arbitrary: rp s) (auto split: prod.splits dest!: rewrapOne_ids [where k = k])

lemma ListSealed_Inr:
  assumes "ListSealed kind afterID rewrapPageSize s = (Inr page, s')"
  shows "os_db s' = os_db s
    \<and> page = select_page sr_id (\<lambda>r. sr_id r > afterID) rewrapPageSize (sealed_rows kind (os_db s))"
  using assms query_run
  by (fastforce simp: ListSealed_def failp_def sealedStatementsFor_def clampLimit_def rewrapPageSize_def
      sealedPageMax_def split: sum.splits if_splits)

lemma rewrap_shrinks:
  assumes "ctx_err s = (Inr u, s1)" and "ListSealed kind afterID rewrapPageSize s1 = (Inr page, s2)"
    and "rewrap_page g kp kind current page rp s2 = (rp', s3)" and "page \<noteq> []"
  shows "length (ids_above kind (sr_id (last page)) (os_db s3)) < length (ids_above kind afterID (os_db s))"
proof -
  have db: "os_db s1 = os_db s" using query_frame assms(1) unfolding ctx_err_def by blast
  from ListSealed_Inr [OF assms(2)] db have db2: "os_db s2 = os_db s"
    and page: "page = select_page sr_id (\<lambda>r. sr_id r > afterID) rewrapPageSize (sealed_rows kind (os_db s))" by simp_all
  let ?ids = "map sr_id (sealed_rows kind (os_db s))" and ?last = "sr_id (last page)"
  have "last page \<in> set page" using assms(4) by simp
  then have "last page \<in> set (sealed_rows kind (os_db s)) \<and> ?last > afterID"
    unfolding page by (rule set_select_page)
  then have mem: "?last \<in> set ?ids" "?last > afterID" by simp_all
  have "ids_above kind ?last (os_db s3) = filter (\<lambda>i. i > ?last) (ids_above kind afterID (os_db s))"
    using rewrap_page_ids [OF assms(3), where k = kind] db2 mem(2)
    by (auto simp: ids_above_def intro!: filter_cong)
  also have "length \<dots> < length (ids_above kind afterID (os_db s))"
    using mem by (intro length_filter_less [of ?last]) (auto simp: ids_above_def)
  finally show ?thesis .
qed

lemma full_page: "\<not> int (length p) < rewrapPageSize \<Longrightarrow> p \<noteq> []"
  by (auto simp: rewrapPageSize_def)

text \<open>The pages of one kind; the result carries the error that stopped the pass, if any.\<close>

function rewrap_kind ::
  "aead \<Rightarrow> kek_provider \<Rightarrow> sealed_kind \<Rightarrow> 32 word \<Rightarrow> string \<Rightarrow> rewrap_report \<Rightarrow> db \<Rightarrow> (rewrap_report \<times> err option) \<times> db" where
  "rewrap_kind g kp kind current afterID rp s =
     (case ctx_err s of
        (Inl e, s1) \<Rightarrow> ((rp, Some e), s1)
      | (Inr _, s1) \<Rightarrow>
          (case ListSealed kind afterID rewrapPageSize s1 of
             (Inl e, s2) \<Rightarrow> ((rp, Some e), s2)
           | (Inr page, s2) \<Rightarrow>
               (case rewrap_page g kp kind current page rp s2 of
                  (rp', s3) \<Rightarrow>
                    if int (length page) < rewrapPageSize then ((rp', None), s3)
                    else rewrap_kind g kp kind current (sr_id (last page)) rp' s3)))"
  by pat_completeness auto

termination
  by (relation "measure (\<lambda>(_, _, kind, _, afterID, _, s). length (ids_above kind afterID (os_db s)))")
    (auto split: prod.split dest!: full_page sym [of _ "ctx_err _"] sym [of _ "ListSealed _ _ _ _"]
      intro: rewrap_shrinks)

declare rewrap_kind.simps [simp del]

definition empty_report :: rewrap_report where
  "empty_report = \<lparr>rp_current = 0, rp_examined = 0, rp_rewrapped = 0, rp_already = 0, rp_failed = 0, rp_in_use = []\<rparr>"

definition rewrapAll :: "aead \<Rightarrow> kek_provider \<Rightarrow> db \<Rightarrow> (rewrap_report \<times> err option) \<times> db" where
  "rewrapAll g kp s =
     (case CurrentVersion kp of
        Inl e \<Rightarrow> ((empty_report, Some e), s)
      | Inr current \<Rightarrow>
          let finish = (\<lambda>rp. rp\<lparr>rp_in_use := sortedVersions (rp_in_use rp)\<rparr>) in
          (case rewrap_kind g kp SealedTOTP current [] (empty_report\<lparr>rp_current := current\<rparr>) s of
             ((rp, Some e), s1) \<Rightarrow> ((finish rp, Some e), s1)
           | ((rp, None), s1) \<Rightarrow>
               (case rewrap_kind g kp SealedSubjectRef current [] rp s1 of
                  ((rp', e), s2) \<Rightarrow> ((finish rp', e), s2))))"

subsection \<open>What a pass leaves behind\<close>

definition on_current :: "32 word \<Rightarrow> sealed_record \<Rightarrow> bool" where
  "on_current v x \<longleftrightarrow> KEKVersion (sr_sealed x) = Inr v \<and> hd (sr_sealed x) = FormatVersion"

definition opens :: "aead \<Rightarrow> kek_provider \<Rightarrow> sealed_kind \<Rightarrow> sealed_record \<Rightarrow> bytes \<Rightarrow> bool" where
  "opens g kp kind x p \<longleftrightarrow> (\<exists>b. bindingFor kind x = Inr b \<and> Unseal g kp (sr_sealed x) b = Inr p)"

text \<open>A row after the pass and the row it was: itself, or the same secret under the current key.\<close>

definition moved :: "aead \<Rightarrow> kek_provider \<Rightarrow> 32 word \<Rightarrow> sealed_kind \<Rightarrow> sealed_record \<Rightarrow> sealed_record \<Rightarrow> bool" where
  "moved g kp v kind x y \<longleftrightarrow> y = x\<lparr>sr_sealed := sr_sealed y\<rparr>
     \<and> (y = x \<or> on_current v y \<and> (\<exists>p. opens g kp kind x p \<and> opens g kp kind y p))"

lemma moved_refl [simp]: "moved g kp v kind x x"
  by (simp add: moved_def)

lemma moved_trans: "moved g kp v kind x y \<Longrightarrow> moved g kp v kind y z \<Longrightarrow> moved g kp v kind x z"
proof -
  assume a: "moved g kp v kind x y" and b: "moved g kp v kind y z"
  then have "z = x\<lparr>sr_sealed := sr_sealed z\<rparr>"
    by (metis moved_def sealed_record.surjective sealed_record.update_convs(4))
  with a b show ?thesis by (auto simp: moved_def opens_def)
qed

lemma moved_current: "moved g kp v kind x y \<Longrightarrow> on_current v x \<Longrightarrow> on_current v y"
  by (auto simp: moved_def)

lemma moved_id: "moved g kp v kind x y \<Longrightarrow> sr_id y = sr_id x"
  by (metis moved_def sealed_record.select_convs(1) sealed_record.surjective sealed_record.update_convs(4))

definition all_moved :: "aead \<Rightarrow> kek_provider \<Rightarrow> 32 word \<Rightarrow> tables \<Rightarrow> tables \<Rightarrow> bool" where
  "all_moved g kp v t t' \<longleftrightarrow> (\<forall>k. list_all2 (moved g kp v k) (sealed_rows k t) (sealed_rows k t'))"

lemma all_moved_refl: "all_moved g kp v t t"
  by (simp add: all_moved_def list_all2_same)

lemma all_moved_trans: "all_moved g kp v t u \<Longrightarrow> all_moved g kp v u w \<Longrightarrow> all_moved g kp v t w"
  unfolding all_moved_def using list_all2_trans [of "moved g kp v k" "moved g kp v k" "moved g kp v k" for k]
  by (metis moved_trans)

lemma all_moved_current:
  assumes "all_moved g kp v t u" and "\<forall>x \<in> set (sealed_rows k t). P (sr_id x) \<longrightarrow> on_current v x"
  shows "\<forall>y \<in> set (sealed_rows k u). P (sr_id y) \<longrightarrow> on_current v y"
proof
  fix y assume "y \<in> set (sealed_rows k u)"
  then obtain i where i: "i < length (sealed_rows k u)" "y = sealed_rows k u ! i" by (auto simp: in_set_conv_nth)
  with assms(1) have m: "moved g kp v k (sealed_rows k t ! i) y" "sealed_rows k t ! i \<in> set (sealed_rows k t)"
    by (auto simp: all_moved_def list_all2_conv_all_nth)
  with assms(2) moved_id [OF m(1)] moved_current [OF m(1)] show "P (sr_id y) \<longrightarrow> on_current v y" by metis
qed

text \<open>One record, the row of which is still what the page read.\<close>

lemma rewrapOne_step:
  assumes g: "aead_laws g" and kp: "provider_ok kp" "CurrentVersion kp = Inr v"
    and dist: "distinct (map sr_id (sealed_rows kind (os_db s)))" and r: "r \<in> set (sealed_rows kind (os_db s))"
    and run: "rewrapOne g kp kind v r rp s = (rp', s')"
  shows "all_moved g kp v (os_db s) (os_db s')
    \<and> (\<forall>x \<in> set (sealed_rows kind (os_db s)). sr_id x \<noteq> sr_id r \<longrightarrow> x \<in> set (sealed_rows kind (os_db s')))
    \<and> rp_failed rp \<le> rp_failed rp'
    \<and> (rp_failed rp' = rp_failed rp \<longrightarrow> set (rp_in_use rp') \<subseteq> insert v (set (rp_in_use rp))
        \<and> (\<forall>x \<in> set (sealed_rows kind (os_db s')). sr_id x = sr_id r \<longrightarrow> on_current v x))"
proof -
  have only: "x = r" if "x \<in> set (sealed_rows kind (os_db s))" "sr_id x = sr_id r" for x
    using dist r that by (auto simp: distinct_map inj_on_def)
  have still: ?thesis if db: "os_db s' = os_db s" and f: "rp_failed rp < rp_failed rp'"
    using db f by (simp add: all_moved_def list_all2_same)
  consider (bad) "os_db s' = os_db s" "rp_failed rp < rp_failed rp'"
    | (go) version bind replacement s1 where "KEKVersion (sr_sealed r) = Inr version" "bindingFor kind r = Inr bind"
        "Rewrap g kp (sr_sealed r) bind s = (Inr replacement, s1)"
    using run by (auto simp: rewrapOne_def unreadable_def failed_at_def split: sum.splits prod.splits
        dest: Rewrap_frame)
  then show ?thesis
  proof cases
    case bad
    then show ?thesis by (rule still)
  next
    case go
    from Rewrap_keeps [OF g kp(1) go(3)] kp(2) obtain p where
      old: "Unseal g kp (sr_sealed r) bind = Inr p" and new: "Unseal g kp replacement bind = Inr p"
      and cur: "KEKVersion replacement = Inr v" "hd replacement = FormatVersion" and db1: "os_db s1 = os_db s" by auto
    show ?thesis
    proof (cases "replacement = sr_sealed r")
      case True
      with run go have "rp' = already_at v rp" "s' = s1" by (auto simp: rewrapOne_def)
      with True db1 cur only show ?thesis
        by (auto simp: all_moved_def list_all2_same already_at_def on_current_def)
    next
      case False
      show ?thesis
      proof (cases "ReplaceSealed kind (sr_id r) (sr_sealed r) replacement s1")
        case (Pair res s2)
        with run go False have out: "case res of Inr u \<Rightarrow> rp' = rewrapped_at v rp \<and> s' = s2
            | Inl e \<Rightarrow> if e = ErrNotFound then rp' = rp \<and> s' = s2 else rp' = failed_at version rp \<and> s' = s2"
          by (auto simp: rewrapOne_def split: sum.splits if_splits)
        show ?thesis
        proof (cases res)
          case (Inl e)
          have "e \<noteq> ErrNotFound"
            using ReplaceSealed_NotFound [of kind "sr_id r" "sr_sealed r" replacement s1 s2] Pair Inl r db1 by auto
          with out Inl have "rp' = failed_at version rp" "s' = s2" by simp_all
          moreover from Pair Inl have "os_db s2 = os_db s" using ReplaceSealed_Inl db1 by metis
          ultimately show ?thesis by (intro still) (simp_all add: failed_at_def)
        next
          case (Inr u)
          with Pair have rs: "ReplaceSealed kind (sr_id r) (sr_sealed r) replacement s1 = (Inr u, s2)" by simp
          from out Inr have rp': "rp' = rewrapped_at v rp" and s': "s' = s2" by simp_all
          let ?f = "replaced (sr_id r) (sr_sealed r) replacement"
          have rows: "sealed_rows kind (os_db s') = map ?f (sealed_rows kind (os_db s))"
            "k \<noteq> kind \<Longrightarrow> sealed_rows k (os_db s') = sealed_rows k (os_db s)" for k
            using ReplaceSealed_Inr [OF rs] db1 s' by simp_all
          have fr: "?f r = r\<lparr>sr_sealed := replacement\<rparr>" by (simp add: replaced_def)
          have other: "?f x = x" if "x \<in> set (sealed_rows kind (os_db s))" "sr_id x \<noteq> sr_id r" for x
            using that by (simp add: replaced_def)
          have "bindingFor kind (?f r) = Inr bind" using go(2) by (simp add: fr bindingFor_def split: if_splits)
          then have mr: "moved g kp v kind r (?f r)"
            using go(2) old new cur by (auto simp: moved_def fr on_current_def opens_def)
          have "moved g kp v kind x (?f x)" if "x \<in> set (sealed_rows kind (os_db s))" for x
            using that mr only other by (cases "sr_id x = sr_id r") auto
          then have "list_all2 (moved g kp v k) (sealed_rows k (os_db s)) (sealed_rows k (os_db s'))" for k
            using rows by (cases "k = kind") (auto simp: list_all2_map2 list_all2_same)
          then have am: "all_moved g kp v (os_db s) (os_db s')" by (simp add: all_moved_def)
          have "on_current v x" if "x \<in> set (sealed_rows kind (os_db s'))" "sr_id x = sr_id r" for x
          proof -
            from that rows(1) obtain y where "y \<in> set (sealed_rows kind (os_db s))" "x = ?f y" "sr_id y = sr_id r" by auto
            then have "x = ?f r" using only by blast
            then show ?thesis using cur by (simp add: fr on_current_def)
          qed
          moreover have "\<forall>x \<in> set (sealed_rows kind (os_db s)). sr_id x \<noteq> sr_id r \<longrightarrow> x \<in> set (sealed_rows kind (os_db s'))"
            using rows(1) other by force
          ultimately show ?thesis using am rp' by (auto simp: rewrapped_at_def)
        qed
      qed
    qed
  qed
qed

lemma all_moved_ids: "all_moved g kp v t u \<Longrightarrow> map sr_id (sealed_rows k u) = map sr_id (sealed_rows k t)"
  unfolding all_moved_def list_all2_conv_all_nth by (rule nth_equalityI) (simp, metis length_map moved_id nth_map)

text \<open>What a page, or a whole kind, achieves for the identifiers in \<open>P\<close>.\<close>

definition achieves ::
  "aead \<Rightarrow> kek_provider \<Rightarrow> 32 word \<Rightarrow> sealed_kind \<Rightarrow> (string \<Rightarrow> bool) \<Rightarrow> tables \<Rightarrow> rewrap_report \<Rightarrow> tables \<Rightarrow> rewrap_report \<Rightarrow> bool" where
  "achieves g kp v kind P t rp t' rp' \<longleftrightarrow> all_moved g kp v t t' \<and> rp_failed rp \<le> rp_failed rp'
     \<and> (rp_failed rp' = rp_failed rp \<longrightarrow> set (rp_in_use rp') \<subseteq> insert v (set (rp_in_use rp))
        \<and> (\<forall>x \<in> set (sealed_rows kind t'). P (sr_id x) \<longrightarrow> on_current v x))"

lemma achieves_trans:
  assumes "achieves g kp v kind P t rp u rp1" and "achieves g kp v kind Q u rp1 w rp2"
  shows "achieves g kp v kind (\<lambda>i. P i \<or> Q i) t rp w rp2"
proof -
  have "rp_failed rp1 = rp_failed rp \<and> rp_failed rp2 = rp_failed rp1" if "rp_failed rp2 = rp_failed rp"
    using assms that by (auto simp: achieves_def)
  moreover have "\<forall>x \<in> set (sealed_rows kind w). P (sr_id x) \<longrightarrow> on_current v x" if "rp_failed rp1 = rp_failed rp"
    by (rule all_moved_current [of g kp v u w]) (use assms that in \<open>auto simp: achieves_def\<close>)
  ultimately show ?thesis
    using assms all_moved_trans [of g kp v t u w] by (auto simp: achieves_def)
qed

lemma achieves_mono: "achieves g kp v kind P t rp u rp' \<Longrightarrow> (\<And>i. i \<in> set (map sr_id (sealed_rows kind t)) \<Longrightarrow> Q i \<Longrightarrow> P i)
    \<Longrightarrow> achieves g kp v kind Q t rp u rp'"
proof -
  assume a: "achieves g kp v kind P t rp u rp'"
    and q: "\<And>i. i \<in> set (map sr_id (sealed_rows kind t)) \<Longrightarrow> Q i \<Longrightarrow> P i"
  then have "map sr_id (sealed_rows kind u) = map sr_id (sealed_rows kind t)"
    using all_moved_ids by (auto simp: achieves_def)
  then have "sr_id x \<in> set (map sr_id (sealed_rows kind t))" if "x \<in> set (sealed_rows kind u)" for x
    using that by (metis image_eqI set_map)
  with a q show ?thesis by (auto simp: achieves_def)
qed

lemma rewrap_page_achieves:
  assumes g: "aead_laws g" and kp: "provider_ok kp" "CurrentVersion kp = Inr v"
  shows "distinct (map sr_id (sealed_rows kind (os_db s))) \<Longrightarrow> set rs \<subseteq> set (sealed_rows kind (os_db s)) \<Longrightarrow>
    distinct (map sr_id rs) \<Longrightarrow> rewrap_page g kp kind v rs rp s = (rp', s') \<Longrightarrow>
    achieves g kp v kind (\<lambda>i. i \<in> set (map sr_id rs)) (os_db s) rp (os_db s') rp'"
proof (induction rs arbitrary: rp s)
  case Nil
  then show ?case by (auto simp: achieves_def all_moved_refl)
next
  case (Cons r rs)
  obtain rp1 s1 where one: "rewrapOne g kp kind v r rp s = (rp1, s1)" by fastforce
  with Cons.prems have rest: "rewrap_page g kp kind v rs rp1 s1 = (rp', s')" by simp
  have "r \<in> set (sealed_rows kind (os_db s))" using Cons.prems by simp
  note step = rewrapOne_step [OF g kp Cons.prems(1) this one]
  then have first: "achieves g kp v kind (\<lambda>i. i = sr_id r) (os_db s) rp (os_db s1) rp1"
    by (auto simp: achieves_def)
  have "distinct (map sr_id (sealed_rows kind (os_db s1)))"
    using Cons.prems(1) rewrapOne_ids [OF one, of kind] by simp
  moreover have "set rs \<subseteq> set (sealed_rows kind (os_db s1))"
  proof
    fix x assume x: "x \<in> set rs"
    from Cons.prems(3) have "sr_id r \<notin> sr_id ` set rs" by simp
    with x Cons.prems(2) have "sr_id x \<noteq> sr_id r" "x \<in> set (sealed_rows kind (os_db s))" by (metis image_eqI, auto)
    with step show "x \<in> set (sealed_rows kind (os_db s1))" by blast
  qed
  ultimately have "achieves g kp v kind (\<lambda>i. i \<in> set (map sr_id rs)) (os_db s1) rp1 (os_db s') rp'"
    using Cons.IH [OF _ _ _ rest] Cons.prems(3) by simp
  from achieves_trans [OF first this] show ?case by (rule achieves_mono) auto
qed

text \<open>A page of sorted identifiers leaves only greater ones for the next.\<close>

lemma page_covers:
  assumes "page = select_page f (\<lambda>r. f r > a) n rows" and "x \<in> set rows" and "f x > a"
    and "int (length page) < n \<or> f x \<le> f (last page)" and "0 < n" and "distinct (map f rows)"
  shows "x \<in> set page"
proof -
  let ?all = "sort_key f (filter (\<lambda>r. f r > a) rows)"
  have x: "x \<in> set ?all" using assms(2,3) by simp
  have page: "page = take (nat n) ?all" using assms(1) by (simp add: select_page_def)
  show ?thesis
  proof (cases "length ?all \<le> nat n")
    case True
    with x show ?thesis by (simp add: page)
  next
    case False
    then have len: "int (length page) = n" using assms(5) by (simp add: page)
    with assms(4) have le: "f x \<le> f (last page)" by simp
    have "page \<noteq> []" using len assms(5) by auto
    have split: "?all = page @ drop (nat n) ?all" by (simp add: page)
    have "distinct (map f ?all)" using assms(6) by (simp add: distinct_map inj_on_def)
    show ?thesis
    proof (rule ccontr)
      assume "x \<notin> set page"
      with x split have d: "x \<in> set (drop (nat n) ?all)" by (metis Un_iff set_append)
      have "sorted (map f ?all)" by simp
      then have "f (last page) \<le> f x"
        using d \<open>page \<noteq> []\<close> unfolding split [THEN arg_cong [of _ _ "map f"]] map_append sorted_append by auto
      with le have "f x = f (last page)" by simp
      moreover have "f x \<noteq> f (last page)"
        using \<open>distinct (map f ?all)\<close> d \<open>page \<noteq> []\<close>
        unfolding split [THEN arg_cong [of _ _ "map f"]] map_append distinct_append
        by (metis IntI empty_iff image_eqI last_in_set list.set_map)
      ultimately show False by simp
    qed
  qed
qed

lemma rewrap_kind_achieves:
  assumes g: "aead_laws g" and kp: "provider_ok kp" "CurrentVersion kp = Inr v"
  shows "distinct (map sr_id (sealed_rows kind (os_db s))) \<Longrightarrow>
    rewrap_kind g kp kind v afterID rp s = ((rp', None), s') \<Longrightarrow>
    achieves g kp v kind (\<lambda>i. i > afterID) (os_db s) rp (os_db s') rp'"
proof (induction "length (ids_above kind afterID (os_db s))" arbitrary: afterID rp s rule: less_induct)
  case less
  obtain u s1 where c: "ctx_err s = (Inr u, s1)"
    using less.prems(2) by (subst (asm) rewrap_kind.simps) (auto split: prod.splits sum.splits)
  obtain page s2 where l: "ListSealed kind afterID rewrapPageSize s1 = (Inr page, s2)"
    using less.prems(2) c by (subst (asm) rewrap_kind.simps) (auto split: prod.splits sum.splits)
  obtain rp1 s3 where p: "rewrap_page g kp kind v page rp s2 = (rp1, s3)" by fastforce
  have db: "os_db s1 = os_db s" using query_frame c unfolding ctx_err_def by blast
  from ListSealed_Inr [OF l] db have db2: "os_db s2 = os_db s"
    and page: "page = select_page sr_id (\<lambda>r. sr_id r > afterID) rewrapPageSize (sealed_rows kind (os_db s))" by simp_all
  have sub: "set page \<subseteq> set (sealed_rows kind (os_db s))"
    using set_select_page unfolding page by fastforce
  have dp: "distinct (map sr_id page)"
    using less.prems(1) unfolding page select_page_def
    by (simp add: distinct_map inj_on_def) (metis in_set_takeD set_sort filter_is_subset subsetD)
  have a: "achieves g kp v kind (\<lambda>i. i \<in> set (map sr_id page)) (os_db s) rp (os_db s3) rp1"
    using rewrap_page_achieves [OF g kp _ _ dp p] less.prems(1) sub db2 by simp
  have pos: "0 < rewrapPageSize" by (simp add: rewrapPageSize_def)
  have run: "(if int (length page) < rewrapPageSize then ((rp1, None), s3)
      else rewrap_kind g kp kind v (sr_id (last page)) rp1 s3) = ((rp', None), s')"
    using less.prems(2) c l p by (subst (asm) rewrap_kind.simps) simp
  have cover: "i \<in> set (map sr_id page)"
    if "i \<in> set (map sr_id (sealed_rows kind (os_db s)))" "i > afterID"
      "int (length page) < rewrapPageSize \<or> i \<le> sr_id (last page)" for i
    using page_covers [OF page _ _ _ pos less.prems(1)] that by fastforce
  show ?case
  proof (cases "int (length page) < rewrapPageSize")
    case True
    with run a have "achieves g kp v kind (\<lambda>i. i \<in> set (map sr_id page)) (os_db s) rp (os_db s') rp'" by simp
    then show ?thesis by (rule achieves_mono) (use cover True in blast)
  next
    case False
    have d3: "distinct (map sr_id (sealed_rows kind (os_db s3)))"
      using less.prems(1) rewrap_page_ids [OF p, of kind] db2 by simp
    have "length (ids_above kind (sr_id (last page)) (os_db s3)) < length (ids_above kind afterID (os_db s))"
      by (rule rewrap_shrinks [OF c l p full_page [OF False]])
    from less.hyps [OF this d3] run False
    have "achieves g kp v kind (\<lambda>i. i > sr_id (last page)) (os_db s3) rp1 (os_db s') rp'" by simp
    from achieves_trans [OF a this] show ?thesis by (rule achieves_mono) (use cover in fastforce)
  qed
qed

lemma rewrapAll_achieves:
  assumes "aead_laws g" and "provider_ok kp" and "CurrentVersion kp = Inr v"
    and "\<forall>k. distinct (map sr_id (sealed_rows k (os_db s)))"
    and "rewrapAll g kp s = ((rp, None), s')"
  obtains rp1 rp2 and s1 :: db where
    "achieves g kp v SealedTOTP (\<lambda>i. i > []) (os_db s) (empty_report\<lparr>rp_current := v\<rparr>) (os_db s1) rp1"
    and "achieves g kp v SealedSubjectRef (\<lambda>i. i > []) (os_db s1) rp1 (os_db s') rp2"
    and "rp = rp2\<lparr>rp_in_use := sortedVersions (rp_in_use rp2)\<rparr>"
proof -
  from assms(3,5) obtain rp1 s1 rp2 where
    one: "rewrap_kind g kp SealedTOTP v [] (empty_report\<lparr>rp_current := v\<rparr>) s = ((rp1, None), s1)"
    and two: "rewrap_kind g kp SealedSubjectRef v [] rp1 s1 = ((rp2, None), s')"
    and rp: "rp = rp2\<lparr>rp_in_use := sortedVersions (rp_in_use rp2)\<rparr>"
    by (auto simp: rewrapAll_def Let_def split: prod.splits option.splits)
  from assms(4) have d: "distinct (map sr_id (sealed_rows k (os_db s)))" for k by blast
  note a1 = rewrap_kind_achieves [OF assms(1-3) d one]
  then have "distinct (map sr_id (sealed_rows SealedSubjectRef (os_db s1)))"
    using d all_moved_ids by (metis achieves_def)
  from that [OF a1 rewrap_kind_achieves [OF assms(1-3) this two] rp] show thesis .
qed

text \<open>
  C30: what a key rotation rests on. When a rewrap pass ends without an error and reports no
  failure, every sealed record of either kind is under the current key in the current format,
  each row is the one it was, changed only where its sealed value moved to the current key
  and still opens to the same secret in the row's own context, and no other key version is
  reported in use: an operator may retire the others.
\<close>

theorem rewrap_pass:
  assumes "aead_laws g" and "provider_ok kp" and "CurrentVersion kp = Inr v"
    and "\<forall>k. distinct (map sr_id (sealed_rows k (os_db s)))"
    and "rewrapAll g kp s = ((rp, None), s')" and "rp_failed rp = 0"
  shows "list_all2 (moved g kp v k) (sealed_rows k (os_db s)) (sealed_rows k (os_db s'))
    \<and> (\<forall>x \<in> set (sealed_rows k (os_db s')). sr_id x \<noteq> [] \<longrightarrow> on_current v x)
    \<and> set (rp_in_use rp) \<subseteq> {v}"
proof -
  obtain rp1 rp2 and s1 :: db where
    a: "achieves g kp v SealedTOTP (\<lambda>i. i > []) (os_db s) (empty_report\<lparr>rp_current := v\<rparr>) (os_db s1) rp1"
    and b: "achieves g kp v SealedSubjectRef (\<lambda>i. i > []) (os_db s1) rp1 (os_db s') rp2"
    and rp: "rp = rp2\<lparr>rp_in_use := sortedVersions (rp_in_use rp2)\<rparr>"
    using rewrapAll_achieves [OF assms(1-5)] by blast
  have f: "rp_failed rp1 = 0" "rp_failed rp2 = 0"
    using a b rp assms(6) by (auto simp: achieves_def empty_report_def)
  have m: "all_moved g kp v (os_db s) (os_db s1)" "all_moved g kp v (os_db s1) (os_db s')"
    using a b by (simp_all add: achieves_def)
  have "\<forall>x \<in> set (sealed_rows SealedTOTP (os_db s1)). sr_id x > [] \<longrightarrow> on_current v x"
    using a f by (simp add: achieves_def empty_report_def)
  note totp = all_moved_current [OF m(2) this]
  have ref: "\<forall>x \<in> set (sealed_rows SealedSubjectRef (os_db s')). sr_id x > [] \<longrightarrow> on_current v x"
    using b f by (simp add: achieves_def)
  have "\<forall>x \<in> set (sealed_rows k (os_db s')). sr_id x \<noteq> [] \<longrightarrow> on_current v x"
  proof (cases "k = SealedTOTP \<or> k = SealedSubjectRef")
    case True
    with totp ref show ?thesis by (metis Nil_less_Cons neq_Nil_conv)
  qed (simp add: sealed_rows_def)
  moreover have "set (rp_in_use rp) \<subseteq> {v}"
    using a b f rp by (auto simp: achieves_def empty_report_def sortedVersions_def)
  ultimately show ?thesis
    using all_moved_trans [OF m] by (simp add: all_moved_def)
qed

text \<open>A subject reference sealed under key 1, in a deployment the current key of which is now key 2.\<close>

definition plain_aead :: aead where
  "plain_aead = \<lparr>g_seal = (\<lambda>k n p a. p @ replicate tagSize 0),
     g_open = (\<lambda>k n c a. let p = take (length c - tagSize) c in
       if c = p @ replicate tagSize 0 then Some p else None)\<rparr>"

lemma plain_laws: "aead_laws plain_aead"
  by (auto simp: aead_laws_def plain_aead_def Let_def)

definition zero_os :: "tables \<Rightarrow> db" where
  "zero_os t = (fresh_os 0 t)\<lparr>os_rand := \<lambda>_. 0\<rparr>"

definition demo_sealed :: bytes where
  "demo_sealed = FormatVersion # [0, 0, 0, 1] @ replicate 72 0 @ 7 # replicate tagSize 0"

definition demo_rotation :: db where
  "demo_rotation = zero_os (empty_tables\<lparr>tb_subjects :=
     [\<lparr>sb_id = ''s1'', sb_tenant = ''t1'', sb_ref_hmac = [], sb_ref_sealed = demo_sealed, sb_display = [],
       sb_status = SubjectActive, sb_created = 0, sb_updated = 0, sb_deleted = None\<rparr>]\<rparr>)"

theorem rewrap_pass_witness:
  "\<exists>rp s'. rewrapAll plain_aead (demo_provider 2) demo_rotation = ((rp, None), s') \<and> rp_rewrapped rp = 1
     \<and> (\<forall>x \<in> set (sealed_rows SealedSubjectRef (os_db s')). sr_id x \<noteq> [] \<longrightarrow> on_current 2 x)"
proof -
  have "case rewrapAll plain_aead (demo_provider 2) demo_rotation of
      ((rp, e), s') \<Rightarrow> e = None \<and> rp_failed rp = 0 \<and> rp_rewrapped rp = 1" by code_simp
  then obtain rp s' where run: "rewrapAll plain_aead (demo_provider 2) demo_rotation = ((rp, None), s')"
    and rp: "rp_failed rp = 0" "rp_rewrapped rp = 1" by (auto split: prod.splits)
  have "\<forall>k. distinct (map sr_id (sealed_rows k (os_db demo_rotation)))"
    by (simp add: sealed_rows_def demo_rotation_def zero_os_def empty_tables_def)
  moreover have "provider_ok (demo_provider 2)" "CurrentVersion (demo_provider 2) = Inr 2"
    by (simp_all add: demo_provider_ok) (simp add: demo_provider_def CurrentVersion_def)
  ultimately show ?thesis
    using rewrap_pass [OF plain_laws _ _ _ run rp(1), of 2 SealedSubjectRef] run rp(2) by blast
qed


end
