(* ===== verification/Janitor_Lease.thy ===== *)
theory Janitor_Lease
  imports Sqlite_Base
begin

text \<open>
  \<^verbatim>\<open>internal/store/sqlite/janitor.go\<close>: the lease row that keeps two processes on one database
  file from sweeping at the same time. Instants are nanoseconds; the engine's own clock has
  millisecond resolution. A duration is rendered to the nearest millisecond; what the
  floating-point rendering does with exact halves is left out.
\<close>

subsection \<open>Operations\<close>

definition janitorLeaseName :: string where "janitorLeaseName = ''janitor_sweep''"

definition maxJanitorLease :: int where "maxJanitorLease = 15 * 60 * 1000000000"

text \<open>The two instants the statement asks the engine for.\<close>

definition leaseNow :: "instant \<Rightarrow> instant" where
  "leaseNow wall = wall div 1000000 * 1000000"

definition leaseMillis :: "int \<Rightarrow> int" where
  "leaseMillis lease = (lease + 500000) div 1000000"

definition leaseExpiry :: "instant \<Rightarrow> int \<Rightarrow> instant" where
  "leaseExpiry wall lease = leaseNow wall + leaseMillis lease * 1000000"

definition takeJanitorLease :: "string \<Rightarrow> instant \<Rightarrow> int \<Rightarrow> tables \<Rightarrow> sql_error + int \<times> tables" where
  "takeJanitorLease owner wall lease t =
     (let sweep = (\<lambda>r. le_name r = janitorLeaseName);
          new = \<lparr>le_name = janitorLeaseName, le_owner = owner, le_acquired = leaseNow wall,
                 le_expires = leaseExpiry wall lease\<rparr> in
      case find_row sweep (tb_leases t) of
        None \<Rightarrow> Inr (1, t\<lparr>tb_leases := tb_leases t @ [new]\<rparr>)
      | Some r \<Rightarrow>
          if le_expires r \<le> leaseNow wall
          then Inr (1, t\<lparr>tb_leases := update_where sweep
            (\<lambda>r. r\<lparr>le_owner := le_owner new, le_acquired := le_acquired new, le_expires := le_expires new\<rparr>) (tb_leases t)\<rparr>)
          else Inr (0, t))"

text \<open>A held lease is the owner it was taken for.\<close>

definition TryAcquireJanitorLock :: "string \<Rightarrow> instant \<Rightarrow> int \<Rightarrow> (tables, string) proc" where
  "TryAcquireJanitorLock owner at lease =
     (if owner = [] then failp (OtherErr ''sqlite: janitor lock requires an owner'')
      else if lease \<le> 0 then failp (OtherErr ''sqlite: janitor lock requires a positive lease'')
      else
        let lease = (if lease > maxJanitorLease then maxJanitorLease else lease) in
        bindp wall_clock (\<lambda>wall.
        bindp (exec map_error (takeJanitorLease owner wall lease)) (\<lambda>n.
          if n = 0 then failp ErrLockHeld else ret owner)))"

definition ReleaseLock :: "string \<Rightarrow> (tables, unit) proc" where
  "ReleaseLock owner =
     bindp (exec map_error (rows_delete tb_leases tb_leases_update
         (\<lambda>r. le_name r = janitorLeaseName \<and> le_owner r = owner))) (\<lambda>n.
       if n = 0 then failp (OtherErr ''sqlite: the janitor lease had already been taken over'') else ret ())"

subsection \<open>Processes that share the file\<close>

text \<open>
  What the processes believe they hold, newest first: an owner and the instant its lease runs
  out. Any process may take the lease or give it back, time passes, and everything else the
  service does leaves the lease table alone.
\<close>

inductive lease_step :: "(string \<times> instant) list \<times> db \<Rightarrow> (string \<times> instant) list \<times> db \<Rightarrow> bool" where
  acquired: "TryAcquireJanitorLock owner at lease s = (Inr lk, s') \<Longrightarrow>
     lease_step (G, s) ((lk, leaseExpiry (os_wall s) (min lease maxJanitorLease)) # G, s')"
| refused: "TryAcquireJanitorLock owner at lease s = (Inl e, s') \<Longrightarrow> lease_step (G, s) (G, s')"
| released: "ReleaseLock owner s = (Inr u, s') \<Longrightarrow>
     lease_step (G, s) (filter (\<lambda>g. fst g \<noteq> owner) G, s')"
| not_released: "ReleaseLock owner s = (Inl e, s') \<Longrightarrow> lease_step (G, s) (G, s')"
| later: "os_wall s \<le> w \<Longrightarrow> lease_step (G, s) (G, s\<lparr>os_wall := w\<rparr>)"
| elsewhere: "tb_leases (os_db s') = tb_leases (os_db s) \<Longrightarrow> os_wall s' = os_wall s \<Longrightarrow>
     lease_step (G, s) (G, s')"

inductive lease_reach :: "db \<Rightarrow> (string \<times> instant) list \<times> db \<Rightarrow> bool" for s0 where
  start: "lease_reach s0 ([], s0)"
| step: "lease_reach s0 c \<Longrightarrow> lease_step c c' \<Longrightarrow> lease_reach s0 c'"

text \<open>A lease that is still running is the one in the table, and it does not run for long.\<close>

definition lease_inv :: "(string \<times> instant) list \<times> db \<Rightarrow> bool" where
  "lease_inv c \<longleftrightarrow> (case c of (G, s) \<Rightarrow>
     distinct (map le_name (tb_leases (os_db s)))
     \<and> (\<forall>(o1, u) \<in> set G. u \<le> leaseNow (os_wall s) + maxJanitorLease
         \<and> (leaseNow (os_wall s) < u \<longrightarrow>
             (\<exists>r \<in> set (tb_leases (os_db s)). le_name r = janitorLeaseName \<and> le_owner r = o1 \<and> le_expires r = u))))"

lemma leaseNow_mono: "v \<le> w \<Longrightarrow> leaseNow v \<le> leaseNow w"
  by (simp add: leaseNow_def zdiv_mono1)

lemma leaseExpiry_bound: "0 < lease \<Longrightarrow> leaseExpiry wall (min lease maxJanitorLease) \<le> leaseNow wall + maxJanitorLease"
proof -
  have "leaseMillis (min lease maxJanitorLease) \<le> leaseMillis maxJanitorLease"
    by (simp add: leaseMillis_def zdiv_mono1)
  also have "\<dots> * 1000000 = maxJanitorLease" by (simp add: leaseMillis_def maxJanitorLease_def)
  finally show ?thesis by (simp add: leaseExpiry_def)
qed

lemma TryAcquire_Inr:
  assumes "TryAcquireJanitorLock owner at lease s = (Inr lk, s')" and "distinct (map le_name (tb_leases (os_db s)))"
  shows "lk = owner" and "0 < lease" and "os_wall s' = os_wall s"
    and "distinct (map le_name (tb_leases (os_db s')))"
    and "\<forall>r \<in> set (tb_leases (os_db s)). le_name r = janitorLeaseName \<longrightarrow> le_expires r \<le> leaseNow (os_wall s)"
    and "\<exists>r \<in> set (tb_leases (os_db s')). le_name r = janitorLeaseName \<and> le_owner r = owner
           \<and> le_expires r = leaseExpiry (os_wall s) (min lease maxJanitorLease)"
proof -
  let ?l = "min lease maxJanitorLease"
  from assms(1) show "lk = owner" and "0 < lease"
    by (auto simp: TryAcquireJanitorLock_def failp_def bindp_Inr ret_def Let_def split: if_splits)
  from assms(1) obtain n where n: "n \<noteq> 0"
    and ex: "exec map_error (takeJanitorLease owner (os_wall s) ?l) s = (Inr n, s')"
    by (auto simp: TryAcquireJanitorLock_def failp_def bindp_Inr ret_def Let_def wall_clock_def min_def split: if_splits)
  from exec_Inr [OF ex] have w: "os_wall s' = os_wall s"
    and take: "takeJanitorLease owner (os_wall s) ?l (os_db s) = Inr (n, os_db s')" by simp_all
  show "os_wall s' = os_wall s" by (rule w)
  consider (fresh) "\<forall>r \<in> set (tb_leases (os_db s)). le_name r \<noteq> janitorLeaseName"
      "tb_leases (os_db s') = tb_leases (os_db s) @ [\<lparr>le_name = janitorLeaseName, le_owner = owner,
         le_acquired = leaseNow (os_wall s), le_expires = leaseExpiry (os_wall s) ?l\<rparr>]"
    | (over) r where "r \<in> set (tb_leases (os_db s))" "le_name r = janitorLeaseName" "le_expires r \<le> leaseNow (os_wall s)"
      "tb_leases (os_db s') = update_where (\<lambda>r. le_name r = janitorLeaseName)
         (\<lambda>r. r\<lparr>le_owner := owner, le_acquired := leaseNow (os_wall s), le_expires := leaseExpiry (os_wall s) ?l\<rparr>)
         (tb_leases (os_db s))"
    using take n by (auto simp: takeJanitorLease_def Let_def find_row_None dest!: find_row_Some sym [of _ "os_db s'"]
        split: option.splits if_splits)
  then have "distinct (map le_name (tb_leases (os_db s')))
    \<and> (\<forall>r \<in> set (tb_leases (os_db s)). le_name r = janitorLeaseName \<longrightarrow> le_expires r \<le> leaseNow (os_wall s))
    \<and> (\<exists>r \<in> set (tb_leases (os_db s')). le_name r = janitorLeaseName \<and> le_owner r = owner
         \<and> le_expires r = leaseExpiry (os_wall s) ?l)"
  proof cases
    case fresh
    then show ?thesis using assms(2) by auto
  next
    case over
    let ?new = "r\<lparr>le_owner := owner, le_acquired := leaseNow (os_wall s), le_expires := leaseExpiry (os_wall s) ?l\<rparr>"
    have "map le_name (tb_leases (os_db s')) = map le_name (tb_leases (os_db s))"
      by (auto simp: over(4) update_where_def)
    then have "distinct (map le_name (tb_leases (os_db s')))" using assms(2) by simp
    moreover have "\<forall>r' \<in> set (tb_leases (os_db s)). le_name r' = janitorLeaseName \<longrightarrow> le_expires r' \<le> leaseNow (os_wall s)"
      using over(1-3) assms(2) by (auto simp: distinct_map inj_on_def)
    moreover have "?new \<in> set (tb_leases (os_db s'))"
      using over(1,2) by (force simp: over(4) update_where_def)
    then have "\<exists>r \<in> set (tb_leases (os_db s')). le_name r = janitorLeaseName \<and> le_owner r = owner
         \<and> le_expires r = leaseExpiry (os_wall s) ?l"
      by (rule bexI [rotated]) (simp add: over(2))
    ultimately show ?thesis by blast
  qed
  then show "distinct (map le_name (tb_leases (os_db s')))"
    and "\<forall>r \<in> set (tb_leases (os_db s)). le_name r = janitorLeaseName \<longrightarrow> le_expires r \<le> leaseNow (os_wall s)"
    and "\<exists>r \<in> set (tb_leases (os_db s')). le_name r = janitorLeaseName \<and> le_owner r = owner
           \<and> le_expires r = leaseExpiry (os_wall s) ?l" by blast+
qed

lemma TryAcquire_Inl:
  "TryAcquireJanitorLock owner at lease s = (Inl e, s') \<Longrightarrow>
     os_wall s' = os_wall s \<and> tb_leases (os_db s') = tb_leases (os_db s)"
  by (auto simp: TryAcquireJanitorLock_def failp_def bindp_def ret_def Let_def wall_clock_def takeJanitorLease_def
      split: if_splits prod.splits sum.splits option.splits dest!: exec_Inl exec_Inr)

lemma Release_Inr:
  "ReleaseLock owner s = (Inr u, s') \<Longrightarrow> os_wall s' = os_wall s
     \<and> tb_leases (os_db s') = delete_where (\<lambda>r. le_name r = janitorLeaseName \<and> le_owner r = owner) (tb_leases (os_db s))"
  by (auto simp: ReleaseLock_def bindp_Inr failp_def ret_def split: if_splits dest!: exec_Inr)

lemma Release_Inl:
  "ReleaseLock owner s = (Inl e, s') \<Longrightarrow> os_wall s' = os_wall s \<and> tb_leases (os_db s') = tb_leases (os_db s)"
  by (auto simp: ReleaseLock_def bindp_def failp_def ret_def count_where_def delete_where_def filter_id_conv filter_empty_conv
      split: if_splits prod.splits sum.splits dest!: exec_Inl exec_Inr)

lemma lease_step_inv: "lease_step c c' \<Longrightarrow> lease_inv c \<Longrightarrow> lease_inv c'"
proof (induction rule: lease_step.induct)
  case (acquired owner at lease s lk s' G)
  then have d: "distinct (map le_name (tb_leases (os_db s)))" by (simp add: lease_inv_def)
  note t = TryAcquire_Inr [OF acquired.hyps d]
  have old: "u \<le> leaseNow (os_wall s)" if "(o1, u) \<in> set G" for o1 u
    using acquired.prems that t(5) by (fastforce simp: lease_inv_def)
  have "leaseExpiry (os_wall s) (min lease maxJanitorLease) \<le> leaseNow (os_wall s) + maxJanitorLease"
    by (rule leaseExpiry_bound [OF t(2)])
  moreover have "u \<le> leaseNow (os_wall s) + maxJanitorLease \<and> \<not> leaseNow (os_wall s) < u" if "(o1, u) \<in> set G" for o1 u
    using old [OF that] by (simp add: maxJanitorLease_def)
  ultimately show ?case using t by (fastforce simp: lease_inv_def)
next
  case (refused owner at lease s e s' G)
  with TryAcquire_Inl [OF refused.hyps] show ?case by (simp add: lease_inv_def)
next
  case (released owner s u s' G)
  with Release_Inr [OF released.hyps] show ?case
    by (fastforce simp: lease_inv_def delete_where_def distinct_map_filter)
next
  case (not_released owner s e s' G)
  with Release_Inl [OF not_released.hyps] show ?case by (simp add: lease_inv_def)
next
  case (later s w G)
  with leaseNow_mono [OF later.hyps] show ?case by (fastforce simp: lease_inv_def)
next
  case (elsewhere s' s G)
  then show ?case by (simp add: lease_inv_def)
qed

lemma lease_reach_inv: "lease_reach s0 c \<Longrightarrow> distinct (map le_name (tb_leases (os_db s0))) \<Longrightarrow> lease_inv c"
  by (induction rule: lease_reach.induct) (simp add: lease_inv_def, metis lease_step_inv)

subsection \<open>Property\<close>

text \<open>
  C35: at most one process holds the sweep lease at any time. Whatever a number of processes on
  one file do, in any order and with any requests failing, two leases that have both not run
  out are the same lease; it runs for at most another fifteen minutes, whatever was asked; and
  while it runs every further attempt to take it, by whoever, is refused.
\<close>

theorem janitor_lease_exclusive:
  assumes "lease_reach s0 (G, s)" and "distinct (map le_name (tb_leases (os_db s0)))"
    and "(a, u) \<in> set G" and "leaseNow (os_wall s) < u" and "(b, v) \<in> set G" and "leaseNow (os_wall s) < v"
  shows "a = b \<and> u = v \<and> u \<le> leaseNow (os_wall s) + maxJanitorLease
    \<and> (\<forall>c at lease. \<not> is_ok (fst (TryAcquireJanitorLock c at lease s)))"
proof -
  from lease_reach_inv [OF assms(1,2)] have inv: "lease_inv (G, s)" .
  then have d: "distinct (map le_name (tb_leases (os_db s)))" by (simp add: lease_inv_def)
  have held: "\<exists>r \<in> set (tb_leases (os_db s)). le_name r = janitorLeaseName \<and> le_owner r = o1 \<and> le_expires r = w"
    if "(o1, w) \<in> set G" "leaseNow (os_wall s) < w" for o1 w
    using inv that by (auto simp: lease_inv_def)
  from held [OF assms(3,4)] obtain r where r: "r \<in> set (tb_leases (os_db s))" "le_name r = janitorLeaseName"
      "le_owner r = a" "le_expires r = u" by blast
  from held [OF assms(5,6)] obtain q where q: "q \<in> set (tb_leases (os_db s))" "le_name q = janitorLeaseName"
      "le_owner q = b" "le_expires q = v" by blast
  with d r have "r = q" by (simp add: distinct_map inj_on_def)
  moreover have "\<not> is_ok (fst (TryAcquireJanitorLock c at lease s))" for c at lease
  proof (cases "TryAcquireJanitorLock c at lease s")
    case (Pair res s')
    then show ?thesis
      using TryAcquire_Inr(5) [of c at lease s _ s'] d r assms(4) by (cases res) fastforce+
  qed
  moreover have "u \<le> leaseNow (os_wall s) + maxJanitorLease"
    using inv assms(3) by (auto simp: lease_inv_def)
  ultimately show ?thesis using r q by blast
qed

text \<open>One replica takes the lease for two minutes; a minute later another one is refused.\<close>

definition demo_minute :: instant where "demo_minute = 60000000000"

theorem janitor_lease_exclusive_witness:
  "\<exists>G s. lease_reach (fresh_os 0 empty_tables) (G, s) \<and> (''one'', 2 * demo_minute) \<in> set G
     \<and> os_wall s = demo_minute \<and> \<not> is_ok (fst (TryAcquireJanitorLock ''two'' 0 demo_minute s))"
proof -
  let ?s0 = "fresh_os 0 empty_tables" and ?row = "\<lparr>le_name = janitorLeaseName, le_owner = ''one'', le_acquired = 0, le_expires = 2 * demo_minute\<rparr>"
  let ?s1 = "?s0\<lparr>os_db := empty_tables\<lparr>tb_leases := [?row]\<rparr>\<rparr>" let ?s2 = "?s1\<lparr>os_wall := demo_minute\<rparr>"
  have take: "TryAcquireJanitorLock ''one'' 0 (2 * demo_minute) ?s0 = (Inr ''one'', ?s1)"
    by (simp add: TryAcquireJanitorLock_def demo_minute_def maxJanitorLease_def bindp_def wall_clock_def exec_ok ret_def
        takeJanitorLease_def leaseNow_def leaseExpiry_def leaseMillis_def empty_tables_def Let_def)
  have now: "leaseNow demo_minute = demo_minute" "leaseExpiry 0 (min (2 * demo_minute) maxJanitorLease) = 2 * demo_minute"
    "0 < demo_minute"
    by (simp_all add: leaseNow_def leaseExpiry_def leaseMillis_def demo_minute_def maxJanitorLease_def)
  have "lease_reach ?s0 ([(''one'', 2 * demo_minute)], ?s1)"
    using lease_reach.step [OF lease_reach.start lease_step.acquired [OF take]] now by simp
  then have reach: "lease_reach ?s0 ([(''one'', 2 * demo_minute)], ?s2)"
    by (rule lease_reach.step) (rule lease_step.later, simp add: now less_imp_le)
  moreover have "\<not> is_ok (fst (TryAcquireJanitorLock ''two'' 0 demo_minute ?s2))"
    using janitor_lease_exclusive [OF reach, of "''one''" "2 * demo_minute" "''one''" "2 * demo_minute"] now
    by (simp add: empty_tables_def)
  ultimately show ?thesis by force
qed


end
