(* ===== verification/Go_Encode.thy ===== *)
theory Go_Encode
  imports Go_Json
begin

text \<open>
  What the program writes through \<^verbatim>\<open>encoding/json\<close> and \<^verbatim>\<open>fmt\<close>: strings with the escapes of
  \<^verbatim>\<open>json.Marshal\<close> (HTML characters and the two line separators included, bytes that are not
  UTF-8 replaced), documents, durations.
\<close>

subsection \<open>UTF-8\<close>

text \<open>The length of the well-formed character a byte string starts with, 0 if there is none.\<close>

definition continuation :: "nat \<Rightarrow> bool" where
  "continuation n \<longleftrightarrow> 0x80 \<le> n \<and> n \<le> 0xBF"

definition rune_length :: "nat list \<Rightarrow> nat" where
  "rune_length s =
     (case s of
        [] \<Rightarrow> 0
      | a # r1 \<Rightarrow>
          if a < 0x80 then 1
          else (case r1 of
            [] \<Rightarrow> 0
          | b # r2 \<Rightarrow>
              if 0xC2 \<le> a \<and> a \<le> 0xDF then (if continuation b then 2 else 0)
              else (case r2 of
                [] \<Rightarrow> 0
              | c # r3 \<Rightarrow>
                  if 0xE0 \<le> a \<and> a \<le> 0xEF
                  then (if continuation b \<and> continuation c
                          \<and> (a = 0xE0 \<longrightarrow> 0xA0 \<le> b) \<and> (a = 0xED \<longrightarrow> b \<le> 0x9F) then 3 else 0)
                  else (case r3 of
                    [] \<Rightarrow> 0
                  | d # _ \<Rightarrow>
                      if 0xF0 \<le> a \<and> a \<le> 0xF4
                      then (if continuation b \<and> continuation c \<and> continuation d
                              \<and> (a = 0xF0 \<longrightarrow> 0x90 \<le> b) \<and> (a = 0xF4 \<longrightarrow> b \<le> 0x8F) then 4 else 0)
                      else 0))))"

subsection \<open>Strings and documents\<close>

definition json_hex :: "nat \<Rightarrow> string" where
  "json_hex n = char_of (92 :: nat) # ''u00'' @ [hex_digit (n div 16), hex_digit (n mod 16)]"

definition json_ascii :: "nat \<Rightarrow> string" where
  "json_ascii n =
     (if n = 34 \<or> n = 92 then [char_of (92 :: nat), char_of n]
      else if n = 8 then [char_of (92 :: nat), CHR ''b'']
      else if n = 12 then [char_of (92 :: nat), CHR ''f'']
      else if n = 10 then [char_of (92 :: nat), CHR ''n'']
      else if n = 13 then [char_of (92 :: nat), CHR ''r'']
      else if n = 9 then [char_of (92 :: nat), CHR ''t'']
      else if n < 32 \<or> n \<in> {60, 62, 38} then json_hex n
      else [char_of n])"

function json_chars :: "nat list \<Rightarrow> string" where
  "json_chars [] = []"
| "json_chars (a # s) =
     (if a < 0x80 then json_ascii a @ json_chars s
      else
        let n = rune_length (a # s) in
        if n = 0 then char_of (92 :: nat) # ''ufffd'' @ json_chars s
        else (if take n (a # s) = [0xE2, 0x80, 0xA8] then char_of (92 :: nat) # ''u2028''
              else if take n (a # s) = [0xE2, 0x80, 0xA9] then char_of (92 :: nat) # ''u2029''
              else map char_of (take n (a # s))) @ json_chars (drop n (a # s)))"
  by pat_completeness auto

termination by (relation "measure length") auto

definition json_string :: "string \<Rightarrow> string" where
  "json_string s = dquote # json_chars (map of_char s) @ [dquote]"

definition joined :: "string \<Rightarrow> string list \<Rightarrow> string" where
  "joined sep parts = (case parts of [] \<Rightarrow> [] | p # ps \<Rightarrow> p @ concat (map (\<lambda>x. sep @ x) ps))"

text \<open>The members of a map are written in the order of their keys; the model lists them so.\<close>

fun json_text :: "json \<Rightarrow> string" where
  "json_text JNull = ''null''"
| "json_text (JBool b) = (if b then ''true'' else ''false'')"
| "json_text (JNum t) = t"
| "json_text (JStr s) = json_string s"
| "json_text (JArr vs) = CHR ''['' # joined '','' (map json_text vs) @ '']''"
| "json_text (JObj ms) =
     CHR ''{'' # joined '','' (map (\<lambda>(k, v). json_string k @ CHR '':'' # json_text v) ms) @ ''}''"

definition JInt :: "int \<Rightarrow> json" where
  "JInt n = JNum (decimal_int n)"

subsection \<open>Durations\<close>

text \<open>\<^verbatim>\<open>Duration.String\<close>: the value over a power of ten, without trailing zeros.\<close>

definition fraction_text :: "nat \<Rightarrow> nat \<Rightarrow> string" where
  "fraction_text w v =
     (let digits = rev (dropWhile (\<lambda>c. c = CHR ''0'') (rev (replicate (w - length (decimal v)) (CHR ''0'') @ decimal v))) in
      if digits = [] then [] else CHR ''.'' # digits)"

definition micro_sign :: string where "micro_sign = map char_of [0xC2 :: nat, 0xB5]"

definition duration_abs :: "nat \<Rightarrow> string" where
  "duration_abs u =
     (if u = 0 then ''0s''
      else if u < 1000 then decimal u @ ''ns''
      else if u < 1000000 then decimal (u div 1000) @ fraction_text 3 (u mod 1000) @ micro_sign @ ''s''
      else if u < 1000000000 then decimal (u div 1000000) @ fraction_text 6 (u mod 1000000) @ ''ms''
      else
        let secs = u div 1000000000; mins = secs div 60; hours = mins div 60 in
        (if hours > 0 then decimal hours @ ''h'' else [])
        @ (if mins > 0 then decimal (mins mod 60) @ ''m'' else [])
        @ decimal (secs mod 60) @ fraction_text 9 (u mod 1000000000) @ ''s'')"

definition duration_text :: "int \<Rightarrow> string" where
  "duration_text d = (if d < 0 then CHR ''-'' # duration_abs (nat (- d)) else duration_abs (nat d))"

lemma duration_examples:
  "duration_text 7776000000000000 = ''2160h0m0s''" "duration_text 1500000000 = ''1.5s''"
  "duration_text 90000000000 = ''1m30s''" "duration_text 0 = ''0s''"
  by (simp_all add: duration_text_def duration_abs_def fraction_text_def decimal.simps decimal_digit_def Let_def)

subsection \<open>Instants\<close>

text \<open>
  \<^verbatim>\<open>time.Time.MarshalJSON\<close> of an instant in UTC: the date of the proleptic Gregorian calendar
  (years counted from 1 March), the time of day, the nanoseconds without trailing zeros; a year
  outside 0 to 9999 is an error.
\<close>

definition civil_date :: "int \<Rightarrow> int \<times> int \<times> int" where
  "civil_date days =
     (let z = days + 719468; era = z div 146097; doe = z mod 146097;
          yoe = (doe - doe div 1460 + doe div 36524 - doe div 146096) div 365;
          doy = doe - (365 * yoe + yoe div 4 - yoe div 100);
          mp = (5 * doy + 2) div 153;
          d = doy - (153 * mp + 2) div 5 + 1;
          m = (if mp < 10 then mp + 3 else mp - 9) in
      (yoe + era * 400 + (if m \<le> 2 then 1 else 0), m, d))"

definition padded :: "nat \<Rightarrow> int \<Rightarrow> string" where
  "padded w n = replicate (w - length (decimal (nat n))) (CHR ''0'') @ decimal (nat n)"

definition time_json :: "instant \<Rightarrow> json option" where
  "time_json t =
     (let secs = t div 1000000000; tod = secs mod 86400 in
      case civil_date (secs div 86400) of (y, m, d) \<Rightarrow>
        if y < 0 \<or> 9999 < y then None
        else Some (JStr (padded 4 y @ ''-'' @ padded 2 m @ ''-'' @ padded 2 d @ ''T''
          @ padded 2 (tod div 3600) @ '':'' @ padded 2 (tod div 60 mod 60) @ '':'' @ padded 2 (tod mod 60)
          @ fraction_text 9 (nat (t mod 1000000000)) @ ''Z'')))"

lemma civil_date_examples:
  "civil_date 0 = (1970, 1, 1)" "civil_date 11016 = (2000, 2, 29)" "civil_date (- 719162) = (1, 1, 1)"
  "civil_date 20148 = (2025, 3, 1)"
  by code_simp+

text \<open>Text that needs no escape is written as it is.\<close>

lemma json_chars_plain:
  "\<forall>n \<in> set s. 32 \<le> n \<and> n < 0x80 \<and> n \<notin> {34, 92, 60, 62, 38} \<Longrightarrow> json_chars s = map char_of s"
  by (induction s) (auto simp: json_ascii_def)

end
