(* ===== verification/Alert_Engine.thy ===== *)
theory Alert_Engine
  imports Alert_Store Go_Encode
begin

text \<open>
  \<^verbatim>\<open>internal/alerts/alerts.go\<close>: raising an alert. The hash is a parameter, log lines are left
  out, the members of a detail map are listed in the order they are serialised in, and a detail
  without members is the nil map.
\<close>

subsection \<open>The conditions\<close>

type_synonym alert_type = string

definition TypeAuthFailureSubject :: alert_type where "TypeAuthFailureSubject = ''auth.failure_burst.subject''"
definition TypeAuthFailureIP :: alert_type where "TypeAuthFailureIP = ''auth.failure_burst.ip''"
definition TypeSignCountRegression :: alert_type where "TypeSignCountRegression = ''webauthn.sign_count_regression''"
definition TypeBulkRevocation :: alert_type where "TypeBulkRevocation = ''credential.bulk_revoked''"
definition TypeRecoveryExhausted :: alert_type where "TypeRecoveryExhausted = ''recovery.exhausted''"
definition TypeRecoveryLow :: alert_type where "TypeRecoveryLow = ''recovery.low''"
definition TypeAPIKeyRejected :: alert_type where "TypeAPIKeyRejected = ''api_key.rejected''"
definition TypeAdminDenied :: alert_type where "TypeAdminDenied = ''admin.denied''"
definition TypeAuditChainBroken :: alert_type where "TypeAuditChainBroken = ''audit.chain_broken''"
definition TypeKEKRotationOverdue :: alert_type where "TypeKEKRotationOverdue = ''kek.rotation_overdue''"
definition TypeTicketFactorOverride :: alert_type where "TypeTicketFactorOverride = ''enrolment_ticket.factor_override''"
definition TypeRiskHigh :: alert_type where "TypeRiskHigh = ''risk.high''"
definition TypeAuditSinkFailing :: alert_type where "TypeAuditSinkFailing = ''audit.sink_failing''"

lemmas type_defs =
  TypeAuthFailureSubject_def TypeAuthFailureIP_def TypeSignCountRegression_def TypeBulkRevocation_def
  TypeRecoveryExhausted_def TypeRecoveryLow_def TypeAPIKeyRejected_def TypeAdminDenied_def
  TypeAuditChainBroken_def TypeKEKRotationOverdue_def TypeTicketFactorOverride_def TypeRiskHigh_def
  TypeAuditSinkFailing_def

text \<open>The table of severities and summaries; a type without an entry has the zero values.\<close>

definition specs :: "(alert_type \<times> severity \<times> string) list" where
  "specs =
     [(TypeAuthFailureSubject, SeverityWarning, ''Repeated authentication failures for one subject''),
      (TypeAuthFailureIP, SeverityWarning, ''Repeated authentication failures from one source network''),
      (TypeSignCountRegression, SeverityWarning, ''Authenticator signature counter did not advance, the device may be cloned''),
      (TypeBulkRevocation, SeverityWarning, ''Credential revocations above the configured burst''),
      (TypeRecoveryExhausted, SeverityWarning, ''Subject has no recovery codes left''),
      (TypeRecoveryLow, SeverityInfo, ''Subject is running low on recovery codes''),
      (TypeAPIKeyRejected, SeverityWarning, ''An unknown or revoked API key is being presented repeatedly''),
      (TypeAdminDenied, SeverityWarning, ''An administrative token was denied a permission its role does not hold''),
      (TypeAuditChainBroken, SeverityCritical, ''The audit hash chain failed verification''),
      (TypeKEKRotationOverdue, SeverityInfo, ''The key encryption key is overdue for rotation''),
      (TypeTicketFactorOverride, SeverityWarning, ''An enrolment ticket was issued for a subject who already holds a factor''),
      (TypeRiskHigh, SeverityWarning, ''An authentication completed and was assessed as high risk''),
      (TypeAuditSinkFailing, SeverityWarning, ''Audit entries are not reaching the external sink'')]"

definition AllTypes :: "alert_type list" where
  "AllTypes =
     [TypeAuthFailureSubject, TypeAuthFailureIP, TypeSignCountRegression, TypeBulkRevocation,
      TypeRecoveryExhausted, TypeRecoveryLow, TypeAPIKeyRejected, TypeAdminDenied,
      TypeAuditChainBroken, TypeKEKRotationOverdue, TypeTicketFactorOverride, TypeRiskHigh,
      TypeAuditSinkFailing]"

definition Type_Severity :: "alert_type \<Rightarrow> severity" where
  "Type_Severity t = (case map_of specs t of None \<Rightarrow> [] | Some p \<Rightarrow> fst p)"

definition Type_Summary :: "alert_type \<Rightarrow> string" where
  "Type_Summary t = (case map_of specs t of None \<Rightarrow> [] | Some p \<Rightarrow> snd p)"

definition Type_Valid :: "alert_type \<Rightarrow> bool" where
  "Type_Valid t \<longleftrightarrow> map_of specs t \<noteq> None"

record alert_input =
  ai_tenant :: string
  ai_type :: alert_type
  ai_subject :: string
  ai_resource :: string
  ai_summary :: string
  ai_detail :: "(string \<times> json) list"

subsection \<open>Raising\<close>

definition fingerprintDomain :: string where "fingerprintDomain = ''n0passtemps/alerts/fingerprint/v1''"
definition fingerprintHexLen :: nat where "fingerprintHexLen = 32"

definition alert_field :: "string \<Rightarrow> bytes" where
  "alert_field s = be64 (of_nat (length s)) @ bytes_of s"

definition fingerprint_message :: "alert_input \<Rightarrow> bytes" where
  "fingerprint_message i =
     alert_field fingerprintDomain @ alert_field (ai_type i) @ alert_field (ai_tenant i)
     @ alert_field (ai_subject i) @ alert_field (ai_resource i)"

definition Fingerprint :: "(bytes \<Rightarrow> bytes) \<Rightarrow> alert_input \<Rightarrow> string" where
  "Fingerprint h i = take fingerprintHexLen (hex_encode (h (fingerprint_message i)))"

definition Raise :: "(bytes \<Rightarrow> bytes) \<Rightarrow> alert_input \<Rightarrow> (tables, alert) proc" where
  "Raise h i =
     (if \<not> Type_Valid (ai_type i) then failp (OtherErr ''alerts: unknown alert type'')
      else if ai_tenant i = [] then failp (OtherErr ''alerts: tenant id is required'')
      else bindp wall_clock (\<lambda>now. bindp uuid_new (\<lambda>uuid.
        RaiseAlert
          \<lparr>al_id = uuid, al_tenant = ai_tenant i, al_type = ai_type i, al_severity = Type_Severity (ai_type i),
           al_subject = ai_subject i, al_resource = ai_resource i,
           al_summary = (if ai_summary i = [] then Type_Summary (ai_type i) else ai_summary i),
           al_detail = (if ai_detail i = [] then [] else json_text (JObj (ai_detail i))),
           al_fingerprint = Fingerprint h i, al_occurrences = 1, al_first_seen = now, al_last_seen = now,
           al_acked = None, al_acked_by = []\<rparr>)))"

subsection \<open>The conditions the service reports\<close>

text \<open>An input with what most of them leave out.\<close>

definition condition :: "alert_type \<Rightarrow> string \<Rightarrow> alert_input" where
  "condition t tenantID =
     \<lparr>ai_tenant = tenantID, ai_type = t, ai_subject = [], ai_resource = [], ai_summary = [], ai_detail = []\<rparr>"

definition AuthFailureBurst :: "(bytes \<Rightarrow> bytes) \<Rightarrow> string \<Rightarrow> string \<Rightarrow> int \<Rightarrow> (tables, alert) proc" where
  "AuthFailureBurst h tenantID subjectID count =
     Raise h (condition TypeAuthFailureSubject tenantID\<lparr>ai_subject := subjectID,
       ai_summary := decimal_int count @ '' authentication failures for one subject inside the throttle window'',
       ai_detail := [(''failures'', JInt count)]\<rparr>)"

definition AuthFailureBurstFromNetwork :: "(bytes \<Rightarrow> bytes) \<Rightarrow> string \<Rightarrow> string \<Rightarrow> int \<Rightarrow> (tables, alert) proc" where
  "AuthFailureBurstFromNetwork h tenantID network count =
     Raise h (condition TypeAuthFailureIP tenantID\<lparr>ai_resource := network,
       ai_summary := decimal_int count @ '' authentication failures from '' @ network @ '' inside the throttle window'',
       ai_detail := [(''failures'', JInt count), (''network'', JStr network)]\<rparr>)"

definition SignCountRegression :: "(bytes \<Rightarrow> bytes) \<Rightarrow> string \<Rightarrow> string \<Rightarrow> string \<Rightarrow> 32 word \<Rightarrow> 32 word \<Rightarrow> (tables, alert) proc" where
  "SignCountRegression h tenantID subjectID credentialID stored presented =
     Raise h (condition TypeSignCountRegression tenantID\<lparr>ai_subject := subjectID,
       ai_resource := credentialID,
       ai_summary := ''Signature counter did not advance, stored '' @ decimal_int (uint stored)
         @ '' and the assertion presented '' @ decimal_int (uint presented),
       ai_detail := [(''presented_sign_count'', JInt (uint presented)), (''stored_sign_count'', JInt (uint stored))]\<rparr>)"

definition BulkRevocation :: "(bytes \<Rightarrow> bytes) \<Rightarrow> string \<Rightarrow> string \<Rightarrow> int \<Rightarrow> int \<Rightarrow> (tables, alert) proc" where
  "BulkRevocation h tenantID actorID revoked burst_size =
     Raise h (condition TypeBulkRevocation tenantID\<lparr>ai_resource := actorID,
       ai_summary := decimal_int revoked @ '' credentials revoked by one administrator, the configured burst is ''
         @ decimal_int burst_size,
       ai_detail := [(''actor_id'', JStr actorID), (''burst'', JInt burst_size), (''revoked'', JInt revoked)]\<rparr>)"

definition RecoveryExhausted :: "(bytes \<Rightarrow> bytes) \<Rightarrow> string \<Rightarrow> string \<Rightarrow> (tables, alert) proc" where
  "RecoveryExhausted h tenantID subjectID =
     Raise h (condition TypeRecoveryExhausted tenantID\<lparr>ai_subject := subjectID,
       ai_detail := [(''remaining'', JInt 0)]\<rparr>)"

definition RecoveryLow :: "(bytes \<Rightarrow> bytes) \<Rightarrow> string \<Rightarrow> string \<Rightarrow> int \<Rightarrow> int \<Rightarrow> (tables, alert) proc" where
  "RecoveryLow h tenantID subjectID remaining low =
     Raise h (condition TypeRecoveryLow tenantID\<lparr>ai_subject := subjectID,
       ai_summary := decimal_int remaining @ '' recovery codes left, the low watermark is '' @ decimal_int low,
       ai_detail := [(''low_watermark'', JInt low), (''remaining'', JInt remaining)]\<rparr>)"

definition APIKeyRejected :: "(bytes \<Rightarrow> bytes) \<Rightarrow> string \<Rightarrow> string \<Rightarrow> int \<Rightarrow> (tables, alert) proc" where
  "APIKeyRejected h tenantID selector count =
     Raise h (condition TypeAPIKeyRejected tenantID\<lparr>ai_resource := selector,
       ai_summary := ''An unknown or revoked API key was presented '' @ decimal_int count @ '' times'',
       ai_detail := [(''attempts'', JInt count), (''selector'', JStr selector)]\<rparr>)"

definition AdminDenied :: "(bytes \<Rightarrow> bytes) \<Rightarrow> string \<Rightarrow> string \<Rightarrow> string \<Rightarrow> (tables, alert) proc" where
  "AdminDenied h tenantID tokenID perm =
     Raise h (condition TypeAdminDenied tenantID\<lparr>ai_resource := tokenID,
       ai_summary := ''An administrative token was denied '' @ perm,
       ai_detail := [(''permission'', JStr perm), (''token_id'', JStr tokenID)]\<rparr>)"

definition AuditChainBroken :: "(bytes \<Rightarrow> bytes) \<Rightarrow> string \<Rightarrow> int \<Rightarrow> (tables, alert) proc" where
  "AuditChainBroken h tenantID brokenAt =
     Raise h (condition TypeAuditChainBroken tenantID\<lparr>ai_summary := ''The audit hash chain does not verify from sequence '' @ decimal_int brokenAt @ '' onwards'',
       ai_detail := [(''broken_at'', JInt brokenAt)]\<rparr>)"

definition TicketFactorOverride :: "(bytes \<Rightarrow> bytes) \<Rightarrow> string \<Rightarrow> string \<Rightarrow> string \<Rightarrow> string \<Rightarrow> int \<Rightarrow> bool \<Rightarrow> (tables, alert) proc" where
  "TicketFactorOverride h tenantID subjectID ticketID issuedBy credentials totp =
     Raise h (condition TypeTicketFactorOverride tenantID\<lparr>ai_subject := subjectID,
       ai_resource := ticketID,
       ai_summary := ''Enrolment ticket issued over an existing factor: '' @ decimal_int credentials
         @ '' active credentials, totp confirmed '' @ (if totp then ''true'' else ''false''),
       ai_detail := [(''active_credentials'', JInt credentials), (''issued_by'', JStr issuedBy),
         (''ticket_id'', JStr ticketID), (''totp_confirmed'', JBool totp)]\<rparr>)"

definition AuditSinkFailing :: "(bytes \<Rightarrow> bytes) \<Rightarrow> string \<Rightarrow> string \<Rightarrow> int \<Rightarrow> string \<Rightarrow> (tables, alert) proc" where
  "AuditSinkFailing h tenantID endpoint pending why =
     Raise h (condition TypeAuditSinkFailing tenantID\<lparr>ai_resource := endpoint,
       ai_summary := decimal_int pending @ '' audit entries are not reaching '' @ endpoint @ '': '' @ why,
       ai_detail := [(''endpoint'', JStr endpoint), (''pending'', JInt pending), (''reason'', JStr why)]\<rparr>)"

definition KEKRotationOverdue :: "(bytes \<Rightarrow> bytes) \<Rightarrow> string \<Rightarrow> string \<Rightarrow> int \<Rightarrow> int \<Rightarrow> (tables, alert) proc" where
  "KEKRotationOverdue h tenantID keyVersion age interval =
     Raise h (condition TypeKEKRotationOverdue tenantID\<lparr>ai_resource := keyVersion,
       ai_summary := ''Key version '' @ keyVersion @ '' is '' @ duration_text age @ '' old, the rotation interval is ''
         @ duration_text interval,
       ai_detail := [(''age'', JStr (duration_text age)), (''interval'', JStr (duration_text interval)),
         (''key_version'', JStr keyVersion)]\<rparr>)"

definition RiskHigh :: "(bytes \<Rightarrow> bytes) \<Rightarrow> string \<Rightarrow> string \<Rightarrow> int \<Rightarrow> string list \<Rightarrow> (tables, alert) proc" where
  "RiskHigh h tenantID subjectID score reasons =
     Raise h (condition TypeRiskHigh tenantID\<lparr>ai_subject := subjectID,
       ai_summary := ''Authentication completed at high risk, score '' @ decimal_int score @ '': '' @ joined '', '' reasons,
       ai_detail := [(''reasons'', JArr (map JStr reasons)), (''score'', JInt score)]\<rparr>)"

subsection \<open>Repeats collapse\<close>

lemma alert_field_eq: "alert_field s = writeField (bytes_of s)"
  by (simp add: alert_field_def writeField_def)

definition alert_key :: "alert_input \<Rightarrow> alert_type \<times> string \<times> string \<times> string" where
  "alert_key i = (ai_type i, ai_tenant i, ai_subject i, ai_resource i)"

lemma fingerprint_message_inject:
  assumes "\<forall>x \<in> {i, j}. framable (ai_type x) \<and> framable (ai_tenant x) \<and> framable (ai_subject x) \<and> framable (ai_resource x)"
  shows "fingerprint_message i = fingerprint_message j \<longleftrightarrow> alert_key i = alert_key j"
proof -
  have "framable fingerprintDomain" by (simp add: fingerprintDomain_def framable_def)
  with assms show ?thesis by (auto simp: fingerprint_message_def alert_key_def alert_field_eq)
qed

text \<open>The open row of a fingerprint, if there is one.\<close>

definition open_row :: "string \<Rightarrow> string \<Rightarrow> tables \<Rightarrow> alert option" where
  "open_row tid fp t = find_row (open_alert tid fp) (tb_alerts t)"

lemma open_row_unique:
  assumes "alert_inv t" and "r \<in> set (tb_alerts t)" and "open_alert tid fp r"
  shows "open_row tid fp t = Some r"
proof -
  obtain q where q: "find_row (open_alert tid fp) (tb_alerts t) = Some q"
    using assms(2,3) by (cases "find_row (open_alert tid fp) (tb_alerts t)") (auto simp: find_row_None)
  have "q \<in> set (tb_alerts t)" "open_alert tid fp q" using find_row_Some [OF q] by simp_all
  with assms have "q = r"
    by (auto simp: alert_inv_def open_alert_def distinct_map inj_on_def)
  with q show ?thesis by (simp add: open_row_def)
qed

lemma upsert_alert_Inr:
  assumes "upsert_alert a t = Inr (b, t')" and "alert_inv t" and "al_occurrences a = 1"
  shows "alert_inv t' \<and> open_row (al_tenant a) (al_fingerprint a) t' = Some b \<and> al_tenant b = al_tenant a
    \<and> al_fingerprint b = al_fingerprint a \<and> al_acked b = None
    \<and> (case open_row (al_tenant a) (al_fingerprint a) t of
         Some r \<Rightarrow> al_id b = al_id r \<and> al_occurrences b = al_occurrences r + 1
           \<and> map al_id (tb_alerts t') = map al_id (tb_alerts t)
       | None \<Rightarrow> al_id b = al_id a \<and> al_occurrences b = 1 \<and> al_id a \<notin> set (map al_id (tb_alerts t))
           \<and> map al_id (tb_alerts t') = map al_id (tb_alerts t) @ [al_id a])"
proof (cases "open_row (al_tenant a) (al_fingerprint a) t")
  case None
  let ?new = "a\<lparr>al_acked := None, al_acked_by := []\<rparr>"
  from None assms(1) have b: "b = ?new" and t': "t' = t\<lparr>tb_alerts := tb_alerts t @ [?new]\<rparr>"
    and sev: "severity_ok (al_severity a)" and fresh: "al_id a \<notin> set (map al_id (tb_alerts t))"
    by (auto simp: upsert_alert_def open_row_def Let_def list_ex_iff split: if_splits)
  have old: "\<forall>r \<in> set (tb_alerts t). \<not> open_alert (al_tenant a) (al_fingerprint a) r"
    using None by (simp add: open_row_def find_row_None)
  have inv: "alert_inv t'"
    using assms(2,3) sev fresh old by (fastforce simp: alert_inv_def t' open_alert_def)
  have "open_row (al_tenant a) (al_fingerprint a) t' = Some ?new"
    by (rule open_row_unique [OF inv]) (simp_all add: t' open_alert_def)
  with None inv fresh assms(3) b show ?thesis by (simp add: t')
next
  case (Some r)
  let ?mine = "open_alert (al_tenant a) (al_fingerprint a)"
  let ?bump = "\<lambda>r. r\<lparr>al_occurrences := al_occurrences r + 1, al_last_seen := al_last_seen a\<rparr>"
  from Some assms(1) have b: "b = ?bump r" and t': "t' = t\<lparr>tb_alerts := update_where ?mine ?bump (tb_alerts t)\<rparr>"
    by (auto simp: upsert_alert_def open_row_def Let_def split: if_splits)
  have r: "r \<in> set (tb_alerts t)" "?mine r" using find_row_Some [OF Some [unfolded open_row_def]] by simp_all
  have ids: "map al_id (tb_alerts t') = map al_id (tb_alerts t)"
    by (auto simp: t' update_where_def)
  have keys: "map f (filter (\<lambda>r. al_acked r = None) (update_where ?mine ?bump rows))
      = map f (filter (\<lambda>r. al_acked r = None) rows)" if "\<And>r. f (?bump r) = f r" for rows and f :: "alert \<Rightarrow> string \<times> string"
    using that by (induction rows) auto
  have inv: "alert_inv t'"
    using assms(2) unfolding alert_inv_def ids by (auto simp: t' keys ball_update_where)
  have "?bump r \<in> set (update_where ?mine ?bump (tb_alerts t))"
    using r unfolding update_where_def by force
  then have "open_row (al_tenant a) (al_fingerprint a) t' = Some b"
    by (intro open_row_unique [OF inv]) (use r in \<open>simp_all add: t' b open_alert_def\<close>)
  with Some r inv ids b show ?thesis by (auto simp: open_alert_def)
qed

lemma specs_severity: "Type_Valid t \<Longrightarrow> severity_ok (Type_Severity t) \<and> Type_Severity t \<noteq> []"
proof -
  have all: "\<forall>p \<in> set specs. severity_ok (fst (snd p)) \<and> fst (snd p) \<noteq> []"
    by (simp add: specs_def severity_ok_def SeverityInfo_def SeverityWarning_def SeverityCritical_def)
  assume "Type_Valid t"
  then obtain p where p: "map_of specs t = Some p" by (auto simp: Type_Valid_def)
  from bspec [OF all map_of_SomeD [OF p]] p show ?thesis by (simp add: Type_Severity_def)
qed

lemma Raise_Inr:
  assumes "Raise h i s = (Inr b, s')" and "alert_inv (os_db s)"
  shows "alert_inv (os_db s') \<and> al_acked b = None
    \<and> (\<exists>r. open_row (ai_tenant i) (Fingerprint h i) (os_db s') = Some r
         \<and> al_id r = al_id b \<and> al_occurrences r = al_occurrences b)
    \<and> (case open_row (ai_tenant i) (Fingerprint h i) (os_db s) of
         Some r \<Rightarrow> al_id b = al_id r \<and> al_occurrences b = al_occurrences r + 1
           \<and> map al_id (tb_alerts (os_db s')) = map al_id (tb_alerts (os_db s))
       | None \<Rightarrow> al_occurrences b = 1 \<and> al_id b \<notin> set (map al_id (tb_alerts (os_db s)))
           \<and> map al_id (tb_alerts (os_db s')) = map al_id (tb_alerts (os_db s)) @ [al_id b])"
proof -
  from assms(1) have valid: "Type_Valid (ai_type i)" by (auto simp: Raise_def failp_def split: if_splits)
  from assms(1) obtain a s1 where run: "RaiseAlert a s1 = (Inr b, s')" and s1: "os_db s1 = os_db s"
    and a: "al_tenant a = ai_tenant i" "al_fingerprint a = Fingerprint h i" "al_occurrences a = 1"
    by (auto simp: Raise_def failp_def bindp_Inr wall_clock_def uuid_new_def split: if_splits)
  from run obtain a' where tx: "in_tx (bindp (exec map_error (upsert_alert a')) scanAlert) s1 = (Inr b, s')"
    and a': "al_tenant a' = al_tenant a" "al_fingerprint a' = al_fingerprint a" "al_occurrences a' = 1"
    using a(3) by (auto simp: RaiseAlert_def failp_def bindp_Inr wall_clock_def Let_def split: if_splits sum.splits)
  from in_tx_exec_Inr [OF tx] obtain r s3 s2 where up: "upsert_alert a' (os_db s) = Inr (r, os_db s3)"
    and sc: "scanAlert r s3 = (Inr b, s2)" and db: "os_db s' = os_db s2" using s1 by metis
  from sc have b: "os_db s2 = os_db s3" "al_id b = al_id r" "al_occurrences b = al_occurrences r" "al_acked b = al_acked r"
    by (auto simp: scanAlert_def failp_def ret_def split: sum.splits)
  from upsert_alert_Inr [OF up assms(2) a'(3)] show ?thesis
    using a a' b db by (auto split: option.splits)
qed

text \<open>
  C37: repeats of a condition collapse onto one open alert and distinct conditions do not. If
  two alerts are raised one after the other, the second for the same type, tenant, subject and
  resource as the first, the second adds no row: it answers the row of the first with one more
  occurrence. For any other pair of conditions it answers a different row, unless the two
  fingerprints collide although the hashed messages differ.
\<close>

theorem alert_collapse:
  assumes "alert_inv (os_db s)" and "Raise h i s = (Inr a, s1)" and "Raise h j s1 = (Inr b, s2)"
    and "\<forall>x \<in> {i, j}. framable (ai_type x) \<and> framable (ai_tenant x) \<and> framable (ai_subject x) \<and> framable (ai_resource x)"
  shows "if (ai_type i, ai_tenant i, ai_subject i, ai_resource i) = (ai_type j, ai_tenant j, ai_subject j, ai_resource j)
     then al_id b = al_id a \<and> al_occurrences b = al_occurrences a + 1
       \<and> map al_id (tb_alerts (os_db s2)) = map al_id (tb_alerts (os_db s1))
     else if Fingerprint h i = Fingerprint h j then fingerprint_message i \<noteq> fingerprint_message j
     else al_id b \<noteq> al_id a"
proof -
  note one = Raise_Inr [OF assms(2,1)]
  then have inv1: "alert_inv (os_db s1)" by simp
  note two = Raise_Inr [OF assms(3) inv1]
  from one obtain r where r: "open_row (ai_tenant i) (Fingerprint h i) (os_db s1) = Some r"
    "al_id r = al_id a" "al_occurrences r = al_occurrences a" by blast
  have key: "fingerprint_message i = fingerprint_message j \<longleftrightarrow> alert_key i = alert_key j"
    by (rule fingerprint_message_inject [OF assms(4)])
  show ?thesis
  proof (cases "alert_key i = alert_key j")
    case True
    with key have "Fingerprint h j = Fingerprint h i" by (simp add: Fingerprint_def)
    with True two r show ?thesis by (simp add: alert_key_def)
  next
    case False
    have "al_id b \<noteq> al_id a" if fp: "Fingerprint h i \<noteq> Fingerprint h j"
    proof (cases "open_row (ai_tenant j) (Fingerprint h j) (os_db s1)")
      case None
      have "r \<in> set (tb_alerts (os_db s1))"
        using find_row_Some [OF r(1) [unfolded open_row_def]] by simp
      then have "al_id a \<in> set (map al_id (tb_alerts (os_db s1)))"
        using r(2) by (metis image_eqI list.set_map)
      with None two show ?thesis by auto
    next
      case (Some q)
      have "open_alert (ai_tenant i) (Fingerprint h i) r \<and> r \<in> set (tb_alerts (os_db s1))"
        "open_alert (ai_tenant j) (Fingerprint h j) q \<and> q \<in> set (tb_alerts (os_db s1))"
        using find_row_Some [OF r(1) [unfolded open_row_def]] find_row_Some [OF Some [unfolded open_row_def]] by simp_all
      with fp inv1 have "al_id q \<noteq> al_id r"
        by (auto simp: alert_inv_def open_alert_def distinct_map inj_on_def)
      with Some two r show ?thesis by simp
    qed
    with False key show ?thesis by (auto simp: alert_key_def)
  qed
qed

text \<open>Two chain failures in a row, then one key overdue for rotation.\<close>

definition demo_condition :: alert_input where "demo_condition = condition TypeRiskHigh ''t''"

definition demo_alert_hash :: "bytes \<Rightarrow> bytes" where "demo_alert_hash b = [0]"

lemma demo_fingerprint: "Fingerprint demo_alert_hash i \<noteq> []"
  by (simp add: Fingerprint_def fingerprintHexLen_def hex_encode_def hex_byte_def demo_alert_hash_def)

lemma demo_raise:
  assumes "os_faults s = []" and "open_row ''t'' (Fingerprint demo_alert_hash demo_condition) (os_db s) \<noteq> None
    \<or> tb_alerts (os_db s) = []" and "os_uuids s 0 \<noteq> []" and "\<forall>r \<in> set (tb_alerts (os_db s)). al_detail r = ''{}''"
  shows "\<exists>b s'. Raise demo_alert_hash demo_condition s = (Inr b, s') \<and> os_faults s' = []
    \<and> os_uuids s' = (\<lambda>i. os_uuids s (Suc i)) \<and> (\<forall>r \<in> set (tb_alerts (os_db s')). al_detail r = ''{}'')"
proof -
  have t: "Type_Valid TypeRiskHigh" "TypeRiskHigh \<noteq> []" "Type_Severity TypeRiskHigh = SeverityWarning"
    by (simp_all add: Type_Valid_def Type_Severity_def specs_def type_defs)
  obtain doc where doc: "decodeJSONObject ''{}'' = Inr doc"
    using encodeJSONObject_decodes [of "[]" "''{}''"] by (auto simp: encodeJSONObject_def is_ok_iff)
  have sev: "severity_ok SeverityWarning" "SeverityWarning \<noteq> []" by (simp_all add: severity_ok_def SeverityWarning_def)
  show ?thesis
    using assms t doc sev demo_fingerprint [of demo_condition]
    by (cases "open_row ''t'' (Fingerprint demo_alert_hash demo_condition) (os_db s)")
      (auto simp: Raise_def demo_condition_def condition_def bindp_def wall_clock_def uuid_new_def RaiseAlert_def Let_def
        encodeJSONObject_def in_tx_ok exec_ok ball_update_where
        upsert_alert_def open_row_def scanAlert_def ret_def failp_def dest!: find_row_Some)
qed

text \<open>The same condition twice on an empty store.\<close>

theorem alert_collapse_witness:
  "\<exists>a b s1 s2. Raise demo_alert_hash demo_condition (fresh_os 0 empty_tables) = (Inr a, s1)
     \<and> Raise demo_alert_hash demo_condition s1 = (Inr b, s2)
     \<and> al_id b = al_id a \<and> al_occurrences b = al_occurrences a + 1"
proof -
  let ?s = "fresh_os 0 empty_tables"
  have e: "tb_alerts empty_tables = []" "os_uuids ?s = (\<lambda>i. replicate (Suc i) (CHR ''u''))"
    by (simp_all add: empty_tables_def fresh_os_def)
  have inv: "alert_inv (os_db ?s)" by (simp add: alert_inv_def e)
  obtain a s1 where one: "Raise demo_alert_hash demo_condition ?s = (Inr a, s1)" "os_faults s1 = []"
    "os_uuids s1 0 \<noteq> []" "\<forall>r \<in> set (tb_alerts (os_db s1)). al_detail r = ''{}''"
    using demo_raise [of ?s] e by auto
  have "open_row ''t'' (Fingerprint demo_alert_hash demo_condition) (os_db s1) \<noteq> None"
    using Raise_Inr [OF one(1) inv] by (auto simp: demo_condition_def condition_def)
  then obtain b s2 where two: "Raise demo_alert_hash demo_condition s1 = (Inr b, s2)"
    using demo_raise [of s1] one by auto
  have "\<forall>x \<in> {demo_condition, demo_condition}. framable (ai_type x) \<and> framable (ai_tenant x)
    \<and> framable (ai_subject x) \<and> framable (ai_resource x)"
    by (simp add: demo_condition_def condition_def TypeRiskHigh_def framable_def)
  from alert_collapse [OF inv one(1) two this] one(1) two show ?thesis by auto
qed


end
