(* ===== verification/Janitor.thy ===== *)
theory Janitor
  imports Janitor_Lease Alert_Engine Recorder Subject_Store Erasure_Store Challenge_Store Ticket_Store
    Throttle_Store Approval_Store Recovery_Store
begin

text \<open>
  \<^verbatim>\<open>internal/janitor/janitor.go\<close>: one maintenance pass. A request context that runs out is a
  request that fails; log lines, and the flag that only thins them out, are left out; an error
  that joins several is the list of its parts.
\<close>

subsection \<open>State\<close>

text \<open>
  The configuration the pass reads, whether alerts are wired in, and what the keyring probe
  answers, if there is one: the key version, its age and whether its rotation is overdue.
\<close>

record janitor =
  jn_owner :: string
  jn_tenant :: string
  jn_dual_approval :: bool
  jn_window :: duration
  jn_retention_days :: int
  jn_kek_reminder :: bool
  jn_rotation_interval :: duration
  jn_alerts :: bool
  jn_probe :: "(32 word \<times> duration \<times> bool) option"

definition sweepTimeout :: duration where "sweepTimeout = 2 * 60 * second"

definition consumedRecoveryCodeRetention :: duration where
  "consumedRecoveryCodeRetention = 90 * 24 * 3600 * second"

record sweep_result =
  sw_challenges :: int
  sw_tickets :: int
  sw_throttles :: int
  sw_approvals :: int
  sw_erasures :: int
  sw_recovery :: int
  sw_audit :: int
  sw_skipped :: bool
  sw_errors :: "err list"

definition no_result :: sweep_result where
  "no_result = \<lparr>sw_challenges = 0, sw_tickets = 0, sw_throttles = 0, sw_approvals = 0, sw_erasures = 0,
     sw_recovery = 0, sw_audit = 0, sw_skipped = False, sw_errors = []\<rparr>"

definition EventErasurePurged :: string where "EventErasurePurged = ''erasure.purged''"

subsection \<open>Erasures that are due\<close>

text \<open>The entry a completed erasure leaves; its detail has its members in key order.\<close>

definition purged_event :: "erasure_request \<Rightarrow> int \<Rightarrow> event" where
  "purged_event er erased =
     \<lparr>ev_tenant = er_tenant er, ev_type = EventErasurePurged, ev_actor_type = ActorSystem, ev_actor = [],
      ev_subject = [], ev_rtype = ''erasure_request'', ev_rid = er_id er, ev_outcome = [], ev_ip = [],
      ev_request = [],
      ev_detail = (case time_json (er_requested_at er) of
          None \<Rightarrow> NotSerialisable
        | Some at \<Rightarrow> Serialised (bytes_of (json_text (JObj
            [(''erased_entries'', JInt erased), (''requested_at'', at), (''requested_by'', JStr (er_requested_by er))]))))\<rparr>"

definition purge_one ::
  "(bytes \<Rightarrow> bytes) \<Rightarrow> bool \<Rightarrow> instant \<Rightarrow> erasure_request \<Rightarrow> int \<times> err list \<Rightarrow> db \<Rightarrow> (int \<times> err list) \<times> db" where
  "purge_one h sink now er acc s =
     (case acc of (n, errs) \<Rightarrow>
      case EraseSubjectAuditEntries h (er_tenant er) (er_subject er) ''system:janitor'' now s of
        (Inl e, s1) \<Rightarrow> ((n, errs @ [e]), s1)
      | (Inr erased, s1) \<Rightarrow>
          (case PurgeSubject (er_tenant er) (er_subject er) s1 of (res, s2) \<Rightarrow>
             if res = Inl ErrStaleWrite then ((n, errs), s2)
             else if \<not> is_ok res \<and> res \<noteq> Inl ErrNotFound then ((n, errs @ [projl res]), s2)
             else (case MarkErasurePurged (er_tenant er) (er_id er) now s2 of
                 (Inl e, s3) \<Rightarrow> ((n, errs @ [e]), s3)
               | (Inr _, s3) \<Rightarrow>
                   (case Success h sink (purged_event er erased) s3 of
                      (Inl e, s4) \<Rightarrow> ((n + 1, errs @ [e]), s4)
                    | (Inr _, s4) \<Rightarrow> ((n + 1, errs), s4)))))"

fun purge_loop ::
  "(bytes \<Rightarrow> bytes) \<Rightarrow> bool \<Rightarrow> instant \<Rightarrow> erasure_request list \<Rightarrow> int \<times> err list \<Rightarrow> db \<Rightarrow> (int \<times> err list) \<times> db" where
  "purge_loop h sink now [] acc s = (acc, s)"
| "purge_loop h sink now (er # due) acc s =
     (case purge_one h sink now er acc s of (acc', s') \<Rightarrow> purge_loop h sink now due acc' s')"

definition purgeDueErasures :: "(bytes \<Rightarrow> bytes) \<Rightarrow> bool \<Rightarrow> instant \<Rightarrow> db \<Rightarrow> (int \<times> err list) \<times> db" where
  "purgeDueErasures h sink now s =
     (case ListDueErasures now 100 s of
        (Inl e, s1) \<Rightarrow> ((0, [e]), s1)
      | (Inr due, s1) \<Rightarrow> purge_loop h sink now due (0, []) s1)"

subsection \<open>The other sweeps\<close>

definition pruneConsumedRecoveryCodes :: "instant \<Rightarrow> (tables, int) proc" where
  "pruneConsumedRecoveryCodes now = DeleteConsumedRecoveryCodes (now - consumedRecoveryCodeRetention)"

text \<open>A day of \<^verbatim>\<open>AddDate\<close> is 24 hours, since the instant is in UTC.\<close>

definition pruneAudit :: "(bytes \<Rightarrow> bytes) \<Rightarrow> janitor \<Rightarrow> instant \<Rightarrow> (tables, int) proc" where
  "pruneAudit h j now =
     (if jn_retention_days j \<le> 0 then ret 0
      else PruneAuditLog h (jn_tenant j) (now - jn_retention_days j * 86400 * second) now)"

definition checkKEK :: "(bytes \<Rightarrow> bytes) \<Rightarrow> janitor \<Rightarrow> db \<Rightarrow> db" where
  "checkKEK h j s =
     (case jn_probe j of
        None \<Rightarrow> s
      | Some (version, age, overdue) \<Rightarrow>
          if \<not> jn_alerts j \<or> \<not> jn_kek_reminder j \<or> \<not> overdue then s
          else snd (KEKRotationOverdue h (jn_tenant j) (decimal_int (uint version)) age (jn_rotation_interval j) s))"

text \<open>One sweep of the pass: run it, then record its count or its error.\<close>

definition sweep_step ::
  "(tables, int) proc \<Rightarrow> (int \<Rightarrow> sweep_result \<Rightarrow> sweep_result) \<Rightarrow> sweep_result \<times> db \<Rightarrow> sweep_result \<times> db" where
  "sweep_step m put c =
     (case c of (res, s) \<Rightarrow>
      case m s of
        (Inl e, s') \<Rightarrow> (res\<lparr>sw_errors := sw_errors res @ [e]\<rparr>, s')
      | (Inr n, s') \<Rightarrow> (put n res, s'))"

definition throttleCutoff :: "janitor \<Rightarrow> instant \<Rightarrow> instant" where
  "throttleCutoff j now = now + wrap64 (- 4 * jn_window j)"

definition sweep_body :: "(bytes \<Rightarrow> bytes) \<Rightarrow> bool \<Rightarrow> janitor \<Rightarrow> instant \<Rightarrow> db \<Rightarrow> sweep_result \<times> db" where
  "sweep_body h sink j now s =
     (let c1 = sweep_step (DeleteExpiredChallenges now) (\<lambda>n r. r\<lparr>sw_challenges := n\<rparr>) (no_result, s);
          c2 = sweep_step (DeleteExpiredEnrolmentTickets now) (\<lambda>n r. r\<lparr>sw_tickets := n\<rparr>) c1;
          c3 = sweep_step (DeleteStaleThrottles (throttleCutoff j now)) (\<lambda>n r. r\<lparr>sw_throttles := n\<rparr>) c2;
          c4 = (if jn_dual_approval j
                then sweep_step (ExpireApprovals now) (\<lambda>n r. r\<lparr>sw_approvals := n\<rparr>) c3 else c3);
          c5 = (case purgeDueErasures h sink now (snd c4) of
             ((n, errs), s5) \<Rightarrow> ((fst c4)\<lparr>sw_erasures := n, sw_errors := sw_errors (fst c4) @ errs\<rparr>, s5));
          c6 = sweep_step (pruneConsumedRecoveryCodes now) (\<lambda>n r. r\<lparr>sw_recovery := n\<rparr>) c5;
          c7 = sweep_step (pruneAudit h j now) (\<lambda>n r. r\<lparr>sw_audit := n\<rparr>) c6 in
      (fst c7, checkKEK h j (snd c7)))"

text \<open>The pass: the lease is given back whatever happened, and a failure to do so is only logged.\<close>

definition Sweep :: "(bytes \<Rightarrow> bytes) \<Rightarrow> bool \<Rightarrow> janitor \<Rightarrow> db \<Rightarrow> sweep_result \<times> db" where
  "Sweep h sink j s =
     (let now = os_wall s in
      case TryAcquireJanitorLock (jn_owner j) now sweepTimeout s of
        (Inl e, s1) \<Rightarrow>
          if e = ErrLockHeld then (no_result\<lparr>sw_skipped := True\<rparr>, s1)
          else (no_result\<lparr>sw_skipped := True, sw_errors := [e]\<rparr>, s1)
      | (Inr lock, s1) \<Rightarrow>
          (case sweep_body h sink j now s1 of
             (res, s2) \<Rightarrow> (res, snd (ReleaseLock lock s2))))"

end
