(* ===== verification/Janitor_Properties.thy ===== *)
theory Janitor_Properties
  imports Janitor Audit_Properties
begin

text \<open>
  What a maintenance pass achieves: completed erasures leave no trace of the subject, and a pass
  without an error leaves nothing behind that had expired.
\<close>

subsection \<open>Completed erasures\<close>

lemma map_error_NotFound: "map_error e = ErrNotFound \<longleftrightarrow> e = NoRows"
  by (cases e) auto

lemma exec_NotFound:
  "exec map_error body s = (Inl ErrNotFound, s') \<Longrightarrow> body (os_db s) = Inl NoRows \<and> os_db s' = os_db s"
  by (auto simp: exec_def map_error_NotFound simp del: map_error.simps
      split: prod.splits option.splits sum.splits dest!: pop_fault_frame)

lemma exec_raw_NotFound: "exec raw_error body s \<noteq> (Inl ErrNotFound, s')"
  by (auto simp: exec_def raw_error_neq simp del: raw_error.simps split: prod.splits option.splits sum.splits)

lemma PurgeSubject_NotFound:
  assumes "PurgeSubject tid i s = (Inl ErrNotFound, s')"
  shows "\<forall>r \<in> set (tb_subjects (os_db s)). \<not> (sb_tenant r = tid \<and> sb_id r = i)"
  using assms
  by (auto simp: exec_raw_NotFound PurgeSubject_def failp_def in_tx_def bindp_def query_def ret_def rows_delete_def rows_update_def
      delete_subjects_def Let_def find_row_None split: prod.splits option.splits sum.splits if_splits
      dest!: exec_NotFound exec_Inr pop_fault_frame)






















lemma purge_audit_cong:
  "tb_audit t' = tb_audit t \<Longrightarrow> tb_checkpoints t' = tb_checkpoints t \<Longrightarrow> audit_inv h t' = audit_inv h t"
  by (simp add: audit_inv_def attested_def last_checkpoint_def watermark_def start_hash_def)












lemma erase_first:
  assumes "os_faults s = []" and "tb_audit (os_db s) = []" and "tb_checkpoints (os_db s) = []"
    and "tenantID \<noteq> []" and "subjectID \<noteq> []"
  shows "\<exists>x s'. EraseSubjectAuditEntries h tenantID subjectID actorID now s = (Inr 0, s')
    \<and> os_faults s' = [] \<and> os_db s' = (os_db s)\<lparr>tb_audit := [x]\<rparr>"
proof -
  let ?e = "tombstone tenantID subjectID actorID now 0"
  let ?x = "sealed_with h (os_rand s) ?e (os_db s)"
  have same: "(os_db s)\<lparr>tb_audit := []\<rparr> = os_db s" using assms(2) by (metis tables.surjective tables.update_convs(9))
  have "chain_head h (os_db s) = (0, Genesis h)"
    using assms(2,3) by (simp add: chain_head_def last_row_def watermark_def start_hash_def last_checkpoint_def)
  then have "audit_insert ?x (os_db s) = Inr ((), (os_db s)\<lparr>tb_audit := [?x]\<rparr>)"
    using assms(2) by (simp add: audit_insert_def insert_row_def audit_row_ok_def max_int64_def tombstone_def
        ActorAdmin_def OutcomeSuccess_def)
  then have "EraseSubjectAuditEntries h tenantID subjectID actorID now s
      = (Inr 0, s\<lparr>os_rand := (\<lambda>i. os_rand s (i + SaltSize)), os_db := (os_db s)\<lparr>tb_audit := [?x]\<rparr>\<rparr>)"
    using assms by (simp add: erase_ok count_where_def Let_def same)
  then show ?thesis using assms(1) by (intro exI [of _ ?x]) simp
qed



text \<open>
  C36: a subject restored after the due requests were listed loses its audit record. When the
  sweep reaches a listed request whose subject is no longer pending deletion and meets no
  error, it leaves the subject and the request as they are and counts nothing, but every audit
  entry that named the subject has by then lost its personal fields: they are erased before
  the purge looks at the state of the subject.
\<close>

theorem janitor_restored_subject:
  assumes "audit_inv h (os_db s)" and "sub \<in> set (tb_subjects (os_db s))"
    and "sb_tenant sub = er_tenant er" and "sb_id sub = er_subject er"
    and "\<forall>r \<in> set (tb_subjects (os_db s)). sb_tenant r = er_tenant er \<and> sb_id r = er_subject er \<longrightarrow> sb_deleted r = None"
    and "purge_one h sink now er (n, errs) s = ((n', errs), s')"
  shows "n' = n \<and> tb_subjects (os_db s') = tb_subjects (os_db s) \<and> tb_erasures (os_db s') = tb_erasures (os_db s)
    \<and> (\<forall>x \<in> set (tb_audit (os_db s')). \<not> (ae_tenant x = er_tenant er \<and> ae_subject x = er_subject er))"
proof -
  obtain erased s1 where e: "EraseSubjectAuditEntries h (er_tenant er) (er_subject er) ''system:janitor'' now s = (Inr erased, s1)"
    using assms(6) by (auto simp: purge_one_def split: prod.splits sum.splits)
  from erasure_run [OF assms(1) e] obtain rows where db1: "os_db s1 = (os_db s)\<lparr>tb_audit := rows\<rparr>"
    and gone: "\<forall>x \<in> set (tb_audit (os_db s1)). \<not> (ae_tenant x = er_tenant er \<and> ae_subject x = er_subject er)" by blast
  obtain res s2 where p: "PurgeSubject (er_tenant er) (er_subject er) s1 = (res, s2)" by fastforce
  have "\<not> is_ok res"
  proof
    assume "is_ok res"
    then obtain u where "PurgeSubject (er_tenant er) (er_subject er) s1 = (Inr u, s2)" using p by (auto simp: is_ok_iff)
    from PurgeSubject_Inr [OF this] assms(5) db1 show False by fastforce
  qed
  then obtain er2 where res: "res = Inl er2" by (cases res) auto
  with p have db2: "os_db s2 = os_db s1" using PurgeSubject_Inl by blast
  have "er2 \<noteq> ErrNotFound"
    using p res PurgeSubject_NotFound [of "er_tenant er" "er_subject er" s1 s2] assms(2-4) db1 by auto
  then have "n' = n \<and> s' = s2"
    using assms(6) e p res by (auto simp: purge_one_def split: if_splits)
  with db1 db2 gone show ?thesis by simp
qed

subsection \<open>A pass without errors\<close>

text \<open>Nothing the pass removes from comes back later in the pass.\<close>

definition shrunk :: "tables \<Rightarrow> tables \<Rightarrow> bool" where
  "shrunk t t' \<longleftrightarrow> set (tb_challenges t') \<subseteq> set (tb_challenges t)
     \<and> set (tb_admin_challenges t') \<subseteq> set (tb_admin_challenges t) \<and> set (tb_tickets t') \<subseteq> set (tb_tickets t)
     \<and> set (tb_throttle t') \<subseteq> set (tb_throttle t) \<and> set (tb_recovery t') \<subseteq> set (tb_recovery t)
     \<and> {r \<in> set (tb_approvals t'). ap_status r = ApprovalPending} \<subseteq> set (tb_approvals t)"

lemma shrunk_refl [simp]: "shrunk t t" by (auto simp: shrunk_def)

lemma shrunk_trans: "shrunk t u \<Longrightarrow> shrunk u v \<Longrightarrow> shrunk t v" by (fastforce simp: shrunk_def)

lemma shrunk_audit [simp]:
  "shrunk t (u\<lparr>tb_audit := x\<rparr>) = shrunk t u" "shrunk t (u\<lparr>tb_checkpoints := y\<rparr>) = shrunk t u"
  "shrunk t (u\<lparr>tb_alerts := z\<rparr>) = shrunk t u" "shrunk t (tb_erasures_update f u) = shrunk t u"
  "shrunk t (tb_leases_update g u) = shrunk t u"
  by (simp_all add: shrunk_def)

lemma in_delete_where: "r \<in> set (delete_where p rows) \<longleftrightarrow> r \<in> set rows \<and> \<not> p r"
  by (auto simp: delete_where_def)

lemma shrunk_delete:
  "shrunk t u \<Longrightarrow> shrunk t (tb_challenges_update (delete_where p1) u)"
  "shrunk t u \<Longrightarrow> shrunk t (tb_admin_challenges_update (delete_where p2) u)"
  "shrunk t u \<Longrightarrow> shrunk t (tb_tickets_update (delete_where p3) u)"
  "shrunk t u \<Longrightarrow> shrunk t (tb_throttle_update (delete_where p4) u)"
  "shrunk t u \<Longrightarrow> shrunk t (tb_recovery_update (delete_where p5) u)"
  "shrunk t u \<Longrightarrow> shrunk t (purged tid i u)"
  by (auto simp: shrunk_def in_delete_where purged_def)

lemma keeps_shrunk_exec: "(\<And>u x u'. body u = Inr (x, u') \<Longrightarrow> shrunk u u') \<Longrightarrow> keeps (shrunk t) (exec wrap body)"
  by (rule keeps_exec) (blast intro: shrunk_trans)

lemma keeps_shrunk_guarded: "(\<And>u x u'. body u = Inr (x, u') \<Longrightarrow> shrunk u u') \<Longrightarrow> keeps (shrunk t) (guarded body present)"
  by (rule keeps_guarded) (blast intro: shrunk_trans)

lemma pending_expired: "ApprovalExpired \<noteq> ApprovalPending"
  by simp

lemma shrunk_statements:
  "rows_delete tb_challenges tb_challenges_update p1 u = Inr (n, u') \<Longrightarrow> shrunk u u'"
  "rows_delete tb_admin_challenges tb_admin_challenges_update p2 u = Inr (n, u') \<Longrightarrow> shrunk u u'"
  "rows_delete tb_tickets tb_tickets_update p3 u = Inr (n, u') \<Longrightarrow> shrunk u u'"
  "rows_delete tb_recovery tb_recovery_update p4 u = Inr (n, u') \<Longrightarrow> shrunk u u'"
  "rows_delete tb_leases tb_leases_update p5 u = Inr (n, u') \<Longrightarrow> shrunk u u'"
  "delete_buckets p6 u = Inr (n, u') \<Longrightarrow> shrunk u u'"
  "rows_update tb_erasures tb_erasures_update p7 f7 u = Inr (n, u') \<Longrightarrow> shrunk u u'"
  "rows_update tb_approvals tb_approvals_update p8 (\<lambda>r. r\<lparr>ap_status := ApprovalExpired\<rparr>) u = Inr (n, u') \<Longrightarrow> shrunk u u'"
  by (auto simp: shrunk_def delete_buckets_def update_where_def in_delete_where pending_expired)

lemma keeps_shrunk [intro]:
  "keeps (shrunk t) (DeleteExpiredChallenges now)" "keeps (shrunk t) (DeleteExpiredEnrolmentTickets now)"
  "keeps (shrunk t) (DeleteStaleThrottles cutoff)" "keeps (shrunk t) (ExpireApprovals now)"
  "keeps (shrunk t) (DeleteConsumedRecoveryCodes cutoff)" "keeps (shrunk t) (ReleaseLock owner)"
  "keeps (shrunk t) (MarkErasurePurged tid i now)"
  unfolding DeleteExpiredChallenges_def DeleteExpiredEnrolmentTickets_def DeleteStaleThrottles_def ExpireApprovals_def
    DeleteConsumedRecoveryCodes_def ReleaseLock_def MarkErasurePurged_def
  by (intro keeps_in_tx_of keeps_bindp keeps_ret keeps_failp keeps_if keeps_shrunk_exec keeps_shrunk_guarded;
      erule shrunk_statements)+

lemma keeps_shrunk_audit [intro]:
  "keeps (shrunk t) (chain_entry h e)" "keeps (shrunk t) (Record_event h sink ev)"
  "keeps (shrunk t) (EraseSubjectAuditEntries h tid i actor now)" "keeps (shrunk t) (PruneAuditLog h tid cutoff now)"
proof -
  have ins: "audit_insert r u = Inr (x, u') \<Longrightarrow> shrunk u u'" "audit_update p f u = Inr (n, u') \<Longrightarrow> shrunk u u'"
    "audit_delete p u = Inr (n, u') \<Longrightarrow> shrunk u u'" "checkpoint_insert c u = Inr (x, u') \<Longrightarrow> shrunk u u'" for r u x u' p f n c
    by (auto simp: audit_insert_def audit_update_def audit_delete_def checkpoint_insert_def split: sum.splits if_splits)
  have chain: "keeps (shrunk t) (chain_entry h e)" for e
    unfolding chain_entry_def chainHeadTx_def Prepare_def NewSalt_def case_prod_beta
    by (intro keeps_bindp keeps_query keeps_ret keeps_if keeps_rand_read keeps_failp keeps_shrunk_exec;
        auto simp: Let_def intro!: keeps_bindp keeps_query keeps_ret keeps_rand_read intro: ins split: option.split)
  show "keeps (shrunk t) (chain_entry h e)" by (rule chain)
  show "keeps (shrunk t) (Record_event h sink ev)"
    unfolding Record_event_def Append_def Let_def
    by (intro keeps_bindp keeps_wall_clock keeps_if keeps_failp keeps_in_tx_of chain keeps_ret)
  show "keeps (shrunk t) (EraseSubjectAuditEntries h tid i actor now)"
    unfolding EraseSubjectAuditEntries_def
    by (intro keeps_bindp keeps_if keeps_failp keeps_in_tx_of chain keeps_ret keeps_shrunk_exec ins)
  show "keeps (shrunk t) (PruneAuditLog h tid cutoff now)"
    unfolding PruneAuditLog_def prune_at_def Let_def
    by (intro keeps_bindp keeps_if keeps_failp keeps_in_tx_of keeps_query chain keeps_ret keeps_shrunk_exec ins keeps_uuid_new;
        auto intro!: keeps_bindp keeps_query chain keeps_uuid_new keeps_shrunk_exec dest: ins split: option.split)
qed

lemma keeps_shrunk_alert [intro]: "keeps (shrunk t) (KEKRotationOverdue h tid v age interval)"
proof -
  have up: "upsert_alert a u = Inr (x, u') \<Longrightarrow> shrunk u u'" for a u x u'
    by (auto simp: upsert_alert_def Let_def split: option.splits if_splits)
  have scan: "keeps (shrunk t) (scanAlert r)" for r
    by (auto simp: scanAlert_def split: sum.split)
  have tx: "keeps (shrunk t) (in_tx (bindp (exec map_error (upsert_alert a)) scanAlert))" for a
    by (intro keeps_in_tx_of keeps_bindp keeps_shrunk_exec scan up)
  have raise: "keeps (shrunk t) (RaiseAlert a)" for a
    unfolding RaiseAlert_def Let_def
    by (auto intro!: keeps_if keeps_failp keeps_bindp keeps_wall_clock tx split: sum.split)
  show ?thesis
    unfolding KEKRotationOverdue_def Raise_def
    by (intro keeps_if keeps_failp keeps_bindp keeps_wall_clock keeps_uuid_new raise)
qed

lemma PurgeSubject_shrunk: "PurgeSubject tid i s = (r, s') \<Longrightarrow> shrunk (os_db s) (os_db s')"
  using shrunk_delete(6) [OF shrunk_refl] by (cases r) (auto dest: PurgeSubject_Inl PurgeSubject_Inr)

lemma shrunkD: "(\<And>t. keeps (shrunk t) m) \<Longrightarrow> m s = (r, s') \<Longrightarrow> shrunk (os_db s) (os_db s')"
  by (meson keepsD shrunk_refl)

lemma purge_one_shrunk: "purge_one h sink now er acc s = (acc', s') \<Longrightarrow> shrunk (os_db s) (os_db s')"
  by (auto simp: purge_one_def Success_def split: prod.splits sum.splits if_splits
      dest!: shrunkD [OF keeps_shrunk_audit(3)] shrunkD [OF keeps_shrunk_audit(2)] shrunkD [OF keeps_shrunk(7)]
        PurgeSubject_shrunk intro: shrunk_trans)

lemma purgeDueErasures_shrunk: "purgeDueErasures h sink now s = (acc, s') \<Longrightarrow> shrunk (os_db s) (os_db s')"
proof -
  have loop: "purge_loop h sink now due a u = (a', u') \<Longrightarrow> shrunk (os_db u) (os_db u')" for due a u a' u'
    by (induction due arbitrary: a u) (auto split: prod.splits dest: purge_one_shrunk intro: shrunk_trans)
  assume "purgeDueErasures h sink now s = (acc, s')"
  then show ?thesis
    by (auto simp: purgeDueErasures_def ListDueErasures_def split: prod.splits sum.splits dest!: query_frame dest: loop)
qed


lemma sweep_step_ok:
  assumes "c' = sweep_step m put c" and "sw_errors (fst c') = []" and "\<And>n r. sw_errors (put n r) = sw_errors r"
  shows "sw_errors (fst c) = [] \<and> (\<exists>n. m (snd c) = (Inr n, snd c'))"
  using assms by (auto simp: sweep_step_def split: prod.splits sum.splits)

lemma sweep_step_shrunk:
  "(\<And>t. keeps (shrunk t) m) \<Longrightarrow> shrunk (os_db (snd c)) (os_db (snd (sweep_step m put c)))"
  by (auto simp: sweep_step_def split: prod.splits sum.splits intro: shrunkD)

text \<open>What each sweep has removed when it succeeds.\<close>

definition throttle_kept :: "instant \<Rightarrow> throttle_state \<Rightarrow> bool" where
  "throttle_kept cutoff r \<longleftrightarrow> cutoff \<le> th_updated r \<or> (\<exists>u. th_blocked r = Some u \<and> cutoff \<le> u)"

lemma swept:
  "DeleteExpiredChallenges now s = (Inr n, s') \<Longrightarrow>
     (\<forall>r \<in> set (tb_challenges (os_db s')). now \<le> ch_expires r) \<and> (\<forall>r \<in> set (tb_admin_challenges (os_db s')). now \<le> ac_expires r)"
  "DeleteExpiredEnrolmentTickets now s = (Inr n, s') \<Longrightarrow> \<forall>r \<in> set (tb_tickets (os_db s')). now \<le> et_expires r"
  "DeleteStaleThrottles cutoff s = (Inr n, s') \<Longrightarrow> \<forall>r \<in> set (tb_throttle (os_db s')). throttle_kept cutoff r"
  "ExpireApprovals now s = (Inr n, s') \<Longrightarrow>
     \<forall>r \<in> set (tb_approvals (os_db s')). ap_status r = ApprovalPending \<longrightarrow> now \<le> ap_expires r"
  "DeleteConsumedRecoveryCodes cutoff s = (Inr n, s') \<Longrightarrow>
     \<forall>r \<in> set (tb_recovery (os_db s')). \<forall>at. rc_consumed r = Some at \<longrightarrow> cutoff \<le> at"
proof -
  show "DeleteExpiredChallenges now s = (Inr n, s') \<Longrightarrow> (\<forall>r \<in> set (tb_challenges (os_db s')). now \<le> ch_expires r)
      \<and> (\<forall>r \<in> set (tb_admin_challenges (os_db s')). now \<le> ac_expires r)"
    unfolding DeleteExpiredChallenges_def
    by (erule in_tx_exec_Inr) (auto simp: bindp_Inr ret_def in_delete_where dest!: exec_Inr)
qed (auto simp: DeleteExpiredEnrolmentTickets_def DeleteStaleThrottles_def ExpireApprovals_def DeleteConsumedRecoveryCodes_def
    delete_buckets_def in_delete_where throttle_kept_def update_where_def split: option.splits
    dest!: exec_Inr sym [of _ "os_db s'"])

lemma shrunk_keeps:
  "shrunk t t' \<Longrightarrow> \<forall>r \<in> set (tb_challenges t). P1 r \<Longrightarrow> \<forall>r \<in> set (tb_challenges t'). P1 r"
  "shrunk t t' \<Longrightarrow> \<forall>r \<in> set (tb_admin_challenges t). P2 r \<Longrightarrow> \<forall>r \<in> set (tb_admin_challenges t'). P2 r"
  "shrunk t t' \<Longrightarrow> \<forall>r \<in> set (tb_tickets t). P3 r \<Longrightarrow> \<forall>r \<in> set (tb_tickets t'). P3 r"
  "shrunk t t' \<Longrightarrow> \<forall>r \<in> set (tb_throttle t). P4 r \<Longrightarrow> \<forall>r \<in> set (tb_throttle t'). P4 r"
  "shrunk t t' \<Longrightarrow> \<forall>r \<in> set (tb_recovery t). P5 r \<Longrightarrow> \<forall>r \<in> set (tb_recovery t'). P5 r"
  "shrunk t t' \<Longrightarrow> \<forall>r \<in> set (tb_approvals t). ap_status r = ApprovalPending \<longrightarrow> P6 r \<Longrightarrow>
     \<forall>r \<in> set (tb_approvals t'). ap_status r = ApprovalPending \<longrightarrow> P6 r"
  by (auto simp: shrunk_def)

definition nothing_expired :: "janitor \<Rightarrow> instant \<Rightarrow> tables \<Rightarrow> bool" where
  "nothing_expired j now t \<longleftrightarrow>
     (\<forall>r \<in> set (tb_challenges t). now \<le> ch_expires r) \<and> (\<forall>r \<in> set (tb_admin_challenges t). now \<le> ac_expires r)
     \<and> (\<forall>r \<in> set (tb_tickets t). now \<le> et_expires r)
     \<and> (\<forall>r \<in> set (tb_throttle t). throttle_kept (throttleCutoff j now) r)
     \<and> (jn_dual_approval j \<longrightarrow> (\<forall>r \<in> set (tb_approvals t). ap_status r = ApprovalPending \<longrightarrow> now \<le> ap_expires r))
     \<and> (\<forall>r \<in> set (tb_recovery t). \<forall>at. rc_consumed r = Some at \<longrightarrow> now - consumedRecoveryCodeRetention \<le> at)"

lemma sweep_body_complete:
  assumes "sweep_body h sink j now s = (res, s')" and "sw_errors res = []"
  shows "nothing_expired j now (os_db s')"
proof -
  define c1 where "c1 = sweep_step (DeleteExpiredChallenges now) (\<lambda>n r. r\<lparr>sw_challenges := n\<rparr>) (no_result, s)"
  define c2 where "c2 = sweep_step (DeleteExpiredEnrolmentTickets now) (\<lambda>n r. r\<lparr>sw_tickets := n\<rparr>) c1"
  define c3 where "c3 = sweep_step (DeleteStaleThrottles (throttleCutoff j now)) (\<lambda>n r. r\<lparr>sw_throttles := n\<rparr>) c2"
  define c4 where "c4 = (if jn_dual_approval j
     then sweep_step (ExpireApprovals now) (\<lambda>n r. r\<lparr>sw_approvals := n\<rparr>) c3 else c3)"
  obtain n errs s5 where p: "purgeDueErasures h sink now (snd c4) = ((n, errs), s5)" by (metis surj_pair)
  define c5 where "c5 = ((fst c4)\<lparr>sw_erasures := n, sw_errors := sw_errors (fst c4) @ errs\<rparr>, s5)"
  define c6 where "c6 = sweep_step (pruneConsumedRecoveryCodes now) (\<lambda>n r. r\<lparr>sw_recovery := n\<rparr>) c5"
  define c7 where "c7 = sweep_step (pruneAudit h j now) (\<lambda>n r. r\<lparr>sw_audit := n\<rparr>) c6"
  have "sweep_body h sink j now s = (fst c7, checkKEK h j (snd c7))"
    unfolding sweep_body_def Let_def c1_def [symmetric] c2_def [symmetric] c3_def [symmetric] c4_def [symmetric]
      p prod.case c5_def [symmetric] c6_def [symmetric] c7_def [symmetric] by (rule refl)
  with assms(1) have res: "res = fst c7" and s': "s' = checkKEK h j (snd c7)" by simp_all
  have e7: "sw_errors (fst c6) = []"
    using sweep_step_ok [OF c7_def] assms(2) res by simp
  have e6: "sw_errors (fst c5) = []" and r6: "\<exists>n. pruneConsumedRecoveryCodes now (snd c5) = (Inr n, snd c6)"
    using sweep_step_ok [OF c6_def e7] by simp_all
  have e4: "sw_errors (fst c4) = []" using e6 by (simp add: c5_def)
  have "sw_errors (fst c3) = [] \<and> (jn_dual_approval j \<longrightarrow> (\<exists>n. ExpireApprovals now (snd c3) = (Inr n, snd c4)))"
  proof (cases "jn_dual_approval j")
    case True
    then have "c4 = sweep_step (ExpireApprovals now) (\<lambda>n r. r\<lparr>sw_approvals := n\<rparr>) c3" unfolding c4_def by (rule if_P)
    from sweep_step_ok [OF this e4] show ?thesis by simp
  next
    case False
    then have "c4 = c3" unfolding c4_def by (rule if_not_P)
    with e4 False show ?thesis by simp
  qed
  then have e3: "sw_errors (fst c3) = []" and r4: "jn_dual_approval j \<longrightarrow> (\<exists>n. ExpireApprovals now (snd c3) = (Inr n, snd c4))"
    by blast+
  have e2: "sw_errors (fst c2) = []" and r3: "\<exists>n. DeleteStaleThrottles (throttleCutoff j now) (snd c2) = (Inr n, snd c3)"
    using sweep_step_ok [OF c3_def e3] by simp_all
  have e1: "sw_errors (fst c1) = []" and r2: "\<exists>n. DeleteExpiredEnrolmentTickets now (snd c1) = (Inr n, snd c2)"
    using sweep_step_ok [OF c2_def e2] by simp_all
  have r1: "\<exists>n. DeleteExpiredChallenges now s = (Inr n, snd c1)"
    using sweep_step_ok [OF c1_def e1] by simp
  have k7: "keeps (shrunk t) (pruneAudit h j now)" "keeps (shrunk t) (pruneConsumedRecoveryCodes now)" for t
    unfolding pruneAudit_def pruneConsumedRecoveryCodes_def by (auto intro: keeps_if keeps_ret)
  have m7: "shrunk (os_db (snd c7)) (os_db s')"
    unfolding s' checkKEK_def using keeps_shrunk_alert
    by (auto split: option.split intro: shrunkD [OF keeps_shrunk_alert] simp: prod_eq_iff)
  have m6: "shrunk (os_db (snd c6)) (os_db s')"
    using sweep_step_shrunk [OF k7(1)] m7 unfolding c7_def by (blast intro: shrunk_trans)
  have m5: "shrunk (os_db (snd c5)) (os_db s')"
    using sweep_step_shrunk [OF k7(2)] m6 unfolding c6_def by (blast intro: shrunk_trans)
  have m4: "shrunk (os_db (snd c4)) (os_db s')"
    using purgeDueErasures_shrunk [OF p] m5 by (auto simp: c5_def intro: shrunk_trans)
  have m3: "shrunk (os_db (snd c3)) (os_db s')"
    using sweep_step_shrunk [OF keeps_shrunk(4), of c3 now "\<lambda>n r. r\<lparr>sw_approvals := n\<rparr>"] m4
    unfolding c4_def by (cases "jn_dual_approval j") (simp_all, blast intro: shrunk_trans)
  have m2: "shrunk (os_db (snd c2)) (os_db s')"
    using sweep_step_shrunk [OF keeps_shrunk(3)] m3 unfolding c3_def by (blast intro: shrunk_trans)
  have m1: "shrunk (os_db (snd c1)) (os_db s')"
    using sweep_step_shrunk [OF keeps_shrunk(2)] m2 unfolding c2_def by (blast intro: shrunk_trans)
  from r1 r2 r3 r4 r6 obtain n1 n2 n3 n6 where w:
    "DeleteExpiredChallenges now s = (Inr n1, snd c1)" "DeleteExpiredEnrolmentTickets now (snd c1) = (Inr n2, snd c2)"
    "DeleteStaleThrottles (throttleCutoff j now) (snd c2) = (Inr n3, snd c3)"
    "DeleteConsumedRecoveryCodes (now - consumedRecoveryCodeRetention) (snd c5) = (Inr n6, snd c6)"
    by (auto simp: pruneConsumedRecoveryCodes_def)
  have "jn_dual_approval j \<longrightarrow> (\<forall>r \<in> set (tb_approvals (os_db s')). ap_status r = ApprovalPending \<longrightarrow> now \<le> ap_expires r)"
    using r4 shrunk_keeps(6) [OF m4 swept(4)] by blast
  then show ?thesis
    unfolding nothing_expired_def
    by (intro conjI shrunk_keeps(1) [OF m1 conjunct1 [OF swept(1) [OF w(1)]]]
        shrunk_keeps(2) [OF m1 conjunct2 [OF swept(1) [OF w(1)]]] shrunk_keeps(3) [OF m2 swept(2) [OF w(2)]]
        shrunk_keeps(4) [OF m3 swept(3) [OF w(3)]] shrunk_keeps(5) [OF m6 swept(5) [OF w(4)]])
qed


lemma sweep_step_skipped:
  "(\<And>n r. sw_skipped (put n r) = sw_skipped r) \<Longrightarrow> sw_skipped (fst (sweep_step m put c)) = sw_skipped (fst c)"
  by (simp add: sweep_step_def split: prod.split sum.split)

lemma sweep_body_skipped: "\<not> sw_skipped (fst (sweep_body h sink j now s))"
  by (simp add: sweep_body_def Let_def sweep_step_skipped case_prod_beta no_result_def)

lemma TryAcquire_Inl_db: "TryAcquireJanitorLock owner at lease s = (Inl e, s') \<Longrightarrow> os_db s' = os_db s"
  by (auto simp: TryAcquireJanitorLock_def failp_def bindp_def ret_def Let_def wall_clock_def takeJanitorLease_def
      split: if_splits prod.splits sum.splits option.splits dest!: exec_Inl exec_Inr)

text \<open>
  C34: a pass that reports no error has cleared everything that was due, and a skipped pass has
  changed nothing. After a pass without errors no challenge, administrator challenge or ticket
  past its expiry is left, no throttle bucket that has been quiet and unblocked for four
  windows, no pending approval past its expiry when dual approval is on, and no recovery code
  spent more than ninety days ago; nothing a later sweep of the same pass does brings one back.
\<close>

theorem sweep_complete:
  assumes "Sweep h sink j s = (res, s')"
  shows "if sw_skipped res then os_db s' = os_db s
    else if sw_errors res = [] then
       (\<forall>r \<in> set (tb_challenges (os_db s')). os_wall s \<le> ch_expires r)
       \<and> (\<forall>r \<in> set (tb_admin_challenges (os_db s')). os_wall s \<le> ac_expires r)
       \<and> (\<forall>r \<in> set (tb_tickets (os_db s')). os_wall s \<le> et_expires r)
       \<and> (\<forall>r \<in> set (tb_throttle (os_db s')). throttleCutoff j (os_wall s) \<le> th_updated r
            \<or> (\<exists>u. th_blocked r = Some u \<and> throttleCutoff j (os_wall s) \<le> u))
       \<and> (jn_dual_approval j \<longrightarrow>
            (\<forall>r \<in> set (tb_approvals (os_db s')). ap_status r = ApprovalPending \<longrightarrow> os_wall s \<le> ap_expires r))
       \<and> (\<forall>r \<in> set (tb_recovery (os_db s')). \<forall>at. rc_consumed r = Some at \<longrightarrow>
            os_wall s - consumedRecoveryCodeRetention \<le> at)
    else True"
proof (cases "TryAcquireJanitorLock (jn_owner j) (os_wall s) sweepTimeout s")
  case (Pair lock s1)
  show ?thesis
  proof (cases lock)
    case (Inl e)
    with Pair assms TryAcquire_Inl_db show ?thesis by (auto simp: Sweep_def Let_def split: if_splits)
  next
    case (Inr owner)
    obtain r2 s2 where body: "sweep_body h sink j (os_wall s) s1 = (r2, s2)" by fastforce
    with Pair Inr assms have res: "res = r2" and s': "s' = snd (ReleaseLock owner s2)"
      by (auto simp: Sweep_def Let_def)
    have "shrunk (os_db s2) (os_db s')"
      unfolding s' by (rule shrunkD [OF keeps_shrunk(6)]) (simp add: prod_eq_iff)
    note keep = shrunk_keeps [OF this]
    have skipped: "\<not> sw_skipped res"
      using sweep_body_skipped [of h sink j "os_wall s" s1] body res by simp
    show ?thesis
    proof (cases "sw_errors res = []")
      case True
      with sweep_body_complete [OF body] res have "nothing_expired j (os_wall s) (os_db s2)" by simp
      then have "nothing_expired j (os_wall s) (os_db s')"
        unfolding nothing_expired_def
        by (elim conjE) (intro conjI impI keep(1) keep(2) keep(3) keep(4) keep(5) keep(6); blast)
      with skipped show ?thesis by (auto simp: nothing_expired_def throttle_kept_def)
    qed (simp add: skipped)
  qed
qed

definition demo_janitor :: janitor where
  "demo_janitor = \<lparr>jn_owner = ''one'', jn_tenant = ''t'', jn_dual_approval = True, jn_window = 60 * second,
     jn_retention_days = 0, jn_kek_reminder = False, jn_rotation_interval = 0, jn_alerts = False, jn_probe = None\<rparr>"

definition demo_sweep :: db where
  "demo_sweep = fresh_os 9000 (empty_tables\<lparr>
     tb_challenges := [\<lparr>ch_id = ''c'', ch_tenant = ''t'', ch_subject = ''s'', ch_ceremony = CeremonyAssertion,
       ch_challenge = [], ch_rpid = [], ch_session = [], ch_created = 1, ch_expires = 2, ch_consumed = None\<rparr>]\<rparr>)"

theorem sweep_complete_witness:
  "\<exists>res s'. Sweep demo_hash False demo_janitor demo_sweep = (res, s') \<and> sw_challenges res = 1
     \<and> (\<forall>r \<in> set (tb_challenges (os_db s')). os_wall demo_sweep \<le> ch_expires r)"
proof -
  have "case Sweep demo_hash False demo_janitor demo_sweep of (r, s) \<Rightarrow>
      \<not> sw_skipped r \<and> sw_errors r = [] \<and> sw_challenges r = 1" by code_simp
  then obtain res s' where run: "Sweep demo_hash False demo_janitor demo_sweep = (res, s')"
    and r: "\<not> sw_skipped res" "sw_errors res = []" "sw_challenges res = 1" by (auto split: prod.splits)
  from sweep_complete [OF run] r run show ?thesis by auto
qed

text \<open>The restored subject of the sweep that erased its record.\<close>

definition demo_restored :: db where
  "demo_restored = fresh_os 9000 (empty_tables\<lparr>tb_subjects := [\<lparr>sb_id = ''s'', sb_tenant = ''t'', sb_ref_hmac = [1],
     sb_ref_sealed = [], sb_display = [], sb_status = SubjectActive, sb_created = 1, sb_updated = 2, sb_deleted = None\<rparr>]\<rparr>)"

definition demo_cancelled :: erasure_request where
  "demo_cancelled = \<lparr>er_id = ''e'', er_tenant = ''t'', er_subject = ''s'', er_status = ErasurePending, er_reason = [],
     er_requested_by = ''a'', er_requested_at = 2, er_purge_after = 3, er_cancelled_by = [], er_cancelled_at = None,
     er_purged_at = None\<rparr>"

theorem janitor_restored_subject_witness:
  "\<exists>s'. purge_one demo_hash False 5000 demo_cancelled (0, []) demo_restored = ((0, []), s')
     \<and> map sb_deleted (tb_subjects (os_db s')) = [None] \<and> length (tb_audit (os_db s')) = 1"
proof -
  have sel: "os_faults demo_restored = []" "tb_audit (os_db demo_restored) = []" "tb_checkpoints (os_db demo_restored) = []"
    by (simp_all add: demo_restored_def empty_tables_def)
  obtain x s1 where e: "EraseSubjectAuditEntries demo_hash ''t'' ''s'' ''system:janitor'' 5000 demo_restored = (Inr 0, s1)"
    and s1: "os_faults s1 = []" "os_db s1 = (os_db demo_restored)\<lparr>tb_audit := [x]\<rparr>"
    using erase_first [OF sel, where tenantID = "''t''" and subjectID = "''s''" and h = demo_hash
        and actorID = "''system:janitor''" and now = 5000] by auto
  obtain s2 where p: "PurgeSubject ''t'' ''s'' s1 = (Inl ErrStaleWrite, s2)" "os_db s2 = os_db s1"
    using s1 by (simp add: PurgeSubject_def demo_restored_def tx_simps bindp_def failp_def rollback_def)
  have run: "purge_one demo_hash False 5000 demo_cancelled (0, []) demo_restored = ((0, []), s2)"
    using e p by (simp add: purge_one_def demo_cancelled_def)
  have "audit_inv demo_hash (os_db demo_restored)"
    using audit_inv_empty [of demo_hash] purge_audit_cong [of "os_db demo_restored" empty_tables demo_hash]
    by (simp add: demo_restored_def empty_tables_def)
  then have "tb_subjects (os_db s2) = tb_subjects (os_db demo_restored)"
    using janitor_restored_subject [OF _ _ _ _ _ run] by (simp add: demo_restored_def demo_cancelled_def)
  with run p s1 show ?thesis by (simp add: demo_restored_def)
qed


end
