(* ===== verification/Subject_Service.thy ===== *)
theory Subject_Service
  imports Subject_Store Envelope Go_Encode Audit_Chain
begin

text \<open>
  \<^verbatim>\<open>internal/subject/subject.go\<close>: an application's reference to its user, turned into the
  subject row it belongs to. The HMAC is a parameter; the service's clock is the wall clock.
\<close>

subsection \<open>References\<close>

record subject_cfg =
  sc_max_ref :: int
  sc_seal :: bool

definition MinPepperBytes :: nat where "MinPepperBytes = 32"

definition ErrRefEmpty :: err where "ErrRefEmpty = OtherErr ''subject: reference is empty''"
definition ErrRefTooLong :: err where "ErrRefTooLong = OtherErr ''subject: reference is too long''"
definition ErrRefMalformed :: err where "ErrRefMalformed = OtherErr ''subject: reference contains control characters''"

definition RefHMAC :: "(bytes \<Rightarrow> bytes \<Rightarrow> bytes) \<Rightarrow> bytes \<Rightarrow> string \<Rightarrow> bytes" where
  "RefHMAC hm pepper ref = hm pepper (bytes_of ''n0passtemps/subject-ref/v1'' @ [0] @ bytes_of ref)"

text \<open>\<^verbatim>\<open>utf8.ValidString\<close>, and the control characters (U+0000..1F, U+007F..9F) of a valid text.\<close>

function valid_utf8 :: "nat list \<Rightarrow> bool" where
  "valid_utf8 s =
     (if s = [] then True
      else if rune_length s = 0 then False else valid_utf8 (drop (rune_length s) s))"
  by pat_completeness auto

termination by (relation "measure length") auto

declare valid_utf8.simps [simp del]

definition control_rune :: "nat list \<Rightarrow> bool" where
  "control_rune r \<longleftrightarrow> (case r of [a] \<Rightarrow> a < 32 \<or> a = 127 | [a, b] \<Rightarrow> a = 0xC2 \<and> b < 0xA0 | _ \<Rightarrow> False)"

function has_control :: "nat list \<Rightarrow> bool" where
  "has_control s =
     (if s = [] \<or> rune_length s = 0 then False
      else control_rune (take (rune_length s) s) \<or> has_control (drop (rune_length s) s))"
  by pat_completeness auto

termination by (relation "measure length") auto

declare has_control.simps [simp del]

definition ValidateRef :: "subject_cfg \<Rightarrow> string \<Rightarrow> unit res" where
  "ValidateRef cfg ref =
     (if TrimSpace ref = [] then Inl ErrRefEmpty
      else if int (length ref) > sc_max_ref cfg then Inl ErrRefTooLong
      else if \<not> valid_utf8 (map of_char ref) then Inl ErrRefMalformed
      else if has_control (map of_char ref) then Inl ErrRefMalformed
      else Inr ())"

subsection \<open>Operations\<close>

definition create_subject ::
  "(bytes \<Rightarrow> bytes \<Rightarrow> bytes) \<Rightarrow> aead \<Rightarrow> kek_provider \<Rightarrow> subject_cfg \<Rightarrow> bytes \<Rightarrow> string \<Rightarrow> string \<Rightarrow> string
     \<Rightarrow> (tables, subject) proc" where
  "create_subject hm g kp cfg pepper tenantID ref displayName =
     bindp wall_clock (\<lambda>now. bindp uuid_new (\<lambda>i.
       bindp (if sc_seal cfg then Seal g kp (bytes_of ref) (SubjectRef tenantID i) else ret []) (\<lambda>sealed.
         UpsertSubject \<lparr>sb_id = i, sb_tenant = tenantID, sb_ref_hmac = RefHMAC hm pepper ref, sb_ref_sealed = sealed,
           sb_display = TrimSpace displayName, sb_status = SubjectActive, sb_created = now, sb_updated = now,
           sb_deleted = None\<rparr>)))"

definition Resolve ::
  "(bytes \<Rightarrow> bytes \<Rightarrow> bytes) \<Rightarrow> aead \<Rightarrow> kek_provider \<Rightarrow> subject_cfg \<Rightarrow> bytes \<Rightarrow> string \<Rightarrow> string \<Rightarrow> string
     \<Rightarrow> (tables, subject) proc" where
  "Resolve hm g kp cfg pepper tenantID ref displayName s =
     (case ValidateRef cfg ref of
        Inl e \<Rightarrow> (Inl e, s)
      | Inr _ \<Rightarrow>
          (case GetSubjectByRef tenantID (RefHMAC hm pepper ref) s of
             (Inr existing, s1) \<Rightarrow> (Inr existing, s1)
           | (Inl e, s1) \<Rightarrow>
               if e \<noteq> ErrNotFound then (Inl e, s1)
               else create_subject hm g kp cfg pepper tenantID ref displayName s1))"

definition Lookup :: "(bytes \<Rightarrow> bytes \<Rightarrow> bytes) \<Rightarrow> subject_cfg \<Rightarrow> bytes \<Rightarrow> string \<Rightarrow> string \<Rightarrow> (tables, subject) proc" where
  "Lookup hm cfg pepper tenantID ref =
     (case ValidateRef cfg ref of Inl e \<Rightarrow> failp e | Inr _ \<Rightarrow> GetSubjectByRef tenantID (RefHMAC hm pepper ref))"

definition RevealRef :: "aead \<Rightarrow> kek_provider \<Rightarrow> subject \<Rightarrow> string res" where
  "RevealRef g kp sub =
     (if length (sb_ref_sealed sub) = 0 then Inl (OtherErr ''subject: no sealed reference'')
      else case Unseal g kp (sb_ref_sealed sub) (SubjectRef (sb_tenant sub) (sb_id sub)) of
        Inl e \<Rightarrow> Inl e
      | Inr p \<Rightarrow> Inr (text_of p))"

definition Matches :: "(bytes \<Rightarrow> bytes \<Rightarrow> bytes) \<Rightarrow> bytes \<Rightarrow> subject \<Rightarrow> string \<Rightarrow> bool" where
  "Matches hm pepper sub ref \<longleftrightarrow> sb_ref_hmac sub = RefHMAC hm pepper ref"

subsection \<open>What is stored\<close>

lemma UpsertSubject_Inr:
  assumes "UpsertSubject sub s = (Inr out, s')"
  obtains sub' where "upsert_subject sub' (os_db s) = Inr (out, os_db s')" "sb_id sub' = sb_id sub"
    "sb_tenant sub' = sb_tenant sub" "sb_ref_hmac sub' = sb_ref_hmac sub" "sb_ref_sealed sub' = sb_ref_sealed sub"
proof -
  from assms obtain sub' where tx: "in_tx (exec map_error (upsert_subject sub')) s = (Inr out, s')"
    and same: "sb_id sub' = sb_id sub" "sb_tenant sub' = sb_tenant sub" "sb_ref_hmac sub' = sb_ref_hmac sub"
      "sb_ref_sealed sub' = sb_ref_sealed sub"
    by (auto simp: UpsertSubject_def failp_def bindp_def wall_clock_def Let_def split: if_splits)
  from in_tx_exec_only_Inr [OF tx] same show thesis by (rule that)
qed

lemma create_subject_Inr:
  assumes "create_subject hm g kp cfg pepper tenantID ref d s = (Inr out, s')" and "sc_seal cfg"
  obtains sub' and s1 s2 :: db and sealed where "Seal g kp (bytes_of ref) (SubjectRef tenantID (os_uuids s 0)) s1 = (Inr sealed, s2)"
    "upsert_subject sub' (os_db s) = Inr (out, os_db s')" "sb_id sub' = os_uuids s 0" "sb_tenant sub' = tenantID"
    "sb_ref_hmac sub' = RefHMAC hm pepper ref" "sb_ref_sealed sub' = sealed"
proof -
  have frame: "Seal g kp p b u = (r, u') \<Longrightarrow> os_db u' = os_db u" for p b r and u u' :: db
    by (auto simp: Seal_def failp_def bindp_def rand_read_def ret_def Let_def split: sum.splits if_splits)
  from assms obtain sealed s1 s2 sub where seal: "Seal g kp (bytes_of ref) (SubjectRef tenantID (os_uuids s 0)) s1 = (Inr sealed, s2)"
    and up: "UpsertSubject sub s2 = (Inr out, s')" and s1: "os_db s1 = os_db s"
    and sub: "sb_id sub = os_uuids s 0" "sb_tenant sub = tenantID" "sb_ref_hmac sub = RefHMAC hm pepper ref" "sb_ref_sealed sub = sealed"
    by (auto simp: create_subject_def bindp_Inr wall_clock_def uuid_new_def)
  from UpsertSubject_Inr [OF up] obtain sub' where u: "upsert_subject sub' (os_db s2) = Inr (out, os_db s')"
    and k: "sb_id sub' = sb_id sub" "sb_tenant sub' = sb_tenant sub" "sb_ref_hmac sub' = sb_ref_hmac sub"
      "sb_ref_sealed sub' = sb_ref_sealed sub" .
  have "os_db s2 = os_db s" using frame [OF seal] s1 by simp
  with u have u': "upsert_subject sub' (os_db s) = Inr (out, os_db s')" by simp
  show thesis using k sub by (intro that [OF seal u']) simp_all
qed

lemma lookup_frame: "GetSubjectByRef tid mac s = (r, s') \<Longrightarrow> os_db s' = os_db s \<and> os_uuids s' = os_uuids s"
  by (auto simp: GetSubjectByRef_def failp_def query_row_def exec_def pop_fault_def
      split: if_splits prod.splits option.splits sum.splits list.splits)

lemma lookup_NotFound:
  "GetSubjectByRef tid mac s = (Inl ErrNotFound, s') \<Longrightarrow>
     \<forall>r \<in> set (tb_subjects (os_db s)). \<not> (sb_tenant r = tid \<and> sb_ref_hmac r = mac \<and> sb_deleted r = None)"
  by (auto simp: GetSubjectByRef_def failp_def find_row_None split: if_splits dest!: query_row_NotFound)

text \<open>A first login: no row of the tenant carries the reference, so one is created.\<close>

lemma Resolve_create:
  assumes "Resolve hm g kp cfg pepper tid ref d s = (Inr sub, s')" and "sc_seal cfg"
    and "\<forall>r \<in> set (tb_subjects (os_db s)). sb_tenant r = tid \<and> sb_ref_hmac r = RefHMAC hm pepper ref \<longrightarrow> sb_deleted r \<noteq> None"
  obtains sub' and s1 s2 :: db and sealed where "Seal g kp (bytes_of ref) (SubjectRef tid (os_uuids s 0)) s1 = (Inr sealed, s2)"
    "upsert_subject sub' (os_db s) = Inr (sub, os_db s')" "sb_id sub' = os_uuids s 0" "sb_tenant sub' = tid"
    "sb_ref_hmac sub' = RefHMAC hm pepper ref" "sb_ref_sealed sub' = sealed"
proof -
  obtain r s1 where q: "GetSubjectByRef tid (RefHMAC hm pepper ref) s = (r, s1)" by fastforce
  have "\<not> is_ok r"
  proof
    assume "is_ok r"
    then obtain x where "find_row (\<lambda>r. sb_tenant r = tid \<and> sb_ref_hmac r = RefHMAC hm pepper ref \<and> sb_deleted r = None)
        (tb_subjects (os_db s)) = Some x"
      using q by (auto simp: is_ok_iff GetSubjectByRef_def failp_def split: if_splits dest!: query_row_Inr)
    from find_row_Some [OF this] assms(3) show False by auto
  qed
  with assms(1) q have "create_subject hm g kp cfg pepper tid ref d s1 = (Inr sub, s')"
    by (auto simp: Resolve_def split: sum.splits if_splits)
  from create_subject_Inr [OF this assms(2)] lookup_frame [OF q] that show thesis by metis
qed

text \<open>
  C38: what a first login seals can be revealed. When no row of the tenant carries the reference
  and references are sealed, a successful \<^verbatim>\<open>Resolve\<close> stores one new row for the fresh identifier
  and answers it; \<^verbatim>\<open>RevealRef\<close> gives the reference back, under this keyring and under any later
  one that retains its keys, and \<^verbatim>\<open>Matches\<close> recognises it.
\<close>

theorem subject_reveal:
  assumes "aead_laws g" and "provider_ok kp" and "sc_seal cfg"
    and "\<forall>r \<in> set (tb_subjects (os_db s)). \<not> (sb_tenant r = tid \<and> sb_ref_hmac r = RefHMAC hm pepper ref)"
    and "Resolve hm g kp cfg pepper tid ref d s = (Inr sub, s')"
    and "\<forall>v k. kp_by_version kp v = Inr k \<longrightarrow> kp_by_version kp' v = Inr k"
  shows "tb_subjects (os_db s') = tb_subjects (os_db s) @ [sub] \<and> sb_id sub = os_uuids s 0 \<and> sb_tenant sub = tid
    \<and> RevealRef g kp' sub = Inr ref \<and> Matches hm pepper sub ref"
proof -
  from assms(4) have "\<forall>r \<in> set (tb_subjects (os_db s)). sb_tenant r = tid \<and> sb_ref_hmac r = RefHMAC hm pepper ref
      \<longrightarrow> sb_deleted r \<noteq> None" by blast
  from Resolve_create [OF assms(5,3) this] obtain sub' and s1 s2 :: db and sealed where
    seal: "Seal g kp (bytes_of ref) (SubjectRef tid (os_uuids s 0)) s1 = (Inr sealed, s2)"
    and up: "upsert_subject sub' (os_db s) = Inr (sub, os_db s')"
    and sub': "sb_id sub' = os_uuids s 0" "sb_tenant sub' = tid" "sb_ref_hmac sub' = RefHMAC hm pepper ref"
      "sb_ref_sealed sub' = sealed" .
  have "find_row (same_ref (sub'\<lparr>sb_deleted := None\<rparr>)) (tb_subjects (os_db s)) = None"
    using assms(4) sub' by (auto simp: find_row_None same_ref_def)
  with up have db: "os_db s' = (os_db s)\<lparr>tb_subjects := tb_subjects (os_db s) @ [sub]\<rparr>" and sub: "sub = sub'\<lparr>sb_deleted := None\<rparr>"
    by (auto simp: upsert_subject_def Let_def split: if_splits)
  have open_it: "Unseal g kp' sealed (SubjectRef tid (os_uuids s 0)) = Inr (bytes_of ref) \<and> length sealed > 0"
    using seal
  proof (rule Seal_Inr)
    fix bound v key dek
    assume b: "ctx_bytes (SubjectRef tid (os_uuids s 0)) = Inr bound" and c: "kp_current kp = Inr (v, key)"
      and x: "sealed_as g v key dek (bytes_of ref) bound sealed"
    from provider_current [OF assms(2) c] assms(6) have k: "kp_by_version kp' v = Inr key" by blast
    from unseal_sealed [OF assms(1) x k b] open_sealed(3) [OF assms(1) x k] show ?thesis by (simp add: size_defs)
  qed
  with db sub sub' show ?thesis by (simp add: RevealRef_def Matches_def)
qed

text \<open>A restore brings the row back with the sealed value and the identifier it has.\<close>

lemma RestoreSubject_reveals:
  assumes "RestoreSubject tid i at s = (Inr u, s')" and "sub \<in> set (tb_subjects (os_db s))"
    and "sb_tenant sub = tid" and "sb_id sub = i" and "sb_deleted sub \<noteq> None" and "sb_status sub = SubjectPendingDeletion"
  shows "\<exists>row \<in> set (tb_subjects (os_db s')). sb_tenant row = tid \<and> sb_id row = i \<and> sb_deleted row = None
    \<and> RevealRef g kp row = RevealRef g kp sub"
proof -
  let ?f = "\<lambda>r. r\<lparr>sb_status := SubjectActive, sb_deleted := None, sb_updated := at\<rparr>"
  from assms(1) have "os_db s' = tb_subjects_update (update_where (\<lambda>r. sb_tenant r = tid \<and> sb_id r = i
      \<and> sb_deleted r \<noteq> None \<and> sb_status r = SubjectPendingDeletion) ?f) (os_db s)"
    by (auto simp: RestoreSubject_def dest!: required_Inr)
  then have "?f sub \<in> set (tb_subjects (os_db s'))"
    using assms(2-6) by (force simp: update_where_def)
  then show ?thesis using assms(3,4) by (intro bexI [of _ "?f sub"]) (simp_all add: RevealRef_def)
qed

text \<open>
  C39: a login of a subject whose deletion is pending spoils its sealed reference. The lookup
  hides the soft-deleted row, so \<^verbatim>\<open>Resolve\<close> seals the reference for a fresh identifier, and the
  upsert writes that over the sealed value of the row it conflicts with, which keeps its own
  identifier. The row answered is the old one. Revealing its reference succeeds only by a forgery:
  the key the keyring holds for the record accepts it under the bytes of two contexts that
  differ, that of the fresh identifier and that of the row. A restore changes nothing of this.
\<close>

theorem resolve_spoils_reference:
  assumes "aead_laws g" and "provider_ok kp" and "sc_seal cfg"
    and "distinct (map (\<lambda>r. (sb_tenant r, sb_ref_hmac r)) (tb_subjects (os_db s)))"
    and "old \<in> set (tb_subjects (os_db s))" and "sb_tenant old = tid" and "sb_ref_hmac old = RefHMAC hm pepper ref"
    and "sb_deleted old \<noteq> None" and "sb_status old = SubjectPendingDeletion" and "os_uuids s 0 \<noteq> sb_id old"
    and "Resolve hm g kp cfg pepper tid ref d s = (Inr sub, s')"
  shows "sb_id sub = sb_id old \<and> sub \<in> set (tb_subjects (os_db s')) \<and> sb_ref_sealed sub \<noteq> []
    \<and> (is_ok (RevealRef g kp sub) \<longrightarrow>
         (\<exists>key a a'. kp_by_version kp (rec_version (sb_ref_sealed sub)) = Inr key
           \<and> ctx_bytes (SubjectRef tid (os_uuids s 0)) = Inr a \<and> ctx_bytes (SubjectRef tid (sb_id old)) = Inr a' \<and> a \<noteq> a'
           \<and> g_open g key (rec_wrap_nonce (sb_ref_sealed sub)) (rec_wrapped (sb_ref_sealed sub)) (aad (take 5 (sb_ref_sealed sub)) a) \<noteq> None
           \<and> g_open g key (rec_wrap_nonce (sb_ref_sealed sub)) (rec_wrapped (sb_ref_sealed sub)) (aad (take 5 (sb_ref_sealed sub)) a') \<noteq> None))
    \<and> (\<forall>at u s''. RestoreSubject tid (sb_id old) at s' = (Inr u, s'') \<longrightarrow>
         (\<exists>row \<in> set (tb_subjects (os_db s'')). sb_tenant row = tid \<and> sb_id row = sb_id old \<and> sb_deleted row = None
            \<and> RevealRef g kp row = RevealRef g kp sub))"
proof -
  have only: "r = old" if "r \<in> set (tb_subjects (os_db s))" "sb_tenant r = tid" "sb_ref_hmac r = RefHMAC hm pepper ref" for r
    using assms(4-7) that by (auto simp: distinct_map inj_on_def)
  then have "\<forall>r \<in> set (tb_subjects (os_db s)). sb_tenant r = tid \<and> sb_ref_hmac r = RefHMAC hm pepper ref \<longrightarrow> sb_deleted r \<noteq> None"
    using assms(8) by blast
  from Resolve_create [OF assms(11,3) this] obtain sub' and s1 s2 :: db and sealed where
    seal: "Seal g kp (bytes_of ref) (SubjectRef tid (os_uuids s 0)) s1 = (Inr sealed, s2)"
    and up: "upsert_subject sub' (os_db s) = Inr (sub, os_db s')"
    and sub': "sb_id sub' = os_uuids s 0" "sb_tenant sub' = tid" "sb_ref_hmac sub' = RefHMAC hm pepper ref"
      "sb_ref_sealed sub' = sealed" .
  have len: "length sealed > 0"
    using seal
  proof (rule Seal_Inr)
    fix bound v key dek
    assume c: "kp_current kp = Inr (v, key)" and x: "sealed_as g v key dek (bytes_of ref) bound sealed"
    have "length sealed \<ge> 93"
      using provider_current [OF assms(2) c] open_sealed(3) [OF assms(1) x, of kp] by (simp add: size_defs)
    then show ?thesis by linarith
  qed
  let ?new = "sub'\<lparr>sb_deleted := None\<rparr>"
  have fr: "find_row (same_ref ?new) (tb_subjects (os_db s)) = Some old"
  proof (cases "find_row (same_ref ?new) (tb_subjects (os_db s))")
    case None
    with assms(5-7) sub' show ?thesis by (auto simp: find_row_None same_ref_def)
  next
    case (Some r)
    from find_row_Some [OF Some] only sub' Some show ?thesis by (auto simp: same_ref_def)
  qed
  with up have sub: "sub = refresh_subject ?new old"
    and db: "os_db s' = (os_db s)\<lparr>tb_subjects := update_where (same_ref ?new) (refresh_subject ?new) (tb_subjects (os_db s))\<rparr>"
    by (auto simp: upsert_subject_def Let_def split: if_splits)
  have f: "sb_id sub = sb_id old" "sb_tenant sub = tid" "sb_ref_sealed sub = sealed"
    "sb_deleted sub = sb_deleted old" "sb_status sub = sb_status old"
    using len sub' assms(6) by (simp_all add: sub refresh_subject_def)
  have "same_ref ?new old" using find_row_Some [OF fr] by simp
  then have mem: "sub \<in> set (tb_subjects (os_db s'))"
    using assms(5) unfolding db sub update_where_def by force
  have "SubjectRef tid (sb_id old) \<noteq> SubjectRef tid (os_uuids s 0)" using assms(10) by (simp add: SubjectRef_def)
  note foreign = seal_foreign [OF assms(1,2) seal, of "SubjectRef tid (sb_id old)", unfolded if_not_P [OF this]]
  have ok: "is_ok (RevealRef g kp sub) \<Longrightarrow> \<exists>q. Unseal g kp sealed (SubjectRef tid (sb_id old)) = Inr q"
    using f len by (auto simp: RevealRef_def split: sum.splits)
  show ?thesis
    using f mem len ok foreign RestoreSubject_reveals [OF _ mem f(2,1)] assms(8,9) by auto
qed

subsection \<open>A tenant's first login, and a login during its erasure\<close>

definition demo_refs :: subject_cfg where "demo_refs = \<lparr>sc_max_ref = 255, sc_seal = True\<rparr>"

definition demo_state :: "subject list \<Rightarrow> db" where
  "demo_state rows = fresh_os 100 (empty_tables\<lparr>tb_tenants := [\<lparr>tn_id = ''t'', tn_name = '''', tn_status = ''active'',
     tn_created = 0, tn_updated = 0\<rparr>], tb_subjects := rows\<rparr>)"

definition demo_old :: subject where
  "demo_old = \<lparr>sb_id = ''old'', sb_tenant = ''t'', sb_ref_hmac = RefHMAC (\<lambda>k m. m) [] ''u'', sb_ref_sealed = [], sb_display = [],
     sb_status = SubjectPendingDeletion, sb_created = 1, sb_updated = 1, sb_deleted = Some 50\<rparr>"

definition demo_login :: "subject list \<Rightarrow> subject res \<times> db" where
  "demo_login rows = Resolve (\<lambda>k m. m) toy_aead (demo_provider 1) demo_refs [] ''t'' ''u'' [] (demo_state rows)"


lemma demo_validate: "ValidateRef demo_refs ''u'' = Inr ()"
  by (simp add: ValidateRef_def demo_refs_def TrimSpace_printable printable_def valid_utf8.simps has_control.simps
      rune_length_def control_rune_def)

lemma demo_sealing:
  fixes s :: db
  assumes "os_db s = os_db (demo_state rows)" and "os_faults s = []"
  shows "\<exists>x s'. Seal toy_aead (demo_provider 1) (bytes_of ''u'') (SubjectRef ''t'' ''u'') s = (Inr x, s')
    \<and> os_db s' = os_db (demo_state rows) \<and> os_faults s' = []"
  using assms
  by (simp add: Seal_def demo_provider_def bindp_def rand_read_def Let_def ret_def ctx_bytes_def ctx_valid_def SubjectRef_def
      ctx_fields_def maxBindingField_def KindSubjectRef_def bytes_of_def)

lemma demo_login_ok:
  assumes "\<forall>r \<in> set rows. sb_deleted r \<noteq> None \<and> sb_id r \<noteq> ''u''"
  shows "\<exists>sub s'. demo_login rows = (Inr sub, s')"
proof -
  let ?mac = "RefHMAC (\<lambda>k m. m) [] ''u''"
  let ?s1 = "demo_state rows"
  let ?s2 = "?s1\<lparr>os_uuids := (\<lambda>i. os_uuids ?s1 (Suc i))\<rparr>"
  have hm: "?mac \<noteq> []" by (simp add: RefHMAC_def)
  have "find_row (\<lambda>r. sb_tenant r = ''t'' \<and> sb_ref_hmac r = ?mac \<and> sb_deleted r = None) rows = None"
    using assms by (auto simp: find_row_None)
  then have miss: "GetSubjectByRef ''t'' ?mac ?s1 = (Inl ErrNotFound, ?s1)"
    using hm by (simp add: GetSubjectByRef_def query_row_def exec_def pop_fault_def demo_state_def)
  obtain x s3 where seal: "Seal toy_aead (demo_provider 1) (bytes_of ''u'') (SubjectRef ''t'' ''u'') ?s2 = (Inr x, s3)"
    and s3: "os_db s3 = os_db ?s1" "os_faults s3 = []"
    using demo_sealing [of ?s2 rows] by (auto simp: demo_state_def)
  let ?sub = "\<lparr>sb_id = ''u'', sb_tenant = ''t'', sb_ref_hmac = ?mac, sb_ref_sealed = x, sb_display = TrimSpace [],
    sb_status = SubjectActive, sb_created = 100, sb_updated = 100, sb_deleted = None\<rparr>"
  have "\<exists>out s'. UpsertSubject ?sub s3 = (Inr out, s')"
    using assms hm s3
    by (auto simp: UpsertSubject_def bindp_def wall_clock_def in_tx_def exec_def pop_fault_def upsert_subject_def
        subject_status_ok_def tenant_exists_def demo_state_def list_ex_iff Let_def SubjectActive_def
        split: option.splits)
  moreover have "sc_seal demo_refs" "os_uuids ?s1 0 = ''u''" "os_wall ?s1 = 100"
    by (simp_all add: demo_refs_def demo_state_def fresh_os_def)
  ultimately show ?thesis
    using miss seal
    by (simp add: demo_login_def Resolve_def demo_validate create_subject_def bindp_def wall_clock_def uuid_new_def)
qed


theorem subject_reveal_witness:
  "\<exists>sub s'. demo_login [] = (Inr sub, s') \<and> sb_id sub = ''u''
     \<and> RevealRef toy_aead (demo_provider 2) sub = Inr ''u'' \<and> Matches (\<lambda>k m. m) [] sub ''u''"
proof -
  obtain sub s' where run: "demo_login [] = (Inr sub, s')" using demo_login_ok [of "[]"] by auto
  have "os_uuids (demo_state []) 0 = ''u''" by (simp add: demo_state_def fresh_os_def)
  then show ?thesis
    using subject_reveal [OF toy_laws demo_provider_ok [of 1] _ _ run [unfolded demo_login_def], of "demo_provider 2"] run
    by (auto simp: demo_refs_def demo_state_def demo_provider_def)
qed

lemma demo_contexts:
  "ctx_bytes (SubjectRef ''t'' ''u'') = Inr a \<Longrightarrow> ctx_bytes (SubjectRef ''t'' ''old'') = Inr a' \<Longrightarrow> sum_list a \<noteq> sum_list a'"
  by (auto simp: ctx_bytes_def ctx_valid_def SubjectRef_def ctx_fields_def maxBindingField_def KindSubjectRef_def
      bytes_of_def be32_def bindingDomain_def)

theorem resolve_spoils_reference_witness:
  "\<exists>sub s' e. demo_login [demo_old] = (Inr sub, s') \<and> sb_id sub = ''old'' \<and> sub \<in> set (tb_subjects (os_db s'))
     \<and> sb_ref_sealed sub \<noteq> [] \<and> RevealRef toy_aead (demo_provider 1) sub = Inl e"
proof -
  have "\<forall>r \<in> set [demo_old]. sb_deleted r \<noteq> None \<and> sb_id r \<noteq> ''u''" by (simp add: demo_old_def)
  then obtain sub s' where run: "demo_login [demo_old] = (Inr sub, s')" using demo_login_ok by blast
  have u: "os_uuids (demo_state [demo_old]) 0 = ''u''" by (simp add: demo_state_def fresh_os_def)
  note spoilt = resolve_spoils_reference [OF toy_laws demo_provider_ok [of 1] _ _ _ _ _ _ _ _
      run [unfolded demo_login_def], of demo_old]
  have "sb_id sub = sb_id demo_old \<and> sub \<in> set (tb_subjects (os_db s')) \<and> sb_ref_sealed sub \<noteq> []"
    using spoilt u by (simp add: demo_refs_def demo_state_def demo_old_def)
  moreover have "\<not> is_ok (RevealRef toy_aead (demo_provider 1) sub)"
  proof
    assume "is_ok (RevealRef toy_aead (demo_provider 1) sub)"
    then obtain key a a' where "ctx_bytes (SubjectRef ''t'' ''u'') = Inr a" "ctx_bytes (SubjectRef ''t'' ''old'') = Inr a'"
      and "g_open toy_aead key (rec_wrap_nonce (sb_ref_sealed sub)) (rec_wrapped (sb_ref_sealed sub)) (aad (take 5 (sb_ref_sealed sub)) a) \<noteq> None"
        "g_open toy_aead key (rec_wrap_nonce (sb_ref_sealed sub)) (rec_wrapped (sb_ref_sealed sub)) (aad (take 5 (sb_ref_sealed sub)) a') \<noteq> None"
      using spoilt u by (auto simp: demo_refs_def demo_state_def demo_old_def)
    with demo_contexts show False
      by (auto simp: toy_aead_def toy_tag_def aad_def tagSize_def Let_def split: if_splits)
  qed
  ultimately show ?thesis using run by (cases "RevealRef toy_aead (demo_provider 1) sub") (auto simp: demo_old_def)
qed

end
