(* ===== verification/Go_Base64.thy ===== *)
theory Go_Base64
  imports Go_Strings
begin

text \<open>
  Go's \<^verbatim>\<open>encoding/base64\<close> without padding: the URL and the standard alphabet, encoding, and
  decoding in the lenient and the strict mode. A decoder skips carriage returns and line feeds;
  the strict one also insists that the unused low bits of the last character are zero.
\<close>

definition b64_common :: string where
  "b64_common = ''ABCDEFGHIJKLMNOPQRSTUVWXYZabcdefghijklmnopqrstuvwxyz0123456789''"

definition url_alphabet :: string where "url_alphabet = b64_common @ ''-_''"
definition std_alphabet :: string where "std_alphabet = b64_common @ ''+/''"

definition alphabet_ok :: "string \<Rightarrow> bool" where
  "alphabet_ok al \<longleftrightarrow> length al = 64 \<and> distinct al \<and> CHR 0x0A \<notin> set al \<and> CHR 0x0D \<notin> set al"

lemma alphabets_ok: "alphabet_ok url_alphabet" "alphabet_ok std_alphabet"
  by (simp_all add: alphabet_ok_def url_alphabet_def std_alphabet_def b64_common_def)

fun b64_values :: "bytes \<Rightarrow> nat list" where
  "b64_values [] = []"
| "b64_values [a] = [unat a div 4, unat a mod 4 * 16]"
| "b64_values [a, b] = [unat a div 4, unat a mod 4 * 16 + unat b div 16, unat b mod 16 * 4]"
| "b64_values (a # b # c # rest) =
     [unat a div 4, unat a mod 4 * 16 + unat b div 16, unat b mod 16 * 4 + unat c div 64, unat c mod 64]
     @ b64_values rest"

definition b64_encode :: "string \<Rightarrow> bytes \<Rightarrow> string" where
  "b64_encode al bs = map (\<lambda>n. al ! n) (b64_values bs)"

definition octet :: "nat \<Rightarrow> byte" where "octet n = of_nat n"

lemma octet_unat [simp]: "octet (unat b) = b"
  by (simp add: octet_def)

lemma unat_octet: "n < 256 \<Longrightarrow> unat (octet n) = n"
  by (simp add: octet_def unat_of_nat)

fun b64_groups :: "bool \<Rightarrow> nat list \<Rightarrow> bytes option" where
  "b64_groups strict [] = Some []"
| "b64_groups strict [a] = None"
| "b64_groups strict [a, b] = (if strict \<and> b mod 16 \<noteq> 0 then None else Some [octet (a * 4 + b div 16)])"
| "b64_groups strict [a, b, c] =
     (if strict \<and> c mod 4 \<noteq> 0 then None
      else Some [octet (a * 4 + b div 16), octet (b mod 16 * 16 + c div 4)])"
| "b64_groups strict (a # b # c # d # rest) =
     map_option (\<lambda>bs. [octet (a * 4 + b div 16), octet (b mod 16 * 16 + c div 4), octet (c mod 4 * 64 + d)] @ bs)
       (b64_groups strict rest)"

definition b64_chars :: "string \<Rightarrow> string" where
  "b64_chars s = filter (\<lambda>c. c \<noteq> CHR 0x0A \<and> c \<noteq> CHR 0x0D) s"

definition b64_decode :: "string \<Rightarrow> bool \<Rightarrow> string \<Rightarrow> bytes option" where
  "b64_decode al strict s =
     (case those (map (\<lambda>c. index_byte c al) (b64_chars s)) of None \<Rightarrow> None | Some vs \<Rightarrow> b64_groups strict vs)"

definition b64_length :: "nat \<Rightarrow> nat" where
  "b64_length n = n div 3 * 4 + (n mod 3 * 8 + 5) div 6"

lemma b64_length_simps [simp]:
  "b64_length 0 = 0" "b64_length (Suc 0) = 2" "b64_length (Suc (Suc 0)) = 3"
  "b64_length (Suc (Suc (Suc n))) = Suc (Suc (Suc (Suc (b64_length n))))"
  by (simp_all add: b64_length_def) presburger

lemma byte_less: "unat (b :: byte) < 256"
  using unsigned_less [of b] by simp

lemma b64_values_less: "v \<in> set (b64_values bs) \<Longrightarrow> v < 64"
proof (induction bs rule: b64_values.induct)
  case (2 a)
  then show ?case using byte_less [of a] by auto
next
  case (3 a b)
  then show ?case using byte_less [of a] byte_less [of b] by auto
next
  case (4 a b c rest)
  then show ?case using byte_less [of a] byte_less [of b] byte_less [of c] by auto
qed simp

lemma length_b64_values: "length (b64_values bs) = b64_length (length bs)"
  by (induction bs rule: b64_values.induct) simp_all

lemma b64_groups_values [simp]: "b64_groups strict (b64_values bs) = Some bs"
proof (induction bs rule: b64_values.induct)
  case (2 a)
  have "unat a div 4 * 4 + unat a mod 4 = unat a" by simp
  then show ?case by simp
next
  case (3 a b)
  have "(unat a mod 4 * 16 + unat b div 16) div 16 = unat a mod 4" "(unat a mod 4 * 16 + unat b div 16) mod 16 = unat b div 16"
    using byte_less [of b] by simp_all
  then show ?case by simp
next
  case (4 a b c rest)
  have "(unat a mod 4 * 16 + unat b div 16) div 16 = unat a mod 4" "(unat a mod 4 * 16 + unat b div 16) mod 16 = unat b div 16"
    "(unat b mod 16 * 4 + unat c div 64) div 4 = unat b mod 16" "(unat b mod 16 * 4 + unat c div 64) mod 4 = unat c div 64"
    using byte_less [of b] byte_less [of c] by simp_all
  with 4 show ?case by simp
qed simp

lemma index_byte_nth: "distinct al \<Longrightarrow> n < length al \<Longrightarrow> index_byte (al ! n) al = Some n"
  by (induction al arbitrary: n) (auto simp: nth_Cons split: nat.splits)

lemma those_Some: "those (map Some xs) = Some xs"
  by (induction xs) simp_all

lemma those_values: "those xs = Some vs \<longleftrightarrow> xs = map Some vs"
  by (induction xs arbitrary: vs) (auto split: option.splits)

lemma b64_encode_chars: "alphabet_ok al \<Longrightarrow> set (b64_encode al bs) \<subseteq> set al"
  using b64_values_less by (fastforce simp: b64_encode_def alphabet_ok_def)

lemma b64_chars_encode: "alphabet_ok al \<Longrightarrow> b64_chars (b64_encode al bs) = b64_encode al bs"
  using b64_encode_chars [of al bs] by (auto simp: b64_chars_def alphabet_ok_def filter_id_conv)

lemma length_b64_encode [simp]: "length (b64_encode al bs) = b64_length (length bs)"
  by (simp add: b64_encode_def length_b64_values)

lemma b64_roundtrip: "alphabet_ok al \<Longrightarrow> b64_decode al strict (b64_encode al bs) = Some bs"
proof -
  assume al: "alphabet_ok al"
  have "map (\<lambda>c. index_byte c al) (b64_encode al bs) = map Some (b64_values bs)"
    using al b64_values_less by (auto simp: b64_encode_def alphabet_ok_def index_byte_nth)
  with al show ?thesis by (simp add: b64_decode_def b64_chars_encode those_Some)
qed

text \<open>Whatever a decoder accepts is of its alphabet, line breaks apart, and has the length of its bytes.\<close>

lemma b64_groups_length: "b64_groups strict vs = Some bs \<Longrightarrow> length vs = b64_length (length bs)"
  by (induction strict vs arbitrary: bs rule: b64_groups.induct) (auto split: if_splits)

lemma b64_decode_Some:
  assumes "b64_decode al strict s = Some bs"
  shows "set (b64_chars s) \<subseteq> set al" and "length (b64_chars s) = b64_length (length bs)"
proof -
  from assms obtain vs where vs: "map (\<lambda>c. index_byte c al) (b64_chars s) = map Some vs" and g: "b64_groups strict vs = Some bs"
    by (auto simp: b64_decode_def those_values split: option.splits)
  have "c \<in> set al" if "c \<in> set (b64_chars s)" for c
  proof -
    from that have "index_byte c al \<in> set (map Some vs)" unfolding vs [symmetric] by simp
    then obtain i where "index_byte c al = Some i" by auto
    from index_byte_Some [OF this] show ?thesis by auto
  qed
  then show "set (b64_chars s) \<subseteq> set al" by blast
  from arg_cong [OF vs, of length] b64_groups_length [OF g] show "length (b64_chars s) = b64_length (length bs)" by simp
qed


text \<open>A strict decoder accepts one spelling only.\<close>

lemma b64_values_groups:
  "b64_groups True vs = Some bs \<Longrightarrow> \<forall>v \<in> set vs. v < 64 \<Longrightarrow> b64_values bs = vs"
proof (induction True vs arbitrary: bs rule: b64_groups.induct)
  case (3 a b)
  then have "a * 4 + b div 16 < 256" "b mod 16 = 0" "b div 16 < 4" by (auto split: if_splits)
  with 3 unat_octet [of "a * 4 + b div 16"] show ?case by auto
next
  case (4 a b c)
  then have "a * 4 + b div 16 < 256" "b mod 16 * 16 + c div 4 < 256" "c mod 4 = 0" "b div 16 < 4" "c div 4 < 16"
    by (auto split: if_splits)
  with 4 unat_octet [of "a * 4 + b div 16"] unat_octet [of "b mod 16 * 16 + c div 4"]
  show ?case by auto
next
  case (5 a b c d rest)
  from 5(3) have "a * 4 + b div 16 < 256" "b mod 16 * 16 + c div 4 < 256" "c mod 4 * 64 + d < 256"
    "b div 16 < 4" "c div 4 < 16" "d < 64" by auto
  with 5 unat_octet [of "a * 4 + b div 16"] unat_octet [of "b mod 16 * 16 + c div 4"]
    unat_octet [of "c mod 4 * 64 + d"]
  show ?case by auto
qed auto

lemma b64_strict_canonical:
  assumes "b64_decode al True s = Some bs" and "alphabet_ok al"
  shows "b64_encode al bs = b64_chars s"
proof -
  from assms(1) obtain vs where vs: "map (\<lambda>c. index_byte c al) (b64_chars s) = map Some vs" and g: "b64_groups True vs = Some bs"
    by (auto simp: b64_decode_def those_values split: option.splits)
  have each: "v < length al \<and> al ! v = c" if "index_byte c al = Some v" for c v
    using index_byte_Some [OF that] by simp
  have len: "length vs = length (b64_chars s)" using arg_cong [OF vs, of length] by simp
  have at: "vs ! i < length al \<and> al ! (vs ! i) = b64_chars s ! i" if "i < length vs" for i
    using that len each arg_cong [OF vs, of "\<lambda>l. l ! i"] by simp
  then have "\<forall>v \<in> set vs. v < 64" using assms(2) by (auto simp: in_set_conv_nth alphabet_ok_def)
  from b64_values_groups [OF g this] have "b64_encode al bs = map (\<lambda>n. al ! n) vs" by (simp add: b64_encode_def)
  also have "\<dots> = b64_chars s" by (rule nth_equalityI) (simp_all add: len at)
  finally show ?thesis .
qed

end
