(* ===== verification/Recovery_Codes.thy ===== *)
theory Recovery_Codes
  imports Go_Base64 Audit_Chain Sqlite_Base
begin

text \<open>
  \<^verbatim>\<open>internal/crypto/recovery/recovery.go\<close>: generating, splitting and verifying single-use recovery
  codes. Argon2id is a parameter: verifier, salt, time, memory, threads and output length to the
  digest. A generation draws again when a selector repeats, so it is a partial function of the
  random source. Overwriting key material is left out.
\<close>

subsection \<open>Constants and data\<close>

type_synonym kdf = "bytes \<Rightarrow> bytes \<Rightarrow> nat \<Rightarrow> nat \<Rightarrow> nat \<Rightarrow> nat \<Rightarrow> bytes"

definition alphabet :: string where "alphabet = ''0123456789ABCDEFGHJKMNPQRSTVWXYZ''"

definition selectorLen :: nat where "selectorLen = 6"
definition verifierLen :: nat where "verifierLen = 14"
definition groupLen :: nat where "groupLen = 5"
definition CodeLen :: nat where "CodeLen = selectorLen + verifierLen"

definition argonTime :: nat where "argonTime = 2"
definition argonMemory :: nat where "argonMemory = 19456"
definition argonThreads :: nat where "argonThreads = 1"
definition argonKeyLen :: nat where "argonKeyLen = 32"
definition saltLen :: nat where "saltLen = 16"
definition maxStoredHashLen :: nat where "maxStoredHashLen = 64"
definition maxStoredMemory :: nat where "maxStoredMemory = 256 * 1024"
definition maxStoredTime :: nat where "maxStoredTime = 16"
definition maxStoredThreads :: nat where "maxStoredThreads = 16"
definition minStoredSaltLen :: nat where "minStoredSaltLen = 8"

text \<open>\<^verbatim>\<open>argon2.Version\<close>, which PHC strings carry.\<close>

definition argon2_version :: nat where "argon2_version = 19"

record argon_params =
  ap_memory :: nat
  ap_time :: nat
  ap_threads :: nat

definition ErrMalformedCode :: err where "ErrMalformedCode = OtherErr ''recovery: malformed code''"
definition ErrBadStored :: err where "ErrBadStored = OtherErr ''recovery: malformed stored hash''"

record recovery_text =
  cd_display :: string
  cd_selector :: string
  cd_hash :: string

subsection \<open>The stored form\<close>

text \<open>\<^verbatim>\<open>strings.Split\<close> on one character.\<close>

fun split_on :: "char \<Rightarrow> string \<Rightarrow> string list" where
  "split_on d [] = [[]]"
| "split_on d (c # cs) =
     (if c = d then [] # split_on d cs
      else case split_on d cs of [] \<Rightarrow> [[c]] | p # ps \<Rightarrow> (c # p) # ps)"

text \<open>
  What \<^verbatim>\<open>fmt.Sscanf\<close> does with the two formats used: a literal has to match, a number may follow
  white space other than a line feed, a signed one a sign, and what follows the last number is
  not looked at.
\<close>

definition scan_literal :: "string \<Rightarrow> string \<Rightarrow> string option" where
  "scan_literal lit s = (if prefix lit s then Some (drop (length lit) s) else None)"

definition scan_space :: "string \<Rightarrow> string option" where
  "scan_space s =
     (let s' = strip_all (filter (\<lambda>q. q \<noteq> [CHR 0x0A]) space_runes) s in
      if prefix [CHR 0x0A] s' then None else Some s')"

definition digit_char :: "char \<Rightarrow> bool" where
  "digit_char c \<longleftrightarrow> 48 \<le> (of_char c :: nat) \<and> (of_char c :: nat) \<le> 57"

definition digits_value :: "string \<Rightarrow> nat" where
  "digits_value ds = foldl (\<lambda>n c. 10 * n + (of_char c - 48)) 0 ds"

definition scan_digits :: "nat \<Rightarrow> string \<Rightarrow> (nat \<times> string) option" where
  "scan_digits maximum s =
     (let ds = takeWhile digit_char s in
      if ds = [] \<or> digits_value ds > maximum then None else Some (digits_value ds, dropWhile digit_char s))"

definition scan_uint :: "nat \<Rightarrow> string \<Rightarrow> (nat \<times> string) option" where
  "scan_uint maximum s = (case scan_space s of None \<Rightarrow> None | Some s' \<Rightarrow> scan_digits maximum s')"

definition scan_int :: "string \<Rightarrow> (int \<times> string) option" where
  "scan_int s =
     (case scan_space s of
        None \<Rightarrow> None
      | Some s' \<Rightarrow>
          if prefix ''-'' s'
          then map_option (\<lambda>(n, r). (- int n, r)) (scan_digits (2 ^ 63) (drop 1 s'))
          else map_option (\<lambda>(n, r). (int n, r)) (scan_digits (2 ^ 63 - 1) (if prefix ''+'' s' then drop 1 s' else s')))"

definition scan_version :: "string \<Rightarrow> int option" where
  "scan_version s = (case scan_literal ''v='' s of None \<Rightarrow> None | Some r \<Rightarrow> map_option fst (scan_int r))"

definition scan_params :: "string \<Rightarrow> argon_params option" where
  "scan_params s =
     (case scan_literal ''m='' s of None \<Rightarrow> None | Some s1 \<Rightarrow>
     (case scan_uint (2 ^ 32 - 1) s1 of None \<Rightarrow> None | Some (m, s2) \<Rightarrow>
     (case scan_literal '',t='' s2 of None \<Rightarrow> None | Some s3 \<Rightarrow>
     (case scan_uint (2 ^ 32 - 1) s3 of None \<Rightarrow> None | Some (t, s4) \<Rightarrow>
     (case scan_literal '',p='' s4 of None \<Rightarrow> None | Some s5 \<Rightarrow>
     (case scan_uint (2 ^ 8 - 1) s5 of None \<Rightarrow> None | Some (p, s6) \<Rightarrow>
        Some \<lparr>ap_memory = m, ap_time = t, ap_threads = p\<rparr>))))))"

definition decodeParams :: "string \<Rightarrow> argon_params res" where
  "decodeParams s =
     (case scan_params s of
        None \<Rightarrow> Inl ErrBadStored
      | Some p \<Rightarrow>
          if ap_memory p = 0 \<or> ap_memory p > maxStoredMemory then Inl ErrBadStored
          else if ap_time p = 0 \<or> ap_time p > maxStoredTime then Inl ErrBadStored
          else if ap_threads p = 0 \<or> ap_threads p > maxStoredThreads then Inl ErrBadStored
          else Inr p)"

definition decodeHash :: "string \<Rightarrow> (argon_params \<times> bytes \<times> bytes) res" where
  "decodeHash s =
     (let parts = split_on (CHR ''$'') s in
      if length parts \<noteq> 6 \<or> parts ! 0 \<noteq> [] \<or> parts ! 1 \<noteq> ''argon2id'' then Inl ErrBadStored
      else if scan_version (parts ! 2) \<noteq> Some (int argon2_version) then Inl ErrBadStored
      else case decodeParams (parts ! 3) of
        Inl e \<Rightarrow> Inl e
      | Inr params \<Rightarrow>
          (case b64_decode std_alphabet False (parts ! 4) of
             None \<Rightarrow> Inl ErrBadStored
           | Some salt \<Rightarrow>
               if length salt < minStoredSaltLen then Inl ErrBadStored
               else (case b64_decode std_alphabet False (parts ! 5) of
                  None \<Rightarrow> Inl ErrBadStored
                | Some digest \<Rightarrow>
                    if length digest = 0 then Inl ErrBadStored
                    else if length digest > maxStoredHashLen then Inl ErrBadStored
                    else Inr (params, salt, digest))))"


subsection \<open>Operations\<close>

definition randomChars :: "nat \<Rightarrow> ('t, string) proc" where
  "randomChars n = bindp (rand_read n) (\<lambda>buf. ret (map (\<lambda>b. alphabet ! unat (b AND 0x1f)) buf))"

fun format_from :: "nat \<Rightarrow> string \<Rightarrow> string" where
  "format_from i [] = []"
| "format_from i (r # rs) = (if i > 0 \<and> i mod groupLen = 0 then ''-'' else []) @ r # format_from (i + 1) rs"

definition format_code :: "string \<Rightarrow> string" where
  "format_code s = format_from 0 s"

definition hashVerifier :: "kdf \<Rightarrow> bytes \<Rightarrow> ('t, string) proc" where
  "hashVerifier kdf verifier =
     bindp (rand_read saltLen) (\<lambda>salt.
       ret (''$argon2id$v='' @ decimal argon2_version @ ''$m='' @ decimal argonMemory @ '',t='' @ decimal argonTime
         @ '',p='' @ decimal argonThreads @ ''$'' @ b64_encode std_alphabet salt @ ''$''
         @ b64_encode std_alphabet (kdf verifier salt argonTime argonMemory argonThreads argonKeyLen)))"

partial_function (option) generate_loop ::
  "kdf \<Rightarrow> nat \<Rightarrow> recovery_text list \<Rightarrow> string list \<Rightarrow> 't os \<Rightarrow> (recovery_text list res \<times> 't os) option" where
  "generate_loop kdf n out seen s =
     (if length out \<ge> n then Some (Inr out, s)
      else case randomChars CodeLen s of
        (Inl e, s1) \<Rightarrow> Some (Inl e, s1)
      | (Inr raw, s1) \<Rightarrow>
          (if take selectorLen raw \<in> set seen then generate_loop kdf n out seen s1
           else case hashVerifier kdf (bytes_of (drop selectorLen raw)) s1 of
             (Inl e, s2) \<Rightarrow> Some (Inl e, s2)
           | (Inr hash, s2) \<Rightarrow>
               generate_loop kdf n
                 (out @ [\<lparr>cd_display = format_code (take selectorLen raw @ drop selectorLen raw),
                          cd_selector = take selectorLen raw, cd_hash = hash\<rparr>])
                 (take selectorLen raw # seen) s2))"

definition Generate_codes :: "kdf \<Rightarrow> int \<Rightarrow> 't os \<Rightarrow> (recovery_text list res \<times> 't os) option" where
  "Generate_codes kdf n s =
     (if n \<le> 0 then Some (Inl (OtherErr ''recovery: code count must be positive''), s)
      else generate_loop kdf (nat n) [] [] s)"

text \<open>
  \<^verbatim>\<open>strings.ToUpper\<close> as far as its result can be a character of a code: ASCII letters, and the two
  other letters whose upper case is ASCII, the dotless i and the long s.
\<close>

definition ascii_upper :: "char \<Rightarrow> char" where
  "ascii_upper c = (let n = (of_char c :: nat) in if 97 \<le> n \<and> n \<le> 122 then char_of (n - 32) else c)"

fun upper_text :: "string \<Rightarrow> string" where
  "upper_text (c # d # rest) =
     (if c = CHR 0xC4 \<and> d = CHR 0xB1 then CHR ''I'' # upper_text rest
      else if c = CHR 0xC5 \<and> d = CHR 0xBF then CHR ''S'' # upper_text rest
      else ascii_upper c # upper_text (d # rest))"
| "upper_text [c] = [ascii_upper c]"
| "upper_text [] = []"

definition separator :: "char \<Rightarrow> bool" where
  "separator r \<longleftrightarrow> r = CHR ''-'' \<or> r = CHR '' '' \<or> r = CHR 0x09 \<or> r = CHR ''_''"

definition fold_homoglyph :: "char \<Rightarrow> char" where
  "fold_homoglyph r = (if r = CHR ''I'' \<or> r = CHR ''L'' then CHR ''1'' else if r = CHR ''O'' then CHR ''0'' else r)"

fun split_loop :: "string \<Rightarrow> string res" where
  "split_loop [] = Inr []"
| "split_loop (r # rs) =
     (if separator r then split_loop rs
      else if fold_homoglyph r \<notin> set alphabet then Inl ErrMalformedCode
      else case split_loop rs of Inl e \<Rightarrow> Inl e | Inr s \<Rightarrow> Inr (fold_homoglyph r # s))"

definition Split :: "string \<Rightarrow> (string \<times> bytes) res" where
  "Split input =
     (case split_loop (upper_text input) of
        Inl e \<Rightarrow> Inl e
      | Inr s \<Rightarrow>
          if length s \<noteq> CodeLen then Inl ErrMalformedCode
          else Inr (take selectorLen s, bytes_of (drop selectorLen s)))"

definition Verify_code :: "kdf \<Rightarrow> bytes \<Rightarrow> string \<Rightarrow> bool res" where
  "Verify_code kdf verifier storedHash =
     (case decodeHash storedHash of
        Inl e \<Rightarrow> Inl e
      | Inr (params, salt, want) \<Rightarrow>
          Inr (kdf verifier salt (ap_time params) (ap_memory params) (ap_threads params) (length want) = want))"


subsection \<open>The stored form is read back\<close>

lemma split_on_append: "d \<notin> set u \<Longrightarrow> split_on d (u @ d # v) = u # split_on d v"
  by (induction u) auto

lemma split_on_none: "d \<notin> set u \<Longrightarrow> split_on d u = [u]"
  by (induction u) auto

lemma decimals: "decimal 19 = ''19''" "decimal 19456 = ''19456''" "decimal 2 = ''2''" "decimal (Suc 0) = ''1''"
  by (simp_all add: decimal.simps decimal_digit_def)

lemma std_no_dollar: "CHR ''$'' \<notin> set (b64_encode std_alphabet bs)"
proof -
  have "CHR ''$'' \<notin> set std_alphabet" by (simp add: std_alphabet_def b64_common_def)
  with b64_encode_chars [OF alphabets_ok(2)] show ?thesis by blast
qed

definition phc :: "bytes \<Rightarrow> bytes \<Rightarrow> string" where
  "phc salt digest = ''$argon2id$v=19$m=19456,t=2,p=1$'' @ b64_encode std_alphabet salt @ ''$'' @ b64_encode std_alphabet digest"

lemma phc_parts:
  "split_on (CHR ''$'') (phc salt digest)
     = [[], ''argon2id'', ''v=19'', ''m=19456,t=2,p=1'', b64_encode std_alphabet salt, b64_encode std_alphabet digest]"
  using split_on_append [OF std_no_dollar [of salt], of "b64_encode std_alphabet digest"] split_on_none [OF std_no_dollar [of digest]]
  by (simp add: phc_def)

lemma scan_space_digit: "digit_char c \<Longrightarrow> scan_space (c # s) = Some (c # s)"
proof -
  assume c: "digit_char c"
  have "\<not> prefix q (c # s)" if "q \<in> set space_runes" for q
    using that c by (auto simp: space_runes_def digit_char_def)
  then have "strip1 (filter (\<lambda>q. q \<noteq> [CHR 0x0A]) space_runes) (c # s) = None"
    by (auto simp: strip1_def find_None_iff)
  moreover have "c \<noteq> CHR 0x0A" using c by (auto simp: digit_char_def)
  ultimately show ?thesis by (simp add: scan_space_def strip_all_fixed)
qed

lemmas scan_simps = scan_literal_def scan_space_digit scan_digits_def digits_value_def digit_char_def Let_def

lemma phc_version: "scan_version ''v=19'' = Some 19"
  by (simp add: scan_version_def scan_int_def scan_simps)

lemma phc_params: "decodeParams ''m=19456,t=2,p=1'' = Inr \<lparr>ap_memory = 19456, ap_time = 2, ap_threads = 1\<rparr>"
  by (simp add: decodeParams_def scan_params_def scan_uint_def scan_simps maxStoredMemory_def maxStoredTime_def maxStoredThreads_def)

lemma decodeHash_phc:
  assumes "8 \<le> length salt" and "0 < length digest" and "length digest \<le> 64"
  shows "decodeHash (phc salt digest) = Inr (\<lparr>ap_memory = 19456, ap_time = 2, ap_threads = 1\<rparr>, salt, digest)"
  using assms
  by (simp add: decodeHash_def phc_parts phc_version phc_params argon2_version_def b64_roundtrip alphabets_ok
      minStoredSaltLen_def maxStoredHashLen_def)

lemma decodeParams_Inr:
  "decodeParams s = Inr p \<Longrightarrow> 1 \<le> ap_memory p \<and> ap_memory p \<le> maxStoredMemory \<and> 1 \<le> ap_time p \<and> ap_time p \<le> maxStoredTime
     \<and> 1 \<le> ap_threads p \<and> ap_threads p \<le> maxStoredThreads"
  by (auto simp: decodeParams_def split: option.splits if_splits)

lemma decodeHash_Inl: "decodeHash s = Inl e \<Longrightarrow> e = ErrBadStored"
  by (auto simp: decodeHash_def decodeParams_def Let_def split: option.splits if_splits sum.splits)

subsection \<open>What a user may type\<close>

lemma upper_ascii: "\<forall>c \<in> set u. (of_char c :: nat) < 128 \<Longrightarrow> upper_text u = map ascii_upper u"
  by (induction u rule: upper_text.induct) auto

lemma split_loop_clean:
  "set (filter (\<lambda>c. \<not> separator c) t) \<subseteq> set alphabet \<Longrightarrow> split_loop t = Inr (filter (\<lambda>c. \<not> separator c) t)"
proof (induction t)
  case (Cons r rs)
  have "fold_homoglyph r = r" if "r \<in> set alphabet"
    using that by (auto simp: fold_homoglyph_def alphabet_def)
  with Cons show ?case by (auto split: if_splits)
qed simp

lemma separator_upper: "separator (ascii_upper c) \<longleftrightarrow> separator c"
proof -
  have "ascii_upper c = c \<or> \<not> separator (ascii_upper c) \<and> \<not> separator c"
  proof (cases "97 \<le> (of_char c :: nat) \<and> (of_char c :: nat) \<le> 122")
    case True
    then have "(of_char c - 32 :: nat) < 256" by linarith
    with True have "(of_char (ascii_upper c) :: nat) = of_char c - 32" by (simp add: ascii_upper_def Let_def)
    with True have "65 \<le> (of_char (ascii_upper c) :: nat) \<and> (of_char (ascii_upper c) :: nat) \<le> 90" by linarith
    with True show ?thesis by (auto simp: separator_def)
  next
    case False
    then show ?thesis by (auto simp: ascii_upper_def Let_def)
  qed
  then show ?thesis by auto
qed

lemma filter_upper: "filter (\<lambda>c. \<not> separator c) (map ascii_upper u) = map ascii_upper (filter (\<lambda>c. \<not> separator c) u)"
  by (induction u) (simp_all add: separator_upper)

lemma Split_typed:
  assumes "\<forall>c \<in> set u. (of_char c :: nat) < 128" and "map ascii_upper (filter (\<lambda>c. \<not> separator c) u) = sel @ ver"
    and "length sel = 6" and "length ver = 14" and "set (sel @ ver) \<subseteq> set alphabet"
  shows "Split u = Inr (sel, bytes_of ver)"
proof -
  have "split_loop (map ascii_upper u) = Inr (sel @ ver)"
    using split_loop_clean [of "map ascii_upper u"] assms(2,5) by (simp add: filter_upper)
  with assms show ?thesis
    by (simp add: Split_def upper_ascii CodeLen_def selectorLen_def verifierLen_def)
qed

lemma format_from_filter: "set s \<subseteq> set alphabet \<Longrightarrow> filter (\<lambda>c. \<not> separator c) (format_from i s) = s"
proof (induction s arbitrary: i)
  case (Cons r rs)
  then have "\<not> separator r" by (auto simp: separator_def alphabet_def)
  with Cons show ?case by (simp add: separator_def)
qed simp

lemma format_from_set: "set (format_from i s) \<subseteq> set s \<union> {CHR ''-''}"
  by (induction i s rule: format_from.induct) auto

lemma alphabet_upper: "\<forall>c \<in> set alphabet. ascii_upper c = c \<and> (of_char c :: nat) < 128"
  by (simp add: alphabet_def ascii_upper_def)

subsection \<open>Issuing\<close>

definition issued :: "kdf \<Rightarrow> recovery_text \<Rightarrow> bool" where
  "issued kdf c \<longleftrightarrow> (\<exists>ver salt. length (cd_selector c) = 6 \<and> length ver = 14 \<and> set (cd_selector c @ ver) \<subseteq> set alphabet
     \<and> cd_display c = format_code (cd_selector c @ ver) \<and> length salt = 16
     \<and> cd_hash c = phc salt (kdf (bytes_of ver) salt 2 19456 1 32))"

definition draw :: "(nat \<Rightarrow> byte) \<Rightarrow> nat \<Rightarrow> nat \<Rightarrow> string" where
  "draw rnd i n = map (\<lambda>j. alphabet ! unat (rnd (i + j) AND 0x1f)) [0..<n]"

text \<open>A source that always yields, sooner or later, a selector outside any set of fewer than \<open>n\<close>.\<close>

definition diverse :: "nat \<Rightarrow> (nat \<Rightarrow> byte) \<Rightarrow> bool" where
  "diverse n rnd \<longleftrightarrow> (\<forall>start seen. length seen < n \<longrightarrow> (\<exists>k. draw rnd (start + 20 * k) 6 \<notin> set seen))"

lemma diverse_shift: "diverse n rnd \<Longrightarrow> diverse n (\<lambda>i. rnd (i + m))"
proof -
  assume d: "diverse n rnd"
  have "draw (\<lambda>i. rnd (i + m)) (start + 20 * k) 6 = draw rnd (start + m + 20 * k) 6" for start k
    by (simp add: draw_def add_ac)
  with d show ?thesis unfolding diverse_def by metis
qed

lemma low_bits: "unat (b AND 0x1f :: byte) < 32"
proof -
  have "b AND 0x1f = take_bit 5 b" by (simp add: take_bit_eq_mask mask_eq_exp_minus_1)
  then have "unat (b AND 0x1f) = take_bit 5 (unat b)" by (simp add: unsigned_take_bit_eq)
  also have "\<dots> < 2 ^ 5" by (rule take_bit_nat_less_exp)
  finally show ?thesis by simp
qed

lemma draw_chars: "set (draw rnd i n) \<subseteq> set alphabet"
proof -
  have "length alphabet = 32" by (simp add: alphabet_def)
  then show ?thesis using low_bits nth_mem by (fastforce simp: draw_def)
qed

lemma randomChars_draw:
  "randomChars n s = (Inr (draw (os_rand s) 0 n), s\<lparr>os_rand := (\<lambda>i. os_rand s (i + n))\<rparr>)"
  by (simp add: randomChars_def bindp_def rand_read_def ret_def draw_def)


lemma hashVerifier_phc:
  "\<exists>salt. length salt = 16 \<and> hashVerifier kdf ver s
     = (Inr (phc salt (kdf ver salt 2 19456 1 32)), s\<lparr>os_rand := (\<lambda>i. os_rand s (i + 16))\<rparr>)"
  by (rule exI [of _ "map (os_rand s) [0..<16]"])
     (simp add: hashVerifier_def bindp_def rand_read_def ret_def phc_def decimals argon2_version_def argonMemory_def
        argonTime_def argonThreads_def argonKeyLen_def saltLen_def)

definition collected :: "kdf \<Rightarrow> recovery_text list \<Rightarrow> string list \<Rightarrow> bool" where
  "collected kdf out seen \<longleftrightarrow> map cd_selector out = rev seen \<and> distinct seen \<and> (\<forall>c \<in> set out. issued kdf c)"

text \<open>One turn of the loop: a repeated selector is drawn again, a new one becomes a code.\<close>

lemma generate_again:
  assumes "length out < n" and "draw (os_rand s) 0 6 \<in> set seen"
  shows "generate_loop kdf n out seen s = generate_loop kdf n out seen (s\<lparr>os_rand := (\<lambda>i. os_rand s (i + 20))\<rparr>)"
proof -
  have "take 6 (draw (os_rand s) 0 20) = draw (os_rand s) 0 6" by (simp add: draw_def take_map)
  with assms show ?thesis
    by (simp add: generate_loop.simps [of kdf n out seen s] randomChars_draw CodeLen_def selectorLen_def verifierLen_def)
qed

lemma generate_fresh:
  assumes "length out < n" and "draw (os_rand s) 0 6 \<notin> set seen" and "collected kdf out seen"
  obtains c where "generate_loop kdf n out seen s
      = generate_loop kdf n (out @ [c]) (cd_selector c # seen) (s\<lparr>os_rand := (\<lambda>i. os_rand s (i + 36))\<rparr>)"
    and "collected kdf (out @ [c]) (cd_selector c # seen)"
proof -
  let ?raw = "draw (os_rand s) 0 20"
  let ?s1 = "s\<lparr>os_rand := (\<lambda>i. os_rand s (i + 20))\<rparr>"
  have sel: "take 6 ?raw = draw (os_rand s) 0 6" by (simp add: draw_def take_map)
  have len: "length ?raw = 20" by (simp add: draw_def)
  obtain salt where salt: "length salt = 16" "hashVerifier kdf (bytes_of (drop 6 ?raw)) ?s1
     = (Inr (phc salt (kdf (bytes_of (drop 6 ?raw)) salt 2 19456 1 32)), ?s1\<lparr>os_rand := (\<lambda>i. os_rand ?s1 (i + 16))\<rparr>)"
    using hashVerifier_phc by blast
  define c where "c = \<lparr>cd_display = format_code (take 6 ?raw @ drop 6 ?raw), cd_selector = take 6 ?raw,
    cd_hash = phc salt (kdf (bytes_of (drop 6 ?raw)) salt 2 19456 1 32)\<rparr>"
  have run: "generate_loop kdf n out seen s
      = generate_loop kdf n (out @ [c]) (cd_selector c # seen) (s\<lparr>os_rand := (\<lambda>i. os_rand s (i + 36))\<rparr>)"
    using assms(1,2) salt(2) sel
    by (simp add: generate_loop.simps [of kdf n out seen s] randomChars_draw CodeLen_def selectorLen_def verifierLen_def c_def
        add_ac)
  have "issued kdf c"
    unfolding issued_def
    by (intro exI [of _ "drop 6 ?raw"] exI [of _ salt]) (use salt(1) len draw_chars [of "os_rand s" 0 20] in \<open>simp add: c_def\<close>)
  with assms(2,3) have "collected kdf (out @ [c]) (cd_selector c # seen)"
    using sel by (auto simp: collected_def c_def)
  with run show thesis by (rule that)
qed

lemma generate_total:
  assumes "collected kdf out seen" and "length out \<le> n" and "diverse n (os_rand s)"
  shows "\<exists>cs s'. generate_loop kdf n out seen s = Some (Inr cs, s') \<and> length cs = n
    \<and> distinct (map cd_selector cs) \<and> (\<forall>c \<in> set cs. issued kdf c)"
  using assms
proof (induction "n - length out" arbitrary: out seen s)
  case 0
  then have "length out = n" by simp
  with 0 show ?case by (auto simp: generate_loop.simps [of kdf n out seen s] collected_def)
next
  case (Suc m)
  have less: "length out < n" using Suc.hyps(2) by simp
  have fresh: "\<exists>cs s'. generate_loop kdf n out seen s = Some (Inr cs, s') \<and> length cs = n
      \<and> distinct (map cd_selector cs) \<and> (\<forall>c \<in> set cs. issued kdf c)"
    if new: "draw (os_rand s) 0 6 \<notin> set seen" and div: "diverse n (os_rand s)" for s :: "'a os"
  proof -
    from generate_fresh [OF less new Suc.prems(1)] obtain c where
      run: "generate_loop kdf n out seen s
        = generate_loop kdf n (out @ [c]) (cd_selector c # seen) (s\<lparr>os_rand := (\<lambda>i. os_rand s (i + 36))\<rparr>)"
      and col: "collected kdf (out @ [c]) (cd_selector c # seen)" .
    have "diverse n (os_rand (s\<lparr>os_rand := (\<lambda>i. os_rand s (i + 36))\<rparr>))" using diverse_shift [OF div] by simp
    from Suc.hyps(1) [OF _ col _ this] Suc.hyps(2) less show ?thesis unfolding run by simp
  qed
  have "\<exists>cs s'. generate_loop kdf n out seen s = Some (Inr cs, s') \<and> length cs = n
      \<and> distinct (map cd_selector cs) \<and> (\<forall>c \<in> set cs. issued kdf c)"
    if "draw (os_rand s) (20 * k) 6 \<notin> set seen" "diverse n (os_rand s)" for k and s :: "'a os"
    using that
  proof (induction k arbitrary: s)
    case 0
    then show ?case using fresh by simp
  next
    case (Suc k)
    let ?s1 = "s\<lparr>os_rand := (\<lambda>i. os_rand s (i + 20))\<rparr>"
    show ?case
    proof (cases "draw (os_rand s) 0 6 \<in> set seen")
      case True
      have "draw (os_rand ?s1) (20 * k) 6 = draw (os_rand s) (20 * Suc k) 6" by (simp add: draw_def add_ac)
      with Suc.prems diverse_shift [OF Suc.prems(2)] Suc.IH [of ?s1] show ?thesis
        unfolding generate_again [OF less True] by simp
    next
      case False
      with Suc.prems(2) show ?thesis by (intro fresh)
    qed
  qed
  moreover have "length seen < n" using Suc.prems(1) less by (metis collected_def length_map length_rev)
  then obtain k where "draw (os_rand s) (0 + 20 * k) 6 \<notin> set seen" using Suc.prems(3) unfolding diverse_def by blast
  ultimately show ?case using Suc.prems(3) by simp
qed


text \<open>
  C24: issued recovery codes work, and issuing ends. With a random source that keeps producing new
  selectors and a key derivation of the length asked for, \<^verbatim>\<open>Generate\<close> returns: as many codes as
  asked for, no selector twice. Each of them is understood when it is typed back, in either case
  and with any separators, as its selector and a verifier that the stored hash accepts.
\<close>

theorem recovery_codes_work:
  assumes "\<forall>p salt t m c n. length (kdf p salt t m c n) = n" and "diverse (nat n) (os_rand s)" and "n > 0"
  shows "\<exists>cs s'. Generate_codes kdf n s = Some (Inr cs, s') \<and> int (length cs) = n \<and> distinct (map cd_selector cs)
    \<and> (\<forall>c \<in> set cs. \<exists>ver. Split (cd_display c) = Inr (cd_selector c, ver) \<and> Verify_code kdf ver (cd_hash c) = Inr True
        \<and> (\<forall>u. (\<forall>x \<in> set u. (of_char x :: nat) < 128)
              \<and> map ascii_upper (filter (\<lambda>x. \<not> separator x) u) = filter (\<lambda>x. \<not> separator x) (cd_display c)
            \<longrightarrow> Split u = Inr (cd_selector c, ver)))"
proof -
  have "collected kdf [] []" by (simp add: collected_def)
  from generate_total [OF this, of "nat n" s] assms(2,3) obtain cs s' where
    run: "Generate_codes kdf n s = Some (Inr cs, s')" and cs: "int (length cs) = n" "distinct (map cd_selector cs)"
    and iss: "\<forall>c \<in> set cs. issued kdf c"
    by (auto simp: Generate_codes_def)
  have "\<exists>ver. Split (cd_display c) = Inr (cd_selector c, ver) \<and> Verify_code kdf ver (cd_hash c) = Inr True
      \<and> (\<forall>u. (\<forall>x \<in> set u. (of_char x :: nat) < 128)
            \<and> map ascii_upper (filter (\<lambda>x. \<not> separator x) u) = filter (\<lambda>x. \<not> separator x) (cd_display c)
          \<longrightarrow> Split u = Inr (cd_selector c, ver))" if "c \<in> set cs" for c
  proof -
    from iss that obtain ver salt where len: "length (cd_selector c) = 6" "length ver = 14"
      and al: "set (cd_selector c @ ver) \<subseteq> set alphabet" and d: "cd_display c = format_code (cd_selector c @ ver)"
      and h: "length salt = 16" "cd_hash c = phc salt (kdf (bytes_of ver) salt 2 19456 1 32)"
      unfolding issued_def by blast
    have clean: "filter (\<lambda>x. \<not> separator x) (cd_display c) = cd_selector c @ ver"
      unfolding d format_code_def by (rule format_from_filter [OF al])
    have typed: "Split u = Inr (cd_selector c, bytes_of ver)"
      if "\<forall>x \<in> set u. (of_char x :: nat) < 128" "map ascii_upper (filter (\<lambda>x. \<not> separator x) u) = cd_selector c @ ver" for u
      using that len al by (rule Split_typed)
    have "\<forall>x \<in> set (cd_display c). (of_char x :: nat) < 128"
      using format_from_set [of 0 "cd_selector c @ ver"] al alphabet_upper unfolding d format_code_def by fastforce
    moreover have "map ascii_upper (cd_selector c @ ver) = cd_selector c @ ver"
      using al alphabet_upper by (intro map_idI) blast
    ultimately have "Split (cd_display c) = Inr (cd_selector c, bytes_of ver)"
      using typed clean by simp
    moreover have "Verify_code kdf (bytes_of ver) (cd_hash c) = Inr True"
      using assms(1) h by (simp add: Verify_code_def decodeHash_phc)
    ultimately show ?thesis using typed clean by auto
  qed
  with run cs show ?thesis by auto
qed

text \<open>
  C25: a stored hash cannot ask for unbounded work. Whatever text a row carries, it is refused as
  malformed or the key derivation runs once with parameters inside fixed bounds: at most 256 MiB,
  16 passes and 16 lanes, none of them zero, at least 8 bytes of salt and 1 to 64 bytes of output.
  Outside those the verification answers the same error, never a panic.
\<close>

theorem stored_hash_bounded:
  "(case decodeHash stored of
      Inl e \<Rightarrow> e = ErrBadStored \<and> Verify_code kdf ver stored = Inl ErrBadStored
    | Inr (p, salt, want) \<Rightarrow>
        1 \<le> ap_memory p \<and> ap_memory p \<le> 262144 \<and> 1 \<le> ap_time p \<and> ap_time p \<le> 16
        \<and> 1 \<le> ap_threads p \<and> ap_threads p \<le> 16 \<and> 8 \<le> length salt \<and> 1 \<le> length want \<and> length want \<le> 64
        \<and> Verify_code kdf ver stored
            = Inr (kdf ver salt (ap_time p) (ap_memory p) (ap_threads p) (length want) = want))"
proof (cases "decodeHash stored")
  case (Inl e)
  with decodeHash_Inl [OF Inl] show ?thesis by (simp add: Verify_code_def)
next
  case (Inr x)
  obtain p salt want where x: "x = (p, salt, want)" by (cases x)
  from Inr have d: "decodeParams (split_on (CHR ''$'') stored ! 3) = Inr p" and l: "minStoredSaltLen \<le> length salt"
    "0 < length want" "length want \<le> maxStoredHashLen"
    by (auto simp: x decodeHash_def Let_def split: if_splits sum.splits option.splits)
  from decodeParams_Inr [OF d] l Inr show ?thesis
    by (simp add: x Verify_code_def minStoredSaltLen_def maxStoredHashLen_def maxStoredMemory_def maxStoredTime_def
        maxStoredThreads_def Suc_le_eq)
qed

subsection \<open>Two codes\<close>

definition demo_kdf :: kdf where "demo_kdf p salt t m c n = replicate n (sum_list p + sum_list salt)"

lemma demo_diverse: "diverse 2 (\<lambda>i. of_nat (7 * i + 3))"
proof -
  have two: "draw (\<lambda>i. of_nat (7 * i + 3)) start 6 \<noteq> draw (\<lambda>i. of_nat (7 * i + 3)) (start + 20) 6" for start
  proof
    let ?r = "\<lambda>i. of_nat (7 * i + 3) :: byte"
    assume "draw ?r start 6 = draw ?r (start + 20) 6"
    from arg_cong [OF this, of "\<lambda>l. l ! 0"]
    have "alphabet ! unat (?r start AND 0x1f) = alphabet ! unat (?r (start + 20) AND 0x1f)" by (simp add: draw_def)
    moreover have "distinct alphabet" "length alphabet = 32" by (simp_all add: alphabet_def)
    ultimately have eq: "unat (?r start AND 0x1f) = unat (?r (start + 20) AND 0x1f)"
      using low_bits by (metis nth_eq_iff_index_eq)
    have low: "unat (of_nat n AND 0x1f :: byte) = n mod 32" for n
    proof -
      have "(of_nat n :: byte) AND 0x1f = take_bit 5 (of_nat n)" by (simp add: take_bit_eq_mask mask_eq_exp_minus_1)
      then have "unat (of_nat n AND 0x1f :: byte) = take_bit 5 (unat (of_nat n :: byte))" by (simp add: unsigned_take_bit_eq)
      also have "\<dots> = n mod 256 mod 32" by (simp add: unat_of_nat take_bit_eq_mod)
      also have "\<dots> = n mod 32" by (simp add: mod_mod_cancel)
      finally show ?thesis .
    qed
    from eq have "(7 * start + 3) mod 32 = (7 * (start + 20) + 3) mod 32" by (simp only: low)
    then have "(7 * start + 3) mod 32 = (7 * start + 3 + 140) mod 32" by (simp add: algebra_simps)
    then have "(32 :: nat) dvd 140" by (metis mod_eq_dvd_iff_nat add_diff_cancel_left' le_add1)
    then show False by simp
  qed
  show ?thesis
    unfolding diverse_def
  proof (intro allI impI)
    fix start and seen :: "string list"
    assume "length seen < 2"
    then obtain a where "set seen \<subseteq> {a}" by (cases seen) auto
    then have "draw (\<lambda>i. of_nat (7 * i + 3)) (start + 20 * 0) 6 \<notin> set seen
        \<or> draw (\<lambda>i. of_nat (7 * i + 3)) (start + 20 * 1) 6 \<notin> set seen"
      using two [of start] by auto
    then show "\<exists>k. draw (\<lambda>i. of_nat (7 * i + 3)) (start + 20 * k) 6 \<notin> set seen" by blast
  qed
qed

theorem recovery_codes_work_witness:
  "\<exists>cs s'. Generate_codes demo_kdf 2 (fresh_os 0 ()) = Some (Inr cs, s') \<and> length cs = 2
     \<and> (\<forall>c \<in> set cs. \<exists>ver. Split (cd_display c) = Inr (cd_selector c, ver) \<and> Verify_code demo_kdf ver (cd_hash c) = Inr True)"
proof -
  have "\<forall>p salt t m c n. length (demo_kdf p salt t m c n) = n" by (simp add: demo_kdf_def)
  moreover have "diverse (nat 2) (os_rand (fresh_os 0 ()))" using demo_diverse by (simp add: fresh_os_def)
  ultimately obtain cs s' where run: "Generate_codes demo_kdf 2 (fresh_os 0 ()) = Some (Inr cs, s')" "int (length cs) = 2"
    and all: "\<forall>c \<in> set cs. \<exists>ver. Split (cd_display c) = Inr (cd_selector c, ver) \<and> Verify_code demo_kdf ver (cd_hash c) = Inr True
        \<and> (\<forall>u. (\<forall>x \<in> set u. (of_char x :: nat) < 128)
              \<and> map ascii_upper (filter (\<lambda>x. \<not> separator x) u) = filter (\<lambda>x. \<not> separator x) (cd_display c)
            \<longrightarrow> Split u = Inr (cd_selector c, ver))"
    using recovery_codes_work [of demo_kdf 2 "fresh_os 0 ()"] by auto
  from all have "\<forall>c \<in> set cs. \<exists>ver. Split (cd_display c) = Inr (cd_selector c, ver) \<and> Verify_code demo_kdf ver (cd_hash c) = Inr True"
    by blast
  moreover have "length cs = 2" using run(2) by linarith
  ultimately show ?thesis using run(1) by blast
qed

end
