(* ===== verification/Token.thy ===== *)
theory Token
  imports Go_Base64 Audit_Chain Go_Net Sqlite_Base
begin

text \<open>
  \<^verbatim>\<open>internal/crypto/token/token.go\<close>: minting, parsing and verifying bearer credentials. SHA-256 is
  a parameter; overwriting the random bytes is left out.
\<close>

subsection \<open>Credentials\<close>

type_synonym token_kind = string

definition KindAPIKey :: token_kind where "KindAPIKey = ''npt''"
definition KindAdmin :: token_kind where "KindAdmin = ''npa''"

definition Kind_Valid :: "token_kind \<Rightarrow> bool" where
  "Kind_Valid k \<longleftrightarrow> k = KindAPIKey \<or> k = KindAdmin"

definition selectorBytes :: nat where "selectorBytes = 8"
definition verifierBytes :: nat where "verifierBytes = 20"
definition SelectorLen :: nat where "SelectorLen = selectorBytes * 2"

definition ErrInvalid :: err where "ErrInvalid = OtherErr ''token: invalid credential''"
definition ErrBadKind :: err where "ErrBadKind = OtherErr ''token: unknown credential kind''"
definition ErrBadHash :: "string \<Rightarrow> err" where "ErrBadHash why = OtherErr (''token: malformed stored hash: '' @ why)"

record minted =
  tk_display :: string
  tk_selector :: string
  tk_hash :: string

definition token_message :: "token_kind \<Rightarrow> string \<Rightarrow> string \<Rightarrow> bytes" where
  "token_message kind selector verifier =
     bytes_of ''n0passtemps/bearer-token/v1'' @ [0] @ bytes_of kind @ [0] @ bytes_of selector @ [0] @ bytes_of verifier"

definition Token_Hash :: "(bytes \<Rightarrow> bytes) \<Rightarrow> token_kind \<Rightarrow> string \<Rightarrow> string \<Rightarrow> string" where
  "Token_Hash h kind selector verifier = ''sha256:'' @ hex_encode (h (token_message kind selector verifier))"

definition Generate_token :: "(bytes \<Rightarrow> bytes) \<Rightarrow> token_kind \<Rightarrow> ('t, minted) proc" where
  "Generate_token h kind =
     (if \<not> Kind_Valid kind then failp ErrBadKind
      else bindp (rand_read selectorBytes) (\<lambda>selRaw.
        let selector = hex_encode selRaw in
        bindp (rand_read verifierBytes) (\<lambda>verRaw.
          let verifier = b64_encode url_alphabet verRaw in
          ret \<lparr>tk_display = kind @ ''_'' @ selector @ ''.'' @ verifier, tk_selector = selector,
               tk_hash = Token_Hash h kind selector verifier\<rparr>)))"

record parsed =
  pt_kind :: token_kind
  pt_selector :: string
  pt_verifier :: string

definition isHex :: "string \<Rightarrow> bool" where
  "isHex s \<longleftrightarrow> (\<forall>r \<in> set s. CHR ''0'' \<le> r \<and> r \<le> CHR ''9'' \<or> CHR ''a'' \<le> r \<and> r \<le> CHR ''f'') \<and> s \<noteq> []"

definition Parse :: "string \<Rightarrow> parsed res" where
  "Parse presented =
     (let s = TrimSpace presented in
      case index_byte (CHR ''_'') s of
        None \<Rightarrow> Inl ErrInvalid
      | Some underscore \<Rightarrow>
          if underscore = 0 then Inl ErrInvalid
          else let kind = take underscore s; rest = drop (underscore + 1) s in
          if \<not> Kind_Valid kind then Inl ErrInvalid
          else case index_byte (CHR ''.'') rest of
            None \<Rightarrow> Inl ErrInvalid
          | Some dot \<Rightarrow>
              if dot = 0 \<or> dot = length rest - 1 then Inl ErrInvalid
              else let selector = take dot rest; verifier = drop (dot + 1) rest in
              if length selector \<noteq> SelectorLen \<or> \<not> isHex selector then Inl ErrInvalid
              else if length verifier \<noteq> b64_length verifierBytes then Inl ErrInvalid
              else if b64_decode url_alphabet True verifier = None then Inl ErrInvalid
              else Inr \<lparr>pt_kind = kind, pt_selector = selector, pt_verifier = verifier\<rparr>)"

text \<open>The digest of SHA-256 has 32 bytes; \<^verbatim>\<open>ConstantTimeCompare\<close> is equality.\<close>

definition sha256_size :: nat where "sha256_size = 32"

definition Verify_token :: "(bytes \<Rightarrow> bytes) \<Rightarrow> parsed \<Rightarrow> string \<Rightarrow> bool res" where
  "Verify_token h p storedHash =
     (if \<not> prefix ''sha256:'' storedHash then Inl (ErrBadHash ''expected a sha256 prefix'')
      else case hex_decode (drop 7 storedHash) of
        None \<Rightarrow> Inl (ErrBadHash ''digest is not 32 hex bytes'')
      | Some want \<Rightarrow>
          if length want \<noteq> sha256_size then Inl (ErrBadHash ''digest is not 32 hex bytes'')
          else case hex_decode (drop 7 (Token_Hash h (pt_kind p) (pt_selector p) (pt_verifier p))) of
            None \<Rightarrow> Inl (OtherErr ''token: encode digest'')
          | Some got \<Rightarrow> Inr (got = want))"

text \<open>No letter of the scheme's name folds to anything outside ASCII.\<close>

definition FromAuthorizationHeader :: "string \<Rightarrow> string res" where
  "FromAuthorizationHeader header =
     (let h = TrimSpace header in
      if length h \<le> 6 \<or> map ascii_lower (take 6 h) \<noteq> ''bearer'' then Inl ErrInvalid
      else if h ! 6 \<noteq> CHR '' '' \<and> h ! 6 \<noteq> CHR 0x09 then Inl ErrInvalid
      else let v = TrimSpace (drop 7 h) in
      if v = [] then Inl ErrInvalid else Inr v)"

subsection \<open>Lemmas\<close>

text \<open>Trimming looks at both ends only.\<close>

lemma strip1_printable:
  assumes "\<forall>q \<in> set runes. q \<noteq> [] \<longrightarrow> hd q \<notin> printable" and "c \<in> printable"
  shows "strip1 runes (c # s) = None"
  using assms by (fastforce simp: strip1_def find_None_iff prefix_def Cons_eq_append_conv)

lemma space_ends: "\<forall>q \<in> set space_runes. hd q \<notin> printable \<and> last q \<notin> printable"
  by (simp add: space_runes_def printable_def)

lemma TrimSpace_ends:
  assumes "s \<noteq> []" and "hd s \<in> printable" and "last s \<in> printable"
  shows "TrimSpace s = s"
proof -
  from assms(1) obtain u c where u: "s = u @ [c]" by (metis rev_exhaust)
  have left: "strip1 space_runes s = None"
    using strip1_printable [of space_runes "hd s" "tl s"] space_ends assms by auto
  have "\<forall>q \<in> set (map rev space_runes). q \<noteq> [] \<longrightarrow> hd q \<notin> printable"
    using space_ends by (auto simp: hd_rev)
  from strip1_printable [OF this, of c "rev u"] assms(3) have "strip1 (map rev space_runes) (rev s) = None"
    by (simp add: u)
  with left show ?thesis by (simp add: TrimSpace_def trim_left_def trim_right_def strip_all_fixed)
qed

lemma isHex_encode: "bs \<noteq> [] \<Longrightarrow> isHex (hex_encode bs)"
proof -
  assume "bs \<noteq> []"
  then have "length (hex_encode bs) \<noteq> 0" by simp
  then have "hex_encode bs \<noteq> []" by (metis list.size(3))
  moreover have "\<forall>c \<in> set ''0123456789abcdef''. CHR ''0'' \<le> c \<and> c \<le> CHR ''9'' \<or> CHR ''a'' \<le> c \<and> c \<le> CHR ''f''"
    by (simp add: less_eq_char_def)
  ultimately show ?thesis unfolding isHex_def using hex_encode_chars [of bs] by blast
qed


lemma Generate_Inr:
  assumes "Generate_token h kind s = (Inr t, s')"
  obtains selRaw verRaw where "Kind_Valid kind" "length selRaw = 8" "length verRaw = 20"
    "tk_selector t = hex_encode selRaw"
    "tk_display t = kind @ ''_'' @ hex_encode selRaw @ ''.'' @ b64_encode url_alphabet verRaw"
    "tk_hash t = Token_Hash h kind (hex_encode selRaw) (b64_encode url_alphabet verRaw)"
  using assms that [of "map (os_rand s) [0..<8]" "map (\<lambda>i. os_rand s (i + 8)) [0..<20]"]
  by (auto simp: Generate_token_def failp_def bindp_def rand_read_def ret_def selectorBytes_def verifierBytes_def
      Let_def split: if_splits)

lemma url_printable: "set url_alphabet \<subseteq> printable"
  by (simp add: url_alphabet_def b64_common_def printable_def)

lemma hex_printable: "set (hex_encode bs) \<subseteq> printable - {CHR ''.''}"
proof -
  have "set ''0123456789abcdef'' \<subseteq> printable - {CHR ''.''}" by (simp add: printable_def)
  with hex_encode_chars show ?thesis by blast
qed

lemma kind_chars: "Kind_Valid k \<Longrightarrow> k \<noteq> [] \<and> set k \<subseteq> printable - {CHR ''_''}"
  by (auto simp: Kind_Valid_def KindAPIKey_def KindAdmin_def printable_def)

lemma display_printable:
  "Kind_Valid kind \<Longrightarrow> set (kind @ ''_'' @ hex_encode a @ ''.'' @ b64_encode url_alphabet b) \<subseteq> printable"
  using kind_chars [of kind] hex_printable [of a] url_printable b64_encode_chars [OF alphabets_ok(1), of b]
  by (auto simp: printable_def)

lemma Parse_display:
  assumes k: "Kind_Valid kind" and a: "length a = 8" and b: "length b = 20"
  shows "Parse (kind @ ''_'' @ hex_encode a @ ''.'' @ b64_encode url_alphabet b)
    = Inr \<lparr>pt_kind = kind, pt_selector = hex_encode a, pt_verifier = b64_encode url_alphabet b\<rparr>"
proof -
  let ?rest = "hex_encode a @ CHR ''.'' # b64_encode url_alphabet b"
  have "TrimSpace (kind @ CHR ''_'' # ?rest) = kind @ CHR ''_'' # ?rest"
    using TrimSpace_printable [OF display_printable [OF k, of a b]] by simp
  moreover have "index_byte (CHR ''_'') (kind @ CHR ''_'' # ?rest) = Some (length kind)"
    using kind_chars [OF k] by (intro index_byte_append) auto
  moreover have "index_byte (CHR ''.'') ?rest = Some (length (hex_encode a))"
    using hex_printable [of a] by (intro index_byte_append) auto
  moreover have "isHex (hex_encode a)" using a by (intro isHex_encode) auto
  moreover have "b64_length 20 = 27" by (simp add: b64_length_def)
  ultimately show ?thesis
    using k a b kind_chars [OF k]
    by (simp add: Parse_def Let_def SelectorLen_def selectorBytes_def verifierBytes_def b64_roundtrip alphabets_ok)
qed

lemma header_display:
  assumes "map ascii_lower scheme = ''bearer''" and "sep = CHR '' '' \<or> sep = CHR 0x09"
    and "set d \<subseteq> printable" and "d \<noteq> []"
  shows "FromAuthorizationHeader (scheme @ sep # d) = Inr d"
proof -
  have len: "length scheme = 6" using arg_cong [OF assms(1), of length] by simp
  then obtain c cs where c: "scheme = c # cs" by (cases scheme) auto
  with assms(1) have "ascii_lower c = CHR ''b''" by simp
  then have "c \<in> printable" by (auto simp: ascii_lower_def printable_def Let_def split: if_splits)
  moreover have "last d \<in> printable" using assms(3,4) by auto
  ultimately have t: "TrimSpace (scheme @ sep # d) = scheme @ sep # d"
    using assms(4) by (intro TrimSpace_ends) (simp_all add: c)
  have "TrimSpace d = d" by (rule TrimSpace_printable [OF assms(3)])
  then show ?thesis
    using assms len t by (auto simp: FromAuthorizationHeader_def Let_def nth_append)
qed

text \<open>
  C26: a minted credential authenticates. For either kind, what \<^verbatim>\<open>Generate\<close> shows once is parsed to
  the kind and the selector that were stored, verifies against the stored hash, and survives an
  Authorization header with the scheme in any case.
\<close>

theorem token_roundtrip:
  assumes "\<forall>m. length (h m) = sha256_size" and "Generate_token h kind s = (Inr t, s')"
  shows "\<exists>p. Parse (tk_display t) = Inr p \<and> pt_kind p = kind \<and> pt_selector p = tk_selector t
    \<and> Verify_token h p (tk_hash t) = Inr True
    \<and> (\<forall>scheme sep. map ascii_lower scheme = ''bearer'' \<and> (sep = CHR '' '' \<or> sep = CHR 0x09) \<longrightarrow>
         FromAuthorizationHeader (scheme @ sep # tk_display t) = Inr (tk_display t))"
proof -
  from Generate_Inr [OF assms(2)] obtain a b where k: "Kind_Valid kind" and len: "length a = 8" "length b = 20"
    and t: "tk_selector t = hex_encode a" "tk_display t = kind @ ''_'' @ hex_encode a @ ''.'' @ b64_encode url_alphabet b"
      "tk_hash t = Token_Hash h kind (hex_encode a) (b64_encode url_alphabet b)" .
  have shown: "set (tk_display t) \<subseteq> printable" "tk_display t \<noteq> []"
    unfolding t(2) by (rule display_printable [OF k]) simp
  have "FromAuthorizationHeader (scheme @ sep # tk_display t) = Inr (tk_display t)"
    if "map ascii_lower scheme = ''bearer''" "sep = CHR '' '' \<or> sep = CHR 0x09" for scheme sep
    by (rule header_display [OF that shown])
  moreover have "Parse (tk_display t) = Inr \<lparr>pt_kind = kind, pt_selector = hex_encode a, pt_verifier = b64_encode url_alphabet b\<rparr>"
    unfolding t(2) by (rule Parse_display [OF k len])
  ultimately show ?thesis
    using assms(1) t(1,3) by (simp add: Verify_token_def Token_Hash_def)
qed


lemma Parse_Inr:
  assumes "Parse text = Inr p"
  shows "TrimSpace text = pt_kind p @ ''_'' @ pt_selector p @ ''.'' @ pt_verifier p" and "Kind_Valid (pt_kind p)"
    and "length (pt_selector p) = 16" and "isHex (pt_selector p)" and "length (pt_verifier p) = 27"
    and "b64_decode url_alphabet True (pt_verifier p) \<noteq> None"
proof -
  let ?s = "TrimSpace text"
  from assms obtain u where u: "index_byte (CHR ''_'') ?s = Some u" and k: "Kind_Valid (take u ?s)"
    and p: "pt_kind p = take u ?s"
    by (auto simp: Parse_def Let_def split: option.splits if_splits)
  let ?rest = "drop (u + 1) ?s"
  from assms u obtain d where d: "index_byte (CHR ''.'') ?rest = Some d"
    and q: "pt_selector p = take d ?rest" "pt_verifier p = drop (d + 1) ?rest"
    and c: "length (take d ?rest) = SelectorLen" "isHex (take d ?rest)" "length (drop (d + 1) ?rest) = b64_length verifierBytes"
      "b64_decode url_alphabet True (drop (d + 1) ?rest) \<noteq> None"
    by (auto simp: Parse_def Let_def split: option.splits if_splits)
  from index_byte_split [OF u] index_byte_split [OF d] p q
  show "?s = pt_kind p @ ''_'' @ pt_selector p @ ''.'' @ pt_verifier p" by simp
  show "Kind_Valid (pt_kind p)" using k p by simp
  show "length (pt_selector p) = 16" "isHex (pt_selector p)" "length (pt_verifier p) = 27"
    "b64_decode url_alphabet True (pt_verifier p) \<noteq> None"
    using c unfolding q SelectorLen_def selectorBytes_def verifierBytes_def b64_length_def by simp_all
qed

lemma no_separator:
  "Kind_Valid k \<Longrightarrow> CHR 0x00 \<notin> set k" "isHex sel \<Longrightarrow> CHR 0x00 \<notin> set sel"
  by (auto simp: Kind_Valid_def KindAPIKey_def KindAdmin_def isHex_def less_eq_char_def)

lemma split_at_zero:
  assumes "u @ [0 :: byte] @ v = u' @ [0] @ v'" and "0 \<notin> set u" and "0 \<notin> set u'"
  shows "u = u' \<and> v = v'"
  using assms
proof (induction u arbitrary: u')
  case Nil
  then show ?case by (cases u') auto
next
  case (Cons a u)
  then show ?case by (cases u') auto
qed

lemma zero_bytes: "CHR 0x00 \<notin> set s \<Longrightarrow> 0 \<notin> set (bytes_of s)"
proof
  assume c: "CHR 0x00 \<notin> set s" and "0 \<in> set (bytes_of s)"
  then obtain x where x: "x \<in> set s" "of_char x = (0 :: byte)" by (auto simp: bytes_of_def)
  have "of_char (CHR 0x00) = (0 :: byte)" by simp
  with x(2) have "x = CHR 0x00" by (metis of_char_byte_inj)
  with x(1) c show False by simp
qed

lemma token_message_inject:
  assumes "Kind_Valid k" "Kind_Valid k'" "isHex sel" "isHex sel'"
  shows "token_message k sel ver = token_message k' sel' ver' \<longleftrightarrow> k = k' \<and> sel = sel' \<and> ver = ver'"
proof
  assume eq: "token_message k sel ver = token_message k' sel' ver'"
  then have "bytes_of k @ [0] @ bytes_of sel @ [0] @ bytes_of ver = bytes_of k' @ [0] @ bytes_of sel' @ [0] @ bytes_of ver'"
    by (simp add: token_message_def)
  from split_at_zero [OF this] have k: "bytes_of k = bytes_of k'"
    and r: "bytes_of sel @ [0] @ bytes_of ver = bytes_of sel' @ [0] @ bytes_of ver'"
    using assms no_separator zero_bytes by auto
  from split_at_zero [OF r] have "bytes_of sel = bytes_of sel'" "bytes_of ver = bytes_of ver'"
    using assms no_separator zero_bytes by auto
  with k show "k = k' \<and> sel = sel' \<and> ver = ver'" by simp
qed simp

text \<open>
  C27: what \<^verbatim>\<open>Parse\<close> accepts. A presented text is accepted only when, trimmed, it is one of the two
  kinds, an underscore, sixteen lower-case hexadecimal digits, a dot and 27 characters; the
  characters are of the URL alphabet or line breaks, and when none is a line break they are the
  one encoding of twenty bytes.
\<close>

theorem token_shape:
  assumes "Parse text = Inr p"
  shows "TrimSpace text = pt_kind p @ ''_'' @ pt_selector p @ ''.'' @ pt_verifier p
    \<and> pt_kind p \<in> {KindAPIKey, KindAdmin} \<and> length (pt_selector p) = SelectorLen \<and> isHex (pt_selector p)
    \<and> length (pt_verifier p) = 27
    \<and> set (pt_verifier p) \<subseteq> set url_alphabet \<union> {CHR 0x0A, CHR 0x0D}
    \<and> (set (pt_verifier p) \<inter> {CHR 0x0A, CHR 0x0D} = {} \<longrightarrow>
         (\<exists>bs. length bs = verifierBytes \<and> pt_verifier p = b64_encode url_alphabet bs))"
proof -
  note parse = Parse_Inr [OF assms]
  from parse(6) obtain bs where bs: "b64_decode url_alphabet True (pt_verifier p) = Some bs" by auto
  have chars: "set (pt_verifier p) \<subseteq> set url_alphabet \<union> {CHR 0x0A, CHR 0x0D}"
    using b64_decode_Some(1) [OF bs] by (auto simp: b64_chars_def)
  have "length bs = verifierBytes \<and> pt_verifier p = b64_encode url_alphabet bs"
    if "set (pt_verifier p) \<inter> {CHR 0x0A, CHR 0x0D} = {}"
  proof -
    from that have all: "b64_chars (pt_verifier p) = pt_verifier p"
      by (auto simp: b64_chars_def filter_id_conv)
    with b64_decode_Some(2) [OF bs] parse(5) have "b64_length (length bs) = 27" by simp
    then have "length bs = 20" unfolding b64_length_def by presburger
    with all b64_strict_canonical [OF bs alphabets_ok(1)] show ?thesis by (simp add: verifierBytes_def)
  qed
  with parse chars show ?thesis
    by (auto simp: Kind_Valid_def SelectorLen_def selectorBytes_def)
qed

text \<open>
  A stored hash is bound to its row. A parsed credential verifies against the hash stored for
  some kind, selector and verifier exactly when the two digests agree, and the hashed messages
  agree only when kind, selector and verifier all do, so a hash moved to another row or to the
  other table verifies nothing unless the hash function collides.
\<close>

theorem token_binding:
  assumes "\<forall>m. length (h m) = sha256_size" and "Parse text = Inr p" and "Kind_Valid k" and "isHex sel"
  shows "Verify_token h p (Token_Hash h k sel ver)
      = Inr (h (token_message (pt_kind p) (pt_selector p) (pt_verifier p)) = h (token_message k sel ver))
    \<and> (token_message (pt_kind p) (pt_selector p) (pt_verifier p) = token_message k sel ver
         \<longleftrightarrow> pt_kind p = k \<and> pt_selector p = sel \<and> pt_verifier p = ver)"
proof -
  have "Verify_token h p (Token_Hash h k sel ver)
      = Inr (h (token_message (pt_kind p) (pt_selector p) (pt_verifier p)) = h (token_message k sel ver))"
    using assms(1) by (simp add: Verify_token_def Token_Hash_def)
  with token_message_inject [OF Parse_Inr(2) [OF assms(2)] assms(3) Parse_Inr(4) [OF assms(2)] assms(4)]
  show ?thesis by blast
qed

subsection \<open>A credential\<close>

definition demo_digest :: "bytes \<Rightarrow> bytes" where "demo_digest m = replicate 32 (sum_list m)"

lemma demo_token: "\<exists>t s'. Generate_token demo_digest KindAdmin (fresh_os 0 ()) = (Inr t, s')"
  by (simp add: Generate_token_def Kind_Valid_def bindp_def rand_read_def ret_def Let_def)

theorem token_roundtrip_witness:
  "\<exists>t s' p. Generate_token demo_digest KindAdmin (fresh_os 0 ()) = (Inr t, s') \<and> Parse (tk_display t) = Inr p
     \<and> Verify_token demo_digest p (tk_hash t) = Inr True
     \<and> FromAuthorizationHeader (''BEARER'' @ CHR '' '' # tk_display t) = Inr (tk_display t)"
proof -
  obtain t s' where run: "Generate_token demo_digest KindAdmin (fresh_os 0 ()) = (Inr t, s')" using demo_token by blast
  have "map ascii_lower ''BEARER'' = ''bearer''" by code_simp
  note upper = this
  have "\<forall>m. length (demo_digest m) = sha256_size" by (simp add: demo_digest_def sha256_size_def)
  from token_roundtrip [OF this run] obtain p where p: "Parse (tk_display t) = Inr p"
    "Verify_token demo_digest p (tk_hash t) = Inr True"
    and hd: "\<forall>scheme sep. map ascii_lower scheme = ''bearer'' \<and> (sep = CHR '' '' \<or> sep = CHR 0x09) \<longrightarrow>
      FromAuthorizationHeader (scheme @ sep # tk_display t) = Inr (tk_display t)" by auto
  have "FromAuthorizationHeader (''BEARER'' @ CHR '' '' # tk_display t) = Inr (tk_display t)"
    by (rule hd [rule_format]) (simp add: upper del: list.map)
  with run p show ?thesis by blast
qed

theorem token_shape_witness:
  "\<exists>p. Parse ''npt_0123456789abcdef.AAAAAAAAAAAAAAAAAAAAAAAAAAA'' = Inr p
     \<and> (\<exists>bs. length bs = verifierBytes \<and> pt_verifier p = b64_encode url_alphabet bs)"
proof -
  have parses: "Parse ''npt_0123456789abcdef.AAAAAAAAAAAAAAAAAAAAAAAAAAA''
      = Inr \<lparr>pt_kind = ''npt'', pt_selector = ''0123456789abcdef'', pt_verifier = replicate 27 (CHR ''A'')\<rparr>" by code_simp
  from token_shape [OF this] parses show ?thesis by simp
qed

text \<open>A line break inside the verifier passes the check of its alphabet.\<close>

lemma parse_accepts_line_break:
  "is_ok (Parse (''npt_0123456789abcdef.'' @ replicate 25 (CHR ''A'') @ [CHR 0x0A, CHR ''A'']))"
  by code_simp

theorem token_binding_witness:
  "\<exists>p. Parse ''npt_0123456789abcdef.AAAAAAAAAAAAAAAAAAAAAAAAAAA'' = Inr p
     \<and> token_message (pt_kind p) (pt_selector p) (pt_verifier p) \<noteq> token_message KindAdmin (pt_selector p) (pt_verifier p)"
proof -
  have parses: "Parse ''npt_0123456789abcdef.AAAAAAAAAAAAAAAAAAAAAAAAAAA''
      = Inr \<lparr>pt_kind = ''npt'', pt_selector = ''0123456789abcdef'', pt_verifier = replicate 27 (CHR ''A'')\<rparr>" by code_simp
  have "isHex ''0123456789abcdef''" by code_simp
  with token_binding [OF _ parses, of demo_digest KindAdmin "''0123456789abcdef''"] parses show ?thesis
    by (simp add: demo_digest_def sha256_size_def Kind_Valid_def KindAdmin_def)
qed

end
