(* ===== verification/Api_Auth.thy ===== *)
theory Api_Auth
  imports Token Authn_Store Rbac Recorder Alert_Engine "HOL-Library.Multiset"
begin

text \<open>
  \<^verbatim>\<open>internal/api/auth.go\<close>: who is let through to a handler, with what a refusal answers and leaves
  behind. A middleware is a function of the request that answers the caller it lets through or
  the response it writes instead. Log lines are left out. The map of refusals is an association
  list in the order an iteration over it happens to visit.
\<close>

subsection \<open>Requests and responses\<close>

text \<open>The Authorization header, the resolved source address, the request identifier and the matched route.\<close>

record request =
  rq_authorization :: string
  rq_source :: string
  rq_id :: string
  rq_route :: string

record api_error =
  pe_status :: int
  pe_type :: string
  pe_title :: string

definition Unauthorized :: api_error where
  "Unauthorized = \<lparr>pe_status = 401, pe_type = ''urn:n0passtemps:error:unauthorized'', pe_title = ''authentication is required''\<rparr>"

definition Forbidden :: api_error where
  "Forbidden = \<lparr>pe_status = 403, pe_type = ''urn:n0passtemps:error:forbidden'',
     pe_title = ''this credential is not permitted to perform that operation''\<rparr>"

definition Unavailable :: api_error where
  "Unavailable = \<lparr>pe_status = 503, pe_type = ''urn:n0passtemps:error:unavailable'', pe_title = ''the service is temporarily unavailable''\<rparr>"

record response =
  rs_status :: int
  rs_challenge :: bool
  rs_body :: string

text \<open>None of the three carries a detail or a wait, so the body leaves both out; the encoder ends it with a line feed.\<close>

definition WriteProblem :: "request \<Rightarrow> api_error \<Rightarrow> response" where
  "WriteProblem rq e =
     \<lparr>rs_status = pe_status e, rs_challenge = (pe_status e = 401),
      rs_body = json_text (JObj ([(''type'', JStr (pe_type e)), (''title'', JStr (pe_title e)), (''status'', JInt (pe_status e))]
        @ (if rq_id rq = [] then [] else [(''request_id'', JStr (rq_id rq))]))) @ [CHR 0x0A]\<rparr>"

record caller =
  cl_tenant :: string
  cl_key :: "api_key option"
  cl_token :: "admin_token option"

definition IsAdmin :: "caller option \<Rightarrow> bool" where
  "IsAdmin c \<longleftrightarrow> (case c of None \<Rightarrow> False | Some c \<Rightarrow> cl_token c \<noteq> None)"

definition Caller_Role :: "caller option \<Rightarrow> role" where
  "Caller_Role c =
     (case c of None \<Rightarrow> UnknownRole [] | Some c \<Rightarrow> (case cl_token c of None \<Rightarrow> UnknownRole [] | Some t \<Rightarrow> at_role t))"

definition ActorID :: "caller option \<Rightarrow> string" where
  "ActorID c =
     (case c of
        None \<Rightarrow> []
      | Some c \<Rightarrow>
          (case cl_token c of
             Some t \<Rightarrow> at_id t
           | None \<Rightarrow> (case cl_key c of Some k \<Rightarrow> ak_id k | None \<Rightarrow> [])))"

subsection \<open>Credentials\<close>

text \<open>Why a credential is refused: none was presented, this text, or the store could not be asked.\<close>

datatype auth_error = NoCredential | Refused string | DbUnavailable err

fun err_text :: "err \<Rightarrow> string" where
  "err_text (OtherErr m) = m"
| "err_text _ = []"

fun auth_text :: "auth_error \<Rightarrow> string" where
  "auth_text NoCredential = ''no bearer credential presented''"
| "auth_text (Refused m) = m"
| "auth_text (DbUnavailable e) = ''credential store unavailable: '' @ err_text e"

definition verifyAPIKey :: "(bytes \<Rightarrow> bytes) \<Rightarrow> request \<Rightarrow> db \<Rightarrow> (auth_error + api_key) \<times> db" where
  "verifyAPIKey h rq s =
     (case FromAuthorizationHeader (rq_authorization rq) of
        Inl _ \<Rightarrow> (Inl NoCredential, s)
      | Inr presented \<Rightarrow>
     (case Parse presented of
        Inl _ \<Rightarrow> (Inl (Refused ''credential is malformed''), s)
      | Inr parsed \<Rightarrow>
          if pt_kind parsed \<noteq> KindAPIKey then (Inl (Refused ''credential is not an api key''), s)
          else
     (case GetAPIKeyBySelector (pt_selector parsed) s of
        (Inl e, s1) \<Rightarrow>
          if e = ErrNotFound then (Inl (Refused ''credential is not recognised''), s1) else (Inl (DbUnavailable e), s1)
      | (Inr key, s1) \<Rightarrow>
     (case Verify_token h parsed (ak_hash key) of
        Inl e \<Rightarrow> (Inl (Refused (err_text e)), s1)
      | Inr ok \<Rightarrow>
          if \<not> ok then (Inl (Refused ''credential is not recognised''), s1)
          else if \<not> api_key_usable key (os_wall s1) then (Inl (Refused ''credential is expired or revoked''), s1)
          else (Inr key, s1)))))"

definition verifyAdminToken :: "(bytes \<Rightarrow> bytes) \<Rightarrow> request \<Rightarrow> db \<Rightarrow> (auth_error + admin_token) \<times> db" where
  "verifyAdminToken h rq s =
     (case FromAuthorizationHeader (rq_authorization rq) of
        Inl _ \<Rightarrow> (Inl NoCredential, s)
      | Inr presented \<Rightarrow>
     (case Parse presented of
        Inl _ \<Rightarrow> (Inl (Refused ''credential is malformed''), s)
      | Inr parsed \<Rightarrow>
          if pt_kind parsed \<noteq> KindAdmin then (Inl (Refused ''credential is not an admin token''), s)
          else
     (case GetAdminTokenBySelector (pt_selector parsed) s of
        (Inl e, s1) \<Rightarrow>
          if e = ErrNotFound then (Inl (Refused ''credential is not recognised''), s1) else (Inl (DbUnavailable e), s1)
      | (Inr tok, s1) \<Rightarrow>
     (case Verify_token h parsed (at_hash tok) of
        Inl e \<Rightarrow> (Inl (Refused (err_text e)), s1)
      | Inr ok \<Rightarrow>
          if \<not> ok then (Inl (Refused ''credential is not recognised''), s1)
          else if \<not> admin_token_usable tok (os_wall s1)
          then (Inl (Refused ''credential is expired, revoked or holds an unknown role''), s1)
          else (Inr tok, s1)))))"

subsection \<open>Folding refusals\<close>

definition rejectionWindow :: duration where "rejectionWindow = 60 * second"
definition maxTrackedSources :: nat where "maxTrackedSources = 4096"

record rejection_run =
  rr_opened :: instant
  rr_refusals :: int
  rr_credentials :: int

type_synonym tally = "(string \<times> rejection_run) list"

record rejection_fold =
  rf_refusals :: int
  rf_credentials :: int

definition window_open :: "instant \<Rightarrow> rejection_run \<Rightarrow> bool" where
  "window_open now run \<longleftrightarrow> time_sub now (rr_opened run) < rejectionWindow"

fun oldest_run :: "tally \<Rightarrow> string \<times> instant \<Rightarrow> string \<times> instant" where
  "oldest_run [] acc = acc"
| "oldest_run ((key, run) # rest) (oldest, oldestAt) =
     oldest_run rest (if is_zero_time oldestAt \<or> rr_opened run < oldestAt then (key, rr_opened run) else (oldest, oldestAt))"

definition evictLocked :: "instant \<Rightarrow> tally \<Rightarrow> tally" where
  "evictLocked now runs =
     (if length runs < maxTrackedSources then runs
      else let kept = filter (\<lambda>(_, run). window_open now run) runs;
               oldest = fst (oldest_run kept ([], zero_time)) in
        if length kept \<ge> maxTrackedSources \<and> oldest \<noteq> [] then filter (\<lambda>(key, _). key \<noteq> oldest) kept else kept)"

definition opened_at :: "instant \<Rightarrow> rejection_run" where
  "opened_at now = \<lparr>rr_opened = now, rr_refusals = 0, rr_credentials = 0\<rparr>"

definition set_run :: "string \<Rightarrow> rejection_run \<Rightarrow> tally \<Rightarrow> tally" where
  "set_run key run runs = map (\<lambda>(k, r). if k = key then (k, run) else (k, r)) runs"

definition observe :: "instant \<Rightarrow> string \<Rightarrow> bool \<Rightarrow> tally \<Rightarrow> rejection_fold option \<times> tally" where
  "observe now key presented runs =
     (let credential = (if presented then 1 else 0) in
      case map_of runs key of
        Some run \<Rightarrow>
          if window_open now run
          then (None, set_run key (run\<lparr>rr_refusals := rr_refusals run + 1,
                  rr_credentials := rr_credentials run + credential\<rparr>) runs)
          else (Some \<lparr>rf_refusals = rr_refusals run + 1, rf_credentials = rr_credentials run + credential\<rparr>,
                set_run key (opened_at now) runs)
      | None \<Rightarrow>
          (Some \<lparr>rf_refusals = 1, rf_credentials = credential\<rparr>, evictLocked now runs @ [(key, opened_at now)]))"

subsection \<open>The middlewares\<close>

text \<open>What the authenticator works on: the database and the refusals folded so far.\<close>

record api =
  ap_db :: db
  ap_runs :: tally

text \<open>Whether an audit sink and the alert engine are wired in.\<close>

record auth_cfg =
  au_sink :: bool
  au_alerts :: bool

definition SystemTenantID :: string where "SystemTenantID = ''system''"
definition EventAPIKeyRejected :: string where "EventAPIKeyRejected = ''api_key.rejected''"
definition EventAdminAuthFailed :: string where "EventAdminAuthFailed = ''admin.auth_failed''"
definition EventAdminDenied :: string where "EventAdminDenied = ''admin.denied''"

definition rejection_event :: "request \<Rightarrow> string \<Rightarrow> auth_error \<Rightarrow> rejection_fold \<Rightarrow> event" where
  "rejection_event rq eventType cause rf =
     \<lparr>ev_tenant = SystemTenantID, ev_type = eventType, ev_actor_type = ActorSystem, ev_actor = [], ev_subject = [],
      ev_rtype = [], ev_rid = [], ev_outcome = OutcomeDenied, ev_ip = rq_source rq, ev_request = rq_id rq,
      ev_detail = Serialised (bytes_of (json_text (JObj
        [(''presented'', JInt (rf_credentials rf)), (''reason'', JStr (auth_text cause)),
         (''refusals'', JInt (rf_refusals rf)), (''route'', JStr (rq_route rq)),
         (''window'', JStr (duration_text rejectionWindow))])))\<rparr>"

definition recordRejection :: "(bytes \<Rightarrow> bytes) \<Rightarrow> auth_cfg \<Rightarrow> request \<Rightarrow> string \<Rightarrow> auth_error \<Rightarrow> api \<Rightarrow> api" where
  "recordRejection h cfg rq eventType cause a =
     (case observe (os_wall (ap_db a)) (eventType @ [CHR 0x00] @ rq_source rq) (cause \<noteq> NoCredential) (ap_runs a) of
        (None, runs) \<Rightarrow> a\<lparr>ap_runs := runs\<rparr>
      | (Some rf, runs) \<Rightarrow>
          let s1 = (if rf_credentials rf > 0
                    then snd (Record_event h (au_sink cfg) (rejection_event rq eventType cause rf) (ap_db a)) else ap_db a);
              s2 = (if au_alerts cfg
                    then snd (APIKeyRejected h SystemTenantID (rq_source rq) (rf_refusals rf) s1) else s1) in
          \<lparr>ap_db = s2, ap_runs = runs\<rparr>)"

definition RequireAPIKey :: "(bytes \<Rightarrow> bytes) \<Rightarrow> auth_cfg \<Rightarrow> request \<Rightarrow> api \<Rightarrow> (response + caller) \<times> api" where
  "RequireAPIKey h cfg rq a =
     (case verifyAPIKey h rq (ap_db a) of
        (Inl (DbUnavailable c), s) \<Rightarrow> (Inl (WriteProblem rq Unavailable), a\<lparr>ap_db := s\<rparr>)
      | (Inl e, s) \<Rightarrow> (Inl (WriteProblem rq Unauthorized), recordRejection h cfg rq EventAPIKeyRejected e (a\<lparr>ap_db := s\<rparr>))
      | (Inr key, s) \<Rightarrow>
          (Inr \<lparr>cl_tenant = ak_tenant key, cl_key = Some key, cl_token = None\<rparr>,
           a\<lparr>ap_db := snd (TouchAPIKey (ak_id key) (os_wall s) s)\<rparr>))"

definition RequireAdmin :: "(bytes \<Rightarrow> bytes) \<Rightarrow> auth_cfg \<Rightarrow> request \<Rightarrow> api \<Rightarrow> (response + caller) \<times> api" where
  "RequireAdmin h cfg rq a =
     (case verifyAdminToken h rq (ap_db a) of
        (Inl (DbUnavailable c), s) \<Rightarrow> (Inl (WriteProblem rq Unavailable), a\<lparr>ap_db := s\<rparr>)
      | (Inl e, s) \<Rightarrow> (Inl (WriteProblem rq Unauthorized), recordRejection h cfg rq EventAdminAuthFailed e (a\<lparr>ap_db := s\<rparr>))
      | (Inr tok, s) \<Rightarrow>
          (Inr \<lparr>cl_tenant = at_tenant tok, cl_key = None, cl_token = Some tok\<rparr>,
           a\<lparr>ap_db := snd (TouchAdminToken (at_id tok) (os_wall s) s)\<rparr>))"

text \<open>The texts of a role and of a decision; the names quoted with \<^verbatim>\<open>%q\<close> are printable.\<close>

fun role_text :: "role \<Rightarrow> string" where
  "role_text RoleFull = ''admin_full''"
| "role_text RoleOperator = ''admin_operator''"
| "role_text RoleAuditor = ''admin_auditor''"
| "role_text (UnknownRole s) = s"

fun reason_text :: "reason \<Rightarrow> string" where
  "reason_text (ReasonUnknownRole r) = ''role '' @ quoted (role_text r) @ '' is not a known administrative role''"
| "reason_text (ReasonUndeclared p) = ''permission '' @ quoted (perm_string p) @ '' is not declared''"
| "reason_text ReasonRbacDisabled = ''role-based access control is disabled, every valid role has full authority''"
| "reason_text (ReasonNotHeld r p) = ''role '' @ role_text r @ '' does not hold '' @ perm_string p"
| "reason_text (ReasonHeld r p) = ''role '' @ role_text r @ '' holds '' @ perm_string p"

definition denial_event :: "request \<Rightarrow> caller \<Rightarrow> permission \<Rightarrow> decision \<Rightarrow> event" where
  "denial_event rq c p d =
     \<lparr>ev_tenant = cl_tenant c, ev_type = EventAdminDenied, ev_actor_type = ActorAdmin, ev_actor = ActorID (Some c),
      ev_subject = [], ev_rtype = ''permission'', ev_rid = perm_string p, ev_outcome = OutcomeDenied,
      ev_ip = rq_source rq, ev_request = rq_id rq,
      ev_detail = Serialised (bytes_of (json_text (JObj
        [(''reason'', JStr (reason_text (de_reason d))), (''role'', JStr (role_text (Caller_Role (Some c)))),
         (''route'', JStr (rq_route rq))])))\<rparr>"

definition RequirePermission ::
  "(bytes \<Rightarrow> bytes) \<Rightarrow> auth_cfg \<Rightarrow> permission \<Rightarrow> bool \<Rightarrow> request \<Rightarrow> caller option \<Rightarrow> api \<Rightarrow> (response + caller) \<times> api" where
  "RequirePermission h cfg p rbacEnabled rq c a =
     (case c of
        None \<Rightarrow> (Inl (WriteProblem rq Forbidden), a)
      | Some cl \<Rightarrow>
          if \<not> IsAdmin c then (Inl (WriteProblem rq Forbidden), a)
          else let d = Authorise (Caller_Role c) p rbacEnabled in
          if \<not> de_allowed d
          then let s1 = snd (Record_event h (au_sink cfg) (denial_event rq cl p d) (ap_db a));
                   s2 = (if au_alerts cfg then snd (AdminDenied h (cl_tenant cl) (ActorID c) (perm_string p) s1) else s1) in
               (Inl (WriteProblem rq Forbidden), a\<lparr>ap_db := s2\<rparr>)
          else (Inr cl, a))"

text \<open>A route of the administrative surface: authentication, then the permission the route asks for.\<close>

definition admin_route ::
  "(bytes \<Rightarrow> bytes) \<Rightarrow> auth_cfg \<Rightarrow> permission \<Rightarrow> bool \<Rightarrow> request \<Rightarrow> api \<Rightarrow> (response + caller) \<times> api" where
  "admin_route h cfg p rbacEnabled rq a =
     (case RequireAdmin h cfg rq a of
        (Inl r, a1) \<Rightarrow> (Inl r, a1)
      | (Inr c, a1) \<Rightarrow> RequirePermission h cfg p rbacEnabled rq (Some c) a1)"

subsection \<open>What a refusal leaves behind\<close>

text \<open>Entries appended to the log and alerts, and nothing else.\<close>

definition reported :: "tables \<Rightarrow> tables \<Rightarrow> bool" where
  "reported t t' \<longleftrightarrow> (\<exists>new al. t' = t\<lparr>tb_audit := tb_audit t @ new, tb_alerts := al\<rparr>)"

lemma reported_refl [intro]: "reported t t"
  unfolding reported_def by (intro exI [of _ "[]"] exI [of _ "tb_alerts t"]) simp

lemma reportedI: "t' = t\<lparr>tb_audit := tb_audit t @ new, tb_alerts := al\<rparr> \<Longrightarrow> reported t t'"
  unfolding reported_def by blast

lemma reported_append:
  assumes "reported t u"
  shows "reported t (u\<lparr>tb_audit := tb_audit u @ [x]\<rparr>)"
proof -
  from assms obtain new al where "u = t\<lparr>tb_audit := tb_audit t @ new, tb_alerts := al\<rparr>" unfolding reported_def by blast
  then show ?thesis by (intro reportedI [where new = "new @ [x]" and al = al]) simp
qed

lemma reported_alerts:
  assumes "reported t u"
  shows "reported t (u\<lparr>tb_alerts := al\<rparr>)"
proof -
  from assms obtain new al' where "u = t\<lparr>tb_audit := tb_audit t @ new, tb_alerts := al'\<rparr>" unfolding reported_def by blast
  then show ?thesis by (intro reportedI [where new = new and al = al]) simp
qed

lemma keeps_reported_record [intro]: "keeps (reported t) (Record_event h sink ev)"
  unfolding keeps_def
proof (intro allI impI)
  fix s r s'
  assume run: "Record_event h sink ev s = (r, s')" and rep: "reported t (os_db s)"
  show "reported t (os_db s')"
  proof (cases r)
    case (Inl e)
    with run rep show ?thesis by (simp add: Record_event_Inl)
  next
    case (Inr x)
    with run obtain y where "Append h (event_entry (os_wall s) ev) s = (Inr y, s')"
      using Record_event_Inr [of h sink ev s x s'] by auto
    from Append_Inr [OF this] have "os_db s' = (os_db s)\<lparr>tb_audit := tb_audit (os_db s) @ [y]\<rparr>" by blast
    with reported_append [OF rep] show ?thesis by simp
  qed
qed

lemma keeps_reported_raise [intro]: "keeps (reported t) (Raise h i)"
proof -
  have up: "reported t u \<Longrightarrow> upsert_alert a u = Inr (x, u') \<Longrightarrow> reported t u'" for a u x u'
    by (auto simp: upsert_alert_def Let_def reported_alerts split: option.splits if_splits)
  have scan: "keeps (reported t) (scanAlert r)" for r
    by (auto simp: scanAlert_def split: sum.split)
  have tx: "keeps (reported t) (in_tx (bindp (exec map_error (upsert_alert a)) scanAlert))" for a
    by (intro keeps_in_tx_of keeps_bindp keeps_exec scan) (rule up)
  have "keeps (reported t) (RaiseAlert a)" for a
    unfolding RaiseAlert_def Let_def
    by (auto intro!: keeps_if keeps_failp keeps_bindp keeps_wall_clock tx split: sum.split)
  then show ?thesis
    unfolding Raise_def by (intro keeps_if keeps_failp keeps_bindp keeps_wall_clock keeps_uuid_new)
qed

lemma reported_snd: "keeps (reported t) m \<Longrightarrow> reported t (os_db s) \<Longrightarrow> reported t (os_db (snd (m s)))"
  by (cases "m s") (auto dest: keepsD)

lemma recordRejection_reported: "reported (os_db (ap_db a)) (os_db (ap_db (recordRejection h cfg rq ty e a)))"
proof -
  have alert: "keeps (reported t) (APIKeyRejected h tid src n)" for t tid src n
    unfolding APIKeyRejected_def by (rule keeps_reported_raise)
  show ?thesis
    by (auto simp: recordRejection_def Let_def split: prod.split option.split
        intro!: reported_snd [OF alert] reported_snd [OF keeps_reported_record])
qed

subsection \<open>Who is let through\<close>

lemma key_lookup_frame:
  "GetAPIKeyBySelector sel s = (r, s') \<Longrightarrow> os_db s' = os_db s \<and> os_wall s' = os_wall s"
  "GetAdminTokenBySelector sel s = (q, s') \<Longrightarrow> os_db s' = os_db s \<and> os_wall s' = os_wall s"
  by (auto simp: GetAPIKeyBySelector_def GetAdminTokenBySelector_def failp_def split: if_splits dest: query_row_frame)

lemma key_lookup_Inr:
  "GetAPIKeyBySelector sel s = (Inr k, s') \<Longrightarrow> k \<in> set (tb_api_keys (os_db s)) \<and> ak_selector k = sel"
  "GetAdminTokenBySelector sel s = (Inr tok, s') \<Longrightarrow> tok \<in> set (tb_admin_tokens (os_db s)) \<and> at_selector tok = sel"
  by (auto simp: GetAPIKeyBySelector_def GetAdminTokenBySelector_def failp_def
      split: if_splits dest!: query_row_Inr find_row_Some)

lemma key_lookup_found:
  "GetAPIKeyBySelector sel s = (Inr k, s') \<Longrightarrow> k \<in> set (tb_api_keys (os_db s)) \<and> ak_selector k = sel \<and> os_wall s' = os_wall s"
  using key_lookup_Inr(1) key_lookup_frame(1) by blast

lemma token_lookup_found:
  "GetAdminTokenBySelector sel s = (Inr k, s')
     \<Longrightarrow> k \<in> set (tb_admin_tokens (os_db s)) \<and> at_selector k = sel \<and> os_wall s' = os_wall s"
  using key_lookup_Inr(2) key_lookup_frame(2) by blast

lemma verifyAPIKey_frame: "verifyAPIKey h rq s = (r, s') \<Longrightarrow> os_db s' = os_db s \<and> os_wall s' = os_wall s"
  by (auto simp: verifyAPIKey_def split: sum.splits if_splits prod.splits dest!: key_lookup_frame)

lemma verifyAdminToken_frame: "verifyAdminToken h rq s = (r, s') \<Longrightarrow> os_db s' = os_db s \<and> os_wall s' = os_wall s"
  by (auto simp: verifyAdminToken_def split: sum.splits if_splits prod.splits dest!: key_lookup_frame)

lemma verifyAPIKey_Inr:
  assumes "verifyAPIKey h rq s = (Inr key, s')"
  obtains presented p where "FromAuthorizationHeader (rq_authorization rq) = Inr presented" "Parse presented = Inr p"
    "pt_kind p = KindAPIKey" "key \<in> set (tb_api_keys (os_db s))" "ak_selector key = pt_selector p"
    "Verify_token h p (ak_hash key) = Inr True" "api_key_usable key (os_wall s)"
  using assms
  by (auto simp: verifyAPIKey_def split: sum.splits if_splits prod.splits dest!: key_lookup_found token_lookup_found)

lemma verifyAdminToken_Inr:
  assumes "verifyAdminToken h rq s = (Inr tok, s')"
  obtains presented p where "FromAuthorizationHeader (rq_authorization rq) = Inr presented" "Parse presented = Inr p"
    "pt_kind p = KindAdmin" "tok \<in> set (tb_admin_tokens (os_db s))" "at_selector tok = pt_selector p"
    "Verify_token h p (at_hash tok) = Inr True" "admin_token_usable tok (os_wall s)"
  using assms
  by (auto simp: verifyAdminToken_def split: sum.splits if_splits prod.splits dest!: key_lookup_found token_lookup_found)

lemma touch_db:
  "os_db (snd (TouchAPIKey i at s)) \<in> {os_db s, (os_db s)\<lparr>tb_api_keys :=
     update_where (\<lambda>r. ak_id r = i) (\<lambda>r. r\<lparr>ak_last_used := Some at\<rparr>) (tb_api_keys (os_db s))\<rparr>}"
  "os_db (snd (TouchAdminToken i at s)) \<in> {os_db s, (os_db s)\<lparr>tb_admin_tokens :=
     update_where (\<lambda>r. at_id r = i) (\<lambda>r. r\<lparr>at_last_used := Some at\<rparr>) (tb_admin_tokens (os_db s))\<rparr>}"
  by (auto simp: TouchAPIKey_def TouchAdminToken_def touchAuthnRow_def failp_def bindp_def ret_def
      split: prod.split sum.split dest: exec_Inl dest!: exec_Inr)

text \<open>
  The tables once the use of a token was noted; and that a request presents the stored token \<open>tok\<close>,
  which is usable now.
\<close>

definition token_noted :: "string \<Rightarrow> instant \<Rightarrow> tables \<Rightarrow> tables" where
  "token_noted i now t = t\<lparr>tb_admin_tokens :=
     map (\<lambda>r. if at_id r = i then r\<lparr>at_last_used := Some now\<rparr> else r) (tb_admin_tokens t)\<rparr>"

definition presents_token :: "(bytes \<Rightarrow> bytes) \<Rightarrow> request \<Rightarrow> db \<Rightarrow> admin_token \<Rightarrow> bool" where
  "presents_token h rq s tok \<longleftrightarrow> (\<exists>presented parsed.
     FromAuthorizationHeader (rq_authorization rq) = Inr presented \<and> Parse presented = Inr parsed
     \<and> pt_kind parsed = KindAdmin \<and> tok \<in> set (tb_admin_tokens (os_db s)) \<and> at_selector tok = pt_selector parsed
     \<and> Verify_token h parsed (at_hash tok) = Inr True \<and> admin_token_usable tok (os_wall s))"

lemma RequireAdmin_Inr:
  assumes "RequireAdmin h cfg rq a = (Inr c, a')"
  obtains tok where "presents_token h rq (ap_db a) tok" "c = \<lparr>cl_tenant = at_tenant tok, cl_key = None, cl_token = Some tok\<rparr>"
    "os_db (ap_db a') \<in> {os_db (ap_db a), token_noted (at_id tok) (os_wall (ap_db a)) (os_db (ap_db a))}"
proof -
  from assms obtain tok s where v: "verifyAdminToken h rq (ap_db a) = (Inr tok, s)"
    and c: "c = \<lparr>cl_tenant = at_tenant tok, cl_key = None, cl_token = Some tok\<rparr>"
    and a': "ap_db a' = snd (TouchAdminToken (at_id tok) (os_wall s) s)"
    by (auto simp: RequireAdmin_def split: prod.splits sum.splits auth_error.splits)
  have used: "os_db (ap_db a') \<in> {os_db (ap_db a), token_noted (at_id tok) (os_wall (ap_db a)) (os_db (ap_db a))}"
    using touch_db(2) [of "at_id tok" "os_wall s" s] verifyAdminToken_frame [OF v]
    by (simp add: token_noted_def update_where_def a')
  have "presents_token h rq (ap_db a) tok"
    by (rule verifyAdminToken_Inr [OF v]) (auto simp: presents_token_def)
  then show thesis using c used by (rule that)
qed

lemma RequireAdmin_Inl:
  assumes "RequireAdmin h cfg rq a = (Inl r, a')"
  shows "r = WriteProblem rq Unauthorized \<and> reported (os_db (ap_db a)) (os_db (ap_db a'))
    \<or> r = WriteProblem rq Unavailable \<and> os_db (ap_db a') = os_db (ap_db a)"
proof -
  from assms obtain e s where v: "verifyAdminToken h rq (ap_db a) = (Inl e, s)" by (auto simp: RequireAdmin_def split: prod.splits sum.splits)
  then have db: "os_db s = os_db (ap_db a)" using verifyAdminToken_frame by blast
  show ?thesis
    using assms v db recordRejection_reported [of "a\<lparr>ap_db := s\<rparr>" h cfg rq EventAdminAuthFailed e]
    by (auto simp: RequireAdmin_def split: auth_error.splits)
qed

lemma RequirePermission_res:
  assumes "RequirePermission h cfg p rbac rq (Some c) a = (r, a')"
  shows "(case r of
      Inr c' \<Rightarrow> c' = c \<and> a' = a \<and> IsAdmin (Some c) \<and> de_allowed (Authorise (Caller_Role (Some c)) p rbac)
    | Inl x \<Rightarrow> x = WriteProblem rq Forbidden \<and> reported (os_db (ap_db a)) (os_db (ap_db a'))
        \<and> (IsAdmin (Some c) \<longrightarrow> \<not> de_allowed (Authorise (Caller_Role (Some c)) p rbac)))"
proof -
  have alert: "keeps (reported t) (AdminDenied h tid i perm)" for t tid i perm
    unfolding AdminDenied_def by (rule keeps_reported_raise)
  show ?thesis
    using assms
    by (auto simp: RequirePermission_def Let_def split: if_splits
        intro!: reported_snd [OF alert] reported_snd [OF keeps_reported_record])
qed

text \<open>
  C19: who reaches an administrative handler, and what every request leaves behind. A request is let
  through only as the token it presents in its Authorization header: a stored, unexpired and unrevoked
  token of a known role whose selector it names and whose hash its verifier matches, when the role
  holds the permission of the route (any known role and declared permission while role-based
  control is off). Then at most the time that token was last used has changed. A request answered
  401 leaves new audit entries and alerts only, and one answered 503 nothing. A request answered 403
  did present such a token, whose role does not hold the permission; besides the entries and alerts,
  at most the time that very token was last used has changed. Each response depends on nothing
  but the request identifier.
\<close>

theorem admin_route_admits:
  "(case admin_route h cfg p rbac rq a of
      (Inr c, a') \<Rightarrow> \<exists>tok. presents_token h rq (ap_db a) tok
        \<and> c = \<lparr>cl_tenant = at_tenant tok, cl_key = None, cl_token = Some tok\<rparr>
        \<and> (if rbac then Allowed (at_role tok) p else perm_valid p)
        \<and> os_db (ap_db a') \<in> {os_db (ap_db a), token_noted (at_id tok) (os_wall (ap_db a)) (os_db (ap_db a))}
    | (Inl r, a') \<Rightarrow>
        r = WriteProblem rq Unauthorized \<and> reported (os_db (ap_db a)) (os_db (ap_db a'))
        \<or> r = WriteProblem rq Unavailable \<and> os_db (ap_db a') = os_db (ap_db a)
        \<or> r = WriteProblem rq Forbidden
          \<and> (\<exists>tok. presents_token h rq (ap_db a) tok \<and> \<not> (if rbac then Allowed (at_role tok) p else perm_valid p)
               \<and> (\<exists>t \<in> {os_db (ap_db a), token_noted (at_id tok) (os_wall (ap_db a)) (os_db (ap_db a))}.
                    reported t (os_db (ap_db a')))))"
proof -
  obtain r1 a1 where one: "RequireAdmin h cfg rq a = (r1, a1)" by fastforce
  show ?thesis
  proof (cases r1)
    case (Inl x)
    with one have one': "RequireAdmin h cfg rq a = (Inl x, a1)" by simp
    from RequireAdmin_Inl [OF this] show ?thesis unfolding admin_route_def one' by auto
  next
    case (Inr c)
    with one have one': "RequireAdmin h cfg rq a = (Inr c, a1)" by simp
    obtain r2 a2 where two: "RequirePermission h cfg p rbac rq (Some c) a1 = (r2, a2)" by fastforce
    note perm = RequirePermission_res [OF two]
    from RequireAdmin_Inr [OF one'] obtain tok where tok: "presents_token h rq (ap_db a) tok"
      and c: "c = \<lparr>cl_tenant = at_tenant tok, cl_key = None, cl_token = Some tok\<rparr>"
      and used: "os_db (ap_db a1) \<in> {os_db (ap_db a), token_noted (at_id tok) (os_wall (ap_db a)) (os_db (ap_db a))}" .
    have usable: "role_valid (at_role tok)"
      using tok by (auto simp: presents_token_def admin_token_usable_iff)
    have allowed: "de_allowed (Authorise (Caller_Role (Some c)) p rbac)
        \<longleftrightarrow> (if rbac then Allowed (at_role tok) p else perm_valid p)"
      using usable Allowed_valid by (auto simp: c Caller_Role_def Authorise_allowed)
    have admin: "IsAdmin (Some c)" by (simp add: IsAdmin_def c)
    have route: "admin_route h cfg p rbac rq a = (r2, a2)" unfolding admin_route_def one' by (simp add: two)
    show ?thesis
    proof (cases r2)
      case (Inl x)
      with perm admin allowed tok used show ?thesis unfolding route by auto
    next
      case (Inr c')
      with perm have "c' = c" "a2 = a1" and ok: "de_allowed (Authorise (Caller_Role (Some c)) p rbac)" by auto
      with Inr tok c used allowed show ?thesis unfolding route by auto
    qed
  qed
qed

lemma RequireAPIKey_Inr:
  assumes "RequireAPIKey h cfg rq a = (Inr c, a')"
  obtains key s where "verifyAPIKey h rq (ap_db a) = (Inr key, s)"
    "c = \<lparr>cl_tenant = ak_tenant key, cl_key = Some key, cl_token = None\<rparr>"
    "ap_db a' = snd (TouchAPIKey (ak_id key) (os_wall s) s)"
  using assms by (auto simp: RequireAPIKey_def split: prod.splits sum.splits auth_error.splits)

text \<open>
  C20: only the holder of a minted key is admitted as it. When a request is let through as a key
  whose stored hash is the one computed for some selector and verifier, the credential in its
  header is that very text, kind, selector and verifier, or the request exhibits two different
  messages with the same digest. The key was neither revoked nor expired at that moment.
\<close>

theorem api_key_holder:
  assumes "\<forall>m. length (h m) = sha256_size" and "RequireAPIKey h cfg rq a = (Inr c, a')" and "cl_key c = Some key"
    and "ak_hash key = Token_Hash h KindAPIKey sel ver" and "isHex sel"
  shows "\<exists>presented p. FromAuthorizationHeader (rq_authorization rq) = Inr presented \<and> Parse presented = Inr p
    \<and> key \<in> set (tb_api_keys (os_db (ap_db a))) \<and> ak_revoked key = None
    \<and> (case ak_expires key of None \<Rightarrow> True | Some e \<Rightarrow> os_wall (ap_db a) < e)
    \<and> (if TrimSpace presented = ''npt_'' @ sel @ ''.'' @ ver then True
       else token_message (pt_kind p) (pt_selector p) (pt_verifier p) \<noteq> token_message KindAPIKey sel ver
         \<and> h (token_message (pt_kind p) (pt_selector p) (pt_verifier p)) = h (token_message KindAPIKey sel ver))"
proof -
  from RequireAPIKey_Inr [OF assms(2)] obtain k s where "verifyAPIKey h rq (ap_db a) = (Inr k, s)"
    and "c = \<lparr>cl_tenant = ak_tenant k, cl_key = Some k, cl_token = None\<rparr>" .
  with assms(3) have v: "verifyAPIKey h rq (ap_db a) = (Inr key, s)" by simp
  from verifyAPIKey_Inr [OF v] obtain presented p where q:
    "FromAuthorizationHeader (rq_authorization rq) = Inr presented" "Parse presented = Inr p" "pt_kind p = KindAPIKey"
    "key \<in> set (tb_api_keys (os_db (ap_db a)))" "Verify_token h p (ak_hash key) = Inr True"
    and us: "api_key_usable key (os_wall (ap_db a))" by metis
  have eq: "h (token_message (pt_kind p) (pt_selector p) (pt_verifier p)) = h (token_message KindAPIKey sel ver)"
    using q(5) assms(1) unfolding assms(4) by (simp add: Verify_token_def Token_Hash_def)
  have "Kind_Valid KindAPIKey" by (simp add: Kind_Valid_def)
  note inj = token_message_inject [OF Parse_Inr(2) [OF q(2)] this Parse_Inr(4) [OF q(2)] assms(5), of "pt_verifier p" ver]
  have "TrimSpace presented = ''npt_'' @ sel @ ''.'' @ ver"
    if "token_message (pt_kind p) (pt_selector p) (pt_verifier p) = token_message KindAPIKey sel ver"
    using that inj Parse_Inr(1) [OF q(2)] by (simp add: KindAPIKey_def)
  with q us eq show ?thesis by (auto simp: api_key_usable_def split: if_splits option.splits)
qed

text \<open>
  C21: a minted key authenticates. When a key was minted, its selector and hash are those of a
  stored row that is neither revoked nor expired, and no other row has the selector, a request
  carrying it in its header (the scheme in any case) is admitted as that row, in that row's
  tenant, whatever else the tables hold, as long as the lookup is answered.
\<close>

theorem minted_key_admitted:
  assumes "\<forall>m. length (h m) = sha256_size" and "Generate_token h KindAPIKey (s :: 't os) = (Inr t, s')"
    and "key \<in> set (tb_api_keys (os_db (ap_db a)))" and "ak_selector key = tk_selector t" and "ak_hash key = tk_hash t"
    and "distinct (map ak_selector (tb_api_keys (os_db (ap_db a))))" and "api_key_usable key (os_wall (ap_db a))"
    and "map ascii_lower scheme = ''bearer''" and "rq_authorization rq = scheme @ CHR '' '' # tk_display t"
    and "os_faults (ap_db a) = []"
  shows "\<exists>a'. RequireAPIKey h cfg rq a = (Inr \<lparr>cl_tenant = ak_tenant key, cl_key = Some key, cl_token = None\<rparr>, a')"
proof -
  from Generate_Inr [OF assms(2)] obtain x y where k: "Kind_Valid KindAPIKey" and len: "length x = 8" "length y = 20"
    and t: "tk_selector t = hex_encode x" "tk_display t = KindAPIKey @ ''_'' @ hex_encode x @ ''.'' @ b64_encode url_alphabet y"
      "tk_hash t = Token_Hash h KindAPIKey (hex_encode x) (b64_encode url_alphabet y)" .
  let ?p = "\<lparr>pt_kind = KindAPIKey, pt_selector = hex_encode x, pt_verifier = b64_encode url_alphabet y\<rparr>"
  have shown: "set (tk_display t) \<subseteq> printable" "tk_display t \<noteq> []"
    unfolding t(2) by (rule display_printable [OF k]) simp
  have head: "FromAuthorizationHeader (rq_authorization rq) = Inr (tk_display t)"
    unfolding assms(9) by (rule header_display [OF assms(8) _ shown]) simp
  have parse: "Parse (tk_display t) = Inr ?p" unfolding t(2) by (rule Parse_display [OF k len])
  have ver: "Verify_token h ?p (ak_hash key) = Inr True"
    using assms(1) unfolding assms(5) t(3) by (simp add: Verify_token_def Token_Hash_def)
  have "find_row (\<lambda>r. ak_selector r = hex_encode x) (tb_api_keys (os_db (ap_db a))) = Some key"
  proof (cases "find_row (\<lambda>r. ak_selector r = hex_encode x) (tb_api_keys (os_db (ap_db a)))")
    case None
    with assms(3,4) t(1) show ?thesis by (auto simp: find_row_None)
  next
    case (Some r)
    from find_row_Some [OF this] assms(3,4,6) t(1) have "r = key" by (auto simp: distinct_map inj_on_def)
    with Some show ?thesis by simp
  qed
  moreover have "hex_encode x \<noteq> []" using len(1) by (metis length_hex_encode list.size(3) mult_is_0 zero_neq_numeral)
  ultimately have look: "GetAPIKeyBySelector (hex_encode x) (ap_db a) = (Inr key, ap_db a)"
    using assms(10) by (simp add: GetAPIKeyBySelector_def query_row_ok)
  have v: "verifyAPIKey h rq (ap_db a) = (Inr key, ap_db a)"
    unfolding verifyAPIKey_def head using parse look ver assms(7) by simp
  show ?thesis unfolding RequireAPIKey_def v by simp
qed

subsection \<open>Refusals are folded\<close>

text \<open>
  The tallies an authenticator can reach: it starts with none, refusals arrive at any times and
  with any keys, and iterations over the map happen in any order.
\<close>

inductive tally_reach :: "tally \<Rightarrow> bool" where
  start: "tally_reach []"
| refusal: "tally_reach runs \<Longrightarrow> key \<noteq> [] \<Longrightarrow> observe now key presented runs = (r, runs') \<Longrightarrow> tally_reach runs'"
| reorder: "tally_reach runs \<Longrightarrow> mset runs' = mset runs \<Longrightarrow> tally_reach runs'"

definition tally_ok :: "tally \<Rightarrow> bool" where
  "tally_ok runs \<longleftrightarrow> distinct (map fst runs) \<and> length runs \<le> maxTrackedSources \<and> [] \<notin> set (map fst runs)"

definition folded :: "string \<Rightarrow> tally \<Rightarrow> int" where
  "folded key runs = (case map_of runs key of None \<Rightarrow> 0 | Some run \<Rightarrow> rr_refusals run)"

lemma set_run_keys [simp]: "map fst (set_run key run runs) = map fst runs" "length (set_run key run runs) = length runs"
  by (simp_all add: set_run_def o_def case_prod_unfold if_distrib cong: if_cong)

lemma map_of_set_run: "map_of (set_run key run runs) k = (if k = key \<and> map_of runs key \<noteq> None then Some run else map_of runs k)"
  by (induction runs) (auto simp: set_run_def)

lemma oldest_run_key:
  "fst (oldest_run runs acc) \<in> insert (fst acc) (fst ` set runs)"
  by (induction runs acc rule: oldest_run.induct) (auto split: if_splits)

lemma oldest_run_nonempty: "runs \<noteq> [] \<Longrightarrow> fst (oldest_run runs ([], zero_time)) \<in> fst ` set runs"
proof (cases runs)
  case (Cons x rest)
  obtain key run where x: "x = (key, run)" by (cases x)
  have "fst (oldest_run runs ([], zero_time)) = fst (oldest_run rest (key, rr_opened run))"
    by (simp add: Cons x is_zero_time_def)
  with oldest_run_key [of rest "(key, rr_opened run)"] show ?thesis by (auto simp: Cons x)
qed simp

lemma evict_sub: "set (evictLocked now runs) \<subseteq> set runs"
  by (auto simp: evictLocked_def Let_def split: if_splits)

lemma evict_distinct: "distinct (map fst runs) \<Longrightarrow> distinct (map fst (evictLocked now runs))"
  by (auto simp: evictLocked_def Let_def intro: distinct_map_filter)

lemma evict_length:
  assumes "tally_ok runs"
  shows "length (evictLocked now runs) < maxTrackedSources"
proof (cases "length runs < maxTrackedSources")
  case True
  then show ?thesis by (simp add: evictLocked_def)
next
  case False
  let ?kept = "filter (\<lambda>(_, run). window_open now run) runs"
  let ?oldest = "fst (oldest_run ?kept ([], zero_time))"
  have len: "length ?kept \<le> maxTrackedSources" using assms length_filter_le [of _ runs] unfolding tally_ok_def by (meson le_trans)
  show ?thesis
  proof (cases "length ?kept \<ge> maxTrackedSources")
    case full: True
    then have ne: "?kept \<noteq> []" by (auto simp: maxTrackedSources_def)
    then obtain e where e: "e \<in> set ?kept" "fst e = ?oldest" using oldest_run_nonempty by force
    then have "?oldest \<noteq> []" using assms unfolding tally_ok_def by (metis filter_is_subset image_eqI list.set_map subsetD)
    with False full have ev: "evictLocked now runs = filter (\<lambda>(key, _). key \<noteq> ?oldest) ?kept"
      by (simp add: evictLocked_def Let_def)
    have "length (filter (\<lambda>(key, _). key \<noteq> ?oldest) ?kept) < length ?kept"
      using e by (intro length_filter_less [of e]) (auto simp: case_prod_unfold)
    with len show ?thesis unfolding ev by linarith
  next
    case False': False
    with False show ?thesis by (simp add: evictLocked_def Let_def)
  qed
qed

lemma map_of_sub: "distinct (map fst xs) \<Longrightarrow> distinct (map fst ys) \<Longrightarrow> set ys \<subseteq> set xs \<Longrightarrow> map_of ys k \<in> {None, map_of xs k}"
  by (metis insertCI map_of_eq_Some_iff option.exhaust subsetD)

lemma observe_ok:
  assumes "tally_ok runs" and "key \<noteq> []" and "observe now key presented runs = (r, runs')"
  shows "tally_ok runs'"
proof (cases "map_of runs key")
  case None
  with assms(3) have runs': "runs' = evictLocked now runs @ [(key, opened_at now)]" by (simp add: observe_def Let_def)
  have "key \<notin> fst ` set runs" using None by (simp add: map_of_eq_None_iff)
  with evict_sub [of now runs] evict_length [OF assms(1), of now] evict_distinct [of runs now] assms(1,2) show ?thesis
    by (auto simp: runs' tally_ok_def)
next
  case (Some run)
  with assms(3) obtain run' where "runs' = set_run key run' runs" by (auto simp: observe_def Let_def split: if_splits)
  with assms(1) show ?thesis by (simp only: tally_ok_def set_run_keys simp_thms)
qed

lemma tally_reach_ok: "tally_reach runs \<Longrightarrow> tally_ok runs"
proof (induction rule: tally_reach.induct)
  case start
  then show ?case by (simp add: tally_ok_def)
next
  case (refusal runs key now presented r runs')
  then show ?case using observe_ok by blast
next
  case (reorder runs runs')
  then show ?case
    unfolding tally_ok_def by (metis mset_eq_imp_distinct_iff mset_eq_setD mset_map size_mset)
qed

text \<open>
  C22: being refused costs a bounded number of writes. In every state the fold can reach it tracks at
  most 4096 sources, each once. A refusal is reported exactly when no run of its source opened less
  than a minute ago is tracked; a report counts every refusal of the source since its last report
  and opens a new window, an unreported refusal is added to the count, so none is lost while its
  run is tracked; and no other source is affected, unless it makes room in a full map.
\<close>

theorem rejection_fold_bounded:
  assumes "tally_reach runs" and "key \<noteq> []" and "observe now key presented runs = (r, runs')"
  shows "length runs' \<le> 4096 \<and> distinct (map fst runs')
    \<and> (r = None \<longleftrightarrow> (\<exists>run. map_of runs key = Some run \<and> time_sub now (rr_opened run) < 60000000000))
    \<and> (case r of
         None \<Rightarrow> folded key runs' = folded key runs + 1
       | Some f \<Rightarrow> rf_refusals f = folded key runs + 1 \<and> map_of runs' key = Some (opened_at now))
    \<and> (\<forall>k. k \<noteq> key \<longrightarrow> map_of runs' k = map_of runs k \<or> map_of runs' k = None \<and> length runs = 4096)"
proof -
  have ok: "tally_ok runs" by (rule tally_reach_ok [OF assms(1)])
  have ok': "tally_ok runs'" by (rule observe_ok [OF ok assms(2,3)])
  have others: "map_of runs' k = map_of runs k \<or> map_of runs' k = None \<and> length runs = 4096" if "k \<noteq> key" for k
  proof (cases "map_of runs key")
    case None
    with assms(3) have runs': "runs' = evictLocked now runs @ [(key, opened_at now)]" by (simp add: observe_def Let_def)
    have "map_of (evictLocked now runs) k \<in> {None, map_of runs k}"
      using ok evict_distinct evict_sub by (intro map_of_sub) (auto simp: tally_ok_def)
    moreover have "map_of runs' k = map_of (evictLocked now runs) k"
      using that by (simp add: runs' map_add_def split: option.split)
    moreover have "evictLocked now runs = runs \<or> length runs = 4096"
      using ok by (auto simp: evictLocked_def tally_ok_def maxTrackedSources_def)
    ultimately show ?thesis by auto
  next
    case (Some run)
    with assms(3) that show ?thesis by (auto simp: observe_def Let_def map_of_set_run split: if_splits)
  qed
  have same: "(r = None \<longleftrightarrow> (\<exists>run. map_of runs key = Some run \<and> time_sub now (rr_opened run) < 60000000000))
    \<and> (case r of
         None \<Rightarrow> folded key runs' = folded key runs + 1
       | Some f \<Rightarrow> rf_refusals f = folded key runs + 1 \<and> map_of runs' key = Some (opened_at now))"
  proof (cases "map_of runs key")
    case None
    with assms(3) have res: "runs' = evictLocked now runs @ [(key, opened_at now)]" "r = Some \<lparr>rf_refusals = 1, rf_credentials = (if presented then 1 else 0)\<rparr>"
      by (simp_all add: observe_def Let_def)
    have "key \<notin> fst ` set (evictLocked now runs)" using None evict_sub [of now runs] by (force simp: map_of_eq_None_iff)
    then have "map_of (evictLocked now runs) key = None" by (simp add: map_of_eq_None_iff)
    with None show ?thesis by (simp add: res folded_def map_add_def)
  next
    case (Some run)
    with assms(3) show ?thesis
      by (auto simp: observe_def Let_def map_of_set_run folded_def window_open_def rejectionWindow_def second_def split: if_splits)
  qed
  show ?thesis using ok' others same by (auto simp: tally_ok_def maxTrackedSources_def)
qed

subsection \<open>A key in use\<close>

definition demo_auth_cfg :: auth_cfg where "demo_auth_cfg = \<lparr>au_sink = False, au_alerts = False\<rparr>"

definition demo_api :: "string \<Rightarrow> string \<Rightarrow> api" where
  "demo_api selector hash = \<lparr>ap_db = fresh_os 100 (empty_tables\<lparr>tb_api_keys := [\<lparr>ak_id = ''k'', ak_tenant = ''t'', ak_name = ''n'',
     ak_selector = selector, ak_hash = hash, ak_scopes = [], ak_created = 1, ak_created_by = [], ak_last_used = None,
     ak_expires = Some 200, ak_revoked = None\<rparr>]\<rparr>), ap_runs = []\<rparr>"

definition demo_http :: "string \<Rightarrow> request" where
  "demo_http display = \<lparr>rq_authorization = ''Bearer'' @ CHR '' '' # display, rq_source = ''192.0.2.1'', rq_id = ''r'', rq_route = ''/v1''\<rparr>"

lemma demo_minted: "\<exists>t s'. Generate_token demo_digest KindAPIKey (fresh_os 0 ()) = (Inr t, s')"
  by (simp add: Generate_token_def Kind_Valid_def bindp_def rand_read_def ret_def Let_def)

lemma demo_digest_size: "\<forall>m. length (demo_digest m) = sha256_size"
  by (simp add: demo_digest_def sha256_size_def)

lemma demo_admitted:
  assumes "Generate_token demo_digest KindAPIKey (fresh_os 0 ()) = (Inr t, s')"
  shows "\<exists>key a'. key \<in> set (tb_api_keys (os_db (ap_db (demo_api (tk_selector t) (tk_hash t))))) \<and> ak_hash key = tk_hash t
    \<and> verifyAPIKey demo_digest (demo_http (tk_display t)) (ap_db (demo_api (tk_selector t) (tk_hash t))) = (Inr key, a')"
proof -
  from Generate_Inr [OF assms] obtain x y where k: "Kind_Valid KindAPIKey" and len: "length x = 8" "length y = 20"
    and t: "tk_selector t = hex_encode x" "tk_display t = KindAPIKey @ ''_'' @ hex_encode x @ ''.'' @ b64_encode url_alphabet y"
      "tk_hash t = Token_Hash demo_digest KindAPIKey (hex_encode x) (b64_encode url_alphabet y)" .
  have shown: "set (tk_display t) \<subseteq> printable" "tk_display t \<noteq> []"
    unfolding t(2) by (rule display_printable [OF k]) simp
  have b: "map ascii_lower ''Bearer'' = ''bearer''" by code_simp
  have "FromAuthorizationHeader (''Bearer'' @ CHR '' '' # tk_display t) = Inr (tk_display t)"
    by (rule header_display [OF b _ shown]) simp
  then have head: "FromAuthorizationHeader (rq_authorization (demo_http (tk_display t))) = Inr (tk_display t)"
    by (simp add: demo_http_def)
  have parse: "Parse (tk_display t) = Inr \<lparr>pt_kind = KindAPIKey, pt_selector = hex_encode x, pt_verifier = b64_encode url_alphabet y\<rparr>"
    unfolding t(2) by (rule Parse_display [OF k len])
  have "hex_encode x \<noteq> []" using len(1) by (metis length_hex_encode list.size(3) mult_is_0 zero_neq_numeral)
  then show ?thesis
    using demo_digest_size
    by (simp add: verifyAPIKey_def head parse demo_api_def GetAPIKeyBySelector_def query_row_ok t(1,3) Verify_token_def
        Token_Hash_def api_key_usable_def)
qed

theorem minted_key_admitted_witness:
  "\<exists>t s' a'. Generate_token demo_digest KindAPIKey (fresh_os 0 ()) = (Inr t, s')
     \<and> RequireAPIKey demo_digest demo_auth_cfg (demo_http (tk_display t)) (demo_api (tk_selector t) (tk_hash t))
         = (Inr \<lparr>cl_tenant = ''t'', cl_key = Some (hd (tb_api_keys (os_db (ap_db (demo_api (tk_selector t) (tk_hash t)))))),
                 cl_token = None\<rparr>, a')"
proof -
  obtain t s' where mint: "Generate_token demo_digest KindAPIKey (fresh_os 0 ()) = (Inr t, s')" using demo_minted by blast
  let ?a = "demo_api (tk_selector t) (tk_hash t)"
  let ?key = "hd (tb_api_keys (os_db (ap_db ?a)))"
  have b: "map ascii_lower ''Bearer'' = ''bearer''" by code_simp
  have key: "?key \<in> set (tb_api_keys (os_db (ap_db ?a)))" "ak_selector ?key = tk_selector t" "ak_hash ?key = tk_hash t"
    "distinct (map ak_selector (tb_api_keys (os_db (ap_db ?a))))" "api_key_usable ?key (os_wall (ap_db ?a))"
    "rq_authorization (demo_http (tk_display t)) = ''Bearer'' @ CHR '' '' # tk_display t" "os_faults (ap_db ?a) = []" "ak_tenant ?key = ''t''"
    by (simp_all add: demo_api_def demo_http_def api_key_usable_def)
  from minted_key_admitted [OF demo_digest_size mint key(1-5) b key(6,7)] key(8) mint show ?thesis by auto
qed

theorem api_key_holder_witness:
  "\<exists>t s' presented. Generate_token demo_digest KindAPIKey (fresh_os 0 ()) = (Inr t, s')
     \<and> FromAuthorizationHeader (rq_authorization (demo_http (tk_display t))) = Inr presented
     \<and> is_ok (fst (RequireAPIKey demo_digest demo_auth_cfg (demo_http (tk_display t)) (demo_api (tk_selector t) (tk_hash t))))"
proof -
  obtain t s' where mint: "Generate_token demo_digest KindAPIKey (fresh_os 0 ()) = (Inr t, s')" using demo_minted by blast
  from Generate_Inr [OF mint] obtain x y where len: "length x = 8"
    and hash: "tk_hash t = Token_Hash demo_digest KindAPIKey (hex_encode x) (b64_encode url_alphabet y)" by metis
  obtain key s where key: "ak_hash key = tk_hash t" and v: "verifyAPIKey demo_digest (demo_http (tk_display t))
      (ap_db (demo_api (tk_selector t) (tk_hash t))) = (Inr key, s)"
    using demo_admitted [OF mint] by blast
  then obtain c a' where run: "RequireAPIKey demo_digest demo_auth_cfg (demo_http (tk_display t))
      (demo_api (tk_selector t) (tk_hash t)) = (Inr c, a')" "cl_key c = Some key"
    by (auto simp: RequireAPIKey_def)
  have "isHex (hex_encode x)" using len by (intro isHex_encode) auto
  from api_key_holder [OF demo_digest_size run key [unfolded hash] this] run(1) mint show ?thesis by auto
qed

theorem rejection_fold_bounded_witness:
  "\<exists>r runs'. observe 100 ''k'' True [] = (r, runs') \<and> length runs' \<le> 4096 \<and> r \<noteq> None \<and> map_of runs' ''k'' = Some (opened_at 100)"
proof -
  obtain r runs' where run: "observe 100 ''k'' True [] = (r, runs')" by fastforce
  from rejection_fold_bounded [OF tally_reach.start _ run] run show ?thesis by (auto split: option.splits)
qed

end
