(* ===== verification/Spec2Isabelle.thy ===== *)
theory Spec2Isabelle
  imports Rbac Risk Totp_Store Throttle_Limits Audit_Properties Subject_Store Approval_Store
    Recorder Rewrap_Pass Janitor_Properties Subject_Service Recovery_Codes Api_Auth
begin

text \<open>
  Verification development for the n0passtemps authentication server (Go). The server keeps, per
  tenant, subjects known only by a keyed digest of the application's reference, their factors
  (WebAuthn credentials, TOTP secrets, recovery codes), the single-use values of ceremonies
  (challenges, enrolment tickets), rate-limit buckets, alerts, administrators with a
  dual-approval queue, and an append-only, hash-chained audit log. Everything lives in one SQL
  database; this development models the SQLite backend, the packages that decide and the
  services directly above the store.

  \<^bold>\<open>How the parts meet\<close>. The limiter (\<^verbatim>\<open>internal/throttle\<close>) keeps its counters behind the interface
  \<^verbatim>\<open>store.ThrottleStore\<close>: locale \<open>throttle_store\<close> states what the limiter relies on, and theory
  Throttle_Store discharges it for \<^verbatim>\<open>internal/store/sqlite/throttle.go\<close>. The recorder
  (\<^verbatim>\<open>internal/audit/recorder.go\<close>) builds entries, the audit store chains them with
  \<^verbatim>\<open>internal/audit/chain.go\<close>, and VerifyChain walks them back. Secrets pass through
  \<^verbatim>\<open>internal/crypto/envelope\<close>, which binds a record to the row it is stored in; the rewrap pass
  (\<^verbatim>\<open>internal/api/bulk.go\<close>) moves every sealed row to a new key, and \<^verbatim>\<open>internal/subject\<close> seals and
  reveals references. The janitor (\<^verbatim>\<open>internal/janitor\<close>) takes a lease in the store, runs the
  expiring operations of the other stores, completes erasures and raises alerts through
  \<^verbatim>\<open>internal/alerts\<close>. The authenticator (\<^verbatim>\<open>internal/api/auth.go\<close>) parses a bearer credential, looks up
  its row, compares digests, asks the role model and records what it refuses. Every store rests on the same statement layer.

  \<^bold>\<open>Foundations\<close>. Prelude: byte strings, errors, instants and durations as integers of
  nanoseconds, 64-bit wrap-around, lists updated and deleted by a condition. Go_Strings, Go_Net,
  Go_Json, Go_Encode, Go_Base64: what the program uses of Go's strings, hex, net, netip,
  encoding/json, encoding/base64, fmt, time and utf8, written out on characters and bytes. Models: the structs of
  \<^verbatim>\<open>internal/store/models.go\<close>. Sqlite_Base (\<^verbatim>\<open>sqlite.go\<close>): the world a request runs in (tables, wall
  clock, random bytes, fresh identifiers and a script of the requests to the engine that fail),
  statements, transactions that undo their work, and the mapping of driver errors.

  \<^bold>\<open>Components\<close>. One theory each, named after the file it models, with the operations under the
  names they have in the code:
    \<^item> decisions: Rbac (\<^verbatim>\<open>rbac/rbac.go\<close>), Risk (\<^verbatim>\<open>risk/risk.go\<close>), Totp (\<^verbatim>\<open>totp/totp.go\<close>), Throttle
      (\<^verbatim>\<open>throttle/throttle.go\<close>) over Throttle_Interface (\<^verbatim>\<open>ThrottleStore\<close> of \<^verbatim>\<open>store/store.go\<close>);
    \<^item> the audit log: Audit_Chain (\<^verbatim>\<open>audit/chain.go\<close>, \<^verbatim>\<open>checkpoint.go\<close>), Audit_Store (\<^verbatim>\<open>sqlite/audit.go\<close>
      with the triggers and constraints of its migrations), Recorder (\<^verbatim>\<open>audit/recorder.go\<close>);
    \<^item> stores under \<^verbatim>\<open>internal/store/sqlite\<close>: Totp_Store, Throttle_Store, Recovery_Store, Ticket_Store,
      Challenge_Store, Credential_Store, Approval_Store, Authn_Store (\<^verbatim>\<open>authn.go\<close>, \<^verbatim>\<open>rotate.go\<close>),
      Subject_Store, Erasure_Store, Tenant_Store, Alert_Store, Sealed_Store, Janitor_Lease;
    \<^item> credentials: Token (\<^verbatim>\<open>crypto/token\<close>), Recovery_Codes (\<^verbatim>\<open>crypto/recovery\<close>);
    \<^item> services: Envelope (\<^verbatim>\<open>crypto/envelope\<close>), Rewrap_Pass (\<^verbatim>\<open>api/bulk.go\<close>), Alert_Engine
      (\<^verbatim>\<open>alerts/alerts.go\<close>), Api_Auth (\<^verbatim>\<open>api/auth.go\<close>), Subject_Service (\<^verbatim>\<open>subject/subject.go\<close>), Janitor (\<^verbatim>\<open>janitor/janitor.go\<close>).

  \<^bold>\<open>What the groups of lemmas show\<close>.
    \<^item> Single_Use: from the contract of locale \<open>single_use\<close> (spending needs an unspent value and
      leaves it spent, nothing else unspends it) no run spends a value twice; interpreted for TOTP
      steps, recovery codes, tickets, challenges, signature counters and approvals.
    \<^item> Audit_Invariant, Audit_Verify, Audit_Properties: the log invariant is kept by appends, erasures
      and trims; VerifyChain computes a plain reference on any contents of the tables; tampering with
      an untrimmed log shows unless the hash collides, an instant being committed to modulo \<open>2 ^ 64\<close>
      nanoseconds; the two places where the walk misses or misreports something.
    \<^item> Throttle_Limits: a run of the store's operations in any order (\<open>perform_all\<close> over \<open>store_op\<close>, in
      Throttle) grants no more attempts than the budget left, plus one budget for each time the run
      gives it back; a lock lasts to the end the last block named unless a reset or a sweep past its
      end is asked for; buckets do not share keys, records and reservations do what their callers
      rely on.
    \<^item> Totp: equality with a plain reference, bounds, round trips. Rbac, Risk: what the tables
      grant and score, held against the names of the permissions and the figures of the
      documentation (\<open>reads_only\<close>, \<open>signalled\<close>, \<open>documented_weight\<close>) and not against the tables themselves.
    \<^item> Envelope, Rewrap_Pass, Subject_Service: records open where they were sealed and only there; a pass
      without failures leaves nothing under an old key; how a login during an erasure spoils a
      reference.
    \<^item> Token, Recovery_Codes: what is issued is understood and accepted again, a stored hash is bound to
      its row, and no stored hash can ask for unbounded work.
    \<^item> Api_Auth: who is let through to a handler and what each kind of refusal leaves behind, over the tokens, their
      store, the roles, the recorder and the alerts together; refusals are folded in bounded space.
    \<^item> Approval_Store, Authn_Store, Subject_Store: dual control as an invariant of a step relation,
      rotation with the successor's row pinned, purge as all or nothing.
    \<^item> Janitor_Properties, Janitor_Lease, Alert_Engine: completed erasures leave no trace and spare everybody
      else, except the audit entries of a subject restored at the wrong moment; a clean pass
      leaves nothing expired, one lease at a time, repeats of an alert collapse.

  \<^bold>\<open>Modelling decisions\<close>. A procedure takes the world and answers a result and the world; an error is
  the left side of a sum. Any single request to the engine may fail (\<open>os_faults\<close>), also because the
  request context is cancelled; properties hold for every script of failures. A Go integer is an
  unbounded one where the code bounds it first and a word, or an explicit reduction, where it can
  wrap. A nil pointer is an option, a NULL text column the empty string, a timestamp column the
  instant it holds, so the errors the row scanners answer for a time they cannot parse are outside
  the model. SHA-256, HMAC, Argon2id, AES-GCM and the key provider are parameters: the properties that need more
  than a function assume that opening inverts sealing (\<open>aead_laws\<close>), that the current key is found by
  its version (\<open>provider_ok\<close>), or conclude with a collision or forgery as the alternative. Each such
  property is instantiated at a toy cipher or hash. The representative of a case-folding class is a
  parameter of the approval queue. The system clock stands still during one call.
  Operations of one store interleave freely in the step relations and runs (Single_Use, Throttle,
  Approval_Store, Janitor_Lease, Recovery_Store); the rewrap pass and a maintenance pass are followed
  on their own, without requests of others between their statements, so that the pass's answers to
  a row that vanished or changed under it are written out but not reached. \<^verbatim>\<open>rand.Read\<close> does not
  fail, and neither does counting the affected rows, in the Go release and driver used. Maps that are
  only marshalled appear in key order.

  \<^bold>\<open>Bounds\<close>. Every loop is total: the verification walk (pages of 1000) by the rows above the cursor,
  the rewrap pass (pages of 200) by the identifiers above it, scans of text by length. Drawing recovery codes may go on for ever and is
  a partial function; it returns whenever the random source keeps yielding new selectors. The JSON reader
  takes fuel of three times the document's length plus three, one more than any document can use up.
  Sequence numbers are not followed past \<open>2 ^ 63\<close>.

  \<^bold>\<open>Not modelled\<close>. The HTTP handlers behind authentication, the administrative interface, client code, commands and
  configuration parsing are input handling and rendering around the parts above; the WebAuthn
  ceremonies and assertion tokens sit on third-party libraries; the PostgreSQL backend implements the
  interface a second time; the audit sink, metrics, logging and health checks only report; zeroing of
  key memory has no counterpart in a functional model. The timer that drives the janitor, the opening
  of the database, and migrations are set-up. TPM and HKDF key derivation is cryptography outside the
  repository.
\<close>

end
